(* ===== verification/Prelude.thy ===== *)
theory Prelude
  imports Main
    "HOL-Library.AList"
    "HOL-Library.Char_ord"
    "HOL-Library.List_Lexorder"
    "HOL-Library.Product_Lexorder"
    "HOL-Library.Multiset"
    "HOL-Library.Sublist"
    "HOL-Library.Word"
begin

text \<open>
  Shared vocabulary of the development: the parts of Rust's standard library
  that the modelled code calls.

  \<^item> \<open>ordering\<close>, \<open>cmp_of\<close>, \<open>then_with\<close>: \<open>std::cmp::Ordering\<close>, \<open>Ord::cmp\<close> and
    \<open>Ordering::then_with\<close>;
  \<^item> \<open>sort_by\<close>, \<open>dedup_by\<close>, \<open>dedup\<close>: the stable \<open>slice::sort_by\<close> and
    \<open>Vec::dedup_by\<close>, with the locale \<open>lawful_cmp\<close> for comparators that are
    total preorders;
  \<^item> \<open>sat_add\<close>, \<open>sat_sub\<close> on 64-bit words (\<open>usize\<close> and \<open>u64\<close> on the supported
    targets), \<open>wrap_i32\<close> for \<open>i32\<close> arithmetic;
  \<^item> string helpers. A Rust \<open>str\<close> is modelled by its UTF-8 bytes as a
    \<^typ>\<open>string\<close>; the order of \<open>str\<close> is the bytewise lexicographic order, which is
    the order of \<open>List_Lexorder\<close> over \<open>Char_ord\<close>;
  \<^item> a \<open>HashMap\<close> is an association list with distinct keys, so that it can be
    iterated; \<open>map_of\<close> is \<open>get\<close>, \<open>AList.update\<close> is \<open>insert\<close>, \<open>AList.delete\<close> is
    \<open>remove\<close>, and \<open>entry_modify\<close> is \<open>entry(k).or_insert(v)\<close> followed by an
    in-place update.
\<close>

named_theorems sort_simps \<open>permutation and set facts of the sorting routines\<close>
named_theorems hm_simps \<open>lookup facts of the hash map operations\<close>

section \<open>Comparators\<close>

datatype ordering = Less | Equal | Greater

definition cmp_of :: "'a::linorder \<Rightarrow> 'a \<Rightarrow> ordering" where
  "cmp_of x y = (if x < y then Less else if x = y then Equal else Greater)"

fun then_with :: "ordering \<Rightarrow> ordering \<Rightarrow> ordering" where
  "then_with Equal o2 = o2"
| "then_with o1 o2 = o1"

fun insert_by :: "('a \<Rightarrow> 'a \<Rightarrow> ordering) \<Rightarrow> 'a \<Rightarrow> 'a list \<Rightarrow> 'a list" where
  "insert_by c x [] = [x]"
| "insert_by c x (y # ys) = (if c x y = Greater then y # insert_by c x ys else x # y # ys)"

fun sort_by :: "('a \<Rightarrow> 'a \<Rightarrow> ordering) \<Rightarrow> 'a list \<Rightarrow> 'a list" where
  "sort_by c [] = []"
| "sort_by c (x # xs) = insert_by c x (sort_by c xs)"

text \<open>\<open>Vec::dedup_by\<close> compares each element with the last one retained.\<close>

fun dedup_from :: "('a \<Rightarrow> 'a \<Rightarrow> bool) \<Rightarrow> 'a \<Rightarrow> 'a list \<Rightarrow> 'a list" where
  "dedup_from same kept [] = []"
| "dedup_from same kept (x # xs) =
     (if same x kept then dedup_from same kept xs else x # dedup_from same x xs)"

fun dedup_by :: "('a \<Rightarrow> 'a \<Rightarrow> bool) \<Rightarrow> 'a list \<Rightarrow> 'a list" where
  "dedup_by same [] = []"
| "dedup_by same (x # xs) = x # dedup_from same x xs"

definition dedup :: "'a list \<Rightarrow> 'a list" where
  "dedup xs = dedup_by (=) xs"

definition sorted_cmp :: "('a \<Rightarrow> 'a \<Rightarrow> ordering) \<Rightarrow> 'a list \<Rightarrow> bool" where
  "sorted_cmp c xs = sorted_wrt (\<lambda>x y. c x y \<noteq> Greater) xs"

section \<open>Machine integers\<close>

type_synonym u64 = "64 word"
type_synonym u32 = "32 word"
type_synonym u16 = "16 word"

definition sat_add :: "'n::len word \<Rightarrow> 'n word \<Rightarrow> 'n word" where
  "sat_add a b = (if unat a + unat b < 2 ^ LENGTH('n) then a + b else - 1)"

definition sat_sub :: "'n::len word \<Rightarrow> 'n word \<Rightarrow> 'n word" where
  "sat_sub a b = (if a < b then 0 else a - b)"

definition wrap_i32 :: "int \<Rightarrow> int" where
  "wrap_i32 x = (x + 2 ^ 31) mod 2 ^ 32 - 2 ^ 31"

text \<open>\<open>u32::try_from\<close> on a length; \<open>None\<close> is the panic of \<open>expect\<close>.\<close>

definition fits_u32 :: "nat \<Rightarrow> nat option" where
  "fits_u32 n = (if n < 2 ^ 32 then Some n else None)"

section \<open>Strings\<close>

text \<open>\<open>str::split(c)\<close>, collected.\<close>

fun split_on :: "char \<Rightarrow> string \<Rightarrow> string list" where
  "split_on c [] = [[]]"
| "split_on c (x # xs) =
     (if x = c then [] # split_on c xs
      else (case split_on c xs of [] \<Rightarrow> [[x]] | y # ys \<Rightarrow> (x # y) # ys))"

text \<open>\<open>str::rsplit_once(c)\<close>: the parts before and after the last \<open>c\<close>.\<close>

definition rsplit_once :: "char \<Rightarrow> string \<Rightarrow> (string \<times> string) option" where
  "rsplit_once c s =
     (if c \<in> set s then
        Some (rev (tl (dropWhile (\<lambda>x. x \<noteq> c) (rev s))), rev (takeWhile (\<lambda>x. x \<noteq> c) (rev s)))
      else None)"

definition ends_with :: "string \<Rightarrow> string \<Rightarrow> bool" where
  "ends_with s t = suffix t s"

definition starts_with :: "string \<Rightarrow> string \<Rightarrow> bool" where
  "starts_with s t = prefix t s"

definition ascii_lower :: "char \<Rightarrow> char" where
  "ascii_lower c =
     (if CHR ''A'' \<le> c \<and> c \<le> CHR ''Z'' then char_of ((of_char c :: nat) + 32) else c)"

definition to_ascii_lowercase :: "string \<Rightarrow> string" where
  "to_ascii_lowercase s = map ascii_lower s"

definition eq_ignore_ascii_case :: "string \<Rightarrow> string \<Rightarrow> bool" where
  "eq_ignore_ascii_case s t = (to_ascii_lowercase s = to_ascii_lowercase t)"

text \<open>\<open>Path::is_absolute\<close> on the Unix targets.\<close>

definition is_absolute :: "string \<Rightarrow> bool" where
  "is_absolute p = (case p of [] \<Rightarrow> False | c # _ \<Rightarrow> c = CHR ''/'')"

section \<open>Hash maps\<close>

type_synonym ('k, 'v) hmap = "('k \<times> 'v) list"

definition entry_modify ::
  "'k \<Rightarrow> 'v \<Rightarrow> ('v \<Rightarrow> 'v) \<Rightarrow> ('k, 'v) hmap \<Rightarrow> ('k, 'v) hmap" where
  "entry_modify k v f m =
     AList.update k (f (case map_of m k of None \<Rightarrow> v | Some w \<Rightarrow> w)) m"

definition or_insert :: "'k \<Rightarrow> 'v \<Rightarrow> ('k, 'v) hmap \<Rightarrow> ('k, 'v) hmap" where
  "or_insert k v m = (case map_of m k of None \<Rightarrow> AList.update k v m | Some _ \<Rightarrow> m)"

definition get_or :: "'v \<Rightarrow> ('k, 'v) hmap \<Rightarrow> 'k \<Rightarrow> 'v" where
  "get_or v m k = (case map_of m k of None \<Rightarrow> v | Some w \<Rightarrow> w)"

definition map_values :: "('v \<Rightarrow> 'w) \<Rightarrow> ('k, 'v) hmap \<Rightarrow> ('k, 'w) hmap" where
  "map_values f m = map (\<lambda>(k, v). (k, f v)) m"

text \<open>\<open>Iterator::max_by_key\<close> keeps the last of the greatest elements.\<close>

fun max_by_key :: "('a \<Rightarrow> 'k::linorder) \<Rightarrow> 'a list \<Rightarrow> 'a option" where
  "max_by_key key [] = None"
| "max_by_key key (x # xs) =
     (case max_by_key key xs of
        None \<Rightarrow> Some x
      | Some y \<Rightarrow> if key x > key y then Some x else Some y)"

text \<open>A loop whose body may panic.\<close>

fun ofold :: "('a \<Rightarrow> 's \<Rightarrow> 's option) \<Rightarrow> 'a list \<Rightarrow> 's \<Rightarrow> 's option" where
  "ofold f [] s = Some s"
| "ofold f (x # xs) s = Option.bind (f x s) (ofold f xs)"

section \<open>Facts on comparators and sorting\<close>

lemma cmp_of_simps [simp]:
  "cmp_of x y = Less \<longleftrightarrow> x < y"
  "cmp_of x y = Equal \<longleftrightarrow> x = y"
  "cmp_of x y = Greater \<longleftrightarrow> y < x"
  by (auto simp: cmp_of_def)

lemma then_with_simps [simp]:
  "then_with a b = Less \<longleftrightarrow> a = Less \<or> a = Equal \<and> b = Less"
  "then_with a b = Equal \<longleftrightarrow> a = Equal \<and> b = Equal"
  "then_with a b = Greater \<longleftrightarrow> a = Greater \<or> a = Equal \<and> b = Greater"
  by (cases a; simp)+

lemma mset_insert_by [simp]: "mset (insert_by c x xs) = add_mset x (mset xs)"
  by (induction xs) auto

lemma mset_sort_by [simp, sort_simps]: "mset (sort_by c xs) = mset xs"
  by (induction xs) auto

lemma set_sort_by [simp, sort_simps]: "set (sort_by c xs) = set xs"
  by (metis mset_sort_by set_mset_mset)

lemma length_sort_by [simp, sort_simps]: "length (sort_by c xs) = length xs"
  by (metis mset_sort_by size_mset)

lemma distinct_sort_by [simp, sort_simps]: "distinct (sort_by c xs) = distinct xs"
  by (metis mset_sort_by mset_eq_imp_distinct_iff)

lemma sort_by_Nil_iff [simp]: "sort_by c xs = [] \<longleftrightarrow> xs = []"
  by (metis length_0_conv length_sort_by)

locale lawful_cmp =
  fixes c :: "'a \<Rightarrow> 'a \<Rightarrow> ordering"
  assumes cmp_flip: "c x y = Less \<longleftrightarrow> c y x = Greater"
    and cmp_trans: "c x y \<noteq> Greater \<Longrightarrow> c y z \<noteq> Greater \<Longrightarrow> c x z \<noteq> Greater"
begin

lemma total: "c x y \<noteq> Greater \<or> c y x \<noteq> Greater"
  using cmp_flip [of x y] cmp_flip [of y x] by auto

lemma set_insert_by: "set (insert_by c x xs) = insert x (set xs)"
  by (metis mset_insert_by set_mset_add_mset_insert set_mset_mset)

lemma sorted_insert_by: "sorted_cmp c xs \<Longrightarrow> sorted_cmp c (insert_by c x xs)"
proof (induction xs)
  case Nil
  then show ?case by (simp add: sorted_cmp_def)
next
  case (Cons y ys)
  show ?case
  proof (cases "c x y = Greater")
    case True
    then have "c y x \<noteq> Greater" using total by blast
    with True Cons show ?thesis
      by (auto simp: sorted_cmp_def set_insert_by)
  next
    case False
    with Cons.prems show ?thesis
      by (auto simp: sorted_cmp_def dest: cmp_trans)
  qed
qed

lemma sorted_sort_by: "sorted_cmp c (sort_by c xs)"
  by (induction xs) (simp_all add: sorted_insert_by, simp add: sorted_cmp_def)

text \<open>Stability: the elements equivalent to a given one keep their order.\<close>

lemma insert_by_equiv:
  "c x z = Equal \<Longrightarrow> sorted_cmp c xs \<Longrightarrow>
     filter (\<lambda>y. c y z = Equal) (insert_by c x xs) = x # filter (\<lambda>y. c y z = Equal) xs"
proof (induction xs)
  case (Cons y ys)
  have "c y z \<noteq> Equal" if "c x y = Greater"
  proof
    assume "c y z = Equal"
    with Cons.prems(1) have "c z y \<noteq> Greater" "c x z \<noteq> Greater"
      using cmp_flip by force+
    then show False using that cmp_trans by blast
  qed
  with Cons show ?case by (auto simp: sorted_cmp_def)
qed simp

lemma insert_by_other:
  "c x z \<noteq> Equal \<Longrightarrow>
     filter (\<lambda>y. c y z = Equal) (insert_by c x xs) = filter (\<lambda>y. c y z = Equal) xs"
  by (induction xs) auto

lemma stable_sort_by:
  "filter (\<lambda>y. c y z = Equal) (sort_by c xs) = filter (\<lambda>y. c y z = Equal) xs"
proof (induction xs)
  case (Cons x xs)
  then show ?case
    using insert_by_equiv [OF _ sorted_sort_by] insert_by_other by auto
qed simp

lemma cmp_refl: "c x x = Equal"
  using cmp_flip [of x x] by (cases "c x x") auto

lemma cmp_equal_sym: "c x y = Equal \<longleftrightarrow> c y x = Equal"
  using cmp_flip [of x y] cmp_flip [of y x] by (cases "c x y"; cases "c y x") auto

text \<open>A sorted list is determined by the order within each class of equivalent elements.\<close>

lemma stable_unique:
  "sorted_cmp c xs \<Longrightarrow> sorted_cmp c ys \<Longrightarrow>
     (\<And>z. filter (\<lambda>y. c y z = Equal) xs = filter (\<lambda>y. c y z = Equal) ys) \<Longrightarrow> xs = ys"
proof (induction xs arbitrary: ys)
  case Nil
  from Nil.prems(3) [of "hd ys"] show ?case by (cases ys) (simp_all add: cmp_refl)
next
  case (Cons x xs)
  have same: "set (x # xs) = set ys"
  proof (rule set_eqI)
    fix z
    have "z \<in> set (filter (\<lambda>y. c y z = Equal) (x # xs)) \<longleftrightarrow> z \<in> set (filter (\<lambda>y. c y z = Equal) ys)"
      by (simp only: Cons.prems(3))
    then show "z \<in> set (x # xs) \<longleftrightarrow> z \<in> set ys" by (simp only: set_filter mem_Collect_eq cmp_refl simp_thms)
  qed
  then obtain y zs where ys: "ys = y # zs" by (cases ys) auto
  have "y \<in> set (x # xs)" "x \<in> set (y # zs)" using same ys by auto
  then have "c x y \<noteq> Greater" "c y x \<noteq> Greater"
    using ys Cons.prems(1,2) by (auto simp: sorted_cmp_def cmp_refl)
  then have eq: "c y x = Equal" using cmp_flip [of x y] cmp_flip [of y x] by (cases "c y x") auto
  with Cons.prems(3) [of x] ys have xy: "x = y" by (simp add: cmp_refl)
  have "filter (\<lambda>y. c y z = Equal) xs = filter (\<lambda>y. c y z = Equal) zs" for z
    using Cons.prems(3) [of z] ys xy by (simp split: if_splits)
  with Cons.IH [of zs] Cons.prems(1,2) ys xy show ?case by (simp add: sorted_cmp_def)
qed

lemma sort_by_unique:
  "sorted_cmp c ys \<Longrightarrow> (\<And>z. filter (\<lambda>y. c y z = Equal) ys = filter (\<lambda>y. c y z = Equal) xs) \<Longrightarrow>
     sort_by c xs = ys"
  by (rule stable_unique [OF sorted_sort_by]) (simp_all add: stable_sort_by)

lemma sort_by_hd: "xs \<noteq> [] \<Longrightarrow> y \<in> set xs \<Longrightarrow> c (hd (sort_by c xs)) y \<noteq> Greater"
proof -
  assume "xs \<noteq> []" "y \<in> set xs"
  then obtain z zs where z: "sort_by c xs = z # zs"
    by (metis sort_by_Nil_iff neq_Nil_conv)
  with \<open>y \<in> set xs\<close> have "y \<in> set (z # zs)" by (metis set_sort_by)
  moreover have "sorted_cmp c (z # zs)" using sorted_sort_by z by metis
  ultimately show ?thesis using z total [of z z]
    by (auto simp: sorted_cmp_def)
qed

end

text \<open>
  Comparators of the code are chains of \<open>cmp\<close> and \<open>then_with\<close> over keys; such a chain is
  lawful because each link is.
\<close>

lemma lawful_cmp_key: "lawful_cmp (\<lambda>x y. cmp_of (f x) (f y))"
  by unfold_locales auto

lemma lawful_cmp_key_desc: "lawful_cmp (\<lambda>x y. cmp_of (f y) (f x))"
  by unfold_locales auto

lemma lawful_cmp_then:
  assumes "lawful_cmp a" "lawful_cmp b"
  shows "lawful_cmp (\<lambda>x y. then_with (a x y) (b x y))"
proof
  fix x y
  have eqa: "a u v = Equal \<longleftrightarrow> a v u = Equal" for u v
    using lawful_cmp.cmp_flip [OF assms(1)] by (metis ordering.exhaust)
  show "then_with (a x y) (b x y) = Less \<longleftrightarrow> then_with (a y x) (b y x) = Greater"
    using lawful_cmp.cmp_flip [OF assms(1)] lawful_cmp.cmp_flip [OF assms(2)] eqa by simp
next
  fix x y z
  assume xy: "then_with (a x y) (b x y) \<noteq> Greater"
    and yz: "then_with (a y z) (b y z) \<noteq> Greater"
  note ta = lawful_cmp.cmp_trans [OF assms(1)] and tb = lawful_cmp.cmp_trans [OF assms(2)]
  note fa = lawful_cmp.cmp_flip [OF assms(1)]
  from xy yz have "a x z \<noteq> Greater" using ta [of x y z] by simp
  moreover have "b x z \<noteq> Greater" if "a x z = Equal"
  proof -
    have zx: "a z x \<noteq> Greater" using that fa by (metis ordering.distinct(1))
    have "a z y \<noteq> Greater" using ta [OF zx] xy by auto
    moreover have "a y x \<noteq> Greater" using ta [OF _ zx] yz by auto
    ultimately have "a x y = Equal" "a y z = Equal"
      using xy yz fa by (metis ordering.exhaust then_with_simps(3))+
    with xy yz show ?thesis using tb [of x y z] by simp
  qed
  ultimately show "then_with (a x z) (b x z) \<noteq> Greater" by simp
qed

lemmas lawful_cmp_intros = lawful_cmp_key lawful_cmp_key_desc lawful_cmp_then

lemma set_dedup_from_subset: "set (dedup_from s k xs) \<subseteq> set xs"
  by (induction s k xs rule: dedup_from.induct) auto

lemma set_dedup_by_subset: "set (dedup_by s xs) \<subseteq> set xs"
  using set_dedup_from_subset by (cases xs) fastforce+

lemma set_dedup_from: "insert k (set (dedup_from (=) k xs)) = insert k (set xs)"
  by (induction "(=) :: 'a \<Rightarrow> 'a \<Rightarrow> bool" k xs rule: dedup_from.induct) auto

lemma set_dedup [simp, sort_simps]: "set (dedup xs) = set xs"
  unfolding dedup_def using set_dedup_from by (cases xs) fastforce+

lemma sorted_dedup_from:
  "sorted_wrt R xs \<Longrightarrow> sorted_wrt R (dedup_from s k xs)"
proof (induction s k xs rule: dedup_from.induct)
  case (2 same kept x xs)
  then show ?case using set_dedup_from_subset [of same x xs] by auto
qed simp

lemma sorted_dedup: "sorted_wrt R xs \<Longrightarrow> sorted_wrt R (dedup xs)"
proof (cases xs)
  case (Cons y ys)
  assume "sorted_wrt R xs"
  with Cons show ?thesis
    using set_dedup_from_subset [of "(=)" y ys] sorted_dedup_from [of R ys "(=)" y]
    by (auto simp: dedup_def)
qed (simp add: dedup_def)

text \<open>
  On a list sorted by a comparator whose equivalence is identity, \<open>dedup\<close> leaves no
  duplicates.
\<close>

lemma distinct_dedup_from:
  assumes "lawful_cmp c" "\<And>x y. c x y = Equal \<Longrightarrow> x = y" "sorted_cmp c (k # xs)"
  shows "distinct (k # dedup_from (=) k xs)"
  using assms(3)
proof (induction xs arbitrary: k)
  case (Cons x xs)
  show ?case
  proof (cases "x = k")
    case True
    with Cons show ?thesis by (auto simp: sorted_cmp_def)
  next
    case False
    have "k \<noteq> y" if "y \<in> set (x # xs)" for y
    proof
      assume "k = y"
      with that False Cons.prems have "c x k \<noteq> Greater" "c k x \<noteq> Greater"
        by (auto simp: sorted_cmp_def)
      then have "c k x = Equal"
        using lawful_cmp.cmp_flip [OF assms(1), of k x] by (metis ordering.exhaust)
      with assms(2) False show False by blast
    qed
    with False Cons show ?thesis
      using set_dedup_from_subset [of "(=)" x xs] by (auto simp: sorted_cmp_def)
  qed
qed simp

lemma distinct_dedup_sort_by:
  assumes "lawful_cmp c" "\<And>x y. c x y = Equal \<Longrightarrow> x = y"
  shows "distinct (dedup (sort_by c xs))"
proof (cases "sort_by c xs")
  case (Cons y ys)
  with lawful_cmp.sorted_sort_by [OF assms(1), of xs] show ?thesis
    using distinct_dedup_from [OF assms] by (auto simp: dedup_def)
qed (simp add: dedup_def)

section \<open>Facts on machine integers\<close>

lemma unat_minus_one_eq: "unat (- 1 :: 'n::len word) = 2 ^ LENGTH('n) - 1"
  by (simp add: unsigned_minus_1_eq_mask mask_eq_exp_minus_1)

lemma unat_less_pow: "unat (a :: 'n::len word) < 2 ^ LENGTH('n)"
  by (rule unsigned_less)

lemma unat_sat_add:
  "unat (sat_add (a :: 'n::len word) b) = min (unat a + unat b) (2 ^ LENGTH('n) - 1)"
proof (cases "unat a + unat b < 2 ^ LENGTH('n)")
  case True
  then show ?thesis by (simp add: sat_add_def unat_word_ariths)
next
  case False
  then show ?thesis by (simp add: sat_add_def unat_minus_one_eq)
qed

lemma unat_sat_sub: "unat (sat_sub a b) = unat a - unat b"
  by (auto simp: sat_sub_def word_less_nat_alt unat_sub word_le_nat_alt)

lemma sat_add_ge: "a \<le> sat_add a b" "b \<le> sat_add a b"
  using unat_less_pow [of a] unat_less_pow [of b]
  unfolding word_le_nat_alt unat_sat_add by arith+

lemma wrap_i32_id: "- (2 ^ 31) \<le> x \<Longrightarrow> x < 2 ^ 31 \<Longrightarrow> wrap_i32 x = x"
  by (simp add: wrap_i32_def)

lemma wrap_i32_range: "- (2 ^ 31) \<le> wrap_i32 x \<and> wrap_i32 x < 2 ^ 31"
proof -
  have "0 \<le> (x + 2 ^ 31) mod 2 ^ 32" "(x + 2 ^ 31) mod 2 ^ 32 < (2 ^ 32 :: int)"
    by simp_all
  then show ?thesis unfolding wrap_i32_def by auto
qed

section \<open>Facts on strings and hash maps\<close>

lemma split_on_not_Nil [simp]: "split_on c s \<noteq> []"
  by (induction s) (auto split: list.splits)

lemma map_of_update [simp, hm_simps]:
  "map_of (AList.update k v m) k' = (if k' = k then Some v else map_of m k')"
  by (simp add: update_conv')

lemma map_of_delete_if [simp, hm_simps]:
  "map_of (AList.delete k m) k' = (if k' = k then None else map_of m k')"
  by (simp add: delete_conv')

lemma map_of_entry_modify [simp, hm_simps]:
  "map_of (entry_modify k v f m) k' =
     (if k' = k then Some (f (get_or v m k)) else map_of m k')"
  by (simp add: entry_modify_def get_or_def)

lemma map_of_or_insert [simp, hm_simps]:
  "map_of (or_insert k v m) k' = (if k' = k then Some (get_or v m k) else map_of m k')"
  by (auto simp: or_insert_def get_or_def split: option.splits)

lemma get_or_update [simp, hm_simps]:
  "get_or d (AList.update k v m) k' = (if k' = k then v else get_or d m k')"
  by (simp add: get_or_def)

lemma get_or_delete [simp, hm_simps]:
  "get_or d (AList.delete k m) k' = (if k' = k then d else get_or d m k')"
  by (simp add: get_or_def)

lemma get_or_entry_modify [simp, hm_simps]:
  "get_or d (entry_modify k d f m) k' = (if k' = k then f (get_or d m k) else get_or d m k')"
  by (simp add: get_or_def)

lemma get_or_Nil [simp, hm_simps]: "get_or d [] k = d"
  by (simp add: get_or_def)

lemma map_of_map_values [simp, hm_simps]:
  "map_of (map_values f m) k = map_option f (map_of m k)"
  by (induction m) (auto simp: map_values_def)

lemma keys_map_values [simp]: "map fst (map_values f m) = map fst m"
  by (induction m) (auto simp: map_values_def)

lemma distinct_entry_modify [simp]:
  "distinct (map fst m) \<Longrightarrow> distinct (map fst (entry_modify k v f m))"
  by (simp add: entry_modify_def distinct_update)

lemma distinct_or_insert [simp]:
  "distinct (map fst m) \<Longrightarrow> distinct (map fst (or_insert k v m))"
  by (auto simp: or_insert_def distinct_update split: option.splits)

section \<open>Folds that may panic\<close>

lemma ofold_Nil_fun [simp]: "ofold f [] = Some"
  by (rule ext) simp

lemma ofold_append: "ofold f (xs @ ys) s = Option.bind (ofold f xs s) (ofold f ys)"
  by (induction xs arbitrary: s) (auto split: Option.bind_splits)

lemma ofold_invariant:
  assumes "ofold f xs s = Some s'" "I [] s"
    and "\<And>done x s s'. I done s \<Longrightarrow> x \<in> set xs \<Longrightarrow> f x s = Some s' \<Longrightarrow> I (done @ [x]) s'"
  shows "I xs s'"
proof -
  have "ofold f ys s = Some s' \<Longrightarrow> I zs s \<Longrightarrow> set ys \<subseteq> set xs \<Longrightarrow> I (zs @ ys) s'" for ys zs s
  proof (induction ys arbitrary: zs s)
    case (Cons y ys)
    then obtain s1 where s1: "f y s = Some s1" "ofold f ys s1 = Some s'" by (auto simp: bind_eq_Some_conv)
    with assms(3) [OF Cons.prems(2) _ s1(1)] Cons.prems(3) have "I (zs @ [y]) s1" by simp
    from Cons.IH [OF s1(2) this] Cons.prems(3) show ?case by simp
  qed simp
  from this [OF assms(1,2)] show ?thesis by simp
qed

lemma ofold_map: "ofold f (map g xs) s = ofold (f \<circ> g) xs s"
  by (induction xs arbitrary: s) (auto intro!: Option.bind_cong)

lemma ofold_total:
  assumes "I [] s" "\<And>pre x rest s. xs = pre @ x # rest \<Longrightarrow> I pre s \<Longrightarrow> \<exists>s'. f x s = Some s' \<and> I (pre @ [x]) s'"
  shows "\<exists>s'. ofold f xs s = Some s' \<and> I xs s'"
proof -
  have "xs = zs @ ys \<Longrightarrow> I zs s \<Longrightarrow> \<exists>s'. ofold f ys s = Some s' \<and> I xs s'" for zs ys s
  proof (induction ys arbitrary: zs s)
    case (Cons y ys)
    with assms(2) [of zs y ys s] obtain s1 where "f y s = Some s1" "I (zs @ [y]) s1" by blast
    with Cons.IH [of "zs @ [y]" s1] Cons.prems show ?case by auto
  qed simp
  from this [of "[]"] assms(1) show ?thesis by simp
qed

end
