(* ===== verification/Includes.thy ===== *)
theory Includes
  imports Prelude
begin

text \<open>
  Include resolution, \<open>src/crates/fossilsense/src/includes.rs\<close>: parsing the target of an
  \<open>#include\<close> directive, the form-driven priority search of a target in the indexed corpus
  (\<open>resolve_include\<close>), and the detection of an include-path completion context.

  The operations that the search gets as callbacks (\<open>contains\<close>, \<open>suffix_candidates\<close>) are
  arguments of \<open>resolve_include_with_lookup\<close>, as in the code; the locale \<open>path_index\<close> states
  what an index promises of them and is interpreted on the hash-map index of
  \<open>resolve_include\<close>.
\<close>

section \<open>UTF-8 text\<close>

text \<open>The UTF-8 encodings of the code points with the \<open>White_Space\<close> property.\<close>

definition utf8_whitespace :: "string list" where
  "utf8_whitespace =
     [[CHR 0x09], [CHR 0x0A], [CHR 0x0B], [CHR 0x0C], [CHR 0x0D], [CHR 0x20],
      [CHR 0xC2, CHR 0x85], [CHR 0xC2, CHR 0xA0], [CHR 0xE1, CHR 0x9A, CHR 0x80]] @
     map (\<lambda>b. [CHR 0xE2, CHR 0x80, char_of b])
       [0x80 :: nat, 0x81, 0x82, 0x83, 0x84, 0x85, 0x86, 0x87, 0x88, 0x89, 0x8A, 0xA8, 0xA9, 0xAF] @
     [[CHR 0xE2, CHR 0x81, CHR 0x9F], [CHR 0xE3, CHR 0x80, CHR 0x80]]"

lemma utf8_whitespace_nonempty: "w \<in> set utf8_whitespace \<Longrightarrow> 0 < length w"
  by (auto simp: utf8_whitespace_def)

lemma find_whitespaceD:
  "find P utf8_whitespace = Some w \<Longrightarrow> P w \<and> 0 < length w"
  using utf8_whitespace_nonempty by (auto simp: find_Some_iff)

function trim_start :: "string \<Rightarrow> string" where
  "trim_start s =
     (case find (\<lambda>w. prefix w s) utf8_whitespace of
        None \<Rightarrow> s
      | Some w \<Rightarrow> trim_start (drop (length w) s))"
  by pat_completeness auto
termination
  by (relation "measure length") (auto dest!: find_whitespaceD simp: prefix_def)

function trim_end :: "string \<Rightarrow> string" where
  "trim_end s =
     (case find (\<lambda>w. suffix w s) utf8_whitespace of
        None \<Rightarrow> s
      | Some w \<Rightarrow> trim_end (take (length s - length w) s))"
  by pat_completeness auto
termination
  by (relation "measure length") (auto dest!: find_whitespaceD simp: suffix_def)

declare trim_start.simps [simp del] trim_end.simps [simp del]

definition str_trim :: "string \<Rightarrow> string" where
  "str_trim s = trim_end (trim_start s)"

text \<open>The scalar values of a string (\<open>str::chars\<close>) and their encoding.\<close>

fun utf8_decode :: "string \<Rightarrow> nat list" where
  "utf8_decode [] = []"
| "utf8_decode (b # bs) =
     (let n = of_char b; t = (\<lambda>c :: char. (of_char c :: nat) - 128)
      in if n < 192 then n # utf8_decode bs
         else if n < 224 then
           (case bs of b1 # r \<Rightarrow> ((n - 192) * 64 + t b1) # utf8_decode r | _ \<Rightarrow> [])
         else if n < 240 then
           (case bs of b1 # b2 # r \<Rightarrow> ((n - 224) * 4096 + t b1 * 64 + t b2) # utf8_decode r | _ \<Rightarrow> [])
         else
           (case bs of
              b1 # b2 # b3 # r \<Rightarrow>
                ((n - 240) * 262144 + t b1 * 4096 + t b2 * 64 + t b3) # utf8_decode r
            | _ \<Rightarrow> []))"

definition utf8_encode_char :: "nat \<Rightarrow> string" where
  "utf8_encode_char n =
     (if n < 0x80 then [char_of n]
      else if n < 0x800 then [char_of (192 + n div 64), char_of (128 + n mod 64)]
      else if n < 0x10000 then
        [char_of (224 + n div 4096), char_of (128 + n div 64 mod 64), char_of (128 + n mod 64)]
      else
        [char_of (240 + n div 262144), char_of (128 + n div 4096 mod 64),
         char_of (128 + n div 64 mod 64), char_of (128 + n mod 64)])"

definition utf8_encode :: "nat list \<Rightarrow> string" where
  "utf8_encode cs = concat (map utf8_encode_char cs)"

definition len_utf16 :: "nat \<Rightarrow> nat" where
  "len_utf16 c = (if c < 0x10000 then 1 else 2)"

definition replace_backslash :: "string \<Rightarrow> string" where
  "replace_backslash s = map (\<lambda>c. if c = CHR 0x5C then CHR ''/'' else c) s"

section \<open>Vocabulary\<close>

datatype include_form = Quote | Angle

datatype resolution_kind = RelativeExact | WorkspaceExact | ExternalExact | SuffixMatch

fun resolution_kind_as_str :: "resolution_kind \<Rightarrow> string" where
  "resolution_kind_as_str RelativeExact = ''relative_exact''"
| "resolution_kind_as_str WorkspaceExact = ''workspace_exact''"
| "resolution_kind_as_str ExternalExact = ''external_exact''"
| "resolution_kind_as_str SuffixMatch = ''suffix_match''"

definition resolution_kind_from_str :: "string \<Rightarrow> resolution_kind" where
  "resolution_kind_from_str s =
     (if s = ''relative_exact'' then RelativeExact
      else if s = ''workspace_exact'' then WorkspaceExact
      else if s = ''external_exact'' then ExternalExact
      else if s = ''suffix_match'' then SuffixMatch
      else SuffixMatch)"

datatype include_resolution =
    Edge string resolution_kind
  | Ambiguous "string list"
  | Unresolved

record suffix_candidate_lookup =
  sl_candidates :: "string list"
  sl_inspected :: nat
  sl_truncated :: bool

section \<open>Include directives\<close>

definition is_include_line :: "string \<Rightarrow> bool" where
  "is_include_line trimmed =
     (case trimmed of
        [] \<Rightarrow> False
      | c # rest \<Rightarrow> c = CHR 0x23 \<and> starts_with (trim_start rest) ''include'')"

definition normalize_include_target :: "string \<Rightarrow> (include_form \<times> string) option" where
  "normalize_include_target text =
     (case dropWhile (\<lambda>c. c \<noteq> CHR 0x22 \<and> c \<noteq> CHR ''<'') text of
        [] \<Rightarrow> None
      | open_ch # after \<Rightarrow>
          (let (form, close_ch) =
             (if open_ch = CHR 0x22 then (Quote, CHR 0x22) else (Angle, CHR ''>''))
           in if close_ch \<notin> set after then None
              else
                (let path = replace_backslash (str_trim (takeWhile (\<lambda>c. c \<noteq> close_ch) after))
                 in if path = [] then None else Some (form, path))))"

definition parse_include_line :: "string \<Rightarrow> (include_form \<times> string) option" where
  "parse_include_line line =
     (if \<not> is_include_line (trim_start line) then None else normalize_include_target line)"

section \<open>Resolution\<close>

definition trim_end_slashes :: "string \<Rightarrow> string" where
  "trim_end_slashes s = rev (dropWhile (\<lambda>c. c = CHR ''/'') (rev s))"

text \<open>The three exact tiers, closures of \<open>resolve_include_with_lookup\<close>.\<close>

fun external_exact :: "(string \<Rightarrow> bool) \<Rightarrow> string \<Rightarrow> string list \<Rightarrow> string option" where
  "external_exact contains rel [] = None"
| "external_exact contains rel (root # roots) =
     (let candidate = trim_end_slashes root @ ''/'' @ rel
      in if contains candidate then Some candidate else external_exact contains rel roots)"

definition relative_exact :: "(string \<Rightarrow> bool) \<Rightarrow> string \<Rightarrow> string \<Rightarrow> string option" where
  "relative_exact contains src_dir rel =
     (if src_dir = [] then None
      else
        (let candidate = src_dir @ ''/'' @ rel
         in if contains candidate then Some candidate else None))"

definition workspace_exact :: "(string \<Rightarrow> bool) \<Rightarrow> string \<Rightarrow> string option" where
  "workspace_exact contains rel = (if contains rel then Some rel else None)"

text \<open>The suffix tier: everything after the exact tiers missed.\<close>

definition suffix_tier ::
  "(string \<Rightarrow> string \<times> string \<Rightarrow> suffix_candidate_lookup) \<Rightarrow> string \<Rightarrow> include_resolution" where
  "suffix_tier suffix_candidates rel =
     (let lst = last (split_on (CHR ''/'') rel);
          sfx = CHR ''/'' # rel;
          lookup = suffix_candidates lst (rel, sfx);
          candidates = dedup (sort_by cmp_of (sl_candidates lookup))
      in if sl_truncated lookup then
           (if candidates = [] then Unresolved else Ambiguous candidates)
         else
           (case candidates of
              [] \<Rightarrow> Unresolved
            | [dst] \<Rightarrow> Edge dst SuffixMatch
            | _ \<Rightarrow> Ambiguous candidates))"

definition resolve_include_with_lookup ::
  "string \<Rightarrow> string \<Rightarrow> string list \<Rightarrow> (string \<Rightarrow> bool)
   \<Rightarrow> (string \<Rightarrow> string \<times> string \<Rightarrow> suffix_candidate_lookup) \<Rightarrow> include_resolution" where
  "resolve_include_with_lookup target_text src_dir roots_slash contains suffix_candidates =
     (case normalize_include_target target_text of
        None \<Rightarrow> Unresolved
      | Some (Quote, rel) \<Rightarrow>
          (case relative_exact contains src_dir rel of
             Some dst \<Rightarrow> Edge dst RelativeExact
           | None \<Rightarrow>
               (case workspace_exact contains rel of
                  Some dst \<Rightarrow> Edge dst WorkspaceExact
                | None \<Rightarrow>
                    (case external_exact contains rel roots_slash of
                       Some dst \<Rightarrow> Edge dst ExternalExact
                     | None \<Rightarrow> suffix_tier suffix_candidates rel)))
      | Some (Angle, rel) \<Rightarrow>
          (case external_exact contains rel roots_slash of
             Some dst \<Rightarrow> Edge dst ExternalExact
           | None \<Rightarrow>
               (case workspace_exact contains rel of
                  Some dst \<Rightarrow> Edge dst WorkspaceExact
                | None \<Rightarrow> suffix_tier suffix_candidates rel)))"

definition basename_lookup ::
  "(string, string list) hmap \<Rightarrow> string \<Rightarrow> string \<times> string \<Rightarrow> suffix_candidate_lookup" where
  "basename_lookup by_basename lst sfx =
     (let posting = map_of by_basename lst
      in \<lparr> sl_candidates =
             filter (\<lambda>candidate. candidate = fst sfx \<or> ends_with candidate (snd sfx))
               (case posting of None \<Rightarrow> [] | Some ps \<Rightarrow> ps),
           sl_inspected = (case posting of None \<Rightarrow> 0 | Some ps \<Rightarrow> length ps),
           sl_truncated = False \<rparr>)"

definition resolve_include ::
  "string \<Rightarrow> string \<Rightarrow> string list \<Rightarrow> string set \<Rightarrow> (string, string list) hmap
   \<Rightarrow> include_resolution" where
  "resolve_include target_text src_dir roots_slash all_paths by_basename =
     resolve_include_with_lookup target_text src_dir roots_slash
       (\<lambda>candidate. candidate \<in> all_paths) (basename_lookup by_basename)"

section \<open>Completion inside an include directive\<close>

fun char_index_from :: "nat \<Rightarrow> nat \<Rightarrow> nat \<Rightarrow> nat list \<Rightarrow> nat" where
  "char_index_from idx units character [] = idx"
| "char_index_from idx units character (ch # chs) =
     (if units \<ge> character then idx
      else
        (let units' = units + len_utf16 ch
         in if units' > character then idx
            else char_index_from (Suc idx) units' character chs))"

definition char_index_at_utf16 :: "nat list \<Rightarrow> nat \<Rightarrow> nat" where
  "char_index_at_utf16 chars character = char_index_from 0 0 character chars"

fun last_opener :: "nat \<Rightarrow> nat list \<Rightarrow> (nat \<times> include_form) option \<Rightarrow> (nat \<times> include_form) option" where
  "last_opener i [] acc = acc"
| "last_opener i (ch # chs) acc =
     last_opener (Suc i) chs
       (if ch = 0x22 then Some (i, Quote) else if ch = 0x3C then Some (i, Angle) else acc)"

definition include_completion_context :: "string \<Rightarrow> nat \<Rightarrow> (include_form \<times> string) option" where
  "include_completion_context line character =
     (if \<not> is_include_line (trim_start line) then None
      else
        (let chars = utf8_decode line;
             cursor = min (char_index_at_utf16 chars character) (length chars)
         in case last_opener 0 (take cursor chars) None of
              None \<Rightarrow> None
            | Some (open_idx, form) \<Rightarrow>
                (let close_ch = (case form of Quote \<Rightarrow> 0x22 | Angle \<Rightarrow> 0x3E);
                     typed = take (cursor - (open_idx + 1)) (drop (open_idx + 1) chars)
                 in if close_ch \<in> set typed then None
                    else Some (form, replace_backslash (utf8_encode typed)))))"

definition split_partial :: "string \<Rightarrow> string \<times> string" where
  "split_partial partial =
     (let tail = rev (takeWhile (\<lambda>c. c \<noteq> CHR ''/'') (rev partial))
      in (take (length partial - length tail) partial, tail))"

section \<open>The search as a list of tiers\<close>

text \<open>
  The abstract view of the search: the exact paths it probes, in order, each with the
  resolution it stands for.
\<close>

definition exact_tiers ::
  "include_form \<Rightarrow> string \<Rightarrow> string list \<Rightarrow> string \<Rightarrow> (string \<times> resolution_kind) list" where
  "exact_tiers form src_dir roots rel =
     (let ext = map (\<lambda>root. (trim_end_slashes root @ ''/'' @ rel, ExternalExact)) roots
      in case form of
           Quote \<Rightarrow>
             (if src_dir = [] then [] else [(src_dir @ ''/'' @ rel, RelativeExact)])
             @ [(rel, WorkspaceExact)] @ ext
         | Angle \<Rightarrow> ext @ [(rel, WorkspaceExact)])"

text \<open>A workspace path that a relative spelling may name.\<close>

definition names_target :: "string \<Rightarrow> string \<Rightarrow> bool" where
  "names_target rel p = (p = rel \<or> ends_with p (CHR ''/'' # rel))"

definition file_name :: "string \<Rightarrow> string" where
  "file_name p = last (split_on (CHR ''/'') p)"

lemma find_map_ext:
  "find (\<lambda>(p, _). contains p) (map (\<lambda>root. (trim_end_slashes root @ CHR ''/'' # rel, k)) roots) =
     map_option (\<lambda>p. (p, k)) (external_exact contains rel roots)"
  by (induction roots) (auto simp: Let_def)

lemma find_append_case:
  "find P (xs @ ys) = (case find P xs of None \<Rightarrow> find P ys | Some x \<Rightarrow> Some x)"
  by (induction xs) auto

lemma resolve_include_tiers:
  "resolve_include_with_lookup t d roots contains sc =
     (case normalize_include_target t of
        None \<Rightarrow> Unresolved
      | Some (form, rel) \<Rightarrow>
          (case find (\<lambda>(p, _). contains p) (exact_tiers form d roots rel) of
             Some (p, k) \<Rightarrow> Edge p k
           | None \<Rightarrow> suffix_tier sc rel))"
  by (auto simp: resolve_include_with_lookup_def exact_tiers_def find_append_case find_map_ext
        relative_exact_def workspace_exact_def Let_def split: option.splits include_form.splits)

lemma cmp_of_lawful: "lawful_cmp cmp_of"
  using lawful_cmp_key [of "\<lambda>x. x"] by simp

interpretation str_order: lawful_cmp "cmp_of :: string \<Rightarrow> string \<Rightarrow> ordering"
  by (rule cmp_of_lawful)

lemma split_on_append: "split_on c (xs @ c # ys) = split_on c xs @ split_on c ys"
  by (induction xs) (auto split: list.splits)

lemma last_split_on_append:
  "last (split_on c (xs @ c # ys)) = last (split_on c ys)"
  by (simp add: split_on_append)

lemma file_name_suffix: "names_target rel p \<Longrightarrow> file_name p = file_name rel"
  by (auto simp: names_target_def file_name_def ends_with_def suffix_def last_split_on_append)

locale path_index =
  fixes contains :: "string \<Rightarrow> bool"
    and suffix_candidates :: "string \<Rightarrow> string \<times> string \<Rightarrow> suffix_candidate_lookup"
    and indexed :: "string set"
    and workspace :: "string set"
  assumes contains_iff: "contains p \<longleftrightarrow> p \<in> indexed"
    and workspace_indexed: "workspace \<subseteq> indexed"
    and candidates_sound:
      "p \<in> set (sl_candidates (suffix_candidates (file_name rel) (rel, CHR ''/'' # rel)))
       \<Longrightarrow> p \<in> workspace \<and> names_target rel p"
    and candidates_complete:
      "\<not> sl_truncated (suffix_candidates (file_name rel) (rel, CHR ''/'' # rel))
       \<Longrightarrow> p \<in> workspace \<Longrightarrow> names_target rel p
       \<Longrightarrow> p \<in> set (sl_candidates (suffix_candidates (file_name rel) (rel, CHR ''/'' # rel)))"
begin

definition cands :: "string \<Rightarrow> string list" where
  "cands rel =
     dedup (sort_by cmp_of
       (sl_candidates (suffix_candidates (file_name rel) (rel, CHR ''/'' # rel))))"

lemma set_cands: "set (cands rel) \<subseteq> {p \<in> workspace. names_target rel p}"
  using candidates_sound by (auto simp: cands_def)

lemma distinct_cands: "distinct (cands rel)"
  unfolding cands_def by (rule distinct_dedup_sort_by [OF cmp_of_lawful]) simp

lemma sorted_cands: "sorted_wrt (\<le>) (cands rel)"
proof -
  have "sorted_wrt (\<lambda>x y. cmp_of x y \<noteq> Greater) (cands rel)"
    unfolding cands_def using str_order.sorted_sort_by
    by (auto simp: sorted_cmp_def intro!: sorted_dedup)
  then show ?thesis by (simp add: not_less)
qed

lemma suffix_tier_cands:
  "suffix_tier suffix_candidates rel =
     (if sl_truncated (suffix_candidates (file_name rel) (rel, CHR ''/'' # rel)) then
        (if cands rel = [] then Unresolved else Ambiguous (cands rel))
      else
        (case cands rel of
           [] \<Rightarrow> Unresolved
         | [dst] \<Rightarrow> Edge dst SuffixMatch
         | _ \<Rightarrow> Ambiguous (cands rel)))"
  unfolding suffix_tier_def cands_def Let_def file_name_def by (rule refl)

lemma cands_complete:
  "\<not> sl_truncated (suffix_candidates (file_name rel) (rel, CHR ''/'' # rel)) \<Longrightarrow>
   set (cands rel) = {p \<in> workspace. names_target rel p}"
  using candidates_sound candidates_complete by (auto simp: cands_def)

lemma suffix_edge:
  assumes "suffix_tier suffix_candidates rel = Edge dst k"
  shows "k = SuffixMatch \<and> {p \<in> workspace. names_target rel p} = {dst}"
proof -
  from assms have c: "cands rel = [dst]" "k = SuffixMatch"
    and "\<not> sl_truncated (suffix_candidates (file_name rel) (rel, CHR ''/'' # rel))"
    by (auto simp: suffix_tier_cands split: if_splits list.splits)
  with cands_complete [of rel] show ?thesis by simp
qed

lemma suffix_ambiguous: "suffix_tier suffix_candidates rel = Ambiguous ds \<Longrightarrow>
   ds = cands rel \<and> (sl_truncated (suffix_candidates (file_name rel) (rel, CHR ''/'' # rel))
      \<or> 2 \<le> length ds)"
  by (auto simp: suffix_tier_cands split: if_splits list.splits
      dest!: arg_cong [of _ "cands rel" length])

lemma suffix_unresolved: "suffix_tier suffix_candidates rel = Unresolved \<Longrightarrow>
   cands rel = []"
  by (auto simp: suffix_tier_cands split: if_splits list.splits)

lemma edge_indexed:
  "resolve_include_with_lookup t d roots contains suffix_candidates = Edge dst k \<Longrightarrow>
     dst \<in> indexed"
  using suffix_edge workspace_indexed contains_iff
  by (fastforce simp: resolve_include_tiers find_Some_iff split: option.splits)

lemma edge_exact_first:
  "resolve_include_with_lookup t d roots contains suffix_candidates = Edge dst k \<Longrightarrow>
   normalize_include_target t = Some (form, rel) \<Longrightarrow> k \<noteq> SuffixMatch \<Longrightarrow>
   find (\<lambda>(p, _). p \<in> indexed) (exact_tiers form d roots rel) = Some (dst, k)"
  using suffix_edge contains_iff by (auto simp: resolve_include_tiers split: option.splits)

lemma edge_suffix_unique:
  "resolve_include_with_lookup t d roots contains suffix_candidates = Edge dst SuffixMatch \<Longrightarrow>
   normalize_include_target t = Some (form, rel) \<Longrightarrow>
   {p \<in> workspace. names_target rel p} = {dst} \<and>
   (\<forall>(p, _) \<in> set (exact_tiers form d roots rel). p \<notin> indexed)"
proof -
  assume r: "resolve_include_with_lookup t d roots contains suffix_candidates = Edge dst SuffixMatch"
    and n: "normalize_include_target t = Some (form, rel)"
  have "k \<noteq> SuffixMatch" if "(p, k) \<in> set (exact_tiers form d roots rel)" for p k
    using that by (auto simp: exact_tiers_def Let_def split: include_form.splits if_splits)
  with r n have "find (\<lambda>(p, _). contains p) (exact_tiers form d roots rel) = None"
    by (auto simp: resolve_include_tiers find_Some_iff split: option.splits) (metis nth_mem)
  with r n have "suffix_tier suffix_candidates rel = Edge dst SuffixMatch"
    and "\<forall>(p, _) \<in> set (exact_tiers form d roots rel). p \<notin> indexed"
    unfolding contains_iff by (auto simp: resolve_include_tiers contains_iff find_None_iff)
  then show ?thesis using suffix_edge by blast
qed

lemma ambiguous_suffix:
  "resolve_include_with_lookup t d roots contains suffix_candidates = Ambiguous ds \<Longrightarrow>
   normalize_include_target t = Some (form, rel) \<Longrightarrow>
   ds = cands rel \<and> (\<forall>(p, _) \<in> set (exact_tiers form d roots rel). p \<notin> indexed)"
  using suffix_ambiguous contains_iff
  by (fastforce simp: resolve_include_tiers find_None_iff split: option.splits)

lemma unresolved_nothing:
  "resolve_include_with_lookup t d roots contains suffix_candidates = Unresolved \<Longrightarrow>
   normalize_include_target t = Some (form, rel) \<Longrightarrow>
   cands rel = [] \<and> (\<forall>(p, _) \<in> set (exact_tiers form d roots rel). p \<notin> indexed)"
  using suffix_unresolved contains_iff
  by (fastforce simp: resolve_include_tiers find_None_iff split: option.splits)

end

end
