(* ===== verification/Include_Edges.thy ===== *)
theory Include_Edges
  imports Includes
begin

text \<open>
  The include-edge pass of the indexer,
  \<open>src/crates/fossilsense/src/indexer/include_edges.rs\<close>: every include target of every
  source in scope is resolved, the outcomes are collapsed to one edge per endpoint pair, and
  the per-source counts of unresolved and ambiguous includes are collected.

  The rows the pass reads from the store (the effective files and the include facts) are
  arguments; \<open>include_rows\<close> stands for the query of include facts for a set of source ids.
  The configured roots are given in the normalised form that \<open>roots_slash\<close> has in the code.
  File ids are SQLite row ids (\<open>i64\<close>), modelled as \<^typ>\<open>int\<close>.
\<close>

record protobuf_c_source_association =
  pa_declaration_id :: int
  pa_proto_path :: string
  pa_proto_name :: string
  pa_c_name :: string
  pa_kind :: string
  pa_start_byte :: nat
  pa_end_byte :: nat
  pa_start_line :: nat
  pa_start_col :: nat
  pa_end_line :: nat
  pa_end_col :: nat
  pa_match_kind :: string
  pa_source_truncated :: bool

record include_graph_update =
  gu_source_ids :: "int list"
  gu_edges :: "(int \<times> int \<times> string) list"
  gu_unresolved :: "(int \<times> int) list"
  gu_ambiguous :: "(int \<times> int) list"
  gu_clear_all :: bool
  gu_go_package_edges :: "(string \<times> string \<times> string) list"
  gu_go_open_packages :: "(string \<times> string) list"
  gu_go_importable_packages :: "(string \<times> string) list"
  gu_clear_all_go_packages :: bool
  gu_protobuf_c_sources :: "protobuf_c_source_association list option"

type_synonym file_row = "int \<times> string \<times> string"

definition build_by_basename :: "file_row list \<Rightarrow> (string, string list) hmap" where
  "build_by_basename files =
     fold (\<lambda>(_, path, source) m.
             if source = ''workspace''
             then entry_modify (last (split_on (CHR ''/'') path)) [] (\<lambda>ps. ps @ [path]) m
             else m)
       files []"

definition retain_strongest_edge ::
  "(int \<times> int, resolution_kind) hmap \<Rightarrow> int \<Rightarrow> int \<Rightarrow> resolution_kind
   \<Rightarrow> (int \<times> int, resolution_kind) hmap" where
  "retain_strongest_edge edges source target candidate =
     (case map_of edges (source, target) of
        Some current \<Rightarrow>
          AList.update (source, target)
            (if current = SuffixMatch \<and> candidate \<noteq> SuffixMatch then candidate else current) edges
      | None \<Rightarrow> AList.update (source, target) candidate edges)"

text \<open>One step of the loop over the destinations of an outcome: self-edges and paths without
  an id are skipped.\<close>

definition add_edge ::
  "(string, int) hmap \<Rightarrow> int \<Rightarrow> resolution_kind \<Rightarrow> string
   \<Rightarrow> (int \<times> int, resolution_kind) hmap \<Rightarrow> (int \<times> int, resolution_kind) hmap" where
  "add_edge id_of_path src_id kind dst edges =
     (case map_of id_of_path dst of
        Some dst_id \<Rightarrow>
          if dst_id \<noteq> src_id then retain_strongest_edge edges src_id dst_id kind else edges
      | None \<Rightarrow> edges)"

text \<open>The body of the loop over the targets of one source, on the edge map and the two counts.\<close>

type_synonym edge_state = "(int \<times> int, resolution_kind) hmap \<times> int \<times> int"

definition apply_resolution ::
  "(string, int) hmap \<Rightarrow> int \<Rightarrow> include_resolution \<Rightarrow> edge_state \<Rightarrow> edge_state" where
  "apply_resolution id_of_path src_id resolution st =
     (case st of (edges, unresolved_count, ambiguous_count) \<Rightarrow>
        (case resolution of
           Edge dst kind \<Rightarrow>
             (add_edge id_of_path src_id kind dst edges, unresolved_count, ambiguous_count)
         | Ambiguous dsts \<Rightarrow>
             (fold (add_edge id_of_path src_id SuffixMatch) dsts edges,
              unresolved_count, ambiguous_count + 1)
         | Unresolved \<Rightarrow> (edges, unresolved_count + 1, ambiguous_count)))"

definition source_dir :: "(int, string) hmap \<Rightarrow> int \<Rightarrow> string" where
  "source_dir path_of_id src_id =
     (case map_of path_of_id src_id of
        None \<Rightarrow> []
      | Some p \<Rightarrow> (case rsplit_once (CHR ''/'') p of None \<Rightarrow> [] | Some (dir, _) \<Rightarrow> dir))"

definition resolve_source ::
  "(string \<Rightarrow> string \<Rightarrow> include_resolution) \<Rightarrow> (string, int) hmap \<Rightarrow> (int, string) hmap
   \<Rightarrow> int \<times> string list
   \<Rightarrow> (int \<times> int, resolution_kind) hmap \<times> (int \<times> int) list \<times> (int \<times> int) list
   \<Rightarrow> (int \<times> int, resolution_kind) hmap \<times> (int \<times> int) list \<times> (int \<times> int) list" where
  "resolve_source resolve id_of_path path_of_id entry st =
     (case entry of (src_id, targets) \<Rightarrow> case st of (edges, unresolved, ambiguous) \<Rightarrow>
       (let src_dir = source_dir path_of_id src_id;
            (edges', unresolved_count, ambiguous_count) =
              fold (\<lambda>target. apply_resolution id_of_path src_id (resolve target src_dir))
                targets (edges, 0, 0)
        in (edges',
            (if unresolved_count > 0 then unresolved @ [(src_id, unresolved_count)] else unresolved),
            (if ambiguous_count > 0 then ambiguous @ [(src_id, ambiguous_count)] else ambiguous))))"

definition source_targets ::
  "file_row list \<Rightarrow> (string, int) hmap \<Rightarrow> (int list option \<Rightarrow> (int \<times> string) list)
   \<Rightarrow> string list option \<Rightarrow> (int, string list) hmap" where
  "source_targets files id_of_path include_rows only =
     (let src_ids = map_option (List.map_filter (map_of id_of_path)) only;
          seeds = (case src_ids of Some ids \<Rightarrow> ids | None \<Rightarrow> map fst files);
          by_src = fold (\<lambda>i m. or_insert i [] m) seeds []
      in fold (\<lambda>(file_id, target) m. entry_modify file_id [] (\<lambda>ts. ts @ [target]) m)
           (include_rows src_ids) by_src)"

definition build_include_edges ::
  "file_row list \<Rightarrow> (int list option \<Rightarrow> (int \<times> string) list) \<Rightarrow> string list
   \<Rightarrow> string list option \<Rightarrow> include_graph_update" where
  "build_include_edges files include_rows roots_slash only =
     (let id_of_path = fold (\<lambda>(i, path, _). AList.update path i) files [];
          path_of_id = fold (\<lambda>(i, path, _). AList.update i path) files [];
          all_paths = set (map (\<lambda>(_, path, _). path) files);
          by_basename = build_by_basename files;
          by_src = source_targets files id_of_path include_rows only;
          (edges_by_endpoint, unresolved, ambiguous) =
            fold (resolve_source
                    (\<lambda>target src_dir. resolve_include target src_dir roots_slash all_paths by_basename)
                    id_of_path path_of_id)
              by_src ([], [], []);
          edges =
            sort_by cmp_of
              (map (\<lambda>((src_id, dst_id), resolution).
                      (src_id, dst_id, resolution_kind_as_str resolution)) edges_by_endpoint)
      in \<lparr> gu_source_ids = map fst by_src, gu_edges = edges, gu_unresolved = unresolved,
           gu_ambiguous = ambiguous, gu_clear_all = (only = None), gu_go_package_edges = [],
           gu_go_open_packages = [], gu_go_importable_packages = [],
           gu_clear_all_go_packages = False, gu_protobuf_c_sources = None \<rparr>)"

section \<open>The index of the pass\<close>

definition workspace_paths :: "file_row list \<Rightarrow> string set" where
  "workspace_paths files = {path. \<exists>i. (i, path, ''workspace'') \<in> set files}"

definition indexed_paths :: "file_row list \<Rightarrow> string set" where
  "indexed_paths files = (\<lambda>(_, path, _). path) ` set files"

lemma by_basename_fold:
  "get_or [] (fold (\<lambda>(_, path, source) m.
             if source = ''workspace''
             then entry_modify (last (split_on (CHR ''/'') path)) [] (\<lambda>ps. ps @ [path]) m
             else m) files m) b =
   get_or [] m b @ map (\<lambda>(_, path, _). path)
     (filter (\<lambda>(_, path, source). source = ''workspace'' \<and> file_name path = b) files)"
  by (induction files arbitrary: m) (auto simp: file_name_def split: if_splits)

lemma set_build_by_basename:
  "set (get_or [] (build_by_basename files) b) = {p \<in> workspace_paths files. file_name p = b}"
  by (auto simp: build_by_basename_def by_basename_fold workspace_paths_def image_iff)

lemma candidates_basename_lookup:
  "set (sl_candidates (basename_lookup m b sfx)) =
     {p \<in> set (get_or [] m b). p = fst sfx \<or> ends_with p (snd sfx)}"
  by (auto simp: basename_lookup_def get_or_def Let_def split: option.splits)

interpretation file_index: path_index
  "\<lambda>p. p \<in> indexed_paths files" "basename_lookup (build_by_basename files)"
  "indexed_paths files" "workspace_paths files" for files
proof
  show "workspace_paths files \<subseteq> indexed_paths files" for files
    by (force simp: workspace_paths_def indexed_paths_def)
qed (auto simp: candidates_basename_lookup set_build_by_basename names_target_def
       intro: file_name_suffix [unfolded names_target_def])

section \<open>Which evidence an edge stands for\<close>

text \<open>
  The evidence for an edge from \<open>s\<close> to \<open>d\<close>: an include target of \<open>s\<close> whose resolution names a
  file with id \<open>d\<close>, with the kind of that resolution; the candidates of an ambiguous
  resolution count as suffix evidence.
\<close>

definition contributes ::
  "(string, int) hmap \<Rightarrow> int \<Rightarrow> include_resolution \<Rightarrow> (int \<times> int \<times> resolution_kind) set" where
  "contributes id_of_path s r =
     (case r of
        Edge dst k \<Rightarrow> {(s, d, k) | d. map_of id_of_path dst = Some d \<and> d \<noteq> s}
      | Ambiguous dsts \<Rightarrow>
          {(s, d, SuffixMatch) | d. \<exists>dst \<in> set dsts. map_of id_of_path dst = Some d \<and> d \<noteq> s}
      | Unresolved \<Rightarrow> {})"

definition reflects :: "resolution_kind option \<Rightarrow> resolution_kind set \<Rightarrow> bool" where
  "reflects found ks =
     (case found of
        None \<Rightarrow> ks = {}
      | Some k \<Rightarrow> k \<in> ks \<and> (k = SuffixMatch \<longrightarrow> ks \<subseteq> {SuffixMatch}))"

definition edges_reflect ::
  "(int \<times> int, resolution_kind) hmap \<Rightarrow> (int \<times> int \<times> resolution_kind) set \<Rightarrow> bool" where
  "edges_reflect edges ev \<longleftrightarrow> (\<forall>s d. reflects (map_of edges (s, d)) {k. (s, d, k) \<in> ev})"

lemma edges_reflect_Nil: "edges_reflect [] {}"
  by (simp add: edges_reflect_def reflects_def)

lemma edges_reflect_retain:
  assumes "edges_reflect e ev"
  shows "edges_reflect (retain_strongest_edge e s d k) (insert (s, d, k) ev)"
  unfolding edges_reflect_def
proof (intro allI)
  fix s' d'
  have "reflects (map_of e (s', d')) {k. (s', d', k) \<in> ev}"
    using assms by (simp add: edges_reflect_def)
  then show "reflects (map_of (retain_strongest_edge e s d k) (s', d'))
      {k'. (s', d', k') \<in> insert (s, d, k) ev}"
    by (cases "s' = s \<and> d' = d")
      (auto simp: reflects_def retain_strongest_edge_def split: option.splits if_splits)
qed

lemma edges_reflect_add_edge:
  "edges_reflect e ev \<Longrightarrow>
     edges_reflect (add_edge ids s k dst e)
       (ev \<union> {(s, d, k) | d. map_of ids dst = Some d \<and> d \<noteq> s})"
  using edges_reflect_retain by (auto simp: add_edge_def split: option.splits)

lemma edges_reflect_fold_add:
  "edges_reflect e ev \<Longrightarrow>
     edges_reflect (fold (add_edge ids s k) dsts e)
       (ev \<union> {(s, d, k) | d. \<exists>dst \<in> set dsts. map_of ids dst = Some d \<and> d \<noteq> s})"
proof (induction dsts arbitrary: e ev)
  case (Cons dst dsts)
  have "ev \<union> {(s, d, k) | d. map_of ids dst = Some d \<and> d \<noteq> s} \<union>
      {(s, d, k) | d. \<exists>dst \<in> set dsts. map_of ids dst = Some d \<and> d \<noteq> s} =
    ev \<union> {(s, d, k) | d. \<exists>dst \<in> set (dst # dsts). map_of ids dst = Some d \<and> d \<noteq> s}"
    by auto
  with Cons.IH [OF edges_reflect_add_edge [OF Cons.prems, of ids s k dst]] show ?case by simp
qed simp

lemma edges_reflect_apply:
  assumes "edges_reflect e ev"
  shows "edges_reflect (fst (apply_resolution ids s r (e, u, a))) (ev \<union> contributes ids s r)"
  using edges_reflect_add_edge [OF assms] edges_reflect_fold_add [OF assms] assms
  by (simp add: apply_resolution_def contributes_def split: include_resolution.splits)

lemma apply_resolution_fold:
  assumes "edges_reflect e ev"
  shows "case fold (\<lambda>t. apply_resolution ids s (res t)) ts (e, u, a) of (e', u', a') \<Rightarrow>
     edges_reflect e' (ev \<union> (\<Union>t \<in> set ts. contributes ids s (res t))) \<and>
     u' = u + int (length (filter (\<lambda>t. res t = Unresolved) ts)) \<and>
     a' = a + int (length (filter (\<lambda>t. \<exists>ds. res t = Ambiguous ds) ts))"
  using assms
proof (induction ts arbitrary: e ev u a)
  case (Cons t ts)
  obtain e1 u1 a1 where 1: "apply_resolution ids s (res t) (e, u, a) = (e1, u1, a1)"
    by (metis prod_cases3)
  then have "edges_reflect e1 (ev \<union> contributes ids s (res t))"
    using edges_reflect_apply [OF Cons.prems, of ids s "res t" u a] by simp
  from Cons.IH [OF this, of u1 a1] 1 show ?case
    by (auto simp: apply_resolution_def Un_assoc split: include_resolution.splits)
qed simp

section \<open>The sources of the pass\<close>

lemma source_targets_rows:
  "set (get_or [] (fold (\<lambda>(i, t) m. entry_modify i [] (\<lambda>ts. ts @ [t]) m) rows m) s) =
     set (get_or [] m s) \<union> {t. (s, t) \<in> set rows}"
  by (induction rows arbitrary: m) (auto split: if_splits)

lemma get_or_seeds: "get_or [] (fold (\<lambda>i m. or_insert i [] m) is m) s = get_or [] m s"
  by (induction "is" arbitrary: m) (auto simp: get_or_def)

lemma distinct_source_rows:
  "distinct (map fst m) \<Longrightarrow>
     distinct (map fst (fold (\<lambda>(i, t) m. entry_modify i [] (\<lambda>ts. ts @ [t]) m) rows m))"
  by (induction rows arbitrary: m) auto

lemma distinct_seeds:
  "distinct (map fst m) \<Longrightarrow> distinct (map fst (fold (\<lambda>i m. or_insert i [] m) is m))"
  by (induction "is" arbitrary: m) auto

lemma distinct_source_targets:
  "distinct (map fst (source_targets files ids rows only))"
  unfolding source_targets_def Let_def
  by (intro distinct_source_rows distinct_seeds) simp

lemma set_source_targets:
  "set (get_or [] (source_targets files ids rows only) s) =
     {t. (s, t) \<in> set (rows (map_option (List.map_filter (map_of ids)) only))}"
  by (simp add: source_targets_def Let_def source_targets_rows get_or_seeds)

lemma distinct_map_of_get_or:
  "distinct (map fst m) \<Longrightarrow> (k, v) \<in> set m \<Longrightarrow> get_or d m k = v"
  by (simp add: get_or_def)

definition open_sources ::
  "(include_resolution \<Rightarrow> bool) \<Rightarrow> (string \<Rightarrow> string \<Rightarrow> include_resolution) \<Rightarrow> (int, string) hmap
   \<Rightarrow> (int, string list) hmap \<Rightarrow> (int \<times> int) list" where
  "open_sources P res paths m =
     map (\<lambda>(s, ts). (s, int (length (filter (\<lambda>t. P (res t (source_dir paths s))) ts))))
       (filter (\<lambda>(s, ts). \<exists>t \<in> set ts. P (res t (source_dir paths s))) m)"

lemma open_sources_Cons:
  "open_sources P res paths (x # m) = open_sources P res paths [x] @ open_sources P res paths m"
  by (simp add: open_sources_def)

lemma length_filter_pos: "0 < length (filter P xs) \<longleftrightarrow> (\<exists>x \<in> set xs. P x)"
  by (simp add: filter_empty_conv)

lemma resolve_source_fold:
  assumes "edges_reflect e ev"
  shows "case fold (resolve_source res ids paths) m (e, u, a) of (e', u', a') \<Rightarrow>
     edges_reflect e' (ev \<union> (\<Union>(s, ts) \<in> set m. \<Union>t \<in> set ts.
        contributes ids s (res t (source_dir paths s)))) \<and>
     u' = u @ open_sources (\<lambda>r. r = Unresolved) res paths m \<and>
     a' = a @ open_sources (\<lambda>r. \<exists>ds. r = Ambiguous ds) res paths m"
  using assms
proof (induction m arbitrary: e ev u a)
  case (Cons x m)
  obtain s ts where x: "x = (s, ts)" by fastforce
  let ?res = "\<lambda>t. res t (source_dir paths s)"
  obtain e1 u1 a1 where 1: "fold (\<lambda>t. apply_resolution ids s (?res t)) ts (e, 0, 0) = (e1, u1, a1)"
    by (metis prod_cases3)
  with apply_resolution_fold [OF Cons.prems, of ids s ?res ts 0 0]
  have r1: "edges_reflect e1 (ev \<union> (\<Union>t \<in> set ts. contributes ids s (?res t)))"
    and u1: "u1 = int (length (filter (\<lambda>t. ?res t = Unresolved) ts))"
    and a1: "a1 = int (length (filter (\<lambda>t. \<exists>ds. ?res t = Ambiguous ds) ts))"
    by auto
  have "resolve_source res ids paths x (e, u, a) =
     (e1, u @ open_sources (\<lambda>r. r = Unresolved) res paths [x],
      a @ open_sources (\<lambda>r. \<exists>ds. r = Ambiguous ds) res paths [x])"
    using 1 length_filter_pos [of _ ts]
    by (simp add: resolve_source_def open_sources_def x u1 a1 Let_def)
  with Cons.IH [OF r1, of "u @ open_sources (\<lambda>r. r = Unresolved) res paths [x]"
      "a @ open_sources (\<lambda>r. \<exists>ds. r = Ambiguous ds) res paths [x]"]
  show ?case
    by (simp add: open_sources_Cons [of _ _ _ x m] split: prod.splits) (simp add: x Un_assoc)
qed (simp add: open_sources_def)

section \<open>Properties\<close>

text \<open>The two hash maps of the pass and the evidence it sees.\<close>

definition pass_ids :: "file_row list \<Rightarrow> (string, int) hmap" where
  "pass_ids files = fold (\<lambda>(i, path, _). AList.update path i) files []"

definition pass_paths :: "file_row list \<Rightarrow> (int, string) hmap" where
  "pass_paths files = fold (\<lambda>(i, path, _). AList.update i path) files []"

definition pass_targets ::
  "file_row list \<Rightarrow> (int list option \<Rightarrow> (int \<times> string) list) \<Rightarrow> string list option
   \<Rightarrow> (int \<times> string) set" where
  "pass_targets files rows only =
     set (rows (map_option (List.map_filter (map_of (pass_ids files))) only))"

definition pass_resolve :: "file_row list \<Rightarrow> string list \<Rightarrow> int \<Rightarrow> string \<Rightarrow> include_resolution" where
  "pass_resolve files roots s t =
     resolve_include t (source_dir (pass_paths files) s) roots (indexed_paths files)
       (build_by_basename files)"

definition pass_evidence ::
  "file_row list \<Rightarrow> (int list option \<Rightarrow> (int \<times> string) list) \<Rightarrow> string list \<Rightarrow> string list option
   \<Rightarrow> (int \<times> int \<times> resolution_kind) set" where
  "pass_evidence files rows roots only =
     (\<Union>(s, t) \<in> pass_targets files rows only. contributes (pass_ids files) s (pass_resolve files roots s t))"

lemma indexed_paths_set: "set (map (\<lambda>(_, path, _). path) files) = indexed_paths files"
  by (simp add: indexed_paths_def)

definition pass_result where
  "pass_result files rows roots only =
     fold (resolve_source
        (\<lambda>t d. resolve_include t d roots (indexed_paths files) (build_by_basename files))
        (pass_ids files) (pass_paths files))
       (source_targets files (pass_ids files) rows only) ([], [], [])"

lemma build_include_edges_result:
  "gu_edges (build_include_edges files rows roots only) =
     sort_by cmp_of (map (\<lambda>((s, d), k). (s, d, resolution_kind_as_str k))
       (fst (pass_result files rows roots only)))"
  "gu_unresolved (build_include_edges files rows roots only) =
     fst (snd (pass_result files rows roots only))"
  "gu_ambiguous (build_include_edges files rows roots only) =
     snd (snd (pass_result files rows roots only))"
  unfolding build_include_edges_def pass_result_def pass_ids_def pass_paths_def Let_def
    indexed_paths_set
  by (simp_all split: prod.splits)

lemma UN_source_targets:
  "(\<Union>(s, ts) \<in> set (source_targets files ids rows only). \<Union>t \<in> set ts. f s t) =
   (\<Union>(s, t) \<in> set (rows (map_option (List.map_filter (map_of ids)) only)). f s t)"
proof -
  let ?m = "source_targets files ids rows only"
  have "(s, ts) \<in> set ?m \<Longrightarrow> t \<in> set ts \<Longrightarrow> t \<in> set (get_or [] ?m s)" for s ts t
    using distinct_map_of_get_or [OF distinct_source_targets] by metis
  moreover have "t \<in> set (get_or [] ?m s) \<Longrightarrow> \<exists>ts. (s, ts) \<in> set ?m \<and> t \<in> set ts" for s t
    by (cases "map_of ?m s") (auto simp: get_or_def dest: map_of_SomeD)
  ultimately show ?thesis by (fastforce simp: set_source_targets)
qed

lemma pass_result_edges:
  "edges_reflect (fst (pass_result files rows roots only)) (pass_evidence files rows roots only)"
  using resolve_source_fold [OF edges_reflect_Nil, where
      res = "\<lambda>t d. resolve_include t d roots (indexed_paths files) (build_by_basename files)" and
      ids = "pass_ids files" and paths = "pass_paths files" and
      m = "source_targets files (pass_ids files) rows only" and u = "[]" and a = "[]"]
  by (simp add: pass_result_def pass_evidence_def pass_targets_def pass_resolve_def
      UN_source_targets split: prod.splits)

lemma pass_result_open:
  "snd (pass_result files rows roots only) =
     (open_sources (\<lambda>r. r = Unresolved)
        (\<lambda>t d. resolve_include t d roots (indexed_paths files) (build_by_basename files))
        (pass_paths files) (source_targets files (pass_ids files) rows only),
      open_sources (\<lambda>r. \<exists>ds. r = Ambiguous ds)
        (\<lambda>t d. resolve_include t d roots (indexed_paths files) (build_by_basename files))
        (pass_paths files) (source_targets files (pass_ids files) rows only))"
  using resolve_source_fold [OF edges_reflect_Nil, where
      res = "\<lambda>t d. resolve_include t d roots (indexed_paths files) (build_by_basename files)" and
      ids = "pass_ids files" and paths = "pass_paths files" and
      m = "source_targets files (pass_ids files) rows only" and u = "[]" and a = "[]"]
  by (simp add: pass_result_def split: prod.splits)

lemma open_sources_fst:
  assumes "distinct (map fst m)"
  shows "s \<in> fst ` set (open_sources P res paths m) \<longleftrightarrow>
     (\<exists>t \<in> set (get_or [] m s). P (res t (source_dir paths s)))"
proof -
  have "s \<in> fst ` set (open_sources P res paths m) \<longleftrightarrow>
      (\<exists>ts. (s, ts) \<in> set m \<and> (\<exists>t \<in> set ts. P (res t (source_dir paths s))))"
    by (force simp: open_sources_def image_iff)
  also have "\<dots> \<longleftrightarrow> (\<exists>t \<in> set (get_or [] m s). P (res t (source_dir paths s)))"
  proof (cases "map_of m s")
    case None
    then have "s \<notin> fst ` set m" by (simp add: map_of_eq_None_iff)
    with None show ?thesis by (force simp: get_or_def)
  next
    case (Some ts)
    with assms have "(s, ts') \<in> set m \<longleftrightarrow> ts' = ts" for ts'
      by (metis map_of_SomeD map_of_is_SomeI option.inject)
    with Some show ?thesis by (simp add: get_or_def)
  qed
  finally show ?thesis .
qed

lemma distinct_apply_fold:
  "distinct (map fst e) \<Longrightarrow>
     distinct (map fst (fst (fold (\<lambda>t. apply_resolution ids s (res t)) ts (e, u, a))))"
proof (induction ts arbitrary: e u a)
  case (Cons t ts)
  have add: "distinct (map fst e) \<Longrightarrow> distinct (map fst (add_edge ids s k dst e))" for k dst e
    by (auto simp: add_edge_def retain_strongest_edge_def distinct_update split: option.splits)
  have "distinct (map fst e) \<Longrightarrow> distinct (map fst (fold (add_edge ids s k) dsts e))" for k dsts e
    by (induction dsts arbitrary: e) (auto simp: add)
  with add Cons.prems have "distinct (map fst (fst (apply_resolution ids s (res t) (e, u, a))))"
    by (simp add: apply_resolution_def split: include_resolution.splits)
  then show ?case using Cons.IH by (metis fold_simps(2) prod.collapse)
qed simp

lemma distinct_resolve_fold:
  "distinct (map fst e) \<Longrightarrow>
     distinct (map fst (fst (fold (resolve_source res ids paths) m (e, u, a))))"
proof (induction m arbitrary: e u a)
  case (Cons x m)
  have "distinct (map fst (fst (resolve_source res ids paths x (e, u, a))))"
    using distinct_apply_fold [OF Cons.prems, of ids "fst x"
        "\<lambda>t. res t (source_dir paths (fst x))" "snd x" 0 0]
    by (auto simp: resolve_source_def Let_def split: prod.splits)
  then show ?case using Cons.IH by (metis fold_simps(2) prod.collapse)
qed simp

lemma resolution_kind_as_str_inject [simp]:
  "resolution_kind_as_str a = resolution_kind_as_str b \<longleftrightarrow> a = b"
  by (cases a; cases b) auto

lemma pass_edge_iff:
  "(s, d, resolution_kind_as_str k) \<in> set (gu_edges (build_include_edges files rows roots only)) \<longleftrightarrow>
     map_of (fst (pass_result files rows roots only)) (s, d) = Some k"
proof -
  have "distinct (map fst (fst (pass_result files rows roots only)))"
    unfolding pass_result_def by (rule distinct_resolve_fold) simp
  then show ?thesis
    by (force simp: build_include_edges_result image_iff)
qed

text \<open>C26. One edge per endpoint pair, with the strongest evidence. The update of the include
  pass has an edge between two files exactly when some include of the source resolves to the
  target, it has one kind per pair, that kind is backed by an include, and it is the weak
  suffix kind only when no include of the source gives exact evidence for the same target.
\<close>

theorem include_edges_keep_strongest:
  "let E = {k. (s, d, resolution_kind_as_str k)
               \<in> set (gu_edges (build_include_edges files rows roots only))};
       K = {k. (s, d, k) \<in> pass_evidence files rows roots only}
   in (E = {} \<longleftrightarrow> K = {}) \<and>
      (E \<noteq> {} \<longrightarrow> (\<exists>k \<in> K. E = {k} \<and> (k = SuffixMatch \<longrightarrow> K = {SuffixMatch})))"
proof -
  have "reflects (map_of (fst (pass_result files rows roots only)) (s, d))
      {k. (s, d, k) \<in> pass_evidence files rows roots only}"
    using pass_result_edges unfolding edges_reflect_def by blast
  then show ?thesis
    unfolding Let_def pass_edge_iff by (auto simp: reflects_def split: option.splits)
qed

theorem include_edges_keep_strongest_witness:
  "let files = [(1, ''src/a.c'', ''workspace''), (2, ''src/u.h'', ''workspace''),
                (3, ''lib/u.h'', ''workspace'')];
       rows = (\<lambda>_. [(1, ''<u.h>''), (1, [CHR 0x22] @ ''u.h'' @ [CHR 0x22])])
   in {k. (1, 2, resolution_kind_as_str k) \<in> set (gu_edges (build_include_edges files rows [] None))}
        = {RelativeExact}
      \<and> RelativeExact \<in> {k. (1, 2, k) \<in> pass_evidence files rows [] None}"
proof -
  let ?files = "[(1, ''src/a.c'', ''workspace''), (2, ''src/u.h'', ''workspace''),
                (3, ''lib/u.h'', ''workspace'')] :: file_row list"
  let ?rows = "\<lambda>_ :: int list option. [(1 :: int, ''<u.h>''), (1, [CHR 0x22] @ ''u.h'' @ [CHR 0x22])]"
  have "gu_edges (build_include_edges ?files ?rows [] None) =
      [(1, 2, ''relative_exact''), (1, 3, ''suffix_match'')]"
    by code_simp
  then have "{k. (1, 2, resolution_kind_as_str k)
      \<in> set (gu_edges (build_include_edges ?files ?rows [] None))} = {RelativeExact}"
    by (auto elim: resolution_kind_as_str.elims)
  with include_edges_keep_strongest [of 1 2 ?files ?rows "[]" None] show ?thesis
    by (auto simp: Let_def)
qed

text \<open>Which sources are reported open. A source file gets an unresolved count exactly when one
  of its include targets resolves to nothing, and an ambiguous count exactly when one of its
  targets has several suffix candidates.
\<close>

theorem include_pass_open_sources:
  "(s \<in> fst ` set (gu_unresolved (build_include_edges files rows roots only)) \<longleftrightarrow>
      (\<exists>t. (s, t) \<in> pass_targets files rows only \<and> pass_resolve files roots s t = Unresolved)) \<and>
   (s \<in> fst ` set (gu_ambiguous (build_include_edges files rows roots only)) \<longleftrightarrow>
      (\<exists>t ds. (s, t) \<in> pass_targets files rows only \<and> pass_resolve files roots s t = Ambiguous ds))"
  unfolding build_include_edges_result pass_result_open fst_conv snd_conv
    open_sources_fst [OF distinct_source_targets] set_source_targets
    pass_targets_def pass_resolve_def
  by auto



text \<open>An external includer is not treated like the angle form. The documentation of
  \<open>resolve_include\<close> says that an empty source directory makes a quoted include behave like an
  angle include; the two forms probe the workspace and the external tier in opposite orders,
  so the same target resolves differently.
\<close>

theorem quote_with_empty_dir_is_not_angle:
  "\<exists>rel roots paths m.
     resolve_include ([CHR 0x22] @ rel @ [CHR 0x22]) [] roots paths m = Edge rel WorkspaceExact \<and>
     resolve_include (''<'' @ rel @ ''>'') [] roots paths m = Edge (''/sdk/'' @ rel) ExternalExact"
proof -
  have "resolve_include ([CHR 0x22] @ ''x.h'' @ [CHR 0x22]) [] [''/sdk''] {''x.h'', ''/sdk/x.h''} [] =
      Edge ''x.h'' WorkspaceExact"
    and "resolve_include (''<'' @ ''x.h'' @ ''>'') [] [''/sdk''] {''x.h'', ''/sdk/x.h''} [] =
      Edge (''/sdk/'' @ ''x.h'') ExternalExact"
    by code_simp+
  then show ?thesis by blast
qed

lemma past_close_steps:
  "is_include_line (trim_start ''#include <a.h>'')"
  "is_include_line (trim_start (''#include '' @ CHR 0x22 # ''a.h'' @ [CHR 0x22]))"
  "utf8_decode ''#include <a.h>'' = [35, 105, 110, 99, 108, 117, 100, 101, 32, 60, 97, 46, 104, 62]"
  "utf8_decode (''#include '' @ CHR 0x22 # ''a.h'' @ [CHR 0x22]) =
     [35, 105, 110, 99, 108, 117, 100, 101, 32, 34, 97, 46, 104, 34]"
  by code_simp+

lemma past_close_cursor:
  "char_index_at_utf16 [35, 105, 110, 99, 108, 117, 100, 101, 32, 60, 97, 46, 104, 62] 14 = 14"
  "char_index_at_utf16 [35, 105, 110, 99, 108, 117, 100, 101, 32, 34, 97, 46, 104, 34] 14 = 14"
  by (simp_all add: char_index_at_utf16_def len_utf16_def)

text \<open>The cursor behind a complete quoted include is taken to be inside a path. The closing
  quote is the most recent opening delimiter before the cursor, so an empty partial path is
  reported; with angle brackets the same position is outside the path.\<close>

theorem quote_completion_past_close:
  "include_completion_context (''#include '' @ CHR 0x22 # ''a.h'' @ [CHR 0x22]) 14 = Some (Quote, []) \<and>
   include_completion_context ''#include <a.h>'' 14 = None"
  unfolding include_completion_context_def past_close_steps past_close_cursor
  using past_close_steps(2)
  by (simp add: past_close_cursor replace_backslash_def utf8_encode_def)

end
