(* ===== verification/Reach_Graph.thy ===== *)
theory Reach_Graph
  imports Includes
begin

text \<open>
  The include graph of \<open>src/crates/fossilsense/src/reachability.rs\<close>: its data, the
  constructors from store rows, the source-scoped refresh, the sparse request overlay and the
  bounded searches over files (\<open>compute\<close>) and over Go packages (\<open>compute_package\<close>).

  A hash map is an association list with distinct keys and a hash set that a loop builds is a
  list without repetition; the sets of the returned scope are HOL sets. Sizes and depths are
  \<^typ>\<open>nat\<close>: the loops bound them by the constants below, far under \<open>usize\<close>. The memory
  accounting of the graph (\<open>accounted_bytes\<close> and its helpers) depends on allocator capacities
  and is left out.
\<close>

definition MAX_REACH_DEPTH :: nat where "MAX_REACH_DEPTH = 32"
definition MAX_REACH_NODES :: nat where "MAX_REACH_NODES = 4096"
definition MAX_REACH_PACKAGES :: nat where "MAX_REACH_PACKAGES = 4096"
definition MAX_REACH_PACKAGE_EDGES :: nat where "MAX_REACH_PACKAGE_EDGES = 16384"

datatype open_reason =
    UnresolvedInclude
  | AmbiguousInclude
  | UnsupportedLanguageBoundary
  | BuildConstraintUnknown
  | DepthLimit
  | NodeLimit

record reach_scope =
  rs_files :: "string set"
  rs_heuristic_files :: "string set"
  rs_open :: bool
  rs_reason :: "open_reason option"

record reach_edge =
  re_target :: string
  re_resolution :: resolution_kind

record package_reach_edge =
  pe_target :: string
  pe_heuristic :: bool

record reach_graph_overlay =
  ov_sources :: "string list"
  ov_edges :: "(string, reach_edge list) hmap"
  ov_open :: "(string, open_reason) hmap"
  ov_package_by_file :: "(string, string option) hmap"
  ov_affected_packages :: "string list"
  ov_open_packages :: "(string, open_reason) hmap"
  ov_direct_external_source_counts :: "(string, nat) hmap"

text \<open>The tables of a graph; the recursive fields \<open>base\<close> and \<open>overlay\<close> and the memo table
  \<open>cache\<close> complete it.\<close>

record reach_tables =
  rt_edges :: "(string, reach_edge list) hmap"
  rt_open :: "(string, open_reason) hmap"
  rt_package_by_file :: "(string, string) hmap"
  rt_files_by_package :: "(string, string list) hmap"
  rt_package_edges :: "(string, package_reach_edge list) hmap"
  rt_open_packages :: "(string, open_reason) hmap"
  rt_direct_external_source_counts :: "(string, nat) hmap"

datatype reach_graph =
  ReachGraph (rg_tables: reach_tables) (rg_base: "reach_graph option")
    (rg_overlay: "reach_graph_overlay option") (rg_cache: "(string, reach_scope) hmap")

section \<open>Edges\<close>

fun is_strong_resolution :: "resolution_kind \<Rightarrow> bool" where
  "is_strong_resolution RelativeExact = True"
| "is_strong_resolution WorkspaceExact = True"
| "is_strong_resolution ExternalExact = True"
| "is_strong_resolution SuffixMatch = False"

definition is_direct_external_edge :: "reach_edge \<Rightarrow> bool" where
  "is_direct_external_edge e = (re_resolution e = ExternalExact \<and> is_absolute (re_target e))"

definition edge_cmp :: "reach_edge \<Rightarrow> reach_edge \<Rightarrow> ordering" where
  "edge_cmp l r =
     then_with (cmp_of (\<not> is_direct_external_edge l) (\<not> is_direct_external_edge r))
       (then_with (cmp_of (re_target l) (re_target r))
          (cmp_of (resolution_kind_as_str (re_resolution l))
             (resolution_kind_as_str (re_resolution r))))"

definition normalize_reach_edges :: "reach_edge list \<Rightarrow> reach_edge list" where
  "normalize_reach_edges edges = dedup (sort_by edge_cmp edges)"

text \<open>The direct external targets of one source, the inner loop of the counting.\<close>

definition direct_targets :: "reach_edge list \<Rightarrow> string list" where
  "direct_targets edges = map re_target (filter is_direct_external_edge edges)"

definition count_targets :: "string list \<Rightarrow> (string, nat) hmap \<Rightarrow> (string, nat) hmap" where
  "count_targets targets counts = fold (\<lambda>t. entry_modify t 0 Suc) targets counts"

definition direct_external_source_counts ::
  "(string, reach_edge list) hmap \<Rightarrow> (string, nat) hmap" where
  "direct_external_source_counts edges =
     fold (\<lambda>(source, targets) counts.
             if is_absolute source then counts
             else count_targets (direct_targets targets) counts)
       edges []"

definition insert_open_reason ::
  "(string, open_reason) hmap \<Rightarrow> string \<Rightarrow> open_reason \<Rightarrow> (string, open_reason) hmap" where
  "insert_open_reason opn path reason =
     (case reason of
        UnresolvedInclude \<Rightarrow> AList.update path UnresolvedInclude opn
      | AmbiguousInclude \<Rightarrow> or_insert path AmbiguousInclude opn
      | _ \<Rightarrow> or_insert path reason opn)"

section \<open>Construction\<close>

type_synonym edge_row = "string \<times> string \<times> resolution_kind"

definition push_edge :: "edge_row \<Rightarrow> (string, reach_edge list) hmap \<Rightarrow> (string, reach_edge list) hmap" where
  "push_edge row m =
     (case row of (src, dst, resolution) \<Rightarrow>
        entry_modify src [] (\<lambda>es. es @ [\<lparr>re_target = dst, re_resolution = resolution\<rparr>]) m)"

definition new_with_kinds :: "edge_row list \<Rightarrow> string list \<Rightarrow> string list \<Rightarrow> reach_graph" where
  "new_with_kinds edge_rows unresolved_files ambiguous_files =
     (let edges = map_values normalize_reach_edges (fold push_edge edge_rows []);
          counts = direct_external_source_counts edges;
          opn = fold (\<lambda>path. AList.update path AmbiguousInclude) ambiguous_files [];
          opn = fold (\<lambda>path. AList.update path UnresolvedInclude) unresolved_files opn
      in ReachGraph
           \<lparr> rt_edges = edges, rt_open = opn, rt_package_by_file = [], rt_files_by_package = [],
             rt_package_edges = [], rt_open_packages = [],
             rt_direct_external_source_counts = counts \<rparr>
           None None [])"

record include_edge_row =
  ie_source_path :: string
  ie_target_path :: string
  ie_resolution :: resolution_kind

record open_include_row =
  oi_source_path :: string
  oi_reason :: open_reason

datatype go_package_resolution = Exact_Package | Heuristic_Package

record go_package_file_row =
  gf_package_key :: string
  gf_path :: string

record go_package_edge_row =
  ge_source_package_key :: string
  ge_target_package_key :: string
  ge_resolution :: go_package_resolution

record go_open_package_row =
  go_package_key :: string
  go_reason :: open_reason

definition from_rows ::
  "include_edge_row list \<Rightarrow> open_include_row list \<Rightarrow> open_include_row list \<Rightarrow> reach_graph" where
  "from_rows edge_rows unresolved_rows ambiguous_rows =
     new_with_kinds
       (map (\<lambda>row. (ie_source_path row, ie_target_path row, ie_resolution row)) edge_rows)
       (map oi_source_path unresolved_rows) (map oi_source_path ambiguous_rows)"

definition package_edge_cmp :: "package_reach_edge \<Rightarrow> package_reach_edge \<Rightarrow> ordering" where
  "package_edge_cmp l r =
     then_with (cmp_of (pe_target l) (pe_target r)) (cmp_of (pe_heuristic l) (pe_heuristic r))"

definition from_rows_with_packages ::
  "include_edge_row list \<Rightarrow> open_include_row list \<Rightarrow> open_include_row list
   \<Rightarrow> go_package_file_row list \<Rightarrow> go_package_edge_row list \<Rightarrow> go_open_package_row list
   \<Rightarrow> reach_graph" where
  "from_rows_with_packages edge_rows unresolved_rows ambiguous_rows package_files package_edges
     open_packages =
     (let t = rg_tables (from_rows edge_rows unresolved_rows ambiguous_rows);
          by_file = fold (\<lambda>row. AList.update (gf_path row) (gf_package_key row)) package_files [];
          by_package =
            fold (\<lambda>row. entry_modify (gf_package_key row) [] (\<lambda>fs. fs @ [gf_path row]))
              package_files [];
          pedges =
            fold (\<lambda>row. entry_modify (ge_source_package_key row) []
                     (\<lambda>es. es @ [\<lparr> pe_target = ge_target_package_key row,
                                   pe_heuristic = (ge_resolution row = Heuristic_Package) \<rparr>]))
              package_edges []
      in ReachGraph
           (t\<lparr> rt_package_by_file := by_file,
               rt_files_by_package := map_values (\<lambda>fs. dedup (sort_by cmp_of fs)) by_package,
               rt_package_edges := map_values (\<lambda>es. dedup (sort_by package_edge_cmp es)) pedges,
               rt_open_packages :=
                 fold (\<lambda>row. AList.update (go_package_key row) (go_reason row)) open_packages [] \<rparr>)
           None None [])"

section \<open>Refresh\<close>

text \<open>The three loops over the refreshed sources.\<close>

definition uncount_target :: "string \<Rightarrow> (string, nat) hmap \<Rightarrow> (string, nat) hmap" where
  "uncount_target target counts =
     (case map_of counts target of
        None \<Rightarrow> counts
      | Some cnt \<Rightarrow>
          if cnt - 1 = 0 then AList.delete target counts
          else AList.update target (cnt - 1) counts)"

definition uncount_source ::
  "(string, reach_edge list) hmap \<Rightarrow> string \<Rightarrow> (string, nat) hmap \<Rightarrow> (string, nat) hmap" where
  "uncount_source edges source counts =
     (if is_absolute source then counts
      else fold uncount_target (direct_targets (get_or [] edges source)) counts)"

definition recount_source ::
  "(string, reach_edge list) hmap \<Rightarrow> string \<Rightarrow> (string, nat) hmap \<Rightarrow> (string, nat) hmap" where
  "recount_source edges source counts =
     (if is_absolute source then counts
      else count_targets (direct_targets (get_or [] edges source)) counts)"

definition normalize_source ::
  "string \<Rightarrow> (string, reach_edge list) hmap \<Rightarrow> (string, reach_edge list) hmap" where
  "normalize_source source edges =
     (case map_of edges source of
        None \<Rightarrow> edges
      | Some targets \<Rightarrow> AList.update source (normalize_reach_edges targets) edges)"

definition refresh_sources_with_kinds ::
  "reach_graph \<Rightarrow> string list \<Rightarrow> edge_row list \<Rightarrow> (string \<times> open_reason) list \<Rightarrow> reach_graph" where
  "refresh_sources_with_kinds g sources edge_rows open_rows =
     (let t = rg_tables g;
          counts1 = fold (uncount_source (rt_edges t)) sources (rt_direct_external_source_counts t);
          edges1 = fold AList.delete sources (rt_edges t);
          open1 = fold AList.delete sources (rt_open t);
          edges2 = fold push_edge edge_rows edges1;
          edges3 = fold normalize_source sources edges2;
          counts2 = fold (recount_source edges3) sources counts1;
          open2 = fold (\<lambda>(path, reason) m. insert_open_reason m path reason) open_rows open1
      in ReachGraph
           (t\<lparr> rt_edges := edges3, rt_open := open2, rt_direct_external_source_counts := counts2 \<rparr>)
           (rg_base g) (rg_overlay g) [])"

definition refresh_sources_from_rows ::
  "reach_graph \<Rightarrow> string list \<Rightarrow> include_edge_row list \<Rightarrow> open_include_row list \<Rightarrow> reach_graph" where
  "refresh_sources_from_rows g sources edges opn =
     refresh_sources_with_kinds g sources
       (map (\<lambda>row. (ie_source_path row, ie_target_path row, ie_resolution row)) edges)
       (map (\<lambda>row. (oi_source_path row, oi_reason row)) opn)"

definition with_refreshed_sources_from_rows ::
  "reach_graph \<Rightarrow> string list \<Rightarrow> include_edge_row list \<Rightarrow> open_include_row list \<Rightarrow> reach_graph" where
  "with_refreshed_sources_from_rows g sources edges opn =
     refresh_sources_from_rows (ReachGraph (rg_tables g) None None []) sources edges opn"

section \<open>Lookups through the overlay\<close>

fun edges_for :: "reach_graph \<Rightarrow> string \<Rightarrow> reach_edge list option" where
  "edges_for (ReachGraph t base overlay _) source =
     (case overlay of
        Some ov \<Rightarrow>
          if source \<in> set (ov_sources ov) then Some (get_or [] (ov_edges ov) source)
          else (case base of None \<Rightarrow> None | Some b \<Rightarrow> edges_for b source)
      | None \<Rightarrow> map_of (rt_edges t) source)"

fun open_reason_of :: "reach_graph \<Rightarrow> string \<Rightarrow> open_reason option" where
  "open_reason_of (ReachGraph t base overlay _) path =
     (case overlay of
        Some ov \<Rightarrow>
          if path \<in> set (ov_sources ov) then map_of (ov_open ov) path
          else (case base of None \<Rightarrow> None | Some b \<Rightarrow> open_reason_of b path)
      | None \<Rightarrow> map_of (rt_open t) path)"

fun package_for_file :: "reach_graph \<Rightarrow> string \<Rightarrow> string option" where
  "package_for_file (ReachGraph t base overlay _) path =
     (case overlay of
        Some ov \<Rightarrow>
          (case map_of (ov_package_by_file ov) path of
             Some package \<Rightarrow> package
           | None \<Rightarrow> (case base of None \<Rightarrow> None | Some b \<Rightarrow> package_for_file b path))
      | None \<Rightarrow> map_of (rt_package_by_file t) path)"

text \<open>The loop over the base files of an affected package; \<open>eff\<close> is the effective package of
  a path in the layered graph.\<close>

fun push_base_files ::
  "(string \<Rightarrow> string option) \<Rightarrow> string \<Rightarrow> string list \<Rightarrow> nat \<Rightarrow> string list
   \<Rightarrow> string list \<times> bool \<Rightarrow> string list \<times> bool" where
  "push_base_files eff package overlay_files limit [] acc = acc"
| "push_base_files eff package overlay_files limit (path # paths) (files, truncated) =
     (if eff path \<noteq> Some package \<or> path \<in> set overlay_files then
        push_base_files eff package overlay_files limit paths (files, truncated)
      else if length files \<ge> limit then (files, True)
      else push_base_files eff package overlay_files limit paths (files @ [path], truncated))"

fun files_for_package_bounded :: "reach_graph \<Rightarrow> string \<Rightarrow> nat \<Rightarrow> string list \<times> bool" where
  "files_for_package_bounded (ReachGraph t base overlay c) package limit =
     (case overlay of
        None \<Rightarrow>
          (case base of
             Some b \<Rightarrow> files_for_package_bounded b package limit
           | None \<Rightarrow>
               (let files = get_or [] (rt_files_by_package t) package;
                    retained = min (length files) limit
                in (take retained files, length files > retained)))
      | Some ov \<Rightarrow>
          if package \<notin> set (ov_affected_packages ov) then
            (case base of
               None \<Rightarrow> ([], False)
             | Some b \<Rightarrow> files_for_package_bounded b package limit)
          else
            (let overlay_files =
                   dedup (sort_by cmp_of
                     (map fst (filter (\<lambda>(_, effective). effective = Some package)
                        (ov_package_by_file ov))));
                 truncated = length overlay_files > limit;
                 files = take limit overlay_files;
                 (files, truncated) =
                   (case base of
                      None \<Rightarrow> (files, truncated)
                    | Some b \<Rightarrow>
                        (let (base_files, base_truncated) =
                           files_for_package_bounded b package
                             (min (limit + length (ov_package_by_file ov)) (2 ^ 64 - 1))
                         in push_base_files (package_for_file (ReachGraph t base overlay c))
                              package overlay_files limit base_files
                              (files, truncated \<or> base_truncated)))
             in (sort_by cmp_of files, truncated)))"

fun package_edges_for :: "reach_graph \<Rightarrow> string \<Rightarrow> package_reach_edge list option" where
  "package_edges_for (ReachGraph t base overlay _) package =
     (case overlay of
        Some ov \<Rightarrow>
          if package \<in> set (ov_affected_packages ov) then Some []
          else (case base of None \<Rightarrow> None | Some b \<Rightarrow> package_edges_for b package)
      | None \<Rightarrow> map_of (rt_package_edges t) package)"

fun open_package_reason :: "reach_graph \<Rightarrow> string \<Rightarrow> open_reason option" where
  "open_package_reason (ReachGraph t base overlay _) package =
     (case overlay of
        Some ov \<Rightarrow>
          if package \<in> set (ov_affected_packages ov) then map_of (ov_open_packages ov) package
          else (case base of None \<Rightarrow> None | Some b \<Rightarrow> open_package_reason b package)
      | None \<Rightarrow> map_of (rt_open_packages t) package)"

fun direct_external_source_count :: "reach_graph \<Rightarrow> string \<Rightarrow> nat" where
  "direct_external_source_count (ReachGraph t base overlay _) target =
     (case overlay of
        Some ov \<Rightarrow>
          (case map_of (ov_direct_external_source_counts ov) target of
             Some cnt \<Rightarrow> cnt
           | None \<Rightarrow> (case base of None \<Rightarrow> 0 | Some b \<Rightarrow> direct_external_source_count b target))
      | None \<Rightarrow> get_or 0 (rt_direct_external_source_counts t) target)"

definition direct_external_presence_overrides :: "reach_graph \<Rightarrow> (string, bool) hmap" where
  "direct_external_presence_overrides g =
     (case (rg_base g, rg_overlay g) of
        (Some b, Some ov) \<Rightarrow>
          List.map_filter
            (\<lambda>(target, effective_count).
               (let published = direct_external_source_count b target > 0;
                    effective = effective_count > 0
                in if published \<noteq> effective then Some (target, effective) else None))
            (ov_direct_external_source_counts ov)
      | _ \<Rightarrow> [])"

definition any_workspace_directly_includes_external :: "reach_graph \<Rightarrow> string \<Rightarrow> bool" where
  "any_workspace_directly_includes_external g target =
     (is_absolute target \<and> direct_external_source_count g target > 0)"

definition directly_includes_external :: "reach_graph \<Rightarrow> string \<Rightarrow> string \<Rightarrow> bool" where
  "directly_includes_external g source target =
     (is_absolute target \<and>
      (case edges_for g source of
         None \<Rightarrow> False
       | Some targets \<Rightarrow>
           list_ex (\<lambda>e. re_target e = target \<and> re_resolution e = ExternalExact) targets))"

definition directly_included_external_paths_from :: "reach_graph \<Rightarrow> string \<Rightarrow> string set" where
  "directly_included_external_paths_from g source =
     set (map re_target
       (filter is_direct_external_edge
          (take MAX_REACH_NODES (case edges_for g source of None \<Rightarrow> [] | Some es \<Rightarrow> es))))"

section \<open>Request overlay\<close>

text \<open>The signed change of the direct external counts, one source at a time.\<close>

definition source_delta ::
  "reach_graph \<Rightarrow> (string, reach_edge list) hmap \<Rightarrow> string \<Rightarrow> (string, int) hmap \<Rightarrow> (string, int) hmap" where
  "source_delta base edge_overrides source deltas =
     (if is_absolute source then deltas
      else
        fold (\<lambda>t. entry_modify t 0 (\<lambda>n. n + 1)) (direct_targets (get_or [] edge_overrides source))
          (fold (\<lambda>t. entry_modify t 0 (\<lambda>n. n - 1))
             (direct_targets (case edges_for base source of None \<Rightarrow> [] | Some es \<Rightarrow> es)) deltas))"

type_synonym go_overlay_row = "string \<times> (string \<times> open_reason) option"

definition apply_go_overlay ::
  "reach_graph \<Rightarrow> go_overlay_row \<Rightarrow> reach_graph_overlay \<times> string list
   \<Rightarrow> reach_graph_overlay \<times> string list" where
  "apply_go_overlay base row st =
     (case row of (path, package) \<Rightarrow> case st of (ov, affected) \<Rightarrow>
        (let affected1 =
               (case package_for_file base path of None \<Rightarrow> affected | Some p \<Rightarrow> List.insert p affected);
             ov1 = ov\<lparr> ov_open := AList.delete path (ov_open ov) \<rparr>
         in case package of
              Some (package_key, reason) \<Rightarrow>
                (ov1\<lparr> ov_package_by_file := AList.update path (Some package_key) (ov_package_by_file ov1),
                      ov_open_packages := AList.update package_key reason (ov_open_packages ov1) \<rparr>,
                 List.insert package_key affected1)
            | None \<Rightarrow>
                (ov1\<lparr> ov_package_by_file := AList.update path None (ov_package_by_file ov1),
                      ov_open := AList.update path UnresolvedInclude (ov_open ov1) \<rparr>,
                 affected1)))"

definition empty_tables :: reach_tables where
  "empty_tables =
     \<lparr> rt_edges = [], rt_open = [], rt_package_by_file = [], rt_files_by_package = [],
       rt_package_edges = [], rt_open_packages = [], rt_direct_external_source_counts = [] \<rparr>"

definition with_request_overrides ::
  "reach_graph \<Rightarrow> string list \<Rightarrow> edge_row list \<Rightarrow> (string \<times> open_reason) list
   \<Rightarrow> go_overlay_row list \<Rightarrow> reach_graph" where
  "with_request_overrides base sources edges opn go_overlays =
     (let source_set = remdups sources;
          edge_overrides = fold normalize_source sources (fold push_edge edges []);
          open_overrides = fold (\<lambda>(path, reason) m. insert_open_reason m path reason) opn [];
          direct_deltas = fold (source_delta base edge_overrides) source_set [];
          counts =
            map (\<lambda>(target, delta).
                   (target, nat (max (int (direct_external_source_count base target) + delta) 0)))
              direct_deltas;
          (ov, affected) =
            fold (apply_go_overlay base) go_overlays
              (\<lparr> ov_sources = source_set, ov_edges = edge_overrides, ov_open = open_overrides,
                 ov_package_by_file = [], ov_affected_packages = [], ov_open_packages = [],
                 ov_direct_external_source_counts = counts \<rparr>, []);
          ov =
            fold (\<lambda>package ov.
                    ov\<lparr> ov_affected_packages := List.insert package (ov_affected_packages ov),
                        ov_open_packages := or_insert package UnresolvedInclude (ov_open_packages ov) \<rparr>)
              affected ov
      in ReachGraph empty_tables (Some base) (Some ov) [])"

section \<open>The bounded search over files\<close>

record scan_state =
  sc_files :: "string list"
  sc_heuristic_files :: "string list"
  sc_open :: bool
  sc_reason :: "open_reason option"

definition mark_open :: "open_reason \<Rightarrow> scan_state \<Rightarrow> scan_state" where
  "mark_open cause st =
     st\<lparr> sc_open := True,
         sc_reason := (case sc_reason st of None \<Rightarrow> Some cause | Some r \<Rightarrow> Some r) \<rparr>"

definition mark_open_opt :: "open_reason option \<Rightarrow> scan_state \<Rightarrow> scan_state" where
  "mark_open_opt cause st = (case cause of None \<Rightarrow> st | Some c \<Rightarrow> mark_open c st)"

type_synonym file_queue = "(string \<times> nat \<times> bool) list"

text \<open>
  The insertion of one edge target: whether the target was inserted, and the state after it. A
  heuristic target is only recorded when it is new; a strong one is moved from the heuristic
  set when it was there.
\<close>

definition insert_target :: "string \<Rightarrow> bool \<Rightarrow> scan_state \<Rightarrow> bool \<times> scan_state" where
  "insert_target target next_is_heuristic st =
     (if next_is_heuristic then
        (if target \<notin> set (sc_files st) \<and> target \<notin> set (sc_heuristic_files st)
         then (True, st\<lparr> sc_heuristic_files := sc_heuristic_files st @ [target] \<rparr>)
         else (False, st))
      else if target \<notin> set (sc_files st) then
        (True, st\<lparr> sc_files := sc_files st @ [target],
                   sc_heuristic_files := remove1 target (sc_heuristic_files st) \<rparr>)
      else (False, st))"

text \<open>The condition of the \<open>break\<close>: a new node when the node budget is used up.\<close>

definition node_limit_hit :: "string \<Rightarrow> scan_state \<Rightarrow> bool" where
  "node_limit_hit target st =
     (let is_new_node = (target \<notin> set (sc_files st) \<and> target \<notin> set (sc_heuristic_files st))
      in is_new_node \<and> length (sc_files st) + length (sc_heuristic_files st) \<ge> MAX_REACH_NODES)"

text \<open>The \<open>for edge in dsts\<close> loop; the \<open>break\<close> at the node limit ends it.\<close>

fun scan_edges ::
  "(string \<Rightarrow> open_reason option) \<Rightarrow> nat \<Rightarrow> bool \<Rightarrow> reach_edge list \<Rightarrow> scan_state \<times> file_queue
   \<Rightarrow> scan_state \<times> file_queue" where
  "scan_edges reason_of depth path_is_heuristic [] acc = acc"
| "scan_edges reason_of depth path_is_heuristic (edge # edges) (st, queue) =
     (let next_is_heuristic = (path_is_heuristic \<or> \<not> is_strong_resolution (re_resolution edge))
      in if node_limit_hit (re_target edge) st
         then (mark_open NodeLimit st, queue)
         else
           (let (inserted, st') = insert_target (re_target edge) next_is_heuristic st
            in if inserted then
                 scan_edges reason_of depth path_is_heuristic edges
                   (mark_open_opt (reason_of (re_target edge)) st',
                    queue @ [(re_target edge, depth + 1, next_is_heuristic)])
               else scan_edges reason_of depth path_is_heuristic edges (st', queue)))"

lemma scan_state_mark [simp]:
  "sc_files (mark_open c st) = sc_files st"
  "sc_heuristic_files (mark_open c st) = sc_heuristic_files st"
  "sc_files (mark_open_opt r st) = sc_files st"
  "sc_heuristic_files (mark_open_opt r st) = sc_heuristic_files st"
  by (simp_all add: mark_open_def mark_open_opt_def split: option.splits)

text \<open>
  Every enqueued node either uses up a slot of the node budget or moves from the heuristic to
  the strong set, so the potential below never grows while edges are scanned.
\<close>

definition scan_potential :: "scan_state \<Rightarrow> file_queue \<Rightarrow> nat" where
  "scan_potential st queue =
     2 * (MAX_REACH_NODES - (length (sc_files st) + length (sc_heuristic_files st)))
     + length (sc_heuristic_files st) + length queue"

lemma insert_target_potential:
  assumes "insert_target t h st = (True, st')"
    and "\<not> node_limit_hit t st"
  shows "scan_potential st' (queue @ [x]) \<le> scan_potential st queue"
proof (cases "t \<in> set (sc_heuristic_files st)")
  case True
  then obtain n where "length (sc_heuristic_files st) = Suc n"
    by (cases "sc_heuristic_files st") auto
  with True show ?thesis
    using assms
    by (auto simp: insert_target_def scan_potential_def length_remove1 split: if_splits)
next
  case False
  then show ?thesis
    using assms
    by (auto simp: insert_target_def scan_potential_def node_limit_hit_def remove1_idem
        split: if_splits)
qed

lemma insert_target_False: "insert_target t h st = (False, st') \<Longrightarrow> st' = st"
  by (auto simp: insert_target_def split: if_splits)

lemma scan_potential_mark [simp]:
  "scan_potential (mark_open c st) q = scan_potential st q"
  "scan_potential (mark_open_opt r st) q = scan_potential st q"
  by (simp_all add: scan_potential_def)

text \<open>One step of the edge loop, as the three branches of its body.\<close>

lemma scan_edges_Cons:
  "scan_edges r d h (e # es) (st, q) =
     (let h' = (h \<or> \<not> is_strong_resolution (re_resolution e)); t = re_target e
      in if node_limit_hit t st then (mark_open NodeLimit st, q)
         else if fst (insert_target t h' st)
         then scan_edges r d h es
                (mark_open_opt (r t) (snd (insert_target t h' st)), q @ [(t, d + 1, h')])
         else scan_edges r d h es (st, q))"
  using insert_target_False [of "re_target e" "h \<or> \<not> is_strong_resolution (re_resolution e)" st]
  by (cases "insert_target (re_target e) (h \<or> \<not> is_strong_resolution (re_resolution e)) st")
    (auto simp: Let_def)

declare scan_edges.simps(2) [simp del]

lemma scan_edges_potential:
  "(\<lambda>(st, q). scan_potential st q) (scan_edges r d h es (st, q)) \<le> scan_potential st q"
proof (induction es arbitrary: st q)
  case (Cons e es)
  let ?h = "h \<or> \<not> is_strong_resolution (re_resolution e)" and ?t = "re_target e"
  obtain b st' where i: "insert_target ?t ?h st = (b, st')" by (cases "insert_target ?t ?h st")
  show ?case
  proof (cases "node_limit_hit ?t st")
    case True
    then show ?thesis by (simp add: scan_edges_Cons)
  next
    case False
    then have step: "scan_edges r d h (e # es) (st, q) =
        (if b then scan_edges r d h es (mark_open_opt (r ?t) st', q @ [(?t, d + 1, ?h)])
         else scan_edges r d h es (st, q))"
      unfolding scan_edges_Cons Let_def i by simp
    show ?thesis
    proof (cases b)
      case True
      with i have "scan_potential (mark_open_opt (r ?t) st') (q @ [(?t, d + 1, ?h)])
          \<le> scan_potential st q"
        using insert_target_potential [of ?t ?h st st', OF _ False] by simp
      from order_trans [OF Cons.IH this] show ?thesis by (simp only: step True if_True)
    next
      case False
      show ?thesis using Cons.IH by (simp only: step False if_False)
    qed
  qed
qed simp

function file_loop :: "reach_graph \<Rightarrow> scan_state \<Rightarrow> file_queue \<Rightarrow> scan_state" where
  "file_loop g st [] = st"
| "file_loop g st ((node, depth, path_is_heuristic) # queue) =
     (if depth \<ge> MAX_REACH_DEPTH then file_loop g (mark_open DepthLimit st) queue
      else
        (case edges_for g node of
           None \<Rightarrow> file_loop g st queue
         | Some dsts \<Rightarrow>
             (let (st', queue') =
                scan_edges (open_reason_of g) depth path_is_heuristic dsts (st, queue)
              in file_loop g st' queue')))"
  by pat_completeness auto
termination
proof (relation "measure (\<lambda>(g, st, q). scan_potential st q)")
  fix g st node depth h queue dsts xa st' queue'
  assume "edges_for g node = Some dsts"
    and "xa = scan_edges (open_reason_of g) depth h dsts (st, queue)"
    and "(st', queue') = xa"
  then show "((g, st', queue'), g, st, (node, depth, h) # queue)
      \<in> measure (\<lambda>(g, st, q). scan_potential st q)"
    using scan_edges_potential [of "open_reason_of g" depth h dsts st queue]
    by (auto simp: scan_potential_def split: prod.splits)
qed (auto simp: scan_potential_def)

section \<open>The bounded search over Go packages\<close>

text \<open>The loop over the files of one package.\<close>

fun scan_package_files :: "bool \<Rightarrow> string list \<Rightarrow> scan_state \<Rightarrow> scan_state" where
  "scan_package_files path_is_heuristic [] st = st"
| "scan_package_files path_is_heuristic (path # paths) st =
     (if length (sc_files st) + length (sc_heuristic_files st) \<ge> MAX_REACH_NODES
      then mark_open NodeLimit st
      else
        scan_package_files path_is_heuristic paths
          (if path_is_heuristic then
             (if path \<notin> set (sc_files st)
              then st\<lparr> sc_heuristic_files := List.insert path (sc_heuristic_files st) \<rparr>
              else st)
           else
             st\<lparr> sc_files := List.insert path (sc_files st),
                 sc_heuristic_files := remove1 path (sc_heuristic_files st) \<rparr>))"

record package_state =
  pk_scan :: scan_state
  pk_seen :: "string list"
  pk_scanned :: nat

definition pk_mark :: "open_reason \<Rightarrow> package_state \<Rightarrow> package_state" where
  "pk_mark cause ps = ps\<lparr> pk_scan := mark_open cause (pk_scan ps) \<rparr>"

text \<open>The loop over the outgoing package edges; the flag says that \<open>break 'packages\<close> ended the
  search.\<close>

fun scan_package_edges ::
  "nat \<Rightarrow> bool \<Rightarrow> package_reach_edge list \<Rightarrow> package_state \<times> file_queue
   \<Rightarrow> bool \<times> package_state \<times> file_queue" where
  "scan_package_edges depth path_is_heuristic [] (ps, queue) = (False, ps, queue)"
| "scan_package_edges depth path_is_heuristic (edge # edges) (ps, queue) =
     (if pk_scanned ps \<ge> MAX_REACH_PACKAGE_EDGES then (True, pk_mark NodeLimit ps, queue)
      else
        (let ps = ps\<lparr> pk_scanned := pk_scanned ps + 1 \<rparr>;
             next_is_heuristic = (path_is_heuristic \<or> pe_heuristic edge)
         in if pe_target edge \<notin> set (pk_seen ps) \<and> length (pk_seen ps) \<ge> MAX_REACH_PACKAGES
            then (True, pk_mark NodeLimit ps, queue)
            else if pe_target edge \<notin> set (pk_seen ps) then
              scan_package_edges depth path_is_heuristic edges
                (ps\<lparr> pk_seen := pk_seen ps @ [pe_target edge] \<rparr>,
                 queue @ [(pe_target edge, depth + 1, next_is_heuristic)])
            else scan_package_edges depth path_is_heuristic edges (ps, queue)))"

lemma pk_mark_simps [simp]:
  "pk_seen (pk_mark c ps) = pk_seen ps"
  "pk_scan (pk_mark c ps) = mark_open c (pk_scan ps)"
  by (simp_all add: pk_mark_def)

definition package_potential :: "package_state \<Rightarrow> file_queue \<Rightarrow> nat" where
  "package_potential ps queue = (MAX_REACH_PACKAGES - length (pk_seen ps)) + length queue"

lemma scan_package_edges_potential:
  "(\<lambda>(_, ps, q). package_potential ps q) (scan_package_edges d h es (ps, q)) \<le> package_potential ps q"
proof (induction d h es "(ps, q)" arbitrary: ps q rule: scan_package_edges.induct)
  case (2 d h e es ps q)
  then show ?case
    by (auto simp: Let_def package_potential_def split: prod.splits) force+
qed (simp add: package_potential_def)

lemma scan_package_edges_less:
  assumes "(stop, ps', q') = scan_package_edges d h es (ps\<lparr> pk_scan := st \<rparr>, q)"
  shows "package_potential ps' q' < package_potential ps (x # q)"
  using scan_package_edges_potential [of d h es "ps\<lparr> pk_scan := st \<rparr>" q, folded assms]
  by (simp add: package_potential_def)

function package_loop :: "reach_graph \<Rightarrow> package_state \<Rightarrow> file_queue \<Rightarrow> package_state" where
  "package_loop g ps [] = ps"
| "package_loop g ps ((package, depth, path_is_heuristic) # queue) =
     (let st = mark_open_opt (open_package_reason g package) (pk_scan ps);
          remaining =
            MAX_REACH_NODES - (length (sc_files st) + length (sc_heuristic_files st));
          (package_files, package_files_truncated) = files_for_package_bounded g package remaining;
          st = scan_package_files path_is_heuristic package_files st;
          ps = ps\<lparr> pk_scan := st \<rparr>
      in if package_files_truncated then pk_mark NodeLimit ps
         else if depth \<ge> MAX_REACH_DEPTH then package_loop g (pk_mark DepthLimit ps) queue
         else
           (let outgoing =
              (case package_edges_for g package of None \<Rightarrow> [] | Some es \<Rightarrow> es)
            in if length (sc_files st) + length (sc_heuristic_files st) \<ge> MAX_REACH_NODES
                  \<and> outgoing \<noteq> []
               then pk_mark NodeLimit ps
               else
                 (case scan_package_edges depth path_is_heuristic outgoing (ps, queue) of
                    (stop, ps', queue') \<Rightarrow>
                      if stop then ps' else package_loop g ps' queue')))"
  by pat_completeness auto
termination
proof (relation "measure (\<lambda>(g, ps, q). package_potential ps q)", goal_cases)
  case (3 g ps package depth h queue st remaining x files truncated st' ps' outgoing stop y ps'' q'')
  have "(stop, ps'', q'') = scan_package_edges depth h outgoing (ps\<lparr> pk_scan := st' \<rparr>, queue)"
    using 3(6,11,12) by simp
  then show ?case by (simp add: scan_package_edges_less)
qed (auto simp: package_potential_def)

definition compute_package :: "reach_graph \<Rightarrow> string \<Rightarrow> string \<Rightarrow> reach_scope" where
  "compute_package g start start_package =
     (let reason = open_package_reason g start_package;
          st = \<lparr> sc_files = [], sc_heuristic_files = [], sc_open = (reason \<noteq> None),
                 sc_reason = reason \<rparr>;
          ps = package_loop g \<lparr> pk_scan = st, pk_seen = [start_package], pk_scanned = 0 \<rparr>
                 [(start_package, 0, False)];
          st = pk_scan ps;
          files = (if start \<notin> set (sc_files st) \<and> start \<notin> set (sc_heuristic_files st)
                   then sc_files st @ [start] else sc_files st)
      in \<lparr> rs_files = set files, rs_heuristic_files = set (sc_heuristic_files st),
           rs_open = sc_open st, rs_reason = sc_reason st \<rparr>)"

definition compute :: "reach_graph \<Rightarrow> string \<Rightarrow> reach_scope" where
  "compute g start =
     (case package_for_file g start of
        Some package_key \<Rightarrow> compute_package g start package_key
      | None \<Rightarrow>
          (let st = mark_open_opt (open_reason_of g start)
                 \<lparr> sc_files = [start], sc_heuristic_files = [], sc_open = False, sc_reason = None \<rparr>;
               st = file_loop g st [(start, 0, False)]
           in \<lparr> rs_files = set (sc_files st), rs_heuristic_files = set (sc_heuristic_files st),
                rs_open = sc_open st, rs_reason = sc_reason st \<rparr>))"

text \<open>The memoised entry point returns the scope and the graph with its cache updated.\<close>

definition reachable :: "reach_graph \<Rightarrow> string \<Rightarrow> reach_scope \<times> reach_graph" where
  "reachable g start =
     (case map_of (rg_cache g) start of
        Some hit \<Rightarrow> (hit, g)
      | None \<Rightarrow>
          (let scope = compute g start
           in (scope, ReachGraph (rg_tables g) (rg_base g) (rg_overlay g)
                        (AList.update start scope (rg_cache g)))))"

end
