(* ===== verification/Reach_Scope.thy ===== *)
theory Reach_Scope
  imports Reach_Graph
begin

text \<open>
  What the scope computed by \<open>ReachGraph::compute\<close> means. The specification is the pair of
  closures \<open>strong_path\<close> (paths of exact edges) and \<open>any_path\<close> (all edges) of the layered
  graph. The theory shows that the search is sound and bounded, that a closed scope is exactly
  the two closures, that the memo table is transparent, and what the package search keeps.
\<close>

section \<open>The closures a scope approximates\<close>

inductive strong_path :: "reach_graph \<Rightarrow> string \<Rightarrow> string \<Rightarrow> bool" for g s where
  strong_start: "strong_path g s s"
| strong_step:
    "strong_path g s a \<Longrightarrow> edges_for g a = Some es \<Longrightarrow> e \<in> set es \<Longrightarrow>
       is_strong_resolution (re_resolution e) \<Longrightarrow> strong_path g s (re_target e)"

inductive any_path :: "reach_graph \<Rightarrow> string \<Rightarrow> string \<Rightarrow> bool" for g s where
  any_start: "any_path g s s"
| any_step:
    "any_path g s a \<Longrightarrow> edges_for g a = Some es \<Longrightarrow> e \<in> set es \<Longrightarrow> any_path g s (re_target e)"

lemmas path_intros = strong_path.intros any_path.intros

lemma strong_path_any: "strong_path g s a \<Longrightarrow> any_path g s a"
  by (induction rule: strong_path.induct) (auto intro: any_path.intros)

section \<open>The edge loop\<close>

text \<open>The reason is recorded exactly when the scope is open.\<close>

definition scan_reasoned :: "scan_state \<Rightarrow> bool" where
  "scan_reasoned st \<longleftrightarrow> (sc_reason st \<noteq> None \<longleftrightarrow> sc_open st)"

definition scan_wf :: "scan_state \<Rightarrow> bool" where
  "scan_wf st \<longleftrightarrow>
     distinct (sc_files st) \<and> distinct (sc_heuristic_files st) \<and>
     set (sc_files st) \<inter> set (sc_heuristic_files st) = {} \<and>
     length (sc_files st) + length (sc_heuristic_files st) \<le> MAX_REACH_NODES \<and> scan_reasoned st"

definition scan_nodes :: "scan_state \<Rightarrow> string set" where
  "scan_nodes st = set (sc_files st) \<union> set (sc_heuristic_files st)"

lemma scan_nodes_mark [simp]:
  "scan_nodes (mark_open c st) = scan_nodes st"
  "scan_nodes (mark_open_opt r st) = scan_nodes st"
  by (simp_all add: scan_nodes_def)

lemma scan_reasoned_mark [simp]:
  "scan_reasoned (mark_open c st)"
  "scan_reasoned st \<Longrightarrow> scan_reasoned (mark_open_opt r st)"
  by (auto simp: scan_reasoned_def mark_open_def mark_open_opt_def split: option.splits)

lemma sc_open_mark [simp]:
  "sc_open (mark_open c st)"
  "sc_open (mark_open_opt r st) \<longleftrightarrow> sc_open st \<or> r \<noteq> None"
  by (auto simp: mark_open_def mark_open_opt_def split: option.splits)

lemma scan_wf_mark [simp]:
  "scan_wf st \<Longrightarrow> scan_wf (mark_open c st)"
  "scan_wf st \<Longrightarrow> scan_wf (mark_open_opt r st)"
  by (simp_all add: scan_wf_def)

lemma insert_target_wf:
  assumes "scan_wf st" "\<not> node_limit_hit t st" "insert_target t h st = (True, st')"
  shows "scan_wf st'"
proof (cases "t \<in> set (sc_heuristic_files st)")
  case True
  then obtain n where "length (sc_heuristic_files st) = Suc n"
    by (cases "sc_heuristic_files st") auto
  with assms True show ?thesis
    by (auto simp: scan_wf_def insert_target_def length_remove1 scan_reasoned_def
        split: if_splits)
next
  case False
  with assms show ?thesis
    by (auto simp: scan_wf_def insert_target_def node_limit_hit_def scan_reasoned_def remove1_idem
        split: if_splits)
qed

lemma insert_target_effect:
  assumes "scan_wf st" "insert_target t h st = (True, st')"
  shows "scan_nodes st' = insert t (scan_nodes st)"
    and "set (sc_files st') = (if h then set (sc_files st) else insert t (set (sc_files st)))"
    and "sc_open st' = sc_open st"
    and "t \<notin> set (sc_files st)"
  using assms by (auto simp: scan_wf_def insert_target_def scan_nodes_def split: if_splits)

lemma insert_target_known:
  assumes "insert_target t h st = (False, st')"
  shows "t \<in> scan_nodes st" "\<not> h \<Longrightarrow> t \<in> set (sc_files st)"
  using assms by (auto simp: insert_target_def scan_nodes_def split: if_splits)

text \<open>An invariant of the loop body is an invariant of the loop.\<close>

lemma scan_edges_preserves:
  assumes "P st q"
    and "\<And>st q. P st q \<Longrightarrow> P (mark_open NodeLimit st) q"
    and "\<And>st q e st'. P st q \<Longrightarrow> e \<in> set es \<Longrightarrow> \<not> node_limit_hit (re_target e) st \<Longrightarrow>
           insert_target (re_target e) (h \<or> \<not> is_strong_resolution (re_resolution e)) st
             = (True, st') \<Longrightarrow>
           P (mark_open_opt (r (re_target e)) st')
             (q @ [(re_target e, d + 1, h \<or> \<not> is_strong_resolution (re_resolution e))])"
    and "scan_edges r d h es (st, q) = (st'', q'')"
  shows "P st'' q''"
  using assms
proof (induction es arbitrary: st q)
  case (Cons e es)
  let ?i = "insert_target (re_target e) (h \<or> \<not> is_strong_resolution (re_resolution e)) st"
  note run = Cons.prems(4) [unfolded scan_edges_Cons Let_def]
  note IH = Cons.IH [OF _ Cons.prems(2) Cons.prems(3)]
  consider "node_limit_hit (re_target e) st"
    | st' where "\<not> node_limit_hit (re_target e) st" "?i = (True, st')"
    | st' where "\<not> node_limit_hit (re_target e) st" "?i = (False, st')"
    by (cases ?i) (metis (full_types))
  then show ?case
  proof cases
    case 1
    with run Cons.prems(1,2) show ?thesis by auto
  next
    case 2
    with run show ?thesis
      using IH [OF Cons.prems(3) [OF Cons.prems(1) _ 2]] by simp
  next
    case 3
    with run show ?thesis using IH [OF Cons.prems(1)] by simp
  qed
qed simp

lemma scan_edges_wf:
  "scan_wf st \<Longrightarrow> scan_edges r d h es (st, q) = (st', q') \<Longrightarrow> scan_wf st'"
  by (rule scan_edges_preserves [where P = "\<lambda>st q. scan_wf st"])
    (auto intro!: scan_wf_mark(2) intro: insert_target_wf)

text \<open>What one run of the loop keeps: nodes and strong nodes only grow, the scope is never
  closed again, and whatever is new is queued with the flag it was reached with.\<close>

definition scan_extends ::
  "(string \<Rightarrow> open_reason option) \<Rightarrow> scan_state \<times> file_queue \<Rightarrow> scan_state \<times> file_queue \<Rightarrow> bool" where
  "scan_extends r = (\<lambda>(st, q) (st', q').
     set (sc_files st) \<subseteq> set (sc_files st') \<and> scan_nodes st \<subseteq> scan_nodes st' \<and>
     (sc_open st \<longrightarrow> sc_open st') \<and> set q \<subseteq> set q' \<and>
     (\<forall>f \<in> set (sc_files st') - set (sc_files st). \<exists>d. (f, d, False) \<in> set q') \<and>
     (\<forall>f \<in> scan_nodes st' - scan_nodes st. f \<notin> set (sc_files st') \<longrightarrow> (\<exists>d. (f, d, True) \<in> set q')) \<and>
     (\<not> sc_open st' \<longrightarrow> (\<forall>f \<in> scan_nodes st' - scan_nodes st. r f = None)))"

lemma scan_extends_refl: "scan_extends r p p"
  by (auto simp: scan_extends_def)

lemma scan_extends_insert:
  assumes ext: "scan_extends r p (st, q)" and "scan_wf st"
    and ins: "insert_target t h st = (True, st')"
  shows "scan_extends r p (mark_open_opt (r t) st', q @ [(t, d, h)])"
proof -
  obtain st0 q0 where p: "p = (st0, q0)" by (cases p)
  note eff = insert_target_effect [OF assms(2) ins]
  show ?thesis
    using ext unfolding p scan_extends_def
    by (auto simp: eff(1-3) split: if_splits)
qed

lemma scan_edges_extends:
  assumes "scan_wf st" "scan_edges r d h es (st, q) = (st', q')"
  shows "scan_extends r (st, q) (st', q')"
proof -
  have "scan_wf st' \<and> scan_extends r (st, q) (st', q')"
  proof (rule scan_edges_preserves
      [where P = "\<lambda>s u. scan_wf s \<and> scan_extends r (st, q) (s, u)", OF _ _ _ assms(2)])
    show "scan_wf st \<and> scan_extends r (st, q) (st, q)"
      using assms(1) scan_extends_refl by blast
  next
    fix s u assume "scan_wf s \<and> scan_extends r (st, q) (s, u)"
    then show "scan_wf (mark_open NodeLimit s) \<and> scan_extends r (st, q) (mark_open NodeLimit s, u)"
      by (auto simp: scan_extends_def)
  qed (use insert_target_wf scan_extends_insert in \<open>fastforce simp del: scan_edges.simps\<close>)
  then show ?thesis ..
qed

text \<open>A loop that stays closed has handled every edge.\<close>

lemma scan_edges_covers:
  assumes "scan_wf st" "scan_edges r d h es (st, q) = (st', q')" "\<not> sc_open st'" "e \<in> set es"
  shows "re_target e \<in> scan_nodes st' \<and>
    (\<not> h \<and> is_strong_resolution (re_resolution e) \<longrightarrow> re_target e \<in> set (sc_files st'))"
  using assms
proof (induction es arbitrary: st q)
  case (Cons x es)
  let ?h = "h \<or> \<not> is_strong_resolution (re_resolution x)"
  obtain b s1 where i: "insert_target (re_target x) ?h st = (b, s1)"
    by (cases "insert_target (re_target x) ?h st")
  define s2 u where
    "s2 = (if b then mark_open_opt (r (re_target x)) s1 else st)" and
    "u = (if b then q @ [(re_target x, d + 1, ?h)] else q)"
  have lim: "\<not> node_limit_hit (re_target x) st"
  proof
    assume "node_limit_hit (re_target x) st"
    with Cons.prems(2) have "st' = mark_open NodeLimit st" by (simp add: scan_edges_Cons)
    with Cons.prems(3) show False by simp
  qed
  with Cons.prems(2) i have run: "scan_edges r d h es (s2, u) = (st', q')"
    by (simp add: scan_edges_Cons s2_def u_def Let_def split: if_splits)
  have wf: "scan_wf s2"
    using insert_target_wf [OF Cons.prems(1) lim, of ?h] i Cons.prems(1) by (auto simp: s2_def)
  have x: "re_target x \<in> scan_nodes s2 \<and> (\<not> ?h \<longrightarrow> re_target x \<in> set (sc_files s2))"
  proof (cases b)
    case True
    with i insert_target_effect [OF Cons.prems(1)] show ?thesis by (simp add: s2_def)
  next
    case False
    with i have "insert_target (re_target x) ?h st = (False, s1)" by simp
    from insert_target_known [OF this] False show ?thesis by (simp add: s2_def)
  qed
  have "scan_nodes s2 \<subseteq> scan_nodes st'" "set (sc_files s2) \<subseteq> set (sc_files st')"
    using scan_edges_extends [OF wf run] by (auto simp: scan_extends_def)
  with x Cons.IH [OF wf run Cons.prems(3)] Cons.prems(4) show ?case by auto
qed simp

section \<open>The search\<close>

definition scan_sound :: "reach_graph \<Rightarrow> string \<Rightarrow> scan_state \<Rightarrow> file_queue \<Rightarrow> bool" where
  "scan_sound g s st q \<longleftrightarrow>
     scan_wf st \<and> (\<forall>f \<in> set (sc_files st). strong_path g s f) \<and>
     (\<forall>f \<in> scan_nodes st. any_path g s f) \<and>
     (\<forall>(n, d, h) \<in> set q. n \<in> scan_nodes st \<and> (\<not> h \<longrightarrow> n \<in> set (sc_files st)))"

lemma insert_target_sound:
  assumes "scan_sound g s st q" "\<not> node_limit_hit t st" "insert_target t h st = (True, st')"
    and "any_path g s t" "\<not> h \<Longrightarrow> strong_path g s t"
  shows "scan_sound g s (mark_open_opt r st') (q @ [(t, d, h)])"
proof -
  have wf: "scan_wf st" using assms(1) by (simp add: scan_sound_def)
  note eff = insert_target_effect [OF wf assms(3)]
  show ?thesis
    using assms insert_target_wf [OF wf assms(2,3)]
    unfolding scan_sound_def scan_nodes_mark scan_state_mark eff(1,2)
    by (auto split: if_splits)
qed

lemma scan_edges_sound:
  assumes "scan_sound g s st q" "scan_edges r d h es (st, q) = (st', q')"
    and "edges_for g n = Some es" "any_path g s n" "\<not> h \<Longrightarrow> strong_path g s n"
  shows "scan_sound g s st' q'"
proof (rule scan_edges_preserves [where P = "scan_sound g s", OF assms(1) _ _ assms(2)])
  fix st q assume "scan_sound g s st q"
  then show "scan_sound g s (mark_open NodeLimit st) q" by (simp add: scan_sound_def)
next
  fix st q e st'
  assume "scan_sound g s st q" "e \<in> set es" "\<not> node_limit_hit (re_target e) st"
    and "insert_target (re_target e) (h \<or> \<not> is_strong_resolution (re_resolution e)) st = (True, st')"
  then show "scan_sound g s (mark_open_opt (r (re_target e)) st')
      (q @ [(re_target e, d + 1, h \<or> \<not> is_strong_resolution (re_resolution e))])"
    using assms(3-5) by (intro insert_target_sound) (auto intro: path_intros)
qed

definition closed_node :: "reach_graph \<Rightarrow> scan_state \<Rightarrow> string \<Rightarrow> bool" where
  "closed_node g st n \<longleftrightarrow>
     (\<forall>es e. edges_for g n = Some es \<longrightarrow> e \<in> set es \<longrightarrow> re_target e \<in> scan_nodes st)"

definition closed_strong :: "reach_graph \<Rightarrow> scan_state \<Rightarrow> string \<Rightarrow> bool" where
  "closed_strong g st n \<longleftrightarrow>
     (\<forall>es e. edges_for g n = Some es \<longrightarrow> e \<in> set es \<longrightarrow>
        is_strong_resolution (re_resolution e) \<longrightarrow> re_target e \<in> set (sc_files st))"

text \<open>While the scope is closed, every node found is determinate and is either still queued or
  has all its edges inside the scope.\<close>

definition scan_complete :: "reach_graph \<Rightarrow> scan_state \<Rightarrow> file_queue \<Rightarrow> bool" where
  "scan_complete g st q \<longleftrightarrow>
     (\<not> sc_open st \<longrightarrow>
        (\<forall>f \<in> scan_nodes st. open_reason_of g f = None) \<and>
        (\<forall>f \<in> scan_nodes st. (\<exists>d h. (f, d, h) \<in> set q) \<or> closed_node g st f) \<and>
        (\<forall>f \<in> set (sc_files st). (\<exists>d. (f, d, False) \<in> set q) \<or> closed_strong g st f))"

lemma scan_complete_step:
  assumes comp: "scan_complete g st ((n, d, h) # q)" and wf: "scan_wf st"
    and es: "edges_for g n = Some es"
    and run: "scan_edges (open_reason_of g) d h es (st, q) = (st', q')"
  shows "scan_complete g st' q'"
  unfolding scan_complete_def
proof (intro impI conjI ballI)
  assume op: "\<not> sc_open st'"
  note ext = scan_edges_extends [OF wf run, unfolded scan_extends_def prod.case]
  note cov = scan_edges_covers [OF wf run op]
  have op0: "\<not> sc_open st" using ext op by blast
  note comp = comp [unfolded scan_complete_def, rule_format, OF op0]
  have closed: "closed_node g st f \<Longrightarrow> closed_node g st' f" for f
    using ext by (auto simp: closed_node_def)
  have closed_s: "closed_strong g st f \<Longrightarrow> closed_strong g st' f" for f
    using ext by (auto simp: closed_strong_def)
  have n: "closed_node g st' n" "\<not> h \<Longrightarrow> closed_strong g st' n"
    using es cov by (auto simp: closed_node_def closed_strong_def)
  {
    fix f assume f: "f \<in> scan_nodes st'"
    then show "open_reason_of g f = None" using ext op comp by blast
    show "(\<exists>d h. (f, d, h) \<in> set q') \<or> closed_node g st' f"
    proof (cases "f \<in> scan_nodes st")
      case True
      then have "(\<exists>d h. (f, d, h) \<in> set q) \<or> f = n \<or> closed_node g st f"
        using comp by fastforce
      then show ?thesis using ext n closed by blast
    next
      case False
      then have "f \<notin> set (sc_files st)" by (simp add: scan_nodes_def)
      with False f show ?thesis using ext by blast
    qed
  next
    fix f assume f: "f \<in> set (sc_files st')"
    show "(\<exists>d. (f, d, False) \<in> set q') \<or> closed_strong g st' f"
    proof (cases "f \<in> set (sc_files st)")
      case True
      then have "(\<exists>d. (f, d, False) \<in> set q) \<or> (f = n \<and> \<not> h) \<or> closed_strong g st f"
        using comp by fastforce
      then show ?thesis using ext n closed_s by blast
    next
      case False
      with f show ?thesis using ext by blast
    qed
  }
qed

lemma file_loop_sound:
  "scan_sound g s st q \<Longrightarrow> scan_sound g s (file_loop g st q) []"
proof (induction g st q rule: file_loop.induct)
  case (1 g st)
  then show ?case by simp
next
  case (2 g st n d h q)
  then have tail: "scan_sound g s st q" and n: "any_path g s n" "\<not> h \<Longrightarrow> strong_path g s n"
    by (auto simp: scan_sound_def)
  consider "d \<ge> MAX_REACH_DEPTH" | "\<not> d \<ge> MAX_REACH_DEPTH" "edges_for g n = None"
    | es where "\<not> d \<ge> MAX_REACH_DEPTH" "edges_for g n = Some es" by fastforce
  then show ?case
  proof cases
    case 1
    from tail have "scan_sound g s (mark_open DepthLimit st) q" by (simp add: scan_sound_def)
    from 2(1) [OF 1 this] 1 show ?thesis by simp
  next
    case c: 2
    from 2(2) [OF c tail] c show ?thesis by simp
  next
    case 3
    obtain st' q' where run: "scan_edges (open_reason_of g) d h es (st, q) = (st', q')" by fastforce
    from 2(3) [OF 3 _ _ scan_edges_sound [OF tail run 3(2) n]] run 3 show ?thesis by simp
  qed
qed

lemma file_loop_complete:
  "scan_sound g s st q \<Longrightarrow> scan_complete g st q \<Longrightarrow> scan_complete g (file_loop g st q) []"
proof (induction g st q rule: file_loop.induct)
  case (1 g st)
  then show ?case by simp
next
  case (2 g st n d h q)
  then have tail: "scan_sound g s st q" and n: "any_path g s n" "\<not> h \<Longrightarrow> strong_path g s n"
    and wf: "scan_wf st"
    by (auto simp: scan_sound_def)
  consider "d \<ge> MAX_REACH_DEPTH" | "\<not> d \<ge> MAX_REACH_DEPTH" "edges_for g n = None"
    | es where "\<not> d \<ge> MAX_REACH_DEPTH" "edges_for g n = Some es" by fastforce
  then show ?case
  proof cases
    case 1
    from tail have "scan_sound g s (mark_open DepthLimit st) q" by (simp add: scan_sound_def)
    from 2(1) [OF 1 this] 1 show ?thesis by (simp add: scan_complete_def)
  next
    case c: 2
    then have "closed_node g st n" "closed_strong g st n"
      by (auto simp: closed_node_def closed_strong_def)
    with 2(5) have "scan_complete g st q" by (fastforce simp: scan_complete_def)
    from 2(2) [OF c tail this] c show ?thesis by simp
  next
    case 3
    obtain st' q' where run: "scan_edges (open_reason_of g) d h es (st, q) = (st', q')" by fastforce
    from 2(3) [OF 3 _ _ scan_edges_sound [OF tail run 3(2) n]
        scan_complete_step [OF 2(5) wf 3(2) run]] run 3
    show ?thesis by simp
  qed
qed

lemma complete_closure:
  assumes "scan_complete g st []" "\<not> sc_open st"
  shows "s \<in> scan_nodes st \<Longrightarrow> any_path g s f \<Longrightarrow> f \<in> scan_nodes st"
    and "s \<in> set (sc_files st) \<Longrightarrow> strong_path g s f \<Longrightarrow> f \<in> set (sc_files st)"
proof -
  note c = assms(1) [unfolded scan_complete_def, rule_format, OF assms(2)]
  show "s \<in> scan_nodes st \<Longrightarrow> f \<in> scan_nodes st" if "any_path g s f"
    using that by (induction rule: any_path.induct) (use c in \<open>auto simp: closed_node_def\<close>)
  show "s \<in> set (sc_files st) \<Longrightarrow> f \<in> set (sc_files st)" if "strong_path g s f"
    using that by (induction rule: strong_path.induct) (use c in \<open>auto simp: closed_strong_def\<close>)
qed

text \<open>The state the search over files ends in.\<close>

definition final_scan :: "reach_graph \<Rightarrow> string \<Rightarrow> scan_state" where
  "final_scan g start =
     file_loop g (mark_open_opt (open_reason_of g start)
       \<lparr> sc_files = [start], sc_heuristic_files = [], sc_open = False, sc_reason = None \<rparr>)
       [(start, 0, False)]"

lemma compute_file:
  "package_for_file g start = None \<Longrightarrow>
     compute g start = \<lparr> rs_files = set (sc_files (final_scan g start)),
       rs_heuristic_files = set (sc_heuristic_files (final_scan g start)),
       rs_open = sc_open (final_scan g start), rs_reason = sc_reason (final_scan g start) \<rparr>"
  by (simp add: compute_def final_scan_def Let_def del: file_loop.simps)

lemma initial_scan:
  "scan_sound g s (mark_open_opt (open_reason_of g s)
     \<lparr> sc_files = [s], sc_heuristic_files = [], sc_open = False, sc_reason = None \<rparr>)
     [(s, 0, False)]"
  "scan_complete g (mark_open_opt (open_reason_of g s)
     \<lparr> sc_files = [s], sc_heuristic_files = [], sc_open = False, sc_reason = None \<rparr>)
     [(s, 0, False)]"
proof -
  have "scan_wf \<lparr> sc_files = [s], sc_heuristic_files = [], sc_open = False, sc_reason = None \<rparr>"
    by (simp add: scan_wf_def MAX_REACH_NODES_def scan_reasoned_def)
  then show "scan_sound g s (mark_open_opt (open_reason_of g s)
     \<lparr> sc_files = [s], sc_heuristic_files = [], sc_open = False, sc_reason = None \<rparr>)
     [(s, 0, False)]"
    by (auto simp: scan_sound_def intro: path_intros) (auto simp: scan_nodes_def intro: path_intros)
qed (auto simp: scan_complete_def scan_nodes_def)

lemma final_scan_sound: "scan_sound g s (final_scan g s) []"
  unfolding final_scan_def by (intro file_loop_sound initial_scan)

lemma final_scan_complete: "scan_complete g (final_scan g s) []"
  unfolding final_scan_def by (rule file_loop_complete [OF initial_scan])

lemma file_loop_extends:
  "scan_sound g s st q \<Longrightarrow> set (sc_files st) \<subseteq> set (sc_files (file_loop g st q))"
proof (induction g st q rule: file_loop.induct)
  case (1 g st)
  then show ?case by simp
next
  case (2 g st n d h q)
  then have tail: "scan_sound g s st q" and n: "any_path g s n" "\<not> h \<Longrightarrow> strong_path g s n"
    and wf: "scan_wf st"
    by (auto simp: scan_sound_def)
  consider "d \<ge> MAX_REACH_DEPTH" | "\<not> d \<ge> MAX_REACH_DEPTH" "edges_for g n = None"
    | es where "\<not> d \<ge> MAX_REACH_DEPTH" "edges_for g n = Some es" by fastforce
  then show ?case
  proof cases
    case 1
    from tail have "scan_sound g s (mark_open DepthLimit st) q" by (simp add: scan_sound_def)
    from 2(1) [OF 1 this] 1 show ?thesis by simp
  next
    case c: 2
    from 2(2) [OF c tail] c show ?thesis by simp
  next
    case 3
    obtain st' q' where run: "scan_edges (open_reason_of g) d h es (st, q) = (st', q')" by fastforce
    have "set (sc_files st) \<subseteq> set (sc_files st')"
      using scan_edges_extends [OF wf run] by (simp add: scan_extends_def)
    with 2(3) [OF 3 _ _ scan_edges_sound [OF tail run 3(2) n]] run 3 show ?thesis by auto
  qed
qed

lemma start_in_final_scan: "s \<in> set (sc_files (final_scan g s))"
  using file_loop_extends [OF initial_scan(1), of g s] by (simp add: final_scan_def)

lemma closed_scan_closures:
  assumes "\<not> sc_open (final_scan g s)"
  shows "set (sc_files (final_scan g s)) = {f. strong_path g s f}"
    and "scan_nodes (final_scan g s) = {f. any_path g s f}"
proof -
  note closure = complete_closure [OF final_scan_complete assms]
  show "set (sc_files (final_scan g s)) = {f. strong_path g s f}"
    using closure(2) [OF start_in_final_scan] final_scan_sound [of g s]
    unfolding scan_sound_def by blast
  have "s \<in> scan_nodes (final_scan g s)" using start_in_final_scan by (simp add: scan_nodes_def)
  then show "scan_nodes (final_scan g s) = {f. any_path g s f}"
    using closure(1) final_scan_sound [of g s] unfolding scan_sound_def by blast
qed

section \<open>What a scope says\<close>

text \<open>C2. The reachable scope of a file outside the Go packages is sound and bounded. The start
  file is in the strong set; every strong file is connected to the start by exact include edges
  only and every heuristic file by include edges; the two sets are disjoint and hold at most
  4096 files together; and a reason is recorded exactly when the scope is open.\<close>

theorem reach_scope_sound:
  assumes "package_for_file g start = None"
  shows "start \<in> rs_files (compute g start) \<and>
    rs_files (compute g start) \<subseteq> {f. strong_path g start f} \<and>
    rs_heuristic_files (compute g start) \<subseteq> {f. any_path g start f} \<and>
    rs_files (compute g start) \<inter> rs_heuristic_files (compute g start) = {} \<and>
    card (rs_files (compute g start)) + card (rs_heuristic_files (compute g start)) \<le> 4096 \<and>
    (rs_reason (compute g start) \<noteq> None \<longleftrightarrow> rs_open (compute g start))"
  using start_in_final_scan [of start g] final_scan_sound [of g start]
  unfolding compute_file [OF assms]
  by (auto simp: scan_sound_def scan_wf_def scan_reasoned_def scan_nodes_def distinct_card
      MAX_REACH_NODES_def)

text \<open>C1. A closed scope is complete: the strong set is exactly the set of files reachable by
  exact edges, the two sets together are exactly the files reachable by any edges, so a heuristic
  file of a closed scope has no exact path, and no file reached has an unresolved or ambiguous
  include.\<close>

theorem closed_scope_exact:
  assumes "package_for_file g start = None" "\<not> rs_open (compute g start)"
  shows "rs_files (compute g start) = {f. strong_path g start f} \<and>
    rs_files (compute g start) \<union> rs_heuristic_files (compute g start) = {f. any_path g start f} \<and>
    (\<forall>f. any_path g start f \<longrightarrow> open_reason_of g f = None)"
proof -
  have "open_reason_of g f = None" if "any_path g start f" for f
    using final_scan_complete [of g start] assms that closed_scan_closures(2) [of g start]
    by (auto simp: scan_complete_def compute_file)
  then show ?thesis
    using assms closed_scan_closures [of g start] by (simp add: compute_file scan_nodes_def)
qed

section \<open>The memo table\<close>

text \<open>The searches read the graph only through its lookups, and an absent entry is the same as
  an empty one.\<close>

definition out_edges :: "reach_graph \<Rightarrow> string \<Rightarrow> reach_edge list" where
  "out_edges g n = (case edges_for g n of None \<Rightarrow> [] | Some es \<Rightarrow> es)"

definition same_files :: "reach_graph \<Rightarrow> reach_graph \<Rightarrow> bool" where
  "same_files g g' \<longleftrightarrow> out_edges g = out_edges g' \<and> open_reason_of g = open_reason_of g'"

definition same_packages :: "reach_graph \<Rightarrow> reach_graph \<Rightarrow> bool" where
  "same_packages g g' \<longleftrightarrow>
     package_for_file g = package_for_file g' \<and> package_edges_for g = package_edges_for g' \<and>
     open_package_reason g = open_package_reason g' \<and>
     files_for_package_bounded g = files_for_package_bounded g'"

lemma file_loop_out_edges:
  "file_loop g st ((n, d, h) # q) =
     (if d \<ge> MAX_REACH_DEPTH then file_loop g (mark_open DepthLimit st) q
      else (case scan_edges (open_reason_of g) d h (out_edges g n) (st, q) of
              (st', q') \<Rightarrow> file_loop g st' q'))"
  by (simp add: out_edges_def split: option.split)

lemma file_loop_cong: "same_files g g' \<Longrightarrow> file_loop g st q = file_loop g' st q"
proof (induction g st q rule: file_loop.induct)
  case (2 g st n d h q)
  have "file_loop g st' q' = file_loop g' st' q'"
    if "\<not> d \<ge> MAX_REACH_DEPTH"
      "scan_edges (open_reason_of g) d h (out_edges g n) (st, q) = (st', q')" for st' q'
    using that 2(2,3) [OF that(1)] 2(4) by (cases "edges_for g n") (auto simp: out_edges_def)
  then show ?case
    using 2(1,4) unfolding file_loop_out_edges same_files_def
    by (auto split: prod.split)
qed simp

lemma package_loop_cong: "same_packages g g' \<Longrightarrow> package_loop g ps q = package_loop g' ps q"
proof (induction g ps q rule: package_loop.induct)
  case (2 g ps p d h q)
  then show ?case
    unfolding package_loop.simps(2)
    by (simp add: same_packages_def Let_def split: prod.splits)
qed simp

lemma compute_cong: "same_files g g' \<Longrightarrow> same_packages g g' \<Longrightarrow> compute g s = compute g' s"
  using file_loop_cong [of g g'] package_loop_cong [of g g']
  by (simp add: compute_def compute_package_def same_packages_def same_files_def
      del: file_loop.simps package_loop.simps split: option.split)

lemma lookups_ignore_cache:
  "same_files (ReachGraph t b ov c) (ReachGraph t b ov c')"
  "same_packages (ReachGraph t b ov c) (ReachGraph t b ov c')"
proof -
  have p: "package_for_file (ReachGraph t b ov c) = package_for_file (ReachGraph t b ov c')"
    by (rule ext) simp
  show "same_packages (ReachGraph t b ov c) (ReachGraph t b ov c')"
    unfolding same_packages_def
    by (intro conjI p ext)
      (simp_all only: package_edges_for.simps open_package_reason.simps,
       unfold files_for_package_bounded.simps p, rule refl)
qed (simp add: same_files_def out_edges_def fun_eq_iff)

lemma compute_ignores_cache: "compute (ReachGraph t b ov c) s = compute (ReachGraph t b ov c') s"
  by (intro compute_cong lookups_ignore_cache)

definition cache_ok :: "reach_graph \<Rightarrow> bool" where
  "cache_ok g \<longleftrightarrow> (\<forall>s scope. map_of (rg_cache g) s = Some scope \<longrightarrow> scope = compute g s)"

inductive published :: "reach_graph \<Rightarrow> bool" where
  published_rows: "published (from_rows_with_packages es us as fs ps os)"
| published_refresh: "published g \<Longrightarrow> published (with_refreshed_sources_from_rows g ss es os)"
| published_overlay: "published g \<Longrightarrow> published (with_request_overrides g ss es os gs)"
| published_query: "published g \<Longrightarrow> published (snd (reachable g s))"

lemma reachable_cache_ok: "cache_ok g \<Longrightarrow> cache_ok (snd (reachable g s))"
  by (cases g)
    (auto simp: reachable_def cache_ok_def Let_def split: option.splits if_splits
      intro: compute_ignores_cache)

lemma published_cache_ok: "published g \<Longrightarrow> cache_ok g"
proof (induction rule: published.induct)
  case (published_query g s)
  then show ?case by (rule_tac reachable_cache_ok)
qed (simp_all add: cache_ok_def from_rows_with_packages_def with_refreshed_sources_from_rows_def
    refresh_sources_from_rows_def refresh_sources_with_kinds_def with_request_overrides_def Let_def
    split: prod.split)

lemma reachable_fst: "published g \<Longrightarrow> fst (reachable g start) = compute g start"
  using published_cache_ok
  by (auto simp: reachable_def cache_ok_def Let_def split: option.split)

text \<open>C30. Memoisation is transparent. Whatever queries, refreshes and request overlays led to a
  graph, \<open>reachable\<close> returns the scope that \<open>compute\<close> gives, and asking changes no later answer
  of the graph.\<close>

theorem reachable_transparent:
  assumes "published g"
  shows "fst (reachable g start) = compute g start \<and>
    compute (snd (reachable g start)) other = compute g other"
proof
  show "fst (reachable g start) = compute g start"
    by (rule reachable_fst [OF assms])
  show "compute (snd (reachable g start)) other = compute g other"
    by (cases g) (auto simp: reachable_def Let_def split: option.split intro: compute_ignores_cache)
qed

section \<open>A concrete graph\<close>

definition sample_graph :: reach_graph where
  "sample_graph =
     from_rows_with_packages
       [\<lparr> ie_source_path = ''a.c'', ie_target_path = ''x.h'', ie_resolution = SuffixMatch \<rparr>,
        \<lparr> ie_source_path = ''a.c'', ie_target_path = ''a.h'', ie_resolution = RelativeExact \<rparr>,
        \<lparr> ie_source_path = ''a.h'', ie_target_path = ''y.h'', ie_resolution = WorkspaceExact \<rparr>,
        \<lparr> ie_source_path = ''y.h'', ie_target_path = ''a.h'', ie_resolution = RelativeExact \<rparr>]
       [\<lparr> oi_source_path = ''b.c'', oi_reason = UnresolvedInclude \<rparr>] [] [] [] []"

lemma sample_scope:
  "compute sample_graph ''a.c'' =
     \<lparr> rs_files = {''a.c'', ''a.h'', ''y.h''}, rs_heuristic_files = {''x.h''}, rs_open = False,
       rs_reason = None \<rparr>"
  by code_simp

lemma sample_package: "package_for_file sample_graph ''a.c'' = None"
  by code_simp

theorem reach_scope_sound_witness:
  "package_for_file sample_graph ''a.c'' = None \<and> strong_path sample_graph ''a.c'' ''y.h''"
  using reach_scope_sound [OF sample_package] sample_package by (simp add: sample_scope)

theorem closed_scope_exact_witness:
  "package_for_file sample_graph ''a.c'' = None \<and> \<not> rs_open (compute sample_graph ''a.c'') \<and>
   {f. strong_path sample_graph ''a.c'' f} = {''a.c'', ''a.h'', ''y.h''} \<and>
   {f. any_path sample_graph ''a.c'' f} = {''a.c'', ''a.h'', ''y.h'', ''x.h''}"
proof -
  have op: "\<not> rs_open (compute sample_graph ''a.c'')" by (simp add: sample_scope)
  have u: "{''a.c'', ''a.h'', ''y.h''} \<union> {''x.h''} = {''a.c'', ''a.h'', ''y.h'', ''x.h''}" by blast
  from closed_scope_exact [OF sample_package op]
  have "{''a.c'', ''a.h'', ''y.h''} = {f. strong_path sample_graph ''a.c'' f}"
    "{''a.c'', ''a.h'', ''y.h'', ''x.h''} = {f. any_path sample_graph ''a.c'' f}"
    by (simp_all only: sample_scope reach_scope.simps u)
  with op sample_package show ?thesis by blast
qed

theorem reachable_transparent_witness:
  "published sample_graph \<and>
   fst (reachable (snd (reachable sample_graph ''a.c'')) ''a.c'') = compute sample_graph ''a.c''"
proof -
  have p: "published sample_graph" by (simp add: sample_graph_def published_rows)
  from reachable_transparent [OF published_query [OF p], of "''a.c''" "''a.c''"]
    reachable_transparent [OF p, of "''a.c''" "''a.c''"] p
  show ?thesis by simp
qed

end
