(* ===== verification/Reach_Packages.thy ===== *)
theory Reach_Packages
  imports Reach_Scope
begin

text \<open>
  The search over Go packages, \<open>ReachGraph::compute_package\<close>. A package is visited once; its
  files enter the scope with the confidence of the path it was first reached by. The theory
  shows soundness, the bounds and completeness of a closed scope over the package graph, and
  that the single visit can leave a file heuristic although an exact path exists.
\<close>

section \<open>The members of a package\<close>

definition package_members :: "reach_graph \<Rightarrow> string \<Rightarrow> string set" where
  "package_members g p = {f. \<exists>n. f \<in> set (fst (files_for_package_bounded g p n))}"

lemma push_base_files_result:
  "push_base_files eff p ov limit paths (files, b) = (files', b') \<Longrightarrow>
     set files \<subseteq> set files' \<and>
     set files' \<subseteq> set files \<union> {f \<in> set paths. eff f = Some p \<and> f \<notin> set ov} \<and>
     (b \<longrightarrow> b') \<and>
     (\<not> b' \<longrightarrow> {f \<in> set paths. eff f = Some p \<and> f \<notin> set ov} \<subseteq> set files')"
proof (induction paths arbitrary: files b)
  case (Cons x paths)
  consider "eff x \<noteq> Some p \<or> x \<in> set ov"
    | "\<not> (eff x \<noteq> Some p \<or> x \<in> set ov)" "length files \<ge> limit"
    | "\<not> (eff x \<noteq> Some p \<or> x \<in> set ov)" "\<not> length files \<ge> limit" by blast
  then show ?case
  proof cases
    case 1
    with Cons.prems have "push_base_files eff p ov limit paths (files, b) = (files', b')" by simp
    from Cons.IH [OF this] 1 show ?thesis by auto
  next
    case 2
    with Cons.prems show ?thesis by auto
  next
    case 3
    with Cons.prems have "push_base_files eff p ov limit paths (files @ [x], b) = (files', b')"
      by simp
    from Cons.IH [OF this] 3 show ?thesis by auto
  qed
qed simp

text \<open>The list of an affected package in a layered graph, as its three parts.\<close>

lemma files_for_package_overlay:
  assumes "files_for_package_bounded (ReachGraph t (Some b) (Some ov) c) p n = (fs, trunc)"
    and "p \<in> set (ov_affected_packages ov)"
  shows "set fs \<subseteq> fst ` {x \<in> set (ov_package_by_file ov). snd x = Some p} \<union>
        {f \<in> package_members b p. package_for_file (ReachGraph t (Some b) (Some ov) c) f = Some p
          \<and> f \<notin> fst ` {x \<in> set (ov_package_by_file ov). snd x = Some p}}" (is "?sub")
    and "\<not> trunc \<Longrightarrow>
        fst ` {x \<in> set (ov_package_by_file ov). snd x = Some p} \<subseteq> set fs \<and>
        (\<exists>m bfs. files_for_package_bounded b p m = (bfs, False) \<and>
          {f \<in> set bfs. package_for_file (ReachGraph t (Some b) (Some ov) c) f = Some p
            \<and> f \<notin> fst ` {x \<in> set (ov_package_by_file ov). snd x = Some p}} \<subseteq> set fs)"
proof -
  let ?ovf = "dedup (sort_by cmp_of (map fst (filter (\<lambda>(_, e). e = Some p) (ov_package_by_file ov))))"
  let ?eff = "package_for_file (ReachGraph t (Some b) (Some ov) c)"
  let ?m = "min (n + length (ov_package_by_file ov)) (2 ^ 64 - 1)"
  have ovf: "set ?ovf = fst ` {x \<in> set (ov_package_by_file ov). snd x = Some p}"
    by (auto simp: case_prod_beta)
  obtain bfs bt where b: "files_for_package_bounded b p ?m = (bfs, bt)" by fastforce
  obtain fs0 where push: "push_base_files ?eff p ?ovf n bfs (take n ?ovf, length ?ovf > n \<or> bt)
      = (fs0, trunc)" and fs: "fs = sort_by cmp_of fs0"
    using assms b by (auto simp: Let_def simp del: package_for_file.simps split: prod.splits)
  note r = push_base_files_result [OF push]
  have mem: "set bfs \<subseteq> package_members b p"
    using b by (auto simp: package_members_def) (metis fst_conv)
  have "set (take n ?ovf) \<subseteq> set ?ovf" by (rule set_take_subset)
  with r mem show ?sub unfolding fs set_sort_by ovf [symmetric] by blast
  assume "\<not> trunc"
  with r have "\<not> bt" "take n ?ovf = ?ovf" by auto
  with r \<open>\<not> trunc\<close> b show "fst ` {x \<in> set (ov_package_by_file ov). snd x = Some p} \<subseteq> set fs \<and>
      (\<exists>m bfs. files_for_package_bounded b p m = (bfs, False) \<and>
        {f \<in> set bfs. ?eff f = Some p
          \<and> f \<notin> fst ` {x \<in> set (ov_package_by_file ov). snd x = Some p}} \<subseteq> set fs)"
    unfolding fs set_sort_by ovf [symmetric] by auto
qed

text \<open>An untruncated list is the whole package.\<close>

lemma untruncated_members:
  "files_for_package_bounded g p n = (fs, False) \<Longrightarrow> set fs = package_members g p"
proof (induction g arbitrary: n fs rule: reach_graph.induct)
  case (ReachGraph t base ov c)
  have "set fs' \<subseteq> set fs"
    if "files_for_package_bounded (ReachGraph t base ov c) p m = (fs', tr)" for m fs' tr
  proof (cases base)
    case None
    with that ReachGraph.prems show ?thesis
      by (auto simp: Let_def dest!: in_set_takeD split: option.splits if_splits)
  next
    case (Some b)
    note IH = ReachGraph.IH [of b, simplified Some, simplified]
    have down: "set gs' \<subseteq> set gs" if "files_for_package_bounded b p k = (gs, False)"
      "files_for_package_bounded b p l = (gs', x)" for k l gs gs' x
      using IH [OF that(1)] that(2) by (auto simp: package_members_def) (metis fst_conv)
    show ?thesis
    proof (cases "\<exists>o'. ov = Some o' \<and> p \<in> set (ov_affected_packages o')")
      case False
      with that ReachGraph.prems Some down show ?thesis by (auto split: option.splits)
    next
      case True
      then obtain o' where o: "ov = Some o'" "p \<in> set (ov_affected_packages o')" by blast
      note sub = files_for_package_overlay(1) [OF that [unfolded Some o(1)] o(2)]
      obtain k bfs where k: "files_for_package_bounded b p k = (bfs, False)" and
        all: "{f \<in> set bfs. package_for_file (ReachGraph t (Some b) (Some o') c) f = Some p
            \<and> f \<notin> fst ` {x \<in> set (ov_package_by_file o'). snd x = Some p}} \<subseteq> set fs" and
        ovl: "fst ` {x \<in> set (ov_package_by_file o'). snd x = Some p} \<subseteq> set fs"
        using files_for_package_overlay(2) [OF ReachGraph.prems [unfolded Some o(1)] o(2)] by blast
      from sub all ovl IH [OF k] show ?thesis by blast
    qed
  qed
  then have "package_members (ReachGraph t base ov c) p \<subseteq> set fs"
    by (auto simp: package_members_def simp del: files_for_package_bounded.simps)
      (metis prod.collapse subsetD)
  then show ?case
    using ReachGraph.prems
    by (auto simp: package_members_def simp del: files_for_package_bounded.simps) (metis fst_conv)
qed

section \<open>The package graph\<close>

inductive package_path :: "reach_graph \<Rightarrow> string \<Rightarrow> string \<Rightarrow> bool" for g s where
  package_start: "package_path g s s"
| package_step:
    "package_path g s p \<Longrightarrow> package_edges_for g p = Some es \<Longrightarrow> e \<in> set es \<Longrightarrow>
       package_path g s (pe_target e)"

inductive exact_package_path :: "reach_graph \<Rightarrow> string \<Rightarrow> string \<Rightarrow> bool" for g s where
  exact_start: "exact_package_path g s s"
| exact_step:
    "exact_package_path g s p \<Longrightarrow> package_edges_for g p = Some es \<Longrightarrow> e \<in> set es \<Longrightarrow>
       \<not> pe_heuristic e \<Longrightarrow> exact_package_path g s (pe_target e)"

lemmas package_intros = package_path.intros exact_package_path.intros

definition package_out :: "reach_graph \<Rightarrow> string \<Rightarrow> package_reach_edge list" where
  "package_out g p = (case package_edges_for g p of None \<Rightarrow> [] | Some es \<Rightarrow> es)"

lemma package_out_step:
  "e \<in> set (package_out g p) \<Longrightarrow> package_path g s p \<Longrightarrow> package_path g s (pe_target e)"
  "e \<in> set (package_out g p) \<Longrightarrow> exact_package_path g s p \<Longrightarrow> \<not> pe_heuristic e \<Longrightarrow>
     exact_package_path g s (pe_target e)"
  by (cases "package_edges_for g p"; auto simp: package_out_def intro: package_intros)+

lemma scan_package_files_result:
  assumes "scan_wf st"
  shows "scan_wf (scan_package_files h fs st) \<and>
    scan_nodes st \<subseteq> scan_nodes (scan_package_files h fs st) \<and>
    scan_nodes (scan_package_files h fs st) \<subseteq> scan_nodes st \<union> set fs \<and>
    set (sc_files (scan_package_files h fs st)) \<subseteq> set (sc_files st) \<union> (if h then {} else set fs) \<and>
    (sc_open st \<longrightarrow> sc_open (scan_package_files h fs st)) \<and>
    (\<not> sc_open (scan_package_files h fs st) \<longrightarrow> set fs \<subseteq> scan_nodes (scan_package_files h fs st))"
  using assms
proof (induction fs arbitrary: st)
  case (Cons f fs)
  let ?st = "if h then (if f \<notin> set (sc_files st)
        then st\<lparr> sc_heuristic_files := List.insert f (sc_heuristic_files st) \<rparr> else st)
      else st\<lparr> sc_files := List.insert f (sc_files st),
              sc_heuristic_files := remove1 f (sc_heuristic_files st) \<rparr>"
  show ?case
  proof (cases "length (sc_files st) + length (sc_heuristic_files st) \<ge> MAX_REACH_NODES")
    case True
    with Cons.prems show ?thesis by auto
  next
    case False
    have wf: "scan_wf ?st"
      using Cons.prems False
      by (auto simp: scan_wf_def scan_reasoned_def List.insert_def length_remove1)
    have eff: "scan_nodes ?st = insert f (scan_nodes st)" "sc_open ?st = sc_open st"
      "set (sc_files ?st) \<subseteq> set (sc_files st) \<union> (if h then {} else {f})"
      using Cons.prems by (auto simp: scan_nodes_def scan_wf_def)
    have run: "scan_package_files h (f # fs) st = scan_package_files h fs ?st"
      using False by simp
    show ?thesis
      unfolding run using Cons.IH [OF wf] eff by (cases h) auto
  qed
qed (auto simp: scan_nodes_def)

lemma scan_package_edges_result:
  assumes "scan_package_edges d h es (ps, q) = (stop, ps', q')"
  shows "set (pk_seen ps) \<subseteq> set (pk_seen ps') \<and>
    set (pk_seen ps') \<subseteq> set (pk_seen ps) \<union> pe_target ` set es \<and>
    pk_scan ps' = (if stop then mark_open NodeLimit (pk_scan ps) else pk_scan ps) \<and>
    set q \<subseteq> set q' \<and>
    (\<forall>p \<in> set (pk_seen ps') - set (pk_seen ps). \<exists>d h. (p, d, h) \<in> set q') \<and>
    (\<forall>x \<in> set q' - set q. \<exists>e \<in> set es. \<exists>d. x = (pe_target e, d, h \<or> pe_heuristic e) \<and>
       pe_target e \<in> set (pk_seen ps')) \<and>
    (\<not> stop \<longrightarrow> pe_target ` set es \<subseteq> set (pk_seen ps'))"
  using assms
proof (induction es arbitrary: ps q)
  case (Cons e es)
  let ?ps = "ps\<lparr> pk_scanned := pk_scanned ps + 1 \<rparr>"
  consider (stop) "stop" "ps' = pk_mark NodeLimit ps \<or> ps' = pk_mark NodeLimit ?ps" "q' = q"
    | (fresh) "pe_target e \<notin> set (pk_seen ps)"
        "scan_package_edges d h es (?ps\<lparr> pk_seen := pk_seen ps @ [pe_target e] \<rparr>,
           q @ [(pe_target e, d + 1, h \<or> pe_heuristic e)]) = (stop, ps', q')"
    | (seen) "pe_target e \<in> set (pk_seen ps)" "scan_package_edges d h es (?ps, q) = (stop, ps', q')"
    using Cons.prems by (auto simp: Let_def split: if_splits)
  then show ?case
  proof cases
    case stop
    then show ?thesis by auto
  next
    case fresh
    from Cons.IH [OF fresh(2)] show ?thesis by (simp add: fresh(1)) blast
  next
    case seen
    from Cons.IH [OF seen(2)] seen(1) show ?thesis by simp blast
  qed
qed simp

section \<open>The search\<close>

definition package_sound :: "reach_graph \<Rightarrow> string \<Rightarrow> package_state \<Rightarrow> file_queue \<Rightarrow> bool" where
  "package_sound g s ps q \<longleftrightarrow>
     scan_wf (pk_scan ps) \<and>
     (\<forall>f \<in> set (sc_files (pk_scan ps)). \<exists>p. exact_package_path g s p \<and> f \<in> package_members g p) \<and>
     (\<forall>f \<in> scan_nodes (pk_scan ps). \<exists>p. package_path g s p \<and> f \<in> package_members g p) \<and>
     (\<forall>p \<in> set (pk_seen ps). package_path g s p) \<and>
     (\<forall>(p, d, h) \<in> set q. p \<in> set (pk_seen ps) \<and> (\<not> h \<longrightarrow> exact_package_path g s p))"

definition package_done :: "reach_graph \<Rightarrow> package_state \<Rightarrow> string \<Rightarrow> bool" where
  "package_done g ps p \<longleftrightarrow>
     open_package_reason g p = None \<and> package_members g p \<subseteq> scan_nodes (pk_scan ps) \<and>
     pe_target ` set (package_out g p) \<subseteq> set (pk_seen ps)"

definition package_complete :: "reach_graph \<Rightarrow> package_state \<Rightarrow> file_queue \<Rightarrow> bool" where
  "package_complete g ps q \<longleftrightarrow>
     (\<not> sc_open (pk_scan ps) \<longrightarrow>
        (\<forall>p \<in> set (pk_seen ps). (\<exists>d h. (p, d, h) \<in> set q) \<or> package_done g ps p))"

text \<open>The part of one iteration before the outgoing edges: the files of the package.\<close>

definition visit_package :: "reach_graph \<Rightarrow> string \<Rightarrow> bool \<Rightarrow> scan_state \<Rightarrow> scan_state \<times> bool" where
  "visit_package g p h st =
     (let st = mark_open_opt (open_package_reason g p) st;
          (fs, truncated) = files_for_package_bounded g p
            (MAX_REACH_NODES - (length (sc_files st) + length (sc_heuristic_files st)))
      in (scan_package_files h fs st, truncated))"

lemma package_loop_visit:
  "package_loop g ps ((p, d, h) # q) =
     (case visit_package g p h (pk_scan ps) of (st, truncated) \<Rightarrow>
        let ps = ps\<lparr> pk_scan := st \<rparr>
        in if truncated then pk_mark NodeLimit ps
           else if d \<ge> MAX_REACH_DEPTH then package_loop g (pk_mark DepthLimit ps) q
           else if length (sc_files st) + length (sc_heuristic_files st) \<ge> MAX_REACH_NODES
                  \<and> package_out g p \<noteq> []
           then pk_mark NodeLimit ps
           else (case scan_package_edges d h (package_out g p) (ps, q) of
                   (stop, ps', q') \<Rightarrow> if stop then ps' else package_loop g ps' q'))"
  by (simp add: visit_package_def package_out_def Let_def split: prod.split)

lemma visit_package_sound:
  assumes "package_sound g s ps ((p, d, h) # q)"
    and "visit_package g p h (pk_scan ps) = (st, truncated)"
  shows "package_sound g s (ps\<lparr> pk_scan := st \<rparr>) q"
proof -
  obtain n fs where
    st: "st = scan_package_files h fs (mark_open_opt (open_package_reason g p) (pk_scan ps))"
    and "files_for_package_bounded g p n = (fs, truncated)"
    using assms(2) by (auto simp: visit_package_def Let_def split: prod.splits)
  then have fs: "set fs \<subseteq> package_members g p"
    unfolding package_members_def by (metis (mono_tags, lifting) CollectI fst_conv subsetI)
  have "scan_wf (pk_scan ps)" using assms(1) by (simp add: package_sound_def)
  then have wf: "scan_wf (mark_open_opt (open_package_reason g p) (pk_scan ps))" by simp
  note r = scan_package_files_result [OF wf, of h fs, folded st]
  note old = assms(1) [unfolded package_sound_def]
  have p: "package_path g s p" "\<not> h \<Longrightarrow> exact_package_path g s p"
    using old by auto
  have "\<exists>x. exact_package_path g s x \<and> f \<in> package_members g x" if "f \<in> set (sc_files st)" for f
  proof -
    have "f \<in> set (sc_files (pk_scan ps)) \<or> \<not> h \<and> f \<in> set fs"
      using that r by (auto split: if_splits)
    then show ?thesis using fs p(2) old by blast
  qed
  moreover have "\<exists>x. package_path g s x \<and> f \<in> package_members g x" if "f \<in> scan_nodes st" for f
  proof -
    have "f \<in> scan_nodes (pk_scan ps) \<or> f \<in> set fs" using that r by auto
    then show ?thesis using fs p(1) old by blast
  qed
  ultimately show ?thesis using r old by (simp add: package_sound_def)
qed

lemma visit_package_closed:
  assumes "scan_wf st" "visit_package g p h st = (st', False)" "\<not> sc_open st'"
  shows "open_package_reason g p = None \<and> package_members g p \<subseteq> scan_nodes st'
    \<and> scan_nodes st \<subseteq> scan_nodes st' \<and> \<not> sc_open st"
proof -
  let ?m = "mark_open_opt (open_package_reason g p) st"
  obtain n fs where st: "st' = scan_package_files h fs ?m"
    and fs: "files_for_package_bounded g p n = (fs, False)"
    using assms(2) by (auto simp: visit_package_def Let_def split: prod.splits)
  have "scan_wf ?m" using assms(1) by simp
  note r = scan_package_files_result [OF this, of h fs, folded st]
  with assms(3) untruncated_members [OF fs] show ?thesis by auto
qed

lemma package_edges_sound:
  assumes "package_sound g s ps q" "scan_package_edges d h (package_out g p) (ps, q) = (stop, ps', q')"
    and "package_path g s p" "\<not> h \<Longrightarrow> exact_package_path g s p"
  shows "package_sound g s ps' q'"
proof -
  note r = scan_package_edges_result [OF assms(2)]
  note old = assms(1) [unfolded package_sound_def]
  have "scan_wf (pk_scan ps')" "scan_nodes (pk_scan ps') = scan_nodes (pk_scan ps)"
    "sc_files (pk_scan ps') = sc_files (pk_scan ps)"
    using r old by simp_all
  moreover have "package_path g s x" if "x \<in> set (pk_seen ps')" for x
  proof -
    have "x \<in> set (pk_seen ps) \<or> x \<in> pe_target ` set (package_out g p)" using that r by blast
    then show ?thesis using old package_out_step(1) [OF _ assms(3)] by auto
  qed
  moreover have "x \<in> set (pk_seen ps') \<and> (\<not> b \<longrightarrow> exact_package_path g s x)"
    if "(x, k, b) \<in> set q'" for x k b
  proof (cases "(x, k, b) \<in> set q")
    case True
    then show ?thesis using old r by fastforce
  next
    case False
    from r have "\<forall>x \<in> set q' - set q. \<exists>e \<in> set (package_out g p). \<exists>d.
        x = (pe_target e, d, h \<or> pe_heuristic e) \<and> pe_target e \<in> set (pk_seen ps')"
      by (elim conjE)
    from bspec [OF this, of "(x, k, b)"] that False
    obtain e i where "e \<in> set (package_out g p)" "(x, k, b) = (pe_target e, i, h \<or> pe_heuristic e)"
      "pe_target e \<in> set (pk_seen ps')"
      by (metis DiffI)
    then show ?thesis using package_out_step(2) [of e g p s] assms(4) by simp
  qed
  ultimately show ?thesis using old by (auto simp: package_sound_def)
qed

lemma package_edges_complete:
  assumes "package_complete g ps ((p, k, b) # q)" "scan_wf (pk_scan ps)"
    and "visit_package g p h (pk_scan ps) = (st, False)"
    and "scan_package_edges d h (package_out g p) (ps\<lparr> pk_scan := st \<rparr>, q) = (False, ps', q')"
  shows "package_complete g ps' q'"
  unfolding package_complete_def
proof (intro impI ballI)
  fix x assume op: "\<not> sc_open (pk_scan ps')" and x: "x \<in> set (pk_seen ps')"
  note r = scan_package_edges_result [OF assms(4)]
  have st: "pk_scan ps' = st" using r by simp
  note v = visit_package_closed [OF assms(2,3) op [unfolded st]]
  have mono: "package_done g ps y \<Longrightarrow> package_done g ps' y" for y
    using v r by (auto simp: package_done_def st)
  show "(\<exists>d h. (x, d, h) \<in> set q') \<or> package_done g ps' x"
  proof (cases "x \<in> set (pk_seen ps)")
    case True
    then have "(\<exists>d h. (x, d, h) \<in> set q) \<or> x = p \<or> package_done g ps x"
      using assms(1) v by (fastforce simp: package_complete_def)
    moreover have "package_done g ps' p" using v r by (simp add: package_done_def st)
    moreover have "set q \<subseteq> set q'" using r by simp
    ultimately show ?thesis using mono by blast
  next
    case False
    with x r show ?thesis by simp
  qed
qed

lemma package_sound_mark [simp]:
  "package_sound g s ps q \<Longrightarrow> package_sound g s (pk_mark c ps) q"
  "package_complete g (pk_mark c ps) q"
  by (auto simp: package_sound_def package_complete_def)

lemma package_sound_Nil: "package_sound g s ps q \<Longrightarrow> package_sound g s ps []"
  by (simp add: package_sound_def)

lemma package_loop_result:
  assumes "package_sound g s ps q" "package_complete g ps q"
  shows "package_sound g s (package_loop g ps q) [] \<and> package_complete g (package_loop g ps q) [] \<and>
    set (pk_seen ps) \<subseteq> set (pk_seen (package_loop g ps q))"
  using assms
proof (induction "package_potential ps q" arbitrary: ps q rule: less_induct)
  case less
  show ?case
  proof (cases q)
    case Nil
    with less.prems show ?thesis by simp
  next
    case (Cons a q')
    obtain p d h where q: "q = (p, d, h) # q'" using Cons by (cases a) auto
    obtain st tr where v: "visit_package g p h (pk_scan ps) = (st, tr)" by fastforce
    let ?ps = "ps\<lparr> pk_scan := st \<rparr>"
    have sound: "package_sound g s ?ps q'"
      using visit_package_sound less.prems(1) v q by metis
    have wf: "scan_wf (pk_scan ps)" and p: "package_path g s p" "\<not> h \<Longrightarrow> exact_package_path g s p"
      using less.prems(1) by (auto simp: package_sound_def q)
    obtain stop ps2 q2 where
      e: "scan_package_edges d h (package_out g p) (?ps, q') = (stop, ps2, q2)" using prod_cases3 by blast
    note run = package_loop_visit [of g ps p d h q', unfolded v prod.case Let_def e, folded q]
    have "package_loop g ps q = pk_mark NodeLimit ?ps \<or>
        package_loop g ps q = package_loop g (pk_mark DepthLimit ?ps) q' \<or>
        stop \<and> package_loop g ps q = ps2 \<or>
        \<not> stop \<and> \<not> tr \<and> package_loop g ps q = package_loop g ps2 q2"
      unfolding run by (simp split: if_split)
    then consider (limit) "package_loop g ps q = pk_mark NodeLimit ?ps"
      | (depth) "package_loop g ps q = package_loop g (pk_mark DepthLimit ?ps) q'"
      | (stop) "stop" "package_loop g ps q = ps2"
      | (step) "\<not> stop" "\<not> tr" "package_loop g ps q = package_loop g ps2 q2"
      by blast
    then show ?thesis
    proof cases
      case limit
      with sound show ?thesis by (simp add: package_sound_Nil)
    next
      case depth
      have "package_potential (pk_mark DepthLimit ?ps) q' < package_potential ps q"
        by (simp add: package_potential_def q)
      from less.hyps [OF this] sound depth show ?thesis by simp
    next
      case stop
      have "sc_open (pk_scan ps2)" using scan_package_edges_result [OF e] stop(1) by simp
      moreover have "package_sound g s ps2 []"
        using package_edges_sound [OF sound e p] by (rule package_sound_Nil)
      ultimately show ?thesis
        using stop scan_package_edges_result [OF e] by (simp add: package_complete_def)
    next
      case step
      have "package_potential ps2 q2 < package_potential ps q"
        using scan_package_edges_less [OF e [symmetric]] by (simp add: q)
      moreover have "package_complete g ps2 q2"
        using package_edges_complete [of g ps p d h q' h st d ps2 q2] less.prems(2) wf v e step(1,2)
        by (simp add: q)
      ultimately show ?thesis
        using less.hyps [OF _ package_edges_sound [OF sound e p]] step(3)
          scan_package_edges_result [OF e] by auto
    qed
  qed
qed

definition final_packages :: "reach_graph \<Rightarrow> string \<Rightarrow> package_state" where
  "final_packages g p =
     package_loop g
       \<lparr> pk_scan = \<lparr> sc_files = [], sc_heuristic_files = [],
           sc_open = (open_package_reason g p \<noteq> None), sc_reason = open_package_reason g p \<rparr>,
         pk_seen = [p], pk_scanned = 0 \<rparr>
       [(p, 0, False)]"

lemma compute_in_package:
  "package_for_file g start = Some p \<Longrightarrow>
     compute g start =
       (let st = pk_scan (final_packages g p)
        in \<lparr> rs_files = (if start \<in> scan_nodes st then set (sc_files st)
                         else insert start (set (sc_files st))),
             rs_heuristic_files = set (sc_heuristic_files st),
             rs_open = sc_open st, rs_reason = sc_reason st \<rparr>)"
  by (simp add: compute_def compute_package_def final_packages_def scan_nodes_def Let_def
      del: package_loop.simps)

lemma final_packages_result:
  "package_sound g p (final_packages g p) []" "package_complete g (final_packages g p) []"
  "p \<in> set (pk_seen (final_packages g p))"
proof -
  let ?i = "\<lparr> pk_scan = \<lparr> sc_files = [], sc_heuristic_files = [],
           sc_open = (open_package_reason g p \<noteq> None), sc_reason = open_package_reason g p \<rparr>,
         pk_seen = [p], pk_scanned = 0 \<rparr>"
  have "package_sound g p ?i [(p, 0, False)]"
    by (auto simp: package_sound_def scan_wf_def scan_reasoned_def scan_nodes_def intro: package_intros)
  moreover have "package_complete g ?i [(p, 0, False)]" by (auto simp: package_complete_def)
  ultimately have r: "package_sound g p (final_packages g p) [] \<and>
      package_complete g (final_packages g p) [] \<and> set (pk_seen ?i) \<subseteq> set (pk_seen (final_packages g p))"
    unfolding final_packages_def by (rule package_loop_result)
  then show "package_sound g p (final_packages g p) []" "package_complete g (final_packages g p) []"
    by blast+
  from r show "p \<in> set (pk_seen (final_packages g p))" by simp
qed

lemma package_closure:
  assumes "package_complete g ps []" "\<not> sc_open (pk_scan ps)" "s \<in> set (pk_seen ps)"
    and "package_path g s p"
  shows "p \<in> set (pk_seen ps)"
  using assms(4)
proof (induction rule: package_path.induct)
  case package_start
  show ?case by (rule assms(3))
next
  case (package_step p es e)
  then have "package_done g ps p" using assms(1,2) by (simp add: package_complete_def)
  with package_step show ?case by (auto simp: package_done_def package_out_def)
qed

section \<open>What a package scope says\<close>

text \<open>C29. The scope of a file of a Go package is sound and bounded. The file itself is in the
  scope; apart from it every strong file belongs to a package that exact package edges reach and
  every other file to a package that package edges reach; the two sets are disjoint, they hold at
  most 4096 files and the start, and a reason is recorded exactly when the scope is open.\<close>

theorem package_scope_sound:
  assumes "package_for_file g start = Some p"
  shows "start \<in> rs_files (compute g start) \<union> rs_heuristic_files (compute g start) \<and>
    rs_files (compute g start) - {start} \<subseteq>
      {f. \<exists>q. exact_package_path g p q \<and> f \<in> package_members g q} \<and>
    rs_heuristic_files (compute g start) \<subseteq> {f. \<exists>q. package_path g p q \<and> f \<in> package_members g q} \<and>
    rs_files (compute g start) \<inter> rs_heuristic_files (compute g start) = {} \<and>
    card (rs_files (compute g start)) + card (rs_heuristic_files (compute g start)) \<le> 4097 \<and>
    (rs_reason (compute g start) \<noteq> None \<longleftrightarrow> rs_open (compute g start))"
proof -
  let ?st = "pk_scan (final_packages g p)"
  note snd = final_packages_result(1) [of g p, unfolded package_sound_def]
  have card: "card (set (sc_files ?st)) + card (set (sc_heuristic_files ?st)) \<le> 4096"
    using snd by (simp add: scan_wf_def distinct_card MAX_REACH_NODES_def)
  have "card (insert start (set (sc_files ?st))) \<le> Suc (card (set (sc_files ?st)))"
    by (rule card_insert_le_m1) simp_all
  with card snd show ?thesis
    unfolding compute_in_package [OF assms] Let_def
    by (auto simp: scan_wf_def scan_reasoned_def scan_nodes_def)
qed

text \<open>C28. A closed package scope is complete: its files are exactly the start and the members of
  the packages that package edges reach, and none of these packages is open.\<close>

theorem closed_package_scope_exact:
  assumes "package_for_file g start = Some p" "\<not> rs_open (compute g start)"
  shows "rs_files (compute g start) \<union> rs_heuristic_files (compute g start) =
      insert start {f. \<exists>q. package_path g p q \<and> f \<in> package_members g q} \<and>
    (\<forall>q. package_path g p q \<longrightarrow> open_package_reason g q = None)"
proof -
  let ?ps = "final_packages g p"
  have op: "\<not> sc_open (pk_scan ?ps)" using assms by (simp add: compute_in_package Let_def)
  have all_done: "package_done g ?ps q" if "package_path g p q" for q
    using package_closure [OF final_packages_result(2) op final_packages_result(3) that]
      final_packages_result(2) [of g p] op
    by (auto simp: package_complete_def)
  moreover have "scan_nodes (pk_scan ?ps) = {f. \<exists>q. package_path g p q \<and> f \<in> package_members g q}"
    using all_done final_packages_result(1) [of g p]
    unfolding package_sound_def package_done_def by blast
  ultimately show ?thesis
    unfolding compute_in_package [OF assms(1)] Let_def
    by (auto simp: package_done_def scan_nodes_def)
qed

text \<open>A package graph in which \<open>p\<close> imports \<open>q\<close> heuristically and \<open>r\<close> exactly, and \<open>r\<close> imports
  \<open>q\<close> exactly.\<close>

definition diamond_packages :: reach_graph where
  "diamond_packages =
     from_rows_with_packages [] [] []
       [\<lparr> gf_package_key = ''p'', gf_path = ''a.go'' \<rparr>, \<lparr> gf_package_key = ''q'', gf_path = ''b.go'' \<rparr>,
        \<lparr> gf_package_key = ''r'', gf_path = ''c.go'' \<rparr>]
       [\<lparr> ge_source_package_key = ''p'', ge_target_package_key = ''q'', ge_resolution = Heuristic_Package \<rparr>,
        \<lparr> ge_source_package_key = ''p'', ge_target_package_key = ''r'', ge_resolution = Exact_Package \<rparr>,
        \<lparr> ge_source_package_key = ''r'', ge_target_package_key = ''q'', ge_resolution = Exact_Package \<rparr>]
       []"

lemma diamond_scope:
  "compute diamond_packages ''a.go'' =
     \<lparr> rs_files = {''a.go'', ''c.go''}, rs_heuristic_files = {''b.go''}, rs_open = False,
       rs_reason = None \<rparr>"
  by code_simp

theorem package_scope_sound_witness:
  "package_for_file diamond_packages ''a.go'' = Some ''p'' \<and>
   ''b.go'' \<in> {f. \<exists>q. package_path diamond_packages ''p'' q \<and> f \<in> package_members diamond_packages q}"
proof -
  have p: "package_for_file diamond_packages ''a.go'' = Some ''p''" by code_simp
  from package_scope_sound [OF p] p show ?thesis by (simp add: diamond_scope)
qed

theorem closed_package_scope_exact_witness:
  "package_for_file diamond_packages ''a.go'' = Some ''p'' \<and>
   \<not> rs_open (compute diamond_packages ''a.go'') \<and>
   {''a.go'', ''c.go'', ''b.go''} =
     insert ''a.go'' {f. \<exists>q. package_path diamond_packages ''p'' q \<and> f \<in> package_members diamond_packages q}"
proof -
  have p: "package_for_file diamond_packages ''a.go'' = Some ''p''" by code_simp
  have op: "\<not> rs_open (compute diamond_packages ''a.go'')" by (simp add: diamond_scope)
  from closed_package_scope_exact [OF p op] p op show ?thesis by (simp add: diamond_scope insert_commute)
qed

lemma diamond_edges:
  "package_edges_for diamond_packages ''p'' =
     Some [\<lparr> pe_target = ''q'', pe_heuristic = True \<rparr>, \<lparr> pe_target = ''r'', pe_heuristic = False \<rparr>]"
  "package_edges_for diamond_packages ''r'' = Some [\<lparr> pe_target = ''q'', pe_heuristic = False \<rparr>]"
  "files_for_package_bounded diamond_packages ''q'' 1 = ([''b.go''], False)"
  by code_simp+

text \<open>In the package search a package first reached through a heuristic edge keeps its files
  heuristic even when an exact path leads to it: the closed scope of \<open>a.go\<close> lists \<open>b.go\<close> as
  heuristic although its package is reached by exact edges only. The search over include edges
  moves such a file to the strong set.\<close>

theorem package_search_keeps_heuristic:
  "''b.go'' \<in> rs_heuristic_files (compute diamond_packages ''a.go'') \<and>
   ''b.go'' \<notin> rs_files (compute diamond_packages ''a.go'') \<and>
   exact_package_path diamond_packages ''p'' ''q'' \<and> ''b.go'' \<in> package_members diamond_packages ''q''"
proof -
  have "exact_package_path diamond_packages ''p'' ''r''"
    using exact_step [OF exact_start diamond_edges(1), of "\<lparr> pe_target = ''r'', pe_heuristic = False \<rparr>"]
    by simp
  from exact_step [OF this diamond_edges(2), of "\<lparr> pe_target = ''q'', pe_heuristic = False \<rparr>"]
  have "exact_package_path diamond_packages ''p'' ''q''" by simp
  moreover have "''b.go'' \<in> package_members diamond_packages ''q''"
    using untruncated_members [OF diamond_edges(3)] by auto
  ultimately show ?thesis by (simp add: diamond_scope)
qed

end
