(* ===== verification/Semantic_Model.thy ===== *)
theory Semantic_Model
  imports Includes
begin

text \<open>
  The parser- and storage-neutral vocabulary of \<open>src/crates/fossilsense/src/semantic_model.rs\<close>
  and its submodules \<open>coverage\<close> and \<open>entity\<close>: the enumerations and keys the candidate model
  uses, and the file-revision coverage summary with its bit masks. The bit sets are words of
  the width the code uses.
\<close>

unbundle bit_operations_syntax

datatype semantic_family = CFamily | GoFamily

datatype semantic_language = C_Lang | Cpp | UnknownLanguage | Go

fun semantic_family_of :: "semantic_language \<Rightarrow> semantic_family" where
  "semantic_family_of Go = GoFamily"
| "semantic_family_of C_Lang = CFamily"
| "semantic_family_of Cpp = CFamily"
| "semantic_family_of UnknownLanguage = CFamily"

datatype semantic_declaration_kind =
  FunctionDecl | MethodDecl | ObjectDecl | TypeDecl | AliasDecl | EnumConstant | MacroDecl

record logical_entity_key =
  lk_qualified_name :: string
  lk_declaration_kind :: semantic_declaration_kind
  lk_owner :: "string option"
  lk_canonical_signature :: "string option"
  lk_linkage_domain :: string
  lk_guard_fingerprint :: "string option"

section \<open>Coverage\<close>

datatype fact_group =
    Declarations | FallbackCompletions | Includes_Group | Occurrences | Records | Fields
  | Members | Aliases | LocalDeclarations | LocalBindings | CallableAnchors | CallSites

fun fact_group_index :: "fact_group \<Rightarrow> nat" where
  "fact_group_index Declarations = 0"
| "fact_group_index FallbackCompletions = 1"
| "fact_group_index Includes_Group = 2"
| "fact_group_index Occurrences = 3"
| "fact_group_index Records = 4"
| "fact_group_index Fields = 5"
| "fact_group_index Members = 6"
| "fact_group_index Aliases = 7"
| "fact_group_index LocalDeclarations = 8"
| "fact_group_index LocalBindings = 9"
| "fact_group_index CallableAnchors = 10"
| "fact_group_index CallSites = 11"

definition fact_group_bit :: "fact_group \<Rightarrow> u16" where
  "fact_group_bit g = push_bit (fact_group_index g) 1"

datatype fact_coverage = Complete | Partial | UnknownCoverage

datatype coverage_reason =
  SyntaxRecoveryFailed | UnknownMacro | LanguageAmbiguity | UnsupportedDeclarator | BudgetExhausted

definition coverage_reason_ALL :: "coverage_reason list" where
  "coverage_reason_ALL =
     [SyntaxRecoveryFailed, UnknownMacro, LanguageAmbiguity, UnsupportedDeclarator, BudgetExhausted]"

fun coverage_reason_index :: "coverage_reason \<Rightarrow> nat" where
  "coverage_reason_index SyntaxRecoveryFailed = 0"
| "coverage_reason_index UnknownMacro = 1"
| "coverage_reason_index LanguageAmbiguity = 2"
| "coverage_reason_index UnsupportedDeclarator = 3"
| "coverage_reason_index BudgetExhausted = 4"

fun coverage_reason_as_str :: "coverage_reason \<Rightarrow> string" where
  "coverage_reason_as_str SyntaxRecoveryFailed = ''syntax_recovery_failed''"
| "coverage_reason_as_str UnknownMacro = ''unknown_macro''"
| "coverage_reason_as_str LanguageAmbiguity = ''language_ambiguity''"
| "coverage_reason_as_str UnsupportedDeclarator = ''unsupported_declarator''"
| "coverage_reason_as_str BudgetExhausted = ''budget_exhausted''"

record declaration_coverage_summary =
  cs_requested_groups :: u16
  cs_checked_groups :: u16
  cs_partial_groups :: u16
  cs_reason_groups :: "u16 list"
  cs_candidate_regions :: u32
  cs_explained_regions :: u32
  cs_non_declaration_regions :: u32
  cs_uncovered_regions :: u32
  cs_candidate_bytes :: u64
  cs_uncovered_bytes :: u64
  cs_node_visits :: u32
  cs_recovered_regions :: u32
  cs_truncated :: bool

definition fact_coverage_of :: "declaration_coverage_summary \<Rightarrow> fact_group \<Rightarrow> fact_coverage" where
  "fact_coverage_of cs g =
     (if cs_requested_groups cs AND cs_checked_groups cs AND fact_group_bit g = 0 then UnknownCoverage
      else if cs_partial_groups cs AND fact_group_bit g \<noteq> 0 then Partial
      else Complete)"

fun reason_mask_from :: "nat \<Rightarrow> u16 list \<Rightarrow> u16 \<Rightarrow> 8 word \<Rightarrow> 8 word" where
  "reason_mask_from index [] groups acc = acc"
| "reason_mask_from index (affected # rest) groups acc =
     reason_mask_from (Suc index) rest groups
       (acc OR (if affected AND groups \<noteq> 0 then push_bit index 1 else 0))"

definition reason_mask :: "declaration_coverage_summary \<Rightarrow> u16 \<Rightarrow> 8 word" where
  "reason_mask cs groups = reason_mask_from 0 (cs_reason_groups cs) groups 0"

definition note_gap ::
  "u16 \<Rightarrow> coverage_reason \<Rightarrow> declaration_coverage_summary \<Rightarrow> declaration_coverage_summary" where
  "note_gap groups reason cs =
     cs\<lparr> cs_partial_groups := cs_partial_groups cs OR groups,
         cs_reason_groups :=
           (cs_reason_groups cs)[coverage_reason_index reason :=
              cs_reason_groups cs ! coverage_reason_index reason OR groups],
         cs_uncovered_regions := sat_add (cs_uncovered_regions cs) 1 \<rparr>"

section \<open>Facts\<close>

text \<open>The array \<open>reason_groups\<close> has five entries.\<close>

definition coverage_wf :: "declaration_coverage_summary \<Rightarrow> bool" where
  "coverage_wf cs \<longleftrightarrow> length (cs_reason_groups cs) = 5"

lemma fact_group_index_less: "fact_group_index g < 12"
  by (cases g) simp_all

lemma coverage_reason_index_less: "coverage_reason_index r < 5"
  by (cases r) simp_all

lemma coverage_reason_index_inj: "coverage_reason_index r = coverage_reason_index r' \<Longrightarrow> r = r'"
  by (cases r; cases r') simp_all

lemma word_and_bit_zero: "w AND push_bit n 1 = 0 \<longleftrightarrow> \<not> bit w n \<or> LENGTH('a) \<le> n"
  for w :: "'a::len word"
proof
  assume "w AND push_bit n 1 = 0"
  then have "\<not> bit (w AND push_bit n 1) n" by simp
  then show "\<not> bit w n \<or> LENGTH('a) \<le> n" by (auto simp: bit_simps)
next
  assume "\<not> bit w n \<or> LENGTH('a) \<le> n"
  then show "w AND push_bit n 1 = 0"
    by (intro bit_word_eqI) (auto simp: bit_simps not_le dest: sym)
qed

lemma and_group_bit: "w AND fact_group_bit g = 0 \<longleftrightarrow> \<not> bit w (fact_group_index g)"
  using fact_group_index_less [of g] unfolding fact_group_bit_def word_and_bit_zero by auto

lemma bit_reason_mask_from:
  "i < 8 \<Longrightarrow> index + length rs \<le> 8 \<Longrightarrow>
     bit (reason_mask_from index rs groups acc) i \<longleftrightarrow>
       bit acc i \<or> (index \<le> i \<and> i < index + length rs \<and> rs ! (i - index) AND groups \<noteq> 0)"
proof (induction index rs groups acc rule: reason_mask_from.induct)
  case (2 index affected rest groups acc)
  then show ?case
    by (cases "i = index") (auto simp: bit_simps nth_Cons' Suc_diff_le)
qed auto

lemma bit_reason_mask:
  "coverage_wf cs \<Longrightarrow>
     bit (reason_mask cs groups) (coverage_reason_index r) \<longleftrightarrow>
       cs_reason_groups cs ! coverage_reason_index r AND groups \<noteq> 0"
  using coverage_reason_index_less [of r]
  by (simp add: reason_mask_def coverage_wf_def bit_reason_mask_from)

text \<open>Noting a gap makes exactly the named fact groups partial, where they were requested and
  checked, and leaves the coverage of every other group alone; the reason mask gains exactly
  the noted reason for queries that touch the named groups.\<close>

theorem note_gap_marks:
  assumes "coverage_wf cs"
  shows "coverage_wf (note_gap groups r cs) \<and>
    fact_coverage_of (note_gap groups r cs) g =
      (if bit groups (fact_group_index g) \<and> fact_coverage_of cs g \<noteq> UnknownCoverage then Partial
       else fact_coverage_of cs g) \<and>
    (bit (reason_mask (note_gap groups r cs) query) (coverage_reason_index r') \<longleftrightarrow>
       bit (reason_mask cs query) (coverage_reason_index r') \<or> r' = r \<and> groups AND query \<noteq> 0)"
proof -
  have wf: "coverage_wf (note_gap groups r cs)"
    using assms by (simp add: coverage_wf_def note_gap_def)
  have len: "coverage_reason_index r < length (cs_reason_groups cs)"
    using assms coverage_reason_index_less by (simp add: coverage_wf_def)
  have "fact_coverage_of (note_gap groups r cs) g =
      (if bit groups (fact_group_index g) \<and> fact_coverage_of cs g \<noteq> UnknownCoverage then Partial
       else fact_coverage_of cs g)"
    by (auto simp: fact_coverage_of_def note_gap_def and.assoc [symmetric] and_group_bit bit_simps)
  moreover have "(a OR groups) AND query \<noteq> 0 \<longleftrightarrow> a AND query \<noteq> 0 \<or> groups AND query \<noteq> 0" for a
    by (simp add: bit.conj_disj_distrib2 or_eq_0_iff)
  then have "(bit (reason_mask (note_gap groups r cs) query) (coverage_reason_index r') \<longleftrightarrow>
       bit (reason_mask cs query) (coverage_reason_index r') \<or> r' = r \<and> groups AND query \<noteq> 0)"
    using len coverage_reason_index_inj [of r' r]
    unfolding bit_reason_mask [OF assms] bit_reason_mask [OF wf]
    by (auto simp: note_gap_def nth_list_update)
  ultimately show ?thesis using wf by blast
qed

definition fresh_coverage :: declaration_coverage_summary where
  "fresh_coverage =
     \<lparr> cs_requested_groups = 1, cs_checked_groups = 1, cs_partial_groups = 0,
       cs_reason_groups = [0, 0, 0, 0, 0], cs_candidate_regions = 0, cs_explained_regions = 0,
       cs_non_declaration_regions = 0, cs_uncovered_regions = 0, cs_candidate_bytes = 0,
       cs_uncovered_bytes = 0, cs_node_visits = 0, cs_recovered_regions = 0, cs_truncated = False \<rparr>"

theorem note_gap_marks_witness:
  "coverage_wf fresh_coverage \<and>
   fact_coverage_of (note_gap 1 UnknownMacro fresh_coverage) Declarations = Partial"
proof -
  have "coverage_wf fresh_coverage" by (simp add: coverage_wf_def fresh_coverage_def)
  moreover have "fact_coverage_of fresh_coverage Declarations = Complete"
    by (simp add: fact_coverage_of_def and_group_bit and.assoc [symmetric] fresh_coverage_def)
  ultimately show ?thesis
    using note_gap_marks [of fresh_coverage 1 UnknownMacro Declarations] by simp
qed

end
