(* ===== verification/Reach_Update.thy ===== *)
theory Reach_Update
  imports Reach_Scope
begin

text \<open>
  How graphs are built and changed: the lookups of a graph built from store rows, the
  source-scoped refresh and the sparse request overlay of \<open>reachability.rs\<close>. The refresh is
  shown to agree with a full rebuild from the rows it leaves, the overlay with the refresh, and
  the bounded first-layer projection with the unbounded test.
\<close>

section \<open>Rows and lookups\<close>

definition row_edges :: "edge_row list \<Rightarrow> string \<Rightarrow> reach_edge list" where
  "row_edges rows s =
     map (\<lambda>(_, dst, res). \<lparr> re_target = dst, re_resolution = res \<rparr>) (filter (\<lambda>r. fst r = s) rows)"

lemma push_edge_lookup:
  "get_or [] (push_edge row m) s = get_or [] m s @ row_edges [row] s"
  by (cases row) (auto simp: push_edge_def row_edges_def get_or_def split: option.split)

lemma row_edges_append: "row_edges (xs @ ys) s = row_edges xs s @ row_edges ys s"
  by (simp add: row_edges_def)

lemma push_edges_lookup: "get_or [] (fold push_edge rows m) s = get_or [] m s @ row_edges rows s"
proof (induction rows arbitrary: m)
  case (Cons row rows)
  then show ?case
    using row_edges_append [of "[row]" rows] by (simp add: push_edge_lookup)
qed (simp add: row_edges_def)

lemma push_edges_distinct:
  "distinct (map fst m) \<Longrightarrow> distinct (map fst (fold push_edge rows m))"
  by (induction rows arbitrary: m) (auto simp: push_edge_def)

lemma normalize_Nil [simp]: "normalize_reach_edges [] = []"
  by (simp add: normalize_reach_edges_def dedup_def)

lemma get_or_map_values: "f d = d \<Longrightarrow> get_or d (map_values f m) k = f (get_or d m k)"
  by (simp add: get_or_def split: option.split)

lemma new_graph_edges:
  "out_edges (new_with_kinds rows us as) s = normalize_reach_edges (row_edges rows s)"
proof -
  have "out_edges (new_with_kinds rows us as) s =
      get_or [] (map_values normalize_reach_edges (fold push_edge rows [])) s"
    by (simp add: out_edges_def new_with_kinds_def Let_def get_or_def)
  then show ?thesis by (simp add: get_or_map_values push_edges_lookup)
qed

lemma update_fold_lookup:
  "map_of (fold (\<lambda>p. AList.update p v) ps m) s = (if s \<in> set ps then Some v else map_of m s)"
  by (induction ps arbitrary: m) auto

lemma new_graph_open:
  "open_reason_of (new_with_kinds rows us as) s =
     (if s \<in> set us then Some UnresolvedInclude
      else if s \<in> set as then Some AmbiguousInclude else None)"
  by (simp add: new_with_kinds_def Let_def update_fold_lookup)

section \<open>Normalised edges\<close>

interpretation edge_order: lawful_cmp edge_cmp
  unfolding edge_cmp_def by (intro lawful_cmp_intros)

lemma resolution_kind_as_str_inj: "resolution_kind_as_str a = resolution_kind_as_str b \<Longrightarrow> a = b"
  by (cases a; cases b) simp_all

lemma edge_cmp_Equal: "edge_cmp l r = Equal \<Longrightarrow> l = r"
  by (cases l; cases r) (auto simp: edge_cmp_def dest: resolution_kind_as_str_inj)

lemma set_normalize [simp]: "set (normalize_reach_edges es) = set es"
  by (simp add: normalize_reach_edges_def)

lemma distinct_normalize: "distinct (normalize_reach_edges es)"
  unfolding normalize_reach_edges_def
  by (rule distinct_dedup_sort_by [OF edge_order.lawful_cmp_axioms edge_cmp_Equal])

lemma sorted_normalize: "sorted_cmp edge_cmp (normalize_reach_edges es)"
  using edge_order.sorted_sort_by [of es]
  by (simp add: normalize_reach_edges_def sorted_cmp_def sorted_dedup)

text \<open>The direct external edges form a prefix.\<close>

lemma direct_prefix:
  assumes "sorted_cmp edge_cmp es"
  shows "filter is_direct_external_edge (take n es) = take n (filter is_direct_external_edge es)"
  using assms
proof (induction es arbitrary: n)
  case (Cons e es)
  show ?case
  proof (cases "is_direct_external_edge e")
    case True
    with Cons show ?thesis by (cases n) (auto simp: sorted_cmp_def)
  next
    case False
    with Cons.prems have "\<forall>x \<in> set es. \<not> is_direct_external_edge x"
      by (auto simp: sorted_cmp_def edge_cmp_def)
    with False have none: "\<forall>x \<in> set (e # es). \<not> is_direct_external_edge x" by simp
    then have "filter is_direct_external_edge (e # es) = []" by (simp only: filter_empty_conv simp_thms)
    moreover from none have "filter is_direct_external_edge (take n (e # es)) = []"
      unfolding filter_empty_conv by (meson in_set_takeD)
    ultimately show ?thesis by simp
  qed
qed simp

text \<open>The first-layer projection examines at most 4096 edges of a file, yet because the
  constructor sorts direct external edges first it finds every direct external target of a file
  that has at most 4096 of them: it agrees with the unbounded test
  \<open>directly_includes_external\<close> target by target.\<close>

theorem direct_external_projection_exact:
  assumes "length (filter is_direct_external_edge (row_edges rows source)) \<le> 4096"
  shows "target \<in> directly_included_external_paths_from (new_with_kinds rows us as) source \<longleftrightarrow>
    directly_includes_external (new_with_kinds rows us as) source target"
proof -
  let ?g = "new_with_kinds rows us as" and ?es = "normalize_reach_edges (row_edges rows source)"
  have "length (filter is_direct_external_edge ?es) =
      card (set (filter is_direct_external_edge ?es))"
    by (simp only: distinct_card distinct_filter distinct_normalize)
  also have "\<dots> \<le> length (filter is_direct_external_edge (row_edges rows source))"
    by (metis card_length set_filter set_normalize)
  finally have "length (filter is_direct_external_edge ?es) \<le> MAX_REACH_NODES"
    using assms by (simp add: MAX_REACH_NODES_def)
  then have "directly_included_external_paths_from ?g source =
      re_target ` set (filter is_direct_external_edge ?es)"
    by (simp add: directly_included_external_paths_from_def out_edges_def [symmetric]
        new_graph_edges direct_prefix [OF sorted_normalize])
  moreover have "directly_includes_external ?g source target \<longleftrightarrow>
      (\<exists>e \<in> set ?es. is_direct_external_edge e \<and> re_target e = target)"
    unfolding new_graph_edges [of rows us as source, symmetric]
    by (cases "edges_for ?g source")
      (auto simp: directly_includes_external_def is_direct_external_edge_def out_edges_def
        list_ex_iff)
  ultimately show ?thesis by auto
qed

theorem direct_external_projection_exact_witness:
  "length (filter is_direct_external_edge
     (row_edges [(''a.c'', ''/usr/x.h'', ExternalExact)] ''a.c'')) \<le> 4096 \<and>
   ''/usr/x.h'' \<in> directly_included_external_paths_from
     (new_with_kinds [(''a.c'', ''/usr/x.h'', ExternalExact)] [] []) ''a.c''"
proof -
  have "length (filter is_direct_external_edge
     (row_edges [(''a.c'', ''/usr/x.h'', ExternalExact)] ''a.c'')) \<le> 4096" by code_simp
  moreover have "directly_includes_external
     (new_with_kinds [(''a.c'', ''/usr/x.h'', ExternalExact)] [] []) ''a.c'' ''/usr/x.h''" by code_simp
  ultimately show ?thesis using direct_external_projection_exact by blast
qed

section \<open>Counting sources\<close>

definition source_count :: "(string, reach_edge list) hmap \<Rightarrow> string \<Rightarrow> string \<Rightarrow> nat" where
  "source_count edges t s =
     (if is_absolute s then 0 else count_list (direct_targets (get_or [] edges s)) t)"

lemma count_targets_lookup: "get_or 0 (count_targets ts c) t = get_or 0 c t + count_list ts t"
  unfolding count_targets_def by (induction ts arbitrary: c) auto

lemma uncount_target_lookup:
  "get_or 0 (uncount_target x c) t = get_or 0 c t - (if t = x then 1 else 0)"
  by (auto simp: uncount_target_def get_or_def split: option.splits)

lemma uncount_targets_lookup:
  "get_or 0 (fold uncount_target ts c) t = get_or 0 c t - count_list ts t"
  by (induction ts arbitrary: c) (auto simp: uncount_target_lookup)

lemma uncount_sources_lookup:
  "get_or 0 (fold (uncount_source edges) ss c) t = get_or 0 c t - (\<Sum>s\<leftarrow>ss. source_count edges t s)"
  by (induction ss arbitrary: c)
    (auto simp: uncount_source_def source_count_def uncount_targets_lookup)

lemma recount_sources_lookup:
  "get_or 0 (fold (recount_source edges) ss c) t = get_or 0 c t + (\<Sum>s\<leftarrow>ss. source_count edges t s)"
  by (induction ss arbitrary: c)
    (auto simp: recount_source_def source_count_def count_targets_lookup)

lemma direct_counts_lookup_aux:
  "get_or 0 (fold (\<lambda>(source, targets) counts. if is_absolute source then counts
        else count_targets (direct_targets targets) counts) m c) t =
     get_or 0 c t + (\<Sum>(s, es)\<leftarrow>m. if is_absolute s then 0 else count_list (direct_targets es) t)"
  by (induction m arbitrary: c) (auto simp: count_targets_lookup split: prod.split)

lemma direct_counts_lookup:
  assumes "distinct (map fst edges)" "finite S" "fst ` set edges \<subseteq> S"
  shows "get_or 0 (direct_external_source_counts edges) t = (\<Sum>s\<in>S. source_count edges t s)"
proof -
  have "get_or 0 (direct_external_source_counts edges) t =
      (\<Sum>(s, es)\<leftarrow>edges. if is_absolute s then 0 else count_list (direct_targets es) t)"
    by (simp add: direct_external_source_counts_def direct_counts_lookup_aux)
  also have "\<dots> = (\<Sum>(s, es)\<leftarrow>edges. source_count edges t s)"
    using assms(1)
    by (intro arg_cong [where f = sum_list] map_cong refl)
      (auto simp: source_count_def get_or_def)
  also have "\<dots> = (\<Sum>s\<leftarrow>map fst edges. source_count edges t s)"
    by (simp add: split_def comp_def)
  also have "\<dots> = (\<Sum>s\<in>fst ` set edges. source_count edges t s)"
    by (simp only: sum_list_distinct_conv_sum_set [OF assms(1)] set_map)
  also have "\<dots> = (\<Sum>s\<in>S. source_count edges t s)"
  proof (rule sum.mono_neutral_left [OF assms(2,3)])
    have "map_of edges s = None" if "s \<notin> fst ` set edges" for s
      using that by (simp add: map_of_eq_None_iff)
    then show "\<forall>s\<in>S - fst ` set edges. source_count edges t s = 0"
      by (simp add: source_count_def get_or_def direct_targets_def)
  qed
  finally show ?thesis .
qed

section \<open>Refresh\<close>

lemma delete_all_lookup: "get_or d (fold AList.delete ss m) s = (if s \<in> set ss then d else get_or d m s)"
  by (induction ss arbitrary: m) auto

lemma delete_all_map_of:
  "map_of (fold AList.delete ss m) s = (if s \<in> set ss then None else map_of m s)"
  by (induction ss arbitrary: m) auto

lemma distinct_delete_all: "distinct (map fst m) \<Longrightarrow> distinct (map fst (fold AList.delete ss m))"
  by (induction ss arbitrary: m) (auto simp: distinct_delete)

lemma normalize_source_lookup:
  "get_or [] (normalize_source x m) s =
     (if s = x then normalize_reach_edges (get_or [] m s) else get_or [] m s)"
  by (auto simp: normalize_source_def get_or_def split: option.split)

lemma normalize_sources_lookup:
  "distinct ss \<Longrightarrow> get_or [] (fold normalize_source ss m) s =
     (if s \<in> set ss then normalize_reach_edges (get_or [] m s) else get_or [] m s)"
  by (induction ss arbitrary: m) (auto simp: normalize_source_lookup)

lemma distinct_normalize_sources:
  "distinct (map fst m) \<Longrightarrow> distinct (map fst (fold normalize_source ss m))"
proof (induction ss arbitrary: m)
  case (Cons x ss)
  then have "distinct (map fst (normalize_source x m))"
    by (auto simp: normalize_source_def distinct_update split: option.split)
  with Cons.IH show ?case by simp
qed simp

text \<open>Open rows carry one of the two include reasons.\<close>

definition include_reasons :: "(string \<times> open_reason) list \<Rightarrow> bool" where
  "include_reasons opn = list_all (\<lambda>(_, r). r = UnresolvedInclude \<or> r = AmbiguousInclude) opn"

lemma open_rows_lookup:
  "include_reasons opn \<Longrightarrow>
     map_of (fold (\<lambda>(path, reason) m. insert_open_reason m path reason) opn m) s =
       (if (s, UnresolvedInclude) \<in> set opn then Some UnresolvedInclude
        else case map_of m s of Some r \<Rightarrow> Some r
             | None \<Rightarrow> if (s, AmbiguousInclude) \<in> set opn then Some AmbiguousInclude else None)"
proof (induction opn arbitrary: m)
  case (Cons x opn)
  obtain p r where x: "x = (p, r)" by (cases x)
  have r: "r = UnresolvedInclude \<or> r = AmbiguousInclude" and rest: "include_reasons opn"
    using Cons.prems by (simp_all add: include_reasons_def x)
  have "map_of (insert_open_reason m p r) s =
      (if s = p then Some (if r = UnresolvedInclude then r else get_or r m s) else map_of m s)"
    using r by (auto simp: insert_open_reason_def)
  then show ?case
    using Cons.IH [OF rest, of "insert_open_reason m p r"] r
    by (cases "map_of m s"; cases "s = p") (auto simp: x get_or_def)
qed (simp split: option.split)

definition refreshed_edges ::
  "(string, reach_edge list) hmap \<Rightarrow> string list \<Rightarrow> edge_row list \<Rightarrow> (string, reach_edge list) hmap" where
  "refreshed_edges edges ss rows =
     fold normalize_source ss (fold push_edge rows (fold AList.delete ss edges))"

lemma refreshed_edges_lookup:
  assumes "distinct ss" "\<forall>r \<in> set rows. fst r \<in> set ss"
  shows "get_or [] (refreshed_edges edges ss rows) s =
    (if s \<in> set ss then normalize_reach_edges (row_edges rows s) else get_or [] edges s)"
proof -
  have "row_edges rows s = []" if "s \<notin> set ss"
    using that assms(2) by (auto simp: row_edges_def filter_empty_conv)
  then show ?thesis
    using assms(1)
    by (simp add: refreshed_edges_def normalize_sources_lookup push_edges_lookup delete_all_lookup)
qed

text \<open>A graph without an overlay whose edge table has distinct keys and whose counts are those of
  its edges; the graphs that are built from rows and refreshed.\<close>

definition base_graph :: "reach_graph \<Rightarrow> bool" where
  "base_graph g \<longleftrightarrow>
     rg_base g = None \<and> rg_overlay g = None \<and> distinct (map fst (rt_edges (rg_tables g))) \<and>
     (\<forall>t. get_or 0 (rt_direct_external_source_counts (rg_tables g)) t =
          get_or 0 (direct_external_source_counts (rt_edges (rg_tables g))) t)"

lemma source_count_cong:
  "get_or [] e s = get_or [] e' s \<Longrightarrow> source_count e t s = source_count e' t s"
  by (simp add: source_count_def)

text \<open>The incremental counts are those of the new table.\<close>

lemma incremental_counts:
  assumes "distinct (map fst edges)" "distinct ss" "\<forall>r \<in> set rows. fst r \<in> set ss"
    and "edges' = refreshed_edges edges ss rows"
    and "\<forall>t. get_or 0 c t = get_or 0 (direct_external_source_counts edges) t"
  shows "get_or 0 c t - (\<Sum>s\<leftarrow>ss. source_count edges t s) + (\<Sum>s\<leftarrow>ss. source_count edges' t s)
    = get_or 0 (direct_external_source_counts edges') t"
    and "(\<Sum>s\<leftarrow>ss. source_count edges t s) \<le> get_or 0 c t"
proof -
  let ?S = "fst ` set edges \<union> fst ` set edges' \<union> set ss"
  have d': "distinct (map fst edges')"
    unfolding assms(4) refreshed_edges_def
    by (intro distinct_normalize_sources push_edges_distinct distinct_delete_all assms)
  have old: "get_or 0 c t = (\<Sum>s\<in>?S. source_count edges t s)"
    unfolding assms(5) [rule_format] by (rule direct_counts_lookup [OF assms(1)]) auto
  have new: "get_or 0 (direct_external_source_counts edges') t = (\<Sum>s\<in>?S. source_count edges' t s)"
    by (rule direct_counts_lookup [OF d']) auto
  have split: "(\<Sum>s\<in>?S. f s) = (\<Sum>s\<in>set ss. f s) + (\<Sum>s\<in>?S - set ss. f s)" for f :: "string \<Rightarrow> nat"
    by (subst sum.union_disjoint [symmetric]) (auto intro!: sum.cong)
  have "(\<Sum>s\<in>?S - set ss. source_count edges' t s) = (\<Sum>s\<in>?S - set ss. source_count edges t s)"
    using refreshed_edges_lookup [OF assms(2,3), of edges]
    by (intro sum.cong refl source_count_cong) (simp add: assms(4))
  then show "get_or 0 c t - (\<Sum>s\<leftarrow>ss. source_count edges t s) + (\<Sum>s\<leftarrow>ss. source_count edges' t s)
      = get_or 0 (direct_external_source_counts edges') t"
    unfolding old new split sum_list_distinct_conv_sum_set [OF assms(2)] by simp
  show "(\<Sum>s\<leftarrow>ss. source_count edges t s) \<le> get_or 0 c t"
    unfolding old split sum_list_distinct_conv_sum_set [OF assms(2)] by simp
qed

lemma refresh_tables:
  assumes "base_graph g" "distinct ss" "\<forall>r \<in> set rows. fst r \<in> set ss"
    and g'_def: "g' = refresh_sources_with_kinds g ss rows opn"
  shows "base_graph g'"
    and "rt_edges (rg_tables g') = refreshed_edges (rt_edges (rg_tables g)) ss rows"
proof -
  show e: "rt_edges (rg_tables g') = refreshed_edges (rt_edges (rg_tables g)) ss rows"
    by (simp add: g'_def refresh_sources_with_kinds_def refreshed_edges_def Let_def)
  have "distinct (map fst (rt_edges (rg_tables g')))"
    using assms(1) unfolding e refreshed_edges_def base_graph_def
    by (intro distinct_normalize_sources push_edges_distinct distinct_delete_all) simp
  moreover have "get_or 0 (rt_direct_external_source_counts (rg_tables g')) t =
      get_or 0 (direct_external_source_counts (rt_edges (rg_tables g'))) t" for t
  proof -
    have "get_or 0 (rt_direct_external_source_counts (rg_tables g')) t =
        get_or 0 (rt_direct_external_source_counts (rg_tables g)) t
        - (\<Sum>s\<leftarrow>ss. source_count (rt_edges (rg_tables g)) t s)
        + (\<Sum>s\<leftarrow>ss. source_count (refreshed_edges (rt_edges (rg_tables g)) ss rows) t s)"
      by (simp add: g'_def refresh_sources_with_kinds_def refreshed_edges_def Let_def
          uncount_sources_lookup recount_sources_lookup)
    then show ?thesis
      unfolding e
      using incremental_counts(1) [OF _ assms(2,3) refl, of "rt_edges (rg_tables g)"
          "rt_direct_external_source_counts (rg_tables g)"] assms(1)
      by (simp add: base_graph_def)
  qed
  ultimately show "base_graph g'"
    using assms(1) by (simp add: base_graph_def g'_def refresh_sources_with_kinds_def Let_def)
qed

lemma base_lookups:
  assumes "base_graph g"
  shows "out_edges g s = get_or [] (rt_edges (rg_tables g)) s"
    and "open_reason_of g s = map_of (rt_open (rg_tables g)) s"
    and "direct_external_source_count g t = get_or 0 (rt_direct_external_source_counts (rg_tables g)) t"
  using assms by (cases g; simp add: base_graph_def out_edges_def get_or_def)+

lemma base_packages:
  assumes "base_graph g" "base_graph g'"
    and "rt_package_by_file (rg_tables g) = rt_package_by_file (rg_tables g')"
    and "rt_files_by_package (rg_tables g) = rt_files_by_package (rg_tables g')"
    and "rt_package_edges (rg_tables g) = rt_package_edges (rg_tables g')"
    and "rt_open_packages (rg_tables g) = rt_open_packages (rg_tables g')"
  shows "same_packages g g'"
  using assms by (cases g; cases g') (simp add: base_graph_def same_packages_def fun_eq_iff)

lemma direct_count_eq:
  assumes "base_graph g" "base_graph g'" "\<And>s. out_edges g s = out_edges g' s"
  shows "direct_external_source_count g t = direct_external_source_count g' t"
proof -
  let ?e = "rt_edges (rg_tables g)" and ?e' = "rt_edges (rg_tables g')"
  let ?S = "fst ` set ?e \<union> fst ` set ?e'"
  have "(\<Sum>s\<in>?S. source_count ?e t s) = (\<Sum>s\<in>?S. source_count ?e' t s)"
    using assms by (intro sum.cong refl source_count_cong) (simp add: base_lookups(1))
  moreover have "get_or 0 (direct_external_source_counts ?e) t = (\<Sum>s\<in>?S. source_count ?e t s)"
    "get_or 0 (direct_external_source_counts ?e') t = (\<Sum>s\<in>?S. source_count ?e' t s)"
    using assms(1,2) by (intro direct_counts_lookup; auto simp: base_graph_def)+
  ultimately show ?thesis using assms(1,2) by (simp add: base_lookups(3) base_graph_def)
qed

lemma rows_tables:
  "rg_tables (from_rows_with_packages es us as fs ps os) =
     (rg_tables (from_rows es us as))\<lparr>
       rt_package_by_file := rt_package_by_file (rg_tables (from_rows_with_packages es us as fs ps os)),
       rt_files_by_package := rt_files_by_package (rg_tables (from_rows_with_packages es us as fs ps os)),
       rt_package_edges := rt_package_edges (rg_tables (from_rows_with_packages es us as fs ps os)),
       rt_open_packages := rt_open_packages (rg_tables (from_rows_with_packages es us as fs ps os)) \<rparr>"
  by (simp add: from_rows_with_packages_def Let_def)

lemma base_graph_rows: "base_graph (from_rows_with_packages es us as fs ps os)"
  by (simp add: from_rows_with_packages_def from_rows_def new_with_kinds_def Let_def base_graph_def
      push_edges_distinct)

definition edge_row_of :: "include_edge_row \<Rightarrow> edge_row" where
  "edge_row_of row = (ie_source_path row, ie_target_path row, ie_resolution row)"

lemma rows_lookups:
  "out_edges (from_rows_with_packages es us as fs ps os) s =
     normalize_reach_edges (row_edges (map edge_row_of es) s)"
  "open_reason_of (from_rows_with_packages es us as fs ps os) s =
     (if s \<in> oi_source_path ` set us then Some UnresolvedInclude
      else if s \<in> oi_source_path ` set as then Some AmbiguousInclude else None)"
  using new_graph_edges [of "map edge_row_of es" "map oi_source_path us" "map oi_source_path as" s]
    new_graph_open [of "map edge_row_of es" "map oi_source_path us" "map oi_source_path as" s]
  by (simp_all add: from_rows_with_packages_def from_rows_def new_with_kinds_def Let_def
      out_edges_def edge_row_of_def [abs_def])

lemmas rows_table_lookups =
  trans [OF base_lookups(1) [OF base_graph_rows, symmetric] rows_lookups(1)]
  trans [OF base_lookups(2) [OF base_graph_rows, symmetric] rows_lookups(2)]

text \<open>The rows a full rebuild would read after the refresh: those of the untouched sources and
  the new ones.\<close>

definition kept :: "('a \<Rightarrow> string) \<Rightarrow> string list \<Rightarrow> 'a list \<Rightarrow> 'a list" where
  "kept source ss rows = filter (\<lambda>row. source row \<notin> set ss) rows"

lemma row_edges_kept:
  assumes "\<forall>row \<in> set new. ie_source_path row \<in> set ss"
  shows "row_edges (map edge_row_of (kept ie_source_path ss es @ new)) s =
    (if s \<in> set ss then row_edges (map edge_row_of new) s else row_edges (map edge_row_of es) s)"
proof -
  have sel: "row_edges (map edge_row_of xs) s =
      map (\<lambda>row. \<lparr> re_target = ie_target_path row, re_resolution = ie_resolution row \<rparr>)
        (filter (\<lambda>row. ie_source_path row = s) xs)" for xs
    by (induction xs) (simp_all add: row_edges_def edge_row_of_def)
  have "filter (\<lambda>row. ie_source_path row = s) (kept ie_source_path ss es) =
      (if s \<in> set ss then [] else filter (\<lambda>row. ie_source_path row = s) es)"
    unfolding kept_def by (induction es) auto
  moreover have "s \<notin> set ss \<Longrightarrow> filter (\<lambda>row. ie_source_path row = s) new = []"
    using assms by (auto simp: filter_empty_conv)
  ultimately show ?thesis by (simp only: map_append [symmetric] sel filter_append) simp
qed

text \<open>C3. A source-scoped refresh is a full rebuild. Refreshing a graph built from store rows on a
  set of sources, with new rows that belong to these sources, gives a graph with the same edges,
  open reasons, external source counts and scopes as the graph rebuilt from the rows that remain
  and the new ones.\<close>

theorem refresh_is_rebuild:
  assumes "distinct ss" "\<forall>row \<in> set new. ie_source_path row \<in> set ss"
    and "\<forall>row \<in> set unresolved \<union> set ambiguous. oi_source_path row \<in> set ss"
    and "\<forall>row \<in> set unresolved. oi_reason row = UnresolvedInclude"
    and "\<forall>row \<in> set ambiguous. oi_reason row = AmbiguousInclude"
  shows "let g = with_refreshed_sources_from_rows (from_rows_with_packages es us as fs ps os)
               ss new (unresolved @ ambiguous);
             g' = from_rows_with_packages (kept ie_source_path ss es @ new)
               (kept oi_source_path ss us @ unresolved) (kept oi_source_path ss as @ ambiguous)
               fs ps os
         in out_edges g s = out_edges g' s \<and> open_reason_of g s = open_reason_of g' s \<and>
            direct_external_source_count g t = direct_external_source_count g' t \<and>
            compute g s = compute g' s"
proof -
  define g0 where "g0 = from_rows_with_packages es us as fs ps os"
  define opn where "opn = map (\<lambda>row. (oi_source_path row, oi_reason row)) (unresolved @ ambiguous)"
  define g where "g = with_refreshed_sources_from_rows g0 ss new (unresolved @ ambiguous)"
  define g' where "g' = from_rows_with_packages (kept ie_source_path ss es @ new)
    (kept oi_source_path ss us @ unresolved) (kept oi_source_path ss as @ ambiguous) fs ps os"
  have b0: "base_graph g0" and b': "base_graph g'" unfolding g0_def g'_def by (rule base_graph_rows)+
  have g0: "ReachGraph (rg_tables g0) None None [] = g0"
    by (simp add: g0_def from_rows_with_packages_def Let_def)
  have g: "g = refresh_sources_with_kinds g0 ss (map edge_row_of new) opn"
    by (simp add: g_def with_refreshed_sources_from_rows_def refresh_sources_from_rows_def g0 opn_def
        edge_row_of_def [abs_def])
  have rows: "\<forall>r \<in> set (map edge_row_of new). fst r \<in> set ss"
    using assms(2) by (simp add: edge_row_of_def)
  note b = refresh_tables [OF b0 assms(1) rows g]
  have edges: "out_edges g s = out_edges g' s" for s
    unfolding base_lookups(1) [OF b(1)] b(2) refreshed_edges_lookup [OF assms(1) rows]
    by (simp add: g0_def g'_def rows_lookups(1) rows_table_lookups row_edges_kept [OF assms(2), simplified])
  have reasons: "include_reasons opn"
    using assms(4,5) by (auto simp: include_reasons_def opn_def list_all_iff)
  have opn: "(s, UnresolvedInclude) \<in> set opn \<longleftrightarrow> s \<in> oi_source_path ` set unresolved"
    "(s, AmbiguousInclude) \<in> set opn \<longleftrightarrow> s \<in> oi_source_path ` set ambiguous" for s
    using assms(4,5) by (auto simp: opn_def image_iff)
  have "open_reason_of g s = map_of (fold (\<lambda>(path, reason) m. insert_open_reason m path reason) opn
      (fold AList.delete ss (rt_open (rg_tables g0)))) s" for s
    unfolding base_lookups(2) [OF b(1)] by (simp add: g refresh_sources_with_kinds_def Let_def)
  then have reason: "open_reason_of g s = open_reason_of g' s" for s
    using assms(3)
    by (auto simp: open_rows_lookup [OF reasons] opn delete_all_map_of
        g0_def g'_def rows_lookups(2) rows_table_lookups kept_def)
  have "same_files g g'" using edges reason by (auto simp: same_files_def)
  moreover have "same_packages g g'"
    by (rule base_packages [OF b(1) b'])
      (simp_all add: g g0_def g'_def refresh_sources_with_kinds_def from_rows_with_packages_def Let_def)
  ultimately have "compute g s = compute g' s" by (rule compute_cong)
  with edges reason direct_count_eq [OF b(1) b' edges] show ?thesis
    by (simp add: g_def g'_def g0_def)
qed

text \<open>A refresh of the sample graph that gives \<open>a.h\<close> an external include and an ambiguous one.\<close>

theorem refresh_is_rebuild_witness:
  "let new = [\<lparr> ie_source_path = ''a.h'', ie_target_path = ''/usr/z.h'', ie_resolution = ExternalExact \<rparr>];
       amb = [\<lparr> oi_source_path = ''a.h'', oi_reason = AmbiguousInclude \<rparr>];
       old = [\<lparr> ie_source_path = ''a.c'', ie_target_path = ''a.h'', ie_resolution = RelativeExact \<rparr>,
              \<lparr> ie_source_path = ''a.h'', ie_target_path = ''y.h'', ie_resolution = RelativeExact \<rparr>];
       g = with_refreshed_sources_from_rows (from_rows_with_packages old [] [] [] [] [])
             [''a.h''] new amb;
       g' = from_rows_with_packages (kept ie_source_path [''a.h''] old @ new) []
             (kept oi_source_path [''a.h''] [] @ amb) [] [] []
   in distinct [''a.h''] \<and> compute g ''a.c'' = compute g' ''a.c'' \<and>
      direct_external_source_count g ''/usr/z.h'' = direct_external_source_count g' ''/usr/z.h''"
  using refresh_is_rebuild [where ss = "[''a.h'']" and s = "''a.c''" and t = "''/usr/z.h''" and
      es = "[\<lparr> ie_source_path = ''a.c'', ie_target_path = ''a.h'', ie_resolution = RelativeExact \<rparr>,
             \<lparr> ie_source_path = ''a.h'', ie_target_path = ''y.h'', ie_resolution = RelativeExact \<rparr>]" and
      new = "[\<lparr> ie_source_path = ''a.h'', ie_target_path = ''/usr/z.h'', ie_resolution = ExternalExact \<rparr>]" and
      unresolved = "[]" and ambiguous = "[\<lparr> oi_source_path = ''a.h'', oi_reason = AmbiguousInclude \<rparr>]"
      and us = "[]" and as = "[]" and fs = "[]" and ps = "[]" and os = "[]"]
  by (simp add: Let_def kept_def)

section \<open>Request overlay\<close>

lemma deltas_fold_lookup:
  "get_or 0 (fold (\<lambda>t. entry_modify t 0 (\<lambda>n. n + k)) ts m) t = get_or 0 m t + k * int (count_list ts t)"
  by (induction ts arbitrary: m) (auto simp: algebra_simps)

lemma source_delta_lookup:
  "get_or 0 (source_delta b e s m) t =
     get_or 0 m t + int (source_count e t s)
     - (if is_absolute s then 0 else int (count_list (direct_targets (out_edges b s)) t))"
  by (simp add: source_delta_def source_count_def out_edges_def [symmetric]
      deltas_fold_lookup [of 1, simplified] deltas_fold_lookup [of "- 1", simplified])

lemma source_deltas_lookup:
  assumes "base_graph b"
  shows "get_or 0 (fold (source_delta b e) ss m) t =
    get_or 0 m t + int (\<Sum>s\<leftarrow>ss. source_count e t s)
    - int (\<Sum>s\<leftarrow>ss. source_count (rt_edges (rg_tables b)) t s)"
proof (induction ss arbitrary: m)
  case (Cons s ss)
  then show ?case
    using base_lookups(1) [OF assms, of s] by (simp add: source_delta_lookup source_count_def)
qed simp

lemma map_of_map_pair:
  "map_of (map (\<lambda>(k, v). (k, f k v)) m) k = map_option (f k) (map_of m k)"
  by (induction m) auto

lemma overlay_graph:
  "with_request_overrides b ss rows opn [] =
     ReachGraph empty_tables (Some b)
       (Some \<lparr> ov_sources = remdups ss,
               ov_edges = fold normalize_source ss (fold push_edge rows []),
               ov_open = fold (\<lambda>(path, reason) m. insert_open_reason m path reason) opn [],
               ov_package_by_file = [], ov_affected_packages = [], ov_open_packages = [],
               ov_direct_external_source_counts =
                 map (\<lambda>(t, d). (t, nat (max (int (direct_external_source_count b t) + d) 0)))
                   (fold (source_delta b (fold normalize_source ss (fold push_edge rows [])))
                      (remdups ss) []) \<rparr>) []"
  by (simp add: with_request_overrides_def Let_def)

lemma overlay_edges_lookup:
  assumes "distinct ss"
  shows "s \<in> set ss \<Longrightarrow> get_or [] (fold normalize_source ss (fold push_edge rows [])) s =
    normalize_reach_edges (row_edges rows s)"
  using assms by (simp add: normalize_sources_lookup push_edges_lookup)

lemma overlay_count:
  assumes b: "base_graph b" and ss: "distinct ss" "\<forall>r \<in> set rows. fst r \<in> set ss"
  shows "direct_external_source_count (with_request_overrides b ss rows opn []) t =
    direct_external_source_count (refresh_sources_with_kinds b ss rows opn) t"
proof -
  let ?e = "rt_edges (rg_tables b)" and ?new = "fold normalize_source ss (fold push_edge rows [])"
  let ?e' = "refreshed_edges ?e ss rows"
  let ?deltas = "fold (source_delta b ?new) (remdups ss) []"
  let ?c = "direct_external_source_count b t"
  note r = refresh_tables [OF b ss refl]
  have new: "(\<Sum>s\<leftarrow>ss. source_count ?new t s) = (\<Sum>s\<leftarrow>ss. source_count ?e' t s)"
    by (intro arg_cong [where f = sum_list] map_cong refl source_count_cong)
      (simp add: overlay_edges_lookup [OF ss(1)] refreshed_edges_lookup [OF ss])
  have delta: "get_or 0 ?deltas t =
      int (\<Sum>s\<leftarrow>ss. source_count ?e' t s) - int (\<Sum>s\<leftarrow>ss. source_count ?e t s)"
    using ss(1) by (simp add: source_deltas_lookup [OF b] distinct_remdups_id new)
  have "direct_external_source_count (with_request_overrides b ss rows opn []) t =
      nat (max (int ?c + get_or 0 ?deltas t) 0)"
    by (simp add: overlay_graph map_of_map_pair get_or_def split: option.split)
  also have "\<dots> = ?c - (\<Sum>s\<leftarrow>ss. source_count ?e t s) + (\<Sum>s\<leftarrow>ss. source_count ?e' t s)"
    using incremental_counts(2) [OF _ ss refl, of ?e "rt_direct_external_source_counts (rg_tables b)" t] b
    by (simp add: delta base_lookups(3) [OF b] base_graph_def)
  also have "\<dots> = get_or 0 (direct_external_source_counts ?e') t"
    using incremental_counts(1) [OF _ ss refl, of ?e "rt_direct_external_source_counts (rg_tables b)" t] b
    by (simp add: base_lookups(3) [OF b] base_graph_def)
  also have "\<dots> = direct_external_source_count (refresh_sources_with_kinds b ss rows opn) t"
    using r by (simp add: base_lookups(3) [OF r(1)] base_graph_def)
  finally show ?thesis .
qed

lemma insert_open_local:
  "map_of m s = map_of m' s \<Longrightarrow>
     map_of (insert_open_reason m p r) s = map_of (insert_open_reason m' p r) s"
  by (cases r) (auto simp: insert_open_reason_def get_or_def)

lemma insert_open_other: "s \<noteq> p \<Longrightarrow> map_of (insert_open_reason m p r) s = map_of m s"
  by (cases r) (simp_all add: insert_open_reason_def)

lemma open_rows_local:
  "map_of m s = map_of m' s \<Longrightarrow>
     map_of (fold (\<lambda>(path, reason) m. insert_open_reason m path reason) opn m) s =
     map_of (fold (\<lambda>(path, reason) m. insert_open_reason m path reason) opn m') s"
proof (induction opn arbitrary: m m')
  case (Cons x opn)
  from Cons.IH [OF insert_open_local [OF Cons.prems, of "fst x" "snd x"]]
  show ?case by (simp add: case_prod_unfold)
qed simp

lemma open_rows_other:
  "s \<notin> fst ` set opn \<Longrightarrow>
     map_of (fold (\<lambda>(path, reason) m. insert_open_reason m path reason) opn m) s = map_of m s"
proof (induction opn arbitrary: m)
  case (Cons x opn)
  then show ?case by (auto simp: case_prod_unfold insert_open_other)
qed simp

lemma overlay_packages: "same_packages (with_request_overrides b ss rows opn []) b"
  by (simp add: overlay_graph same_packages_def fun_eq_iff)

text \<open>C4. The sparse request overlay is observationally the copied refresh. Layering new rows for
  some sources over a published graph, without changing package membership, answers every scope,
  open-reason and external-count query exactly as refreshing a copy of the whole graph would.\<close>

theorem overlay_is_refresh:
  assumes "b = from_rows_with_packages es us as fs ps os" "distinct ss"
    and "\<forall>r \<in> set rows. fst r \<in> set ss" "\<forall>r \<in> set opn. fst r \<in> set ss"
  shows "let g = with_request_overrides b ss rows opn [];
             g' = refresh_sources_with_kinds b ss rows opn
         in compute g s = compute g' s \<and> open_reason_of g s = open_reason_of g' s \<and>
            any_workspace_directly_includes_external g t = any_workspace_directly_includes_external g' t"
proof -
  let ?g = "with_request_overrides b ss rows opn []" and ?g' = "refresh_sources_with_kinds b ss rows opn"
  have b: "base_graph b" by (simp add: assms(1) base_graph_rows)
  note r = refresh_tables [OF b assms(2,3) refl]
  have edges: "out_edges ?g s = out_edges ?g' s" for s
    unfolding base_lookups(1) [OF r(1)] r(2) refreshed_edges_lookup [OF assms(2,3)]
    using base_lookups(1) [OF b, of s]
    by (simp add: overlay_graph out_edges_def overlay_edges_lookup [OF assms(2)])
  have opn: "map_of (fold (\<lambda>(path, reason) m. insert_open_reason m path reason) opn
        (fold AList.delete ss m)) s =
      (if s \<in> set ss then map_of (fold (\<lambda>(path, reason) m. insert_open_reason m path reason) opn []) s
       else map_of m s)" for m s
  proof (cases "s \<in> set ss")
    case True
    then show ?thesis by (auto simp: delete_all_map_of intro: open_rows_local)
  next
    case False
    with assms(4) have "s \<notin> fst ` set opn" by auto
    with False show ?thesis by (simp add: open_rows_other delete_all_map_of)
  qed
  have reason: "open_reason_of ?g s = open_reason_of ?g' s" for s
    unfolding base_lookups(2) [OF r(1)]
    using base_lookups(2) [OF b, of s]
    by (simp add: overlay_graph refresh_sources_with_kinds_def Let_def opn)
  have "same_files ?g ?g'" using edges reason by (auto simp: same_files_def)
  moreover have "same_packages b ?g'"
    by (rule base_packages [OF b r(1)]) (simp_all add: refresh_sources_with_kinds_def Let_def)
  then have "same_packages ?g ?g'"
    using overlay_packages [of b ss rows opn] by (simp add: same_packages_def)
  ultimately show ?thesis
    using compute_cong reason overlay_count [OF b assms(2,3)]
    by (simp add: any_workspace_directly_includes_external_def)
qed

theorem overlay_is_refresh_witness:
  "let b = sample_graph;
       rows = [(''a.h'', ''/usr/z.h'', ExternalExact)];
       g = with_request_overrides b [''a.h''] rows [(''a.h'', AmbiguousInclude)] [];
       g' = refresh_sources_with_kinds b [''a.h''] rows [(''a.h'', AmbiguousInclude)]
   in compute g ''a.c'' = compute g' ''a.c'' \<and>
      any_workspace_directly_includes_external g ''/usr/z.h'' =
        any_workspace_directly_includes_external g' ''/usr/z.h''"
  using overlay_is_refresh [OF sample_graph_def, of "[''a.h'']" "[(''a.h'', ''/usr/z.h'', ExternalExact)]"
      "[(''a.h'', AmbiguousInclude)]" "''a.c''" "''/usr/z.h''"]
  by (simp add: Let_def)

end
