(* ===== verification/Resolver.thy ===== *)
theory Resolver
  imports Semantic_Model Reach_Update
begin

text \<open>
  The candidate vocabulary of \<open>src/crates/fossilsense/src/model.rs\<close> and the shared
  scope and ranking resolver of \<open>src/crates/fossilsense/src/resolver.rs\<close>: tier assignment,
  locality, score packing, the canonical sort, confidence projection, deduplication and the
  disposition of a candidate set. Scores are \<open>i32\<close>: the packed score is written with the wrap
  around and shown not to wrap inside the documented ranges.
\<close>

section \<open>Candidate vocabulary\<close>

datatype resolution_confidence =
  ExactMatch | ReachableMatch | HeuristicMatch | AmbiguousMatch | FallbackMatch

fun confidence_rank :: "resolution_confidence \<Rightarrow> nat" where
  "confidence_rank ExactMatch = 4"
| "confidence_rank ReachableMatch = 3"
| "confidence_rank HeuristicMatch = 2"
| "confidence_rank AmbiguousMatch = 1"
| "confidence_rank FallbackMatch = 0"

fun confidence_as_str :: "resolution_confidence \<Rightarrow> string" where
  "confidence_as_str ExactMatch = ''exact''"
| "confidence_as_str ReachableMatch = ''reachable''"
| "confidence_as_str HeuristicMatch = ''heuristic''"
| "confidence_as_str AmbiguousMatch = ''ambiguous''"
| "confidence_as_str FallbackMatch = ''fallback''"

lemma confidence_rank_inj: "confidence_rank a = confidence_rank b \<Longrightarrow> a = b"
  by (cases a; cases b) simp_all

instantiation resolution_confidence :: linorder
begin

definition less_eq_resolution_confidence :: "resolution_confidence \<Rightarrow> resolution_confidence \<Rightarrow> bool" where
  "less_eq_resolution_confidence a b \<longleftrightarrow> confidence_rank a \<le> confidence_rank b"

definition less_resolution_confidence :: "resolution_confidence \<Rightarrow> resolution_confidence \<Rightarrow> bool" where
  "less_resolution_confidence a b \<longleftrightarrow> confidence_rank a < confidence_rank b"

instance
  by standard
    (auto simp: less_eq_resolution_confidence_def less_resolution_confidence_def
      intro: confidence_rank_inj)

end

datatype resolution_reason = CurrentFile | ReachableInclude | ExternalFirstLayer | GlobalFallback

fun reason_as_str :: "resolution_reason \<Rightarrow> string" where
  "reason_as_str CurrentFile = ''current_file''"
| "reason_as_str ReachableInclude = ''reachable_include''"
| "reason_as_str ExternalFirstLayer = ''external_first_layer''"
| "reason_as_str GlobalFallback = ''global_fallback''"

datatype scope_tier = Current | Reachable | External | Unknown | Global

fun tier_rank :: "scope_tier \<Rightarrow> int" where
  "tier_rank Current = 4"
| "tier_rank Reachable = 3"
| "tier_rank External = 2"
| "tier_rank Unknown = 1"
| "tier_rank Global = 0"

fun tier_as_str :: "scope_tier \<Rightarrow> string" where
  "tier_as_str Current = ''current''"
| "tier_as_str Reachable = ''reachable''"
| "tier_as_str External = ''external''"
| "tier_as_str Unknown = ''unknown''"
| "tier_as_str Global = ''global''"

lemma tier_rank_inj: "tier_rank a = tier_rank b \<Longrightarrow> a = b"
  by (cases a; cases b) simp_all

lemma tier_rank_range: "0 \<le> tier_rank t \<and> tier_rank t \<le> 4"
  by (cases t) simp_all

instantiation scope_tier :: linorder
begin

definition less_eq_scope_tier :: "scope_tier \<Rightarrow> scope_tier \<Rightarrow> bool" where
  "less_eq_scope_tier a b \<longleftrightarrow> tier_rank a \<le> tier_rank b"

definition less_scope_tier :: "scope_tier \<Rightarrow> scope_tier \<Rightarrow> bool" where
  "less_scope_tier a b \<longleftrightarrow> tier_rank a < tier_rank b"

instance
  by standard (auto simp: less_eq_scope_tier_def less_scope_tier_def intro: tier_rank_inj)

end

record candidate_range =
  cr_start_line :: u32
  cr_start_col :: u32
  cr_end_line :: u32
  cr_end_col :: u32

record definition_candidate =
  dc_name :: string
  dc_kind :: string
  dc_role :: string
  dc_path :: string
  dc_range :: candidate_range
  dc_source :: string
  dc_tier :: scope_tier
  dc_base_match :: int
  dc_confidence :: resolution_confidence
  dc_reason :: resolution_reason

section \<open>Scope tiers\<close>

record resolve_context =
  rx_current_path :: "string option"
  rx_reach :: "reach_scope option"
  rx_direct_external_files :: "string set option"

definition unscoped :: "string option \<Rightarrow> resolve_context" where
  "unscoped current_path =
     \<lparr> rx_current_path = current_path, rx_reach = None, rx_direct_external_files = None \<rparr>"

definition scope_tier_of :: "string \<Rightarrow> bool \<Rightarrow> bool \<Rightarrow> resolve_context option \<Rightarrow> scope_tier" where
  "scope_tier_of path external directly_included ctx =
     (let directly_included =
        (case Option.bind ctx rx_direct_external_files of
           None \<Rightarrow> directly_included
         | Some paths \<Rightarrow> path \<in> paths)
      in if external \<and> directly_included then External
         else case ctx of
           None \<Rightarrow> Global
         | Some ctx \<Rightarrow>
             if rx_current_path ctx = Some path then Current
             else case rx_reach ctx of
               None \<Rightarrow> Global
             | Some reach \<Rightarrow>
                 if path \<in> rs_files reach then Reachable
                 else if path \<in> rs_heuristic_files reach then Unknown
                 else if rs_open reach then Unknown
                 else Global)"

definition coloring_scope_allows :: "string \<Rightarrow> bool \<Rightarrow> bool \<Rightarrow> resolve_context option \<Rightarrow> bool" where
  "coloring_scope_allows path external directly_included ctx =
     (let tier = scope_tier_of path external directly_included ctx
      in tier \<in> {Current, Reachable, External} \<or>
         (tier = Unknown \<and>
          (case Option.bind ctx rx_reach of
             None \<Rightarrow> False
           | Some reach \<Rightarrow> path \<in> rs_heuristic_files reach)))"

section \<open>Ranking\<close>

definition TIER_STRIDE :: int where "TIER_STRIDE = 2048"
definition MAX_BASE_MATCH :: int where "MAX_BASE_MATCH = 1500"
definition MAX_LOCALITY :: int where "MAX_LOCALITY = 100"
definition LOCALITY_PER_SEGMENT :: int where "LOCALITY_PER_SEGMENT = 10"
definition MAX_LOCALITY_SEGMENTS :: int where
  "MAX_LOCALITY_SEGMENTS = MAX_LOCALITY div LOCALITY_PER_SEGMENT"

definition common_path_prefix_segments :: "string \<Rightarrow> string \<Rightarrow> nat" where
  "common_path_prefix_segments a b =
     length (takeWhile (\<lambda>(x, y). x = y) (zip (split_on (CHR ''/'') a) (split_on (CHR ''/'') b)))"

definition locality :: "string \<Rightarrow> string option \<Rightarrow> int" where
  "locality path current_path =
     (case current_path of
        None \<Rightarrow> 0
      | Some current \<Rightarrow>
          (let segments = common_path_prefix_segments path current;
               capped = int (min segments (nat (max MAX_LOCALITY_SEGMENTS 0)))
           in LOCALITY_PER_SEGMENT * capped))"

definition pack_score :: "scope_tier \<Rightarrow> int \<Rightarrow> int \<Rightarrow> int" where
  "pack_score tier base_match loc = wrap_i32 (tier_rank tier * TIER_STRIDE + base_match + loc)"

definition compare_candidates ::
  "string option \<Rightarrow> definition_candidate \<Rightarrow> definition_candidate \<Rightarrow> ordering" where
  "compare_candidates current_path a b =
     (let score = (\<lambda>c. pack_score (dc_tier c) (dc_base_match c) (locality (dc_path c) current_path))
      in then_with (cmp_of (score b) (score a))
           (then_with (cmp_of (dc_path a) (dc_path b))
              (cmp_of (cr_start_line (dc_range a)) (cr_start_line (dc_range b)))))"

definition sort_candidates ::
  "definition_candidate list \<Rightarrow> string option \<Rightarrow> definition_candidate list" where
  "sort_candidates candidates current_path = sort_by (compare_candidates current_path) candidates"

definition confidence_reason_for ::
  "scope_tier \<Rightarrow> bool \<Rightarrow> open_reason option \<Rightarrow> resolution_confidence \<times> resolution_reason" where
  "confidence_reason_for tier exact_name reason =
     (case tier of
        Current \<Rightarrow> (if exact_name then ExactMatch else ReachableMatch, CurrentFile)
      | Reachable \<Rightarrow> (ReachableMatch, ReachableInclude)
      | External \<Rightarrow> (HeuristicMatch, ExternalFirstLayer)
      | Unknown \<Rightarrow>
          (if reason = Some AmbiguousInclude then AmbiguousMatch else FallbackMatch, GlobalFallback)
      | Global \<Rightarrow> (FallbackMatch, GlobalFallback))"

section \<open>Deduplication\<close>

text \<open>The loop state: the index of the best candidate per name, and the survivors by position.\<close>

type_synonym dedup_state = "(string, nat) hmap \<times> definition_candidate option list"

definition dedup_step :: "nat \<Rightarrow> dedup_state \<Rightarrow> dedup_state" where
  "dedup_step i st =
     (case st of (best_by_name, survivors) \<Rightarrow>
        (case survivors ! i of
           None \<Rightarrow> st
         | Some cand \<Rightarrow>
             (case map_of best_by_name (dc_name cand) of
                None \<Rightarrow> (AList.update (dc_name cand) i best_by_name, survivors)
              | Some prev_i \<Rightarrow>
                  (case survivors ! prev_i of
                     None \<Rightarrow> st
                   | Some prev \<Rightarrow>
                       if (dc_tier cand, dc_confidence cand) > (dc_tier prev, dc_confidence prev)
                       then (AList.update (dc_name cand) i best_by_name, survivors[prev_i := None])
                       else (best_by_name, survivors[i := None])))))"

definition dedup_keep_higher :: "definition_candidate list \<Rightarrow> definition_candidate list" where
  "dedup_keep_higher candidates =
     (let (_, survivors) = fold dedup_step [0..<length candidates] ([], map Some candidates)
      in List.map_filter id survivors)"

section \<open>Candidate sets\<close>

datatype candidate_disposition = ExactAnswer | Preferred | AmbiguousAnswer | FallbackAnswer

fun disposition_as_str :: "candidate_disposition \<Rightarrow> string" where
  "disposition_as_str ExactAnswer = ''exact''"
| "disposition_as_str Preferred = ''preferred''"
| "disposition_as_str AmbiguousAnswer = ''ambiguous''"
| "disposition_as_str FallbackAnswer = ''fallback''"

record shared_candidate_coverage =
  sc_scanned :: nat
  sc_truncated :: bool
  sc_scope_open :: bool
  sc_facts_incomplete :: bool
  sc_generation_mismatch :: bool
  sc_declaration_state :: fact_coverage
  sc_declaration_reasons :: "8 word"

definition declaration_reason_labels :: "shared_candidate_coverage \<Rightarrow> string list" where
  "declaration_reason_labels cov =
     map coverage_reason_as_str
       (filter (\<lambda>r. sc_declaration_reasons cov AND push_bit (coverage_reason_index r) 1 \<noteq> 0)
          coverage_reason_ALL)"

definition complete_coverage :: "nat \<Rightarrow> shared_candidate_coverage" where
  "complete_coverage scanned =
     \<lparr> sc_scanned = scanned, sc_truncated = False, sc_scope_open = False, sc_facts_incomplete = False,
       sc_generation_mismatch = False, sc_declaration_state = Complete, sc_declaration_reasons = 0 \<rparr>"

definition permits_exact :: "shared_candidate_coverage \<Rightarrow> bool" where
  "permits_exact cov \<longleftrightarrow>
     \<not> sc_truncated cov \<and> \<not> sc_scope_open cov \<and> \<not> sc_facts_incomplete cov
     \<and> \<not> sc_generation_mismatch cov"

record candidate_ref =
  cf_group_index :: nat
  cf_candidate_index :: nat

record 'a candidate_group =
  cg_logical_key :: "logical_entity_key option"
  cg_declaration_kind :: semantic_declaration_kind
  cg_tier :: scope_tier
  cg_authoritative :: bool
  cg_low_fidelity :: bool
  cg_candidates :: "'a list"

record 'a candidate_set =
  cset_all :: "'a candidate_group list"
  cset_focused :: "candidate_ref list"
  cset_coverage :: shared_candidate_coverage
  cset_disposition :: candidate_disposition
  cset_alternative_count :: nat

fun push_distinct :: "nat list \<Rightarrow> candidate_ref list \<Rightarrow> nat list" where
  "push_distinct groups [] = groups"
| "push_distinct groups (r # rs) =
     push_distinct
       (if cf_group_index r \<in> set groups then groups else groups @ [cf_group_index r]) rs"

definition classify_candidate_disposition ::
  "'a candidate_group list \<Rightarrow> candidate_ref list \<Rightarrow> shared_candidate_coverage
   \<Rightarrow> candidate_disposition" where
  "classify_candidate_disposition all focused coverage =
     (if \<not> list_ex cg_authoritative all then FallbackAnswer
      else
        (let focused_groups = push_distinct [] focused
         in if length focused_groups > 1 \<or> length focused > 1 then AmbiguousAnswer
            else case focused of
              [] \<Rightarrow> FallbackAnswer
            | candidate_ref # _ \<Rightarrow>
                if cf_group_index candidate_ref \<ge> length all then FallbackAnswer
                else
                  (let group = all ! cf_group_index candidate_ref
                   in if \<not> cg_authoritative group \<or> cg_low_fidelity group then FallbackAnswer
                      else if permits_exact coverage then ExactAnswer else Preferred)))"

definition candidate_set_new ::
  "'a candidate_group list \<Rightarrow> candidate_ref list \<Rightarrow> shared_candidate_coverage \<Rightarrow> 'a candidate_set" where
  "candidate_set_new all focused coverage =
     (let disposition = classify_candidate_disposition all focused coverage;
          focused_groups = set (map cf_group_index focused);
          alternative_count =
            sum_list (map (\<lambda>(_, group). length (cg_candidates group))
              (filter (\<lambda>(index, _). index \<notin> focused_groups) (enumerate 0 all)))
      in \<lparr> cset_all = all, cset_focused = focused, cset_coverage = coverage,
           cset_disposition = disposition, cset_alternative_count = alternative_count \<rparr>)"

end
