(* ===== verification/Candidate_Ranking.thy ===== *)
theory Candidate_Ranking
  imports Resolver
begin

text \<open>
  What the resolver guarantees: a tier is backed by the evidence it names, the packed score is a
  faithful encoding of the tier order, the canonical sort lists stronger tiers first,
  deduplication keeps the earliest of the strongest candidates of each name, and a candidate set
  is only called exact when that is justified. Two documented orderings that the code does not
  implement are shown on concrete inputs.
\<close>

section \<open>Tiers and evidence\<close>

text \<open>The context the engine builds for a request from \<open>current\<close>.\<close>

definition request_context :: "reach_graph \<Rightarrow> string \<Rightarrow> resolve_context" where
  "request_context g current =
     \<lparr> rx_current_path = Some current, rx_reach = Some (fst (reachable g current)),
       rx_direct_external_files = Some (directly_included_external_paths_from g current) \<rparr>"

lemma projection_sound:
  assumes "path \<in> directly_included_external_paths_from g s"
  shows "directly_includes_external g s path \<and> strong_path g s path"
proof -
  from assms obtain es e where e: "edges_for g s = Some es" "e \<in> set es" "re_target e = path"
      "is_direct_external_edge e"
    by (auto simp: directly_included_external_paths_from_def split: option.splits dest: in_set_takeD)
  then have "directly_includes_external g s path"
    by (auto simp: directly_includes_external_def is_direct_external_edge_def list_ex_iff)
  moreover have "strong_path g s (re_target e)"
    using e by (intro strong_step [OF strong_start e(1,2)]) (simp add: is_direct_external_edge_def)
  ultimately show ?thesis using e(3) by blast
qed

text \<open>C31. Scope tiers are evidence. For a request from a file outside the Go packages on a published
  graph, a \<open>Reachable\<close> candidate lives in a file connected to the current one by exact include
  edges, an \<open>External\<close> one in a header the current file itself includes from a configured root,
  a \<open>Current\<close> one in the current file, and a \<open>Global\<close> one in a file that no include path
  reaches; only \<open>Unknown\<close> leaves reachability undecided.\<close>

theorem scope_tier_evidence:
  assumes "published g" "package_for_file g current = None"
  shows "case scope_tier_of path external directly_included (Some (request_context g current)) of
      Current \<Rightarrow> path = current
    | Reachable \<Rightarrow> strong_path g current path
    | External \<Rightarrow> external \<and> directly_includes_external g current path \<and> strong_path g current path
    | Unknown \<Rightarrow> \<not> strong_path g current path \<or> rs_open (compute g current)
    | Global \<Rightarrow> \<not> any_path g current path"
proof -
  let ?r = "compute g current" and ?d = "directly_included_external_paths_from g current"
  have tier: "scope_tier_of path external directly_included (Some (request_context g current)) =
      (if external \<and> path \<in> ?d then External
       else if path = current then Current
       else if path \<in> rs_files ?r then Reachable
       else if path \<in> rs_heuristic_files ?r \<or> rs_open ?r then Unknown else Global)"
    by (auto simp: scope_tier_of_def request_context_def reachable_fst [OF assms(1)])
  have sound: "rs_files ?r \<subseteq> {f. strong_path g current f}"
    using final_scan_sound [of g current] by (auto simp: compute_file [OF assms(2)] scan_sound_def)
  have closed: "strong_path g current path \<longrightarrow> path \<in> rs_files ?r"
    "any_path g current path \<longrightarrow> path \<in> rs_files ?r \<union> rs_heuristic_files ?r" if "\<not> rs_open ?r"
    using that closed_scan_closures [of g current] by (auto simp: compute_file [OF assms(2)] scan_nodes_def)
  show ?thesis
    unfolding tier using sound closed projection_sound [of path g current] by auto
qed

theorem scope_tier_evidence_witness:
  "published sample_graph \<and> package_for_file sample_graph ''a.c'' = None \<and>
   scope_tier_of ''y.h'' False False (Some (request_context sample_graph ''a.c'')) = Reachable \<and>
   scope_tier_of ''b.c'' False False (Some (request_context sample_graph ''a.c'')) = Global \<and>
   strong_path sample_graph ''a.c'' ''y.h'' \<and> \<not> any_path sample_graph ''a.c'' ''b.c''"
proof -
  have p: "published sample_graph" by (simp add: sample_graph_def published_rows)
  have t: "scope_tier_of ''y.h'' False False (Some (request_context sample_graph ''a.c'')) = Reachable"
    "scope_tier_of ''b.c'' False False (Some (request_context sample_graph ''a.c'')) = Global"
    by (simp_all add: scope_tier_of_def request_context_def reachable_fst [OF p] sample_scope)
  show ?thesis
    using scope_tier_evidence [OF p sample_package, of "''y.h''" False False]
      scope_tier_evidence [OF p sample_package, of "''b.c''" False False] p sample_package t
    by simp
qed

text \<open>Degraded coloring takes evidence from a candidate file exactly when it is the current file, a
  first-layer external header, or a file of the reachable scope, exact or heuristic; a scope that
  is merely open admits no other file.\<close>

theorem coloring_admits_only_scope:
  "coloring_scope_allows path external directly_included
     (Some \<lparr> rx_current_path = current, rx_reach = Some reach, rx_direct_external_files = direct \<rparr>) \<longleftrightarrow>
   current = Some path \<or> path \<in> rs_files reach \<union> rs_heuristic_files reach \<or>
   external \<and> (case direct of None \<Rightarrow> directly_included | Some paths \<Rightarrow> path \<in> paths)"
  by (auto simp: coloring_scope_allows_def scope_tier_of_def Let_def split: option.splits)

text \<open>The confidence shown with a candidate never contradicts its tier: it is monotone in the tier,
  \<open>Exact\<close> is given only to an exact name in the current file, and the reason \<open>GlobalFallback\<close>
  marks exactly the two tiers without scope evidence.\<close>

theorem confidence_follows_tier:
  "(t \<le> t' \<longrightarrow>
      fst (confidence_reason_for t exact_name reason) \<le> fst (confidence_reason_for t' exact_name reason)) \<and>
   (fst (confidence_reason_for t exact_name reason) = ExactMatch \<longleftrightarrow> t = Current \<and> exact_name) \<and>
   (snd (confidence_reason_for t exact_name reason) = GlobalFallback \<longleftrightarrow> t \<le> Unknown)"
  by (cases t; cases t')
    (simp_all add: confidence_reason_for_def less_eq_scope_tier_def less_eq_resolution_confidence_def)

theorem confidence_follows_tier_witness:
  "Unknown \<le> Reachable \<and>
   fst (confidence_reason_for Unknown True (Some AmbiguousInclude))
     \<le> fst (confidence_reason_for Reachable True (Some AmbiguousInclude))"
  using confidence_follows_tier [of Unknown Reachable True "Some AmbiguousInclude"]
  by (simp add: less_eq_scope_tier_def)

section \<open>Scores\<close>

lemma locality_range: "0 \<le> locality p c \<and> locality p c \<le> 100"
proof (cases c)
  case (Some x)
  have "min n 10 \<le> (10 :: nat)" for n by simp
  then have "int (min n 10) \<le> 10" for n by (metis of_nat_mono of_nat_numeral)
  with Some show ?thesis
    by (simp add: locality_def LOCALITY_PER_SEGMENT_def MAX_LOCALITY_SEGMENTS_def MAX_LOCALITY_def Let_def)
qed (simp add: locality_def)

definition in_range :: "int \<Rightarrow> int \<Rightarrow> bool" where
  "in_range base loc \<longleftrightarrow> 0 \<le> base \<and> base \<le> MAX_BASE_MATCH \<and> 0 \<le> loc \<and> loc \<le> MAX_LOCALITY"

lemma pack_score_exact:
  "in_range base loc \<Longrightarrow> pack_score t base loc = tier_rank t * 2048 + base + loc"
  using tier_rank_range [of t]
  by (simp add: pack_score_def in_range_def TIER_STRIDE_def MAX_BASE_MATCH_def MAX_LOCALITY_def wrap_i32_id)

lemma pack_score_tier:
  assumes "in_range b l" "in_range b' l'" "t < t'"
  shows "pack_score t b l < pack_score t' b' l'"
proof -
  from assms(3) have "tier_rank t + 1 \<le> tier_rank t'" by (simp add: less_scope_tier_def)
  then have "tier_rank t * 2048 + 2048 \<le> tier_rank t' * 2048" by linarith
  with assms(1,2) show ?thesis
    by (simp add: pack_score_exact) (simp add: in_range_def MAX_BASE_MATCH_def MAX_LOCALITY_def)
qed



text \<open>Locality is added to match quality, so it does not only break ties: a candidate of lower match
  quality in a nearby directory outranks a better match of the same tier.\<close>

theorem locality_overtakes_base_match:
  "in_range 950 (locality ''a/b/c/d/e/f/x.c'' (Some ''a/b/c/d/e/f/y.c'')) \<and>
   in_range 1000 (locality ''z.c'' (Some ''a/b/c/d/e/f/y.c'')) \<and>
   pack_score Reachable 1000 (locality ''z.c'' (Some ''a/b/c/d/e/f/y.c''))
     < pack_score Reachable 950 (locality ''a/b/c/d/e/f/x.c'' (Some ''a/b/c/d/e/f/y.c''))"
proof -
  have l: "locality ''a/b/c/d/e/f/x.c'' (Some ''a/b/c/d/e/f/y.c'') = 60"
    "locality ''z.c'' (Some ''a/b/c/d/e/f/y.c'') = 0"
    by code_simp+
  show ?thesis unfolding l
    by (simp add: in_range_def MAX_BASE_MATCH_def MAX_LOCALITY_def pack_score_def TIER_STRIDE_def wrap_i32_def)
qed

text \<open>A header that the current file includes directly ranks below a header it reaches only through
  that header: the first is \<open>External\<close>, the second \<open>Reachable\<close>.\<close>

theorem direct_include_ranks_below_transitive:
  "let g = new_with_kinds [(''a.c'', ''/sdk/a.h'', ExternalExact), (''/sdk/a.h'', ''/sdk/b.h'', RelativeExact)] [] [];
       ctx = Some (request_context g ''a.c'')
   in scope_tier_of ''/sdk/a.h'' True True ctx = External \<and>
      scope_tier_of ''/sdk/b.h'' True False ctx = Reachable \<and>
      scope_tier_of ''/sdk/a.h'' True True ctx < scope_tier_of ''/sdk/b.h'' True False ctx"
  by code_simp

section \<open>The canonical sort\<close>

interpretation candidate_order: lawful_cmp "compare_candidates current_path" for current_path
  unfolding compare_candidates_def Let_def by (intro lawful_cmp_intros)

lemma compare_candidates_tier:
  assumes "in_range (dc_base_match a) 0" "in_range (dc_base_match b) 0"
    and "compare_candidates cur a b \<noteq> Greater"
  shows "dc_tier b \<le> dc_tier a"
proof (rule ccontr)
  assume "\<not> dc_tier b \<le> dc_tier a"
  then have "dc_tier a < dc_tier b" by simp
  moreover have "in_range (dc_base_match a) (locality (dc_path a) cur)"
    "in_range (dc_base_match b) (locality (dc_path b) cur)"
    using assms(1,2) locality_range by (simp_all add: in_range_def MAX_LOCALITY_def)
  ultimately have "pack_score (dc_tier a) (dc_base_match a) (locality (dc_path a) cur)
      < pack_score (dc_tier b) (dc_base_match b) (locality (dc_path b) cur)"
    by (rule pack_score_tier [rotated 2])
  with assms(3) show False by (simp add: compare_candidates_def Let_def)
qed

text \<open>The canonical sort returns the same candidates with stronger tiers first, whatever their
  match quality and location; within one tier the larger packed score comes first.\<close>

theorem sort_candidates_by_tier:
  assumes "\<forall>c \<in> set cs. 0 \<le> dc_base_match c \<and> dc_base_match c \<le> MAX_BASE_MATCH"
  shows "mset (sort_candidates cs cur) = mset cs \<and>
    sorted_wrt (\<lambda>a b. dc_tier b \<le> dc_tier a \<and>
      pack_score (dc_tier b) (dc_base_match b) (locality (dc_path b) cur)
        \<le> pack_score (dc_tier a) (dc_base_match a) (locality (dc_path a) cur)) (sort_candidates cs cur)"
proof
  show "mset (sort_candidates cs cur) = mset cs" by (simp add: sort_candidates_def)
  have "sorted_wrt (\<lambda>a b. compare_candidates cur a b \<noteq> Greater) (sort_candidates cs cur)"
    using candidate_order.sorted_sort_by [of cur cs] by (simp add: sort_candidates_def sorted_cmp_def)
  then show "sorted_wrt (\<lambda>a b. dc_tier b \<le> dc_tier a \<and>
      pack_score (dc_tier b) (dc_base_match b) (locality (dc_path b) cur)
        \<le> pack_score (dc_tier a) (dc_base_match a) (locality (dc_path a) cur)) (sort_candidates cs cur)"
  proof (rule sorted_wrt_mono_rel [rotated])
    fix a b assume "a \<in> set (sort_candidates cs cur)" "b \<in> set (sort_candidates cs cur)"
      and le: "compare_candidates cur a b \<noteq> Greater"
    then have "in_range (dc_base_match a) 0" "in_range (dc_base_match b) 0"
      using assms by (simp_all add: sort_candidates_def in_range_def MAX_LOCALITY_def)
    from compare_candidates_tier [OF this le] le
    show "dc_tier b \<le> dc_tier a \<and>
      pack_score (dc_tier b) (dc_base_match b) (locality (dc_path b) cur)
        \<le> pack_score (dc_tier a) (dc_base_match a) (locality (dc_path a) cur)"
      by (auto simp: compare_candidates_def Let_def)
  qed
qed

definition sample_candidate :: "string \<Rightarrow> scope_tier \<Rightarrow> int \<Rightarrow> resolution_confidence \<Rightarrow> definition_candidate" where
  "sample_candidate path tier base conf =
     \<lparr> dc_name = ''f'', dc_kind = ''function'', dc_role = ''definition'', dc_path = path,
       dc_range = \<lparr> cr_start_line = 1, cr_start_col = 0, cr_end_line = 1, cr_end_col = 4 \<rparr>,
       dc_source = ''workspace'', dc_tier = tier, dc_base_match = base, dc_confidence = conf,
       dc_reason = GlobalFallback \<rparr>"

theorem sort_candidates_by_tier_witness:
  "let cs = [sample_candidate ''b.c'' Global 1000 FallbackMatch, sample_candidate ''a.c'' Current 0 ExactMatch]
   in (\<forall>c \<in> set cs. 0 \<le> dc_base_match c \<and> dc_base_match c \<le> MAX_BASE_MATCH) \<and>
      mset (sort_candidates cs (Some ''a.c'')) = mset cs"
  using sort_candidates_by_tier
    [of "[sample_candidate ''b.c'' Global 1000 FallbackMatch, sample_candidate ''a.c'' Current 0 ExactMatch]"
      "Some ''a.c''"]
  by (simp add: sample_candidate_def MAX_BASE_MATCH_def)

section \<open>Deduplication\<close>

definition dedup_key :: "definition_candidate \<Rightarrow> scope_tier \<times> resolution_confidence" where
  "dedup_key c = (dc_tier c, dc_confidence c)"

text \<open>Position \<open>i\<close> holds the earliest of the strongest candidates of its name among the first
  \<open>k\<close>.\<close>

definition best_upto :: "definition_candidate list \<Rightarrow> nat \<Rightarrow> nat \<Rightarrow> bool" where
  "best_upto cs k i \<longleftrightarrow>
     i < k \<and> (\<forall>j < k. dc_name (cs ! j) = dc_name (cs ! i) \<longrightarrow>
        dedup_key (cs ! j) < dedup_key (cs ! i) \<or> dedup_key (cs ! j) = dedup_key (cs ! i) \<and> i \<le> j)"

definition dedup_inv :: "definition_candidate list \<Rightarrow> nat \<Rightarrow> dedup_state \<Rightarrow> bool" where
  "dedup_inv cs k st \<longleftrightarrow>
     (\<forall>n i. map_of (fst st) n = Some i \<longleftrightarrow> best_upto cs k i \<and> dc_name (cs ! i) = n) \<and>
     length (snd st) = length cs \<and>
     (\<forall>i < length cs. snd st ! i = (if i < k \<and> \<not> best_upto cs k i then None else Some (cs ! i)))"

lemma best_upto_unique:
  "best_upto cs k i \<Longrightarrow> best_upto cs k j \<Longrightarrow> dc_name (cs ! i) = dc_name (cs ! j) \<Longrightarrow> i = j"
  unfolding best_upto_def by (metis le_antisym less_asym less_irrefl)

lemma best_upto_le:
  "best_upto cs k i \<Longrightarrow> j < k \<Longrightarrow> dc_name (cs ! j) = dc_name (cs ! i) \<Longrightarrow>
     dedup_key (cs ! j) \<le> dedup_key (cs ! i)"
  unfolding best_upto_def by fastforce

lemma best_upto_Suc_old:
  "i < k \<Longrightarrow> best_upto cs (Suc k) i \<longleftrightarrow>
     best_upto cs k i \<and> (dc_name (cs ! k) = dc_name (cs ! i) \<longrightarrow> dedup_key (cs ! k) \<le> dedup_key (cs ! i))"
  unfolding best_upto_def by (auto simp: less_Suc_eq)

lemma best_upto_Suc_new:
  "best_upto cs (Suc k) k \<longleftrightarrow>
     (\<forall>j < k. dc_name (cs ! j) = dc_name (cs ! k) \<longrightarrow> dedup_key (cs ! j) < dedup_key (cs ! k))"
  unfolding best_upto_def by (auto simp: less_Suc_eq)

lemma best_upto_exists:
  "j < k \<Longrightarrow> \<exists>i. best_upto cs k i \<and> dc_name (cs ! i) = dc_name (cs ! j)"
proof (induction k arbitrary: j)
  case (Suc k)
  show ?case
  proof (cases "\<exists>j' < k. dc_name (cs ! j') = dc_name (cs ! j)")
    case True
    then obtain i where i: "best_upto cs k i" "dc_name (cs ! i) = dc_name (cs ! j)"
      using Suc.IH by metis
    have "i < k" using i(1) by (simp add: best_upto_def)
    show ?thesis
    proof (cases "dc_name (cs ! k) = dc_name (cs ! i) \<and> dedup_key (cs ! i) < dedup_key (cs ! k)")
      case True
      then have "best_upto cs (Suc k) k"
        unfolding best_upto_Suc_new using best_upto_le [OF i(1)] by (metis le_less_trans)
      with True i show ?thesis by metis
    next
      case False
      then have "best_upto cs (Suc k) i"
        using i(1) best_upto_Suc_old [OF \<open>i < k\<close>] by (auto simp: not_less)
      with i show ?thesis by blast
    qed
  next
    case False
    with Suc.prems have "j = k" by (metis less_Suc_eq)
    with False have "best_upto cs (Suc k) k" by (auto simp: best_upto_Suc_new)
    with \<open>j = k\<close> show ?thesis by blast
  qed
qed simp

lemma dedup_invI:
  assumes "\<And>n i. map_of best n = Some i \<longleftrightarrow> best_upto cs k i \<and> dc_name (cs ! i) = n"
    and "length sv = length cs"
    and "\<And>i. i < length cs \<Longrightarrow>
      sv ! i = (if i < k \<and> \<not> best_upto cs k i then None else Some (cs ! i))"
  shows "dedup_inv cs k (best, sv)"
  using assms by (simp add: dedup_inv_def)

lemma dedup_step_inv:
  assumes inv: "dedup_inv cs k st" and k: "k < length cs"
  shows "dedup_inv cs (Suc k) (dedup_step k st)"
proof -
  obtain best sv where st: "st = (best, sv)" by (cases st)
  have best: "map_of best n = Some i \<longleftrightarrow> best_upto cs k i \<and> dc_name (cs ! i) = n" for n i
    using inv by (simp add: dedup_inv_def st)
  have len: "length sv = length cs" and
    sv: "i < length cs \<Longrightarrow> sv ! i = (if i < k \<and> \<not> best_upto cs k i then None else Some (cs ! i))" for i
    using inv by (simp_all add: dedup_inv_def st)
  have cand: "sv ! k = Some (cs ! k)" using sv k by simp
  let ?n = "dc_name (cs ! k)"
  show ?thesis
  proof (cases "map_of best ?n")
    case None
    then have fresh: "\<not> (\<exists>j < k. dc_name (cs ! j) = ?n)"
      using best best_upto_exists by (metis option.distinct(1))
    then have new: "best_upto cs (Suc k) i \<longleftrightarrow> i = k \<or> best_upto cs k i" for i
      using best_upto_Suc_old [of i k cs] best_upto_Suc_new [of cs k]
      by (cases "i < k") (auto simp: best_upto_def less_Suc_eq)
    have "dedup_step k st = (AList.update ?n k best, sv)"
      by (simp add: dedup_step_def st cand None)
    moreover have "\<not> best_upto cs k k" by (simp add: best_upto_def)
    ultimately show ?thesis
      using best sv len fresh by (auto simp: dedup_inv_def new less_Suc_eq best_upto_def)
  next
    case (Some p)
    then have p: "best_upto cs k p" "dc_name (cs ! p) = ?n" "p < k"
      using best by (auto simp: best_upto_def)
    have other: "i = p" if "best_upto cs k i" "dc_name (cs ! i) = ?n" for i
      using best_upto_unique that p by metis
    have prev: "sv ! p = Some (cs ! p)" using sv p k by simp
    show ?thesis
    proof (cases "dedup_key (cs ! p) < dedup_key (cs ! k)")
      case True
      then have nle: "\<not> dedup_key (cs ! k) \<le> dedup_key (cs ! p)" by (simp only: not_le)
      have new: "best_upto cs (Suc k) i \<longleftrightarrow> i = k \<or> best_upto cs k i \<and> i \<noteq> p" for i
      proof (cases "i < k")
        case less: True
        then show ?thesis
          using best_upto_Suc_old [OF less, of cs] other [of i] p(2) nle by (cases "i = p") auto
      next
        case False
        have "best_upto cs (Suc k) k"
          unfolding best_upto_Suc_new using best_upto_le [OF p(1)] p(2) True by (metis le_less_trans)
        with False show ?thesis by (auto simp: best_upto_def less_Suc_eq)
      qed
      have "dedup_step k st = (AList.update ?n k best, sv[p := None])"
        using True by (simp add: dedup_step_def st cand Some prev dedup_key_def)
      moreover have "dedup_inv cs (Suc k) (AList.update ?n k best, sv[p := None])"
      proof (rule dedup_invI)
        fix m i
        have "\<not> best_upto cs k k" by (simp add: best_upto_def)
        then show "map_of (AList.update ?n k best) m = Some i \<longleftrightarrow> best_upto cs (Suc k) i \<and> dc_name (cs ! i) = m"
          using best [of m i] other [of i] p(2) by (auto simp: new)
      next
        fix i assume "i < length cs"
        with sv [of i] p(3) show "sv[p := None] ! i =
            (if i < Suc k \<and> \<not> best_upto cs (Suc k) i then None else Some (cs ! i))"
          by (cases "i = k"; cases "i = p") (simp_all add: new nth_list_update len cand)
      qed (simp add: len)
      ultimately show ?thesis by simp
    next
      case False
      then have le: "dedup_key (cs ! k) \<le> dedup_key (cs ! p)" by (simp only: not_less)
      have new: "best_upto cs (Suc k) i \<longleftrightarrow> best_upto cs k i" for i
      proof (cases "i < k")
        case less: True
        then show ?thesis
          using best_upto_Suc_old [OF less, of cs] other [of i] p(2) le by (cases "i = p") auto
      next
        case ge: False
        have "\<not> best_upto cs (Suc k) k"
          unfolding best_upto_Suc_new using p False by blast
        with ge show ?thesis by (auto simp: best_upto_def less_Suc_eq)
      qed
      have "dedup_step k st = (best, sv[k := None])"
        using False by (auto simp: dedup_step_def st cand Some prev dedup_key_def)
      moreover have "dedup_inv cs (Suc k) (best, sv[k := None])"
      proof (rule dedup_invI)
        fix i assume "i < length cs"
        moreover have "\<not> best_upto cs k k" by (simp add: best_upto_def)
        ultimately show "sv[k := None] ! i =
            (if i < Suc k \<and> \<not> best_upto cs (Suc k) i then None else Some (cs ! i))"
          using sv [of i] by (cases "i = k") (auto simp: new nth_list_update len)
      qed (simp_all add: best new len)
      ultimately show ?thesis by simp
    qed
  qed
qed

lemma dedup_fold_inv:
  "k \<le> length cs \<Longrightarrow> dedup_inv cs k (fold dedup_step [0..<k] ([], map Some cs))"
proof (induction k)
  case 0
  then show ?case by (simp add: dedup_inv_def best_upto_def)
next
  case (Suc k)
  then show ?case using dedup_step_inv by simp
qed

text \<open>C32. Deduplication keeps, in input order and at its original place, for every name the earliest of
  the candidates with the highest tier and confidence, and nothing else.\<close>

theorem dedup_keep_higher_spec:
  "dedup_keep_higher cs =
     map ((!) cs) (filter (best_upto cs (length cs)) [0..<length cs])"
proof -
  let ?sv = "snd (fold dedup_step [0..<length cs] ([], map Some cs))"
  have inv: "dedup_inv cs (length cs) (fold dedup_step [0..<length cs] ([], map Some cs))"
    by (rule dedup_fold_inv) simp
  have "?sv = map (\<lambda>i. if best_upto cs (length cs) i then Some (cs ! i) else None) [0..<length cs]"
    using inv by (intro nth_equalityI) (auto simp: dedup_inv_def)
  moreover have "List.map_filter id (map (\<lambda>i. if P i then Some (f i) else None) is) = map f (filter P is)"
    for P and f :: "nat \<Rightarrow> definition_candidate" and "is"
    by (induction "is") (simp_all add: map_filter_simps)
  ultimately show ?thesis
    by (simp add: dedup_keep_higher_def case_prod_unfold)
qed

section \<open>Candidate sets\<close>

text \<open>A candidate set is called exact only when exactly one candidate is focused, its group exists,
  is authoritative and of full fidelity, and coverage was complete in every respect; a single
  such candidate under weaker coverage is merely preferred. The alternatives counted are exactly
  the candidates outside the focused groups.\<close>

theorem candidate_set_disposition:
  "(cset_disposition (candidate_set_new all focused cov) = ExactAnswer \<longleftrightarrow>
      (\<exists>r. focused = [r] \<and> cf_group_index r < length all \<and>
         cg_authoritative (all ! cf_group_index r) \<and> \<not> cg_low_fidelity (all ! cf_group_index r)) \<and>
      permits_exact cov) \<and>
   (cset_disposition (candidate_set_new all focused cov) = Preferred \<longleftrightarrow>
      (\<exists>r. focused = [r] \<and> cf_group_index r < length all \<and>
         cg_authoritative (all ! cf_group_index r) \<and> \<not> cg_low_fidelity (all ! cf_group_index r)) \<and>
      \<not> permits_exact cov) \<and>
   cset_alternative_count (candidate_set_new all focused cov) =
     (\<Sum>i | i < length all \<and> i \<notin> cf_group_index ` set focused. length (cg_candidates (all ! i)))"
proof (intro conjI)
  have auth: "list_ex cg_authoritative all" if "\<not> length all \<le> i" "cg_authoritative (all ! i)" for i
    using that by (auto simp: list_ex_iff)
  have d: "cset_disposition (candidate_set_new all focused cov) = classify_candidate_disposition all focused cov"
    by (simp add: candidate_set_new_def Let_def)
  show "cset_disposition (candidate_set_new all focused cov) = ExactAnswer \<longleftrightarrow>
      (\<exists>r. focused = [r] \<and> cf_group_index r < length all \<and>
         cg_authoritative (all ! cf_group_index r) \<and> \<not> cg_low_fidelity (all ! cf_group_index r)) \<and>
      permits_exact cov"
    unfolding d by (cases focused) (auto simp: classify_candidate_disposition_def Let_def intro: auth)
  show "cset_disposition (candidate_set_new all focused cov) = Preferred \<longleftrightarrow>
      (\<exists>r. focused = [r] \<and> cf_group_index r < length all \<and>
         cg_authoritative (all ! cf_group_index r) \<and> \<not> cg_low_fidelity (all ! cf_group_index r)) \<and>
      \<not> permits_exact cov"
    unfolding d by (cases focused) (auto simp: classify_candidate_disposition_def Let_def intro: auth)
  have alt: "sum_list (map (\<lambda>(_, g). length (cg_candidates g)) (filter (\<lambda>(i, _). i \<notin> F) (enumerate n gs))) =
      (\<Sum>i | i < length gs \<and> n + i \<notin> F. length (cg_candidates (gs ! i)))"
    for F n and gs :: "'a candidate_group list"
  proof (induction gs arbitrary: n)
    case (Cons g gs)
    have "{i. i < length (g # gs) \<and> n + i \<notin> F} =
        (if n \<in> F then {} else {0}) \<union> Suc ` {i. i < length gs \<and> Suc n + i \<notin> F}"
      by (auto simp: image_iff less_Suc_eq_0_disj)
    then have "(\<Sum>i | i < length (g # gs) \<and> n + i \<notin> F. length (cg_candidates ((g # gs) ! i))) =
        (if n \<in> F then 0 else length (cg_candidates g)) +
        (\<Sum>i | i < length gs \<and> Suc n + i \<notin> F. length (cg_candidates (gs ! i)))"
      by (simp add: sum.union_disjoint sum.reindex)
    with Cons.IH [of "Suc n"] show ?case by simp
  qed simp
  from alt [of "cf_group_index ` set focused" 0 all]
  show "cset_alternative_count (candidate_set_new all focused cov) =
     (\<Sum>i | i < length all \<and> i \<notin> cf_group_index ` set focused. length (cg_candidates (all ! i)))"
    by (simp add: candidate_set_new_def Let_def)
qed

end
