(* ===== verification/Build_Coordinator.thy ===== *)
theory Build_Coordinator
  imports Prelude
begin

text \<open>
  The build coordinator, \<open>src/crates/fossilsense/src/build_coordinator.rs\<close>: admission of
  one build at a time, the reservation ledger of the active build, deferred roots, name-table
  compaction workers, and shutdown.

  Every operation runs under the state mutex, so each critical section is one function on the
  coordinator. The asynchronous \<open>acquire\<close> is given by its critical sections
  (\<open>acquire_enter\<close>, \<open>acquire_backoff\<close>, \<open>acquire_enqueue\<close>, \<open>acquire_check\<close>,
  \<open>acquire_timeout\<close>); the theory \<open>Build_Machine\<close> puts them together as a step relation with
  parking and notification. A cancellation token is a number and the coordinator carries the
  set of cancelled tokens, which stands for the shared atomic flags. The memory sampler's
  value, the current time in milliseconds and a fresh token are arguments. Sizes are 64-bit
  \<open>usize\<close> words with saturating arithmetic as in the code.
\<close>

section \<open>Constants and data\<close>

definition DEFAULT_MAX_ACTIVE_BUILDS :: u64 where "DEFAULT_MAX_ACTIVE_BUILDS = 1"
definition DEFAULT_TEMPORARY_RESERVATION_BYTES :: u64 where
  "DEFAULT_TEMPORARY_RESERVATION_BYTES = 256 * 1024 * 1024"
definition DEFAULT_PROCESS_PRESSURE_TARGET_BYTES :: u64 where
  "DEFAULT_PROCESS_PRESSURE_TARGET_BYTES = 1024 * 1024 * 1024"
definition DEFAULT_UNATTRIBUTED_HEADROOM_BYTES :: u64 where
  "DEFAULT_UNATTRIBUTED_HEADROOM_BYTES = 32 * 1024 * 1024"
definition DEFAULT_WAIT_TIMEOUT :: nat where "DEFAULT_WAIT_TIMEOUT = 30 * 1000"
definition DEFERRED_RETRY_BACKOFF :: nat where "DEFERRED_RETRY_BACKOFF = 2 * 1000"

datatype build_kind =
    FullIndex | DirtyIndex | ReadModel | NameCompaction | ProjectContext | WorkspaceSemantics
  | CliIndex | CliMemory

fun build_kind_as_str :: "build_kind \<Rightarrow> string" where
  "build_kind_as_str FullIndex = ''full-index''"
| "build_kind_as_str DirtyIndex = ''dirty-index''"
| "build_kind_as_str ReadModel = ''read-model''"
| "build_kind_as_str NameCompaction = ''name-compaction''"
| "build_kind_as_str ProjectContext = ''project-context''"
| "build_kind_as_str WorkspaceSemantics = ''workspace-semantics''"
| "build_kind_as_str CliIndex = ''cli-index''"
| "build_kind_as_str CliMemory = ''cli-memory''"

record build_policy =
  bp_max_active_builds :: u64
  bp_temporary_reservation_bytes :: u64
  bp_process_pressure_target_bytes :: u64
  bp_unattributed_headroom_bytes :: u64
  bp_wait_timeout :: nat

definition default_policy :: build_policy where
  "default_policy =
     \<lparr> bp_max_active_builds = DEFAULT_MAX_ACTIVE_BUILDS,
       bp_temporary_reservation_bytes = DEFAULT_TEMPORARY_RESERVATION_BYTES,
       bp_process_pressure_target_bytes = DEFAULT_PROCESS_PRESSURE_TARGET_BYTES,
       bp_unattributed_headroom_bytes = DEFAULT_UNATTRIBUTED_HEADROOM_BYTES,
       bp_wait_timeout = DEFAULT_WAIT_TIMEOUT \<rparr>"

definition for_resource_profile :: "string \<Rightarrow> build_policy" where
  "for_resource_profile profile =
     default_policy\<lparr> bp_process_pressure_target_bytes :=
       (if profile = ''conservative'' then 512 * 1024 * 1024
        else if profile = ''large'' then 2048 * 1024 * 1024
        else DEFAULT_PROCESS_PRESSURE_TARGET_BYTES) \<rparr>"

type_synonym token = nat

record active_build =
  ab_ticket :: u64
  ab_root :: string
  ab_kind :: build_kind
  ab_reserved_bytes :: u64
  ab_retained_bytes :: u64
  ab_cancellation :: token

record queued_build =
  qb_ticket :: u64
  qb_root :: string
  qb_kind :: build_kind
  qb_cancellation :: token

record deferred_build =
  db_kind :: build_kind
  db_requested_bytes :: u64
  db_retry_after :: nat

record compaction_state =
  cp_worker_running :: bool
  cp_current_epoch :: "u64 option"
  cp_latest_epoch :: u64
  cp_current_cancellation :: "token option"

definition default_compaction :: compaction_state where
  "default_compaction =
     \<lparr> cp_worker_running = False, cp_current_epoch = None, cp_latest_epoch = 0,
       cp_current_cancellation = None \<rparr>"

record coordinator_state =
  cs_next_ticket :: u64
  cs_active :: "active_build option"
  cs_waiters :: "queued_build list"
  cs_last_granted_root :: "string option"
  cs_deferred :: "(string, deferred_build) hmap"
  cs_compactions :: "(string, compaction_state) hmap"
  cs_shutting_down :: bool
  cs_peak_active_builds :: u64
  cs_peak_reserved_bytes :: u64
  cs_peak_retained_bytes :: u64
  cs_sampling_unavailable_count :: u64
  cs_budget_denial_count :: u64
  cs_cancellation_count :: u64
  cs_last_index_elapsed_ms :: "128 word"
  cs_last_index_write_ms :: "128 word"

definition default_state :: coordinator_state where
  "default_state =
     \<lparr> cs_next_ticket = 0, cs_active = None, cs_waiters = [], cs_last_granted_root = None,
       cs_deferred = [], cs_compactions = [], cs_shutting_down = False, cs_peak_active_builds = 0,
       cs_peak_reserved_bytes = 0, cs_peak_retained_bytes = 0, cs_sampling_unavailable_count = 0,
       cs_budget_denial_count = 0, cs_cancellation_count = 0, cs_last_index_elapsed_ms = 0,
       cs_last_index_write_ms = 0 \<rparr>"

record coordinator =
  co_policy :: build_policy
  co_state :: coordinator_state
  co_cancelled :: "token set"

definition with_policy_and_sampler :: "build_policy \<Rightarrow> coordinator option" where
  "with_policy_and_sampler policy =
     (if bp_max_active_builds policy > 0
      then Some \<lparr> co_policy = policy, co_state = default_state, co_cancelled = {} \<rparr>
      else None)"

text \<open>The permit: the shared lease (ticket, root, cancellation) and the stage of the holder.\<close>

record build_permit =
  pm_ticket :: u64
  pm_root :: string
  pm_cancellation :: token
  pm_stage :: build_kind

record build_reservation_lease =
  rl_permit :: build_permit
  rl_parent_reserved :: u64
  rl_parent_retained :: u64

datatype acquire_error = AcquireCancelled | AcquireDeferred | AcquireShuttingDown

datatype reservation_error =
  ReserveCancelled | TemporaryBudgetExceeded | ProcessPressure | StalePermit

fun acquire_error_display :: "acquire_error \<Rightarrow> string" where
  "acquire_error_display AcquireCancelled = ''build admission cancelled''"
| "acquire_error_display AcquireDeferred = ''build admission deferred after waiting''"
| "acquire_error_display AcquireShuttingDown = ''build coordinator is shutting down''"

fun reservation_error_display :: "reservation_error \<Rightarrow> string" where
  "reservation_error_display ReserveCancelled = ''build reservation cancelled''"
| "reservation_error_display TemporaryBudgetExceeded = ''temporary build reservation exceeds 256 MiB''"
| "reservation_error_display ProcessPressure =
     ''process pressure target leaves insufficient build space''"
| "reservation_error_display StalePermit = ''build permit is no longer active''"

datatype compaction_request = StartWorker | UpdatedPending | IgnoredStale

section \<open>Cancellation\<close>

definition cancel :: "token \<Rightarrow> coordinator \<Rightarrow> coordinator" where
  "cancel t c = c\<lparr> co_cancelled := insert t (co_cancelled c) \<rparr>"

definition is_cancelled :: "token \<Rightarrow> coordinator \<Rightarrow> bool" where
  "is_cancelled t c \<longleftrightarrow> t \<in> co_cancelled c"

definition cancel_opt :: "token option \<Rightarrow> coordinator \<Rightarrow> coordinator" where
  "cancel_opt t c = (case t of None \<Rightarrow> c | Some t \<Rightarrow> cancel t c)"

definition upd_state :: "(coordinator_state \<Rightarrow> coordinator_state) \<Rightarrow> coordinator \<Rightarrow> coordinator" where
  "upd_state f c = c\<lparr> co_state := f (co_state c) \<rparr>"

section \<open>Tickets and the queue\<close>

definition next_ticket :: "coordinator_state \<Rightarrow> u64 \<times> coordinator_state" where
  "next_ticket s =
     (let t = max (cs_next_ticket s + 1) 1 in (t, s\<lparr> cs_next_ticket := t \<rparr>))"

fun position_from :: "nat \<Rightarrow> ('a \<Rightarrow> bool) \<Rightarrow> 'a list \<Rightarrow> nat option" where
  "position_from i P [] = None"
| "position_from i P (x # xs) = (if P x then Some i else position_from (Suc i) P xs)"

definition next_waiter_index :: "coordinator_state \<Rightarrow> nat option" where
  "next_waiter_index s =
     (case position_from 0 (\<lambda>w. Some (qb_root w) \<noteq> cs_last_granted_root s) (cs_waiters s) of
        Some i \<Rightarrow> Some i
      | None \<Rightarrow> if cs_waiters s \<noteq> [] then Some 0 else None)"

definition remove_at :: "nat \<Rightarrow> 'a list \<Rightarrow> 'a list" where
  "remove_at i xs = take i xs @ drop (Suc i) xs"

definition remove_waiter ::
  "u64 \<Rightarrow> coordinator_state \<Rightarrow> queued_build option \<times> coordinator_state" where
  "remove_waiter ticket s =
     (case position_from 0 (\<lambda>w. qb_ticket w = ticket) (cs_waiters s) of
        None \<Rightarrow> (None, s)
      | Some i \<Rightarrow> (Some (cs_waiters s ! i), s\<lparr> cs_waiters := remove_at i (cs_waiters s) \<rparr>))"

definition grant ::
  "u64 \<Rightarrow> string \<Rightarrow> build_kind \<Rightarrow> token \<Rightarrow> coordinator_state \<Rightarrow> build_permit \<times> coordinator_state" where
  "grant ticket root kind cancellation s =
     (\<lparr> pm_ticket = ticket, pm_root = root, pm_cancellation = cancellation, pm_stage = kind \<rparr>,
      s\<lparr> cs_last_granted_root := Some root,
         cs_active := Some \<lparr> ab_ticket = ticket, ab_root = root, ab_kind = kind,
           ab_reserved_bytes = 0, ab_retained_bytes = 0, ab_cancellation = cancellation \<rparr>,
         cs_peak_active_builds := max (cs_peak_active_builds s) 1 \<rparr>)"

definition release :: "u64 \<Rightarrow> coordinator_state \<Rightarrow> coordinator_state" where
  "release ticket s =
     (case cs_active s of
        Some a \<Rightarrow> if ab_ticket a = ticket then s\<lparr> cs_active := None \<rparr> else s
      | None \<Rightarrow> s)"

section \<open>The critical sections of acquire\<close>

text \<open>Cancelling an active compaction that a foreground build supersedes.\<close>

definition cancel_stale_compaction :: "coordinator \<Rightarrow> coordinator" where
  "cancel_stale_compaction c =
     (case cs_active (co_state c) of
        Some a \<Rightarrow>
          if ab_kind a = NameCompaction \<and> \<not> is_cancelled (ab_cancellation a) c
          then upd_state (\<lambda>s. s\<lparr> cs_cancellation_count := sat_add (cs_cancellation_count s) 1 \<rparr>)
                 (cancel (ab_cancellation a) c)
          else c
      | None \<Rightarrow> c)"

definition acquire_enter :: "build_kind \<Rightarrow> coordinator \<Rightarrow> acquire_error + coordinator" where
  "acquire_enter kind c =
     (if kind \<noteq> NameCompaction then
        (if cs_shutting_down (co_state c) then Inl AcquireShuttingDown
         else Inr (cancel_stale_compaction c))
      else Inr c)"

text \<open>One round of the backoff loop: an error, or whether a retry time lies ahead.\<close>

definition acquire_backoff ::
  "string \<Rightarrow> build_kind \<Rightarrow> nat \<Rightarrow> coordinator \<Rightarrow> acquire_error + nat option" where
  "acquire_backoff root kind now c =
     (if cs_shutting_down (co_state c) then Inl AcquireShuttingDown
      else
        (case map_of (cs_deferred (co_state c)) root of
           Some d \<Rightarrow>
             if db_kind d = kind \<and> db_retry_after d > now then Inr (Some (db_retry_after d))
             else Inr None
         | None \<Rightarrow> Inr None))"

definition acquire_enqueue ::
  "string \<Rightarrow> build_kind \<Rightarrow> token \<Rightarrow> coordinator \<Rightarrow> acquire_error + u64 \<times> coordinator" where
  "acquire_enqueue root kind cancellation c =
     (if cs_shutting_down (co_state c) then Inl AcquireShuttingDown
      else
        (let c = (if kind \<noteq> NameCompaction then cancel_stale_compaction c else c);
             (ticket, s) = next_ticket (co_state c);
             s = s\<lparr> cs_waiters := cs_waiters s @
                   [\<lparr> qb_ticket = ticket, qb_root = root, qb_kind = kind,
                      qb_cancellation = cancellation \<rparr>] \<rparr>
         in Inr (ticket, c\<lparr> co_state := s \<rparr>)))"

datatype check_outcome = Failed acquire_error | Granted build_permit | Wait

definition acquire_check :: "u64 \<Rightarrow> token \<Rightarrow> coordinator \<Rightarrow> check_outcome \<times> coordinator" where
  "acquire_check ticket cancellation c =
     (let s = co_state c
      in if cs_shutting_down s then
           (Failed AcquireShuttingDown, c\<lparr> co_state := snd (remove_waiter ticket s) \<rparr>)
         else if is_cancelled cancellation c then
           (let s' = snd (remove_waiter ticket s)
            in (Failed AcquireCancelled,
                c\<lparr> co_state := s'\<lparr> cs_cancellation_count := sat_add (cs_cancellation_count s') 1 \<rparr> \<rparr>))
         else
           (case cs_active s of
              Some _ \<Rightarrow> (Wait, c)
            | None \<Rightarrow>
                (case next_waiter_index s of
                   None \<Rightarrow> (Wait, c)
                 | Some i \<Rightarrow>
                     (let queued = cs_waiters s ! i
                      in if qb_ticket queued = ticket then
                           (let (p, s') = grant ticket (qb_root queued) (qb_kind queued)
                                   (qb_cancellation queued)
                                   (s\<lparr> cs_waiters := remove_at i (cs_waiters s) \<rparr>)
                            in (Granted p, c\<lparr> co_state := s' \<rparr>))
                         else (Wait, c)))))"

definition acquire_timeout :: "u64 \<Rightarrow> nat \<Rightarrow> coordinator \<Rightarrow> acquire_error \<times> coordinator" where
  "acquire_timeout ticket now c =
     (case remove_waiter ticket (co_state c) of (removed, s) \<Rightarrow>
        (AcquireDeferred,
         c\<lparr> co_state :=
           (case removed of
              None \<Rightarrow> s
            | Some queued \<Rightarrow>
                s\<lparr> cs_deferred := AList.update (qb_root queued)
                     \<lparr> db_kind = qb_kind queued, db_requested_bytes = 0,
                       db_retry_after = now + DEFERRED_RETRY_BACKOFF \<rparr> (cs_deferred s) \<rparr>) \<rparr>))"

section \<open>Shutdown and removal\<close>

definition shutdown :: "coordinator \<Rightarrow> coordinator" where
  "shutdown c =
     (let s = co_state c;
          tokens =
            (case cs_active s of None \<Rightarrow> {} | Some a \<Rightarrow> {ab_cancellation a}) \<union>
            set (map qb_cancellation (cs_waiters s)) \<union>
            set (List.map_filter (\<lambda>(_, cp). cp_current_cancellation cp) (cs_compactions s))
      in c\<lparr> co_state := s\<lparr> cs_shutting_down := True \<rparr>, co_cancelled := co_cancelled c \<union> tokens \<rparr>)"

definition remove_root :: "string \<Rightarrow> coordinator \<Rightarrow> coordinator" where
  "remove_root root c =
     (let s = co_state c;
          c = (case cs_active s of
                 Some a \<Rightarrow> if ab_root a = root then cancel (ab_cancellation a) c else c
               | None \<Rightarrow> c);
          c = (case map_of (cs_compactions s) root of
                 None \<Rightarrow> c
               | Some cp \<Rightarrow> cancel_opt (cp_current_cancellation cp) c)
      in c\<lparr> co_state := s\<lparr> cs_waiters := filter (\<lambda>w. qb_root w \<noteq> root) (cs_waiters s),
                             cs_deferred := AList.delete root (cs_deferred s),
                             cs_compactions := AList.delete root (cs_compactions s) \<rparr> \<rparr>)"

definition record_index_stats :: "128 word \<Rightarrow> 128 word \<Rightarrow> coordinator \<Rightarrow> coordinator" where
  "record_index_stats elapsed_ms write_ms c =
     upd_state (\<lambda>s. s\<lparr> cs_last_index_elapsed_ms := elapsed_ms, cs_last_index_write_ms := write_ms \<rparr>) c"

section \<open>Compaction workers\<close>

definition request_compaction :: "string \<Rightarrow> u64 \<Rightarrow> coordinator \<Rightarrow> compaction_request \<times> coordinator" where
  "request_compaction root epoch c =
     (if cs_shutting_down (co_state c) then (IgnoredStale, c)
      else
        (let table = or_insert root default_compaction (cs_compactions (co_state c));
             cp = get_or default_compaction table root;
             put = (\<lambda>cp. upd_state (\<lambda>s. s\<lparr> cs_compactions := AList.update root cp table \<rparr>))
         in if epoch \<le> cp_latest_epoch cp then (IgnoredStale, put cp c)
            else
              (let cp = cp\<lparr> cp_latest_epoch := epoch \<rparr>
               in if cp_worker_running cp
                  then (UpdatedPending, put cp (cancel_opt (cp_current_cancellation cp) c))
                  else (StartWorker, put (cp\<lparr> cp_worker_running := True \<rparr>) c))))"

definition begin_next_compaction ::
  "string \<Rightarrow> token \<Rightarrow> coordinator \<Rightarrow> (u64 \<times> token) option \<times> coordinator" where
  "begin_next_compaction root fresh c =
     (case map_of (cs_compactions (co_state c)) root of
        None \<Rightarrow> (None, c)
      | Some cp \<Rightarrow>
          if cp_current_epoch cp = Some (cp_latest_epoch cp) then (None, c)
          else
            (Some (cp_latest_epoch cp, fresh),
             upd_state (\<lambda>s. s\<lparr> cs_compactions := AList.update root
                 (cp\<lparr> cp_current_epoch := Some (cp_latest_epoch cp),
                      cp_current_cancellation := Some fresh \<rparr>) (cs_compactions s) \<rparr>) c))"

text \<open>Both ends of a worker round clear the current epoch when it is the finished one.\<close>

definition clear_epoch :: "u64 \<Rightarrow> compaction_state \<Rightarrow> compaction_state" where
  "clear_epoch epoch cp =
     (if cp_current_epoch cp = Some epoch
      then cp\<lparr> cp_current_epoch := None, cp_current_cancellation := None \<rparr> else cp)"

definition finish_compaction :: "string \<Rightarrow> u64 \<Rightarrow> coordinator \<Rightarrow> bool \<times> coordinator" where
  "finish_compaction root epoch c =
     (case map_of (cs_compactions (co_state c)) root of
        None \<Rightarrow> (False, c)
      | Some cp \<Rightarrow>
          (let cp = clear_epoch epoch cp
           in if cp_latest_epoch cp > epoch
              then (True, upd_state (\<lambda>s. s\<lparr> cs_compactions := AList.update root cp (cs_compactions s) \<rparr>) c)
              else (False, upd_state (\<lambda>s. s\<lparr> cs_compactions := AList.delete root (cs_compactions s) \<rparr>) c)))"

definition retry_compaction :: "string \<Rightarrow> u64 \<Rightarrow> coordinator \<Rightarrow> bool \<times> coordinator" where
  "retry_compaction root epoch c =
     (if cs_shutting_down (co_state c) then (False, c)
      else
        (case map_of (cs_compactions (co_state c)) root of
           None \<Rightarrow> (False, c)
         | Some cp \<Rightarrow>
             (True, upd_state (\<lambda>s. s\<lparr> cs_compactions :=
                AList.update root (clear_epoch epoch cp) (cs_compactions s) \<rparr>) c)))"

section \<open>Reservations\<close>

definition inherit :: "build_kind \<Rightarrow> build_permit \<Rightarrow> build_permit" where
  "inherit kind p = p\<lparr> pm_stage := kind \<rparr>"

definition check_cancelled :: "build_permit \<Rightarrow> coordinator \<Rightarrow> reservation_error + unit" where
  "check_cancelled p c = (if is_cancelled (pm_cancellation p) c then Inl ReserveCancelled else Inr ())"

text \<open>The active build, when the permit is still the active one.\<close>

definition active_for :: "build_permit \<Rightarrow> coordinator_state \<Rightarrow> active_build option" where
  "active_for p s =
     (case cs_active s of
        Some a \<Rightarrow> if ab_ticket a = pm_ticket p then Some a else None
      | None \<Rightarrow> None)"

definition deny ::
  "build_permit \<Rightarrow> active_build \<Rightarrow> u64 \<Rightarrow> nat \<Rightarrow> coordinator_state \<Rightarrow> coordinator_state" where
  "deny p a reserved_bytes now s =
     s\<lparr> cs_budget_denial_count := sat_add (cs_budget_denial_count s) 1,
        cs_deferred := AList.update (pm_root p)
          \<lparr> db_kind = ab_kind a, db_requested_bytes = reserved_bytes,
            db_retry_after = now + DEFERRED_RETRY_BACKOFF \<rparr> (cs_deferred s) \<rparr>"

definition reserve ::
  "build_permit \<Rightarrow> u64 \<Rightarrow> u64 \<Rightarrow> u64 \<Rightarrow> nat \<Rightarrow> coordinator \<Rightarrow> (reservation_error + unit) \<times> coordinator" where
  "reserve p reserved_bytes retained_bytes sampled now c =
     (case check_cancelled p c of
        Inl e \<Rightarrow> (Inl e, c)
      | Inr _ \<Rightarrow>
          (let policy = co_policy c; s = co_state c
           in case active_for p s of
                None \<Rightarrow> (Inl StalePermit, c)
              | Some a \<Rightarrow>
                  if reserved_bytes > bp_temporary_reservation_bytes policy then
                    (Inl TemporaryBudgetExceeded, c\<lparr> co_state := deny p a reserved_bytes now s \<rparr>)
                  else
                    (let s = (if sampled = 0
                              then s\<lparr> cs_sampling_unavailable_count :=
                                        sat_add (cs_sampling_unavailable_count s) 1 \<rparr>
                              else s);
                         accounted_live = max sampled retained_bytes;
                         pressure = sat_add (sat_add accounted_live reserved_bytes)
                                      (bp_unattributed_headroom_bytes policy)
                     in if pressure > bp_process_pressure_target_bytes policy then
                          (Inl ProcessPressure, c\<lparr> co_state := deny p a reserved_bytes now s \<rparr>)
                        else
                          (Inr (),
                           c\<lparr> co_state := s\<lparr>
                             cs_active := Some (a\<lparr> ab_reserved_bytes := reserved_bytes,
                                                   ab_retained_bytes := retained_bytes \<rparr>),
                             cs_peak_reserved_bytes := max (cs_peak_reserved_bytes s) reserved_bytes,
                             cs_peak_retained_bytes := max (cs_peak_retained_bytes s) retained_bytes,
                             cs_deferred := AList.delete (pm_root p) (cs_deferred s) \<rparr> \<rparr>))))"

definition reserve_phase ::
  "build_permit \<Rightarrow> u64 \<Rightarrow> u64 \<Rightarrow> nat \<Rightarrow> coordinator
   \<Rightarrow> (reservation_error + build_reservation_lease) \<times> coordinator" where
  "reserve_phase p bytes sampled now c =
     (case active_for p (co_state c) of
        None \<Rightarrow> (Inl StalePermit, c)
      | Some a \<Rightarrow>
          (case reserve p bytes (ab_retained_bytes a) sampled now c of
             (Inl e, c') \<Rightarrow> (Inl e, c')
           | (Inr _, c') \<Rightarrow>
               (Inr \<lparr> rl_permit = p, rl_parent_reserved = ab_reserved_bytes a,
                      rl_parent_retained = ab_retained_bytes a \<rparr>, c')))"

definition reserve_scoped ::
  "build_permit \<Rightarrow> u64 \<Rightarrow> u64 \<Rightarrow> nat \<Rightarrow> coordinator
   \<Rightarrow> (reservation_error + build_reservation_lease) \<times> coordinator" where
  "reserve_scoped p bytes sampled now c =
     (case active_for p (co_state c) of
        None \<Rightarrow> (Inl StalePermit, c)
      | Some a \<Rightarrow>
          (case reserve p (sat_add (ab_reserved_bytes a) bytes) (ab_retained_bytes a) sampled now c of
             (Inl e, c') \<Rightarrow> (Inl e, c')
           | (Inr _, c') \<Rightarrow>
               (Inr \<lparr> rl_permit = p, rl_parent_reserved = ab_reserved_bytes a,
                      rl_parent_retained = ab_retained_bytes a \<rparr>, c')))"

text \<open>The negotiation loop; \<open>samples k\<close> is the sampler's value in round \<open>k\<close>.\<close>

definition smaller_request :: "u64 \<Rightarrow> u64 \<Rightarrow> u64" where
  "smaller_request bytes minimum = max (sat_sub bytes (4 * 1024 * 1024)) minimum"

lemma smaller_request_less: "bytes > minimum \<Longrightarrow> unat (smaller_request bytes minimum) < unat bytes"
proof -
  assume a: "bytes > minimum"
  have "unat (4 * 1024 * 1024 :: u64) = 4194304" by simp
  with a show ?thesis
    by (auto simp: smaller_request_def max_def unat_sat_sub word_less_nat_alt)
qed

function reserve_up_to_loop ::
  "build_permit \<Rightarrow> u64 \<Rightarrow> u64 \<Rightarrow> (nat \<Rightarrow> u64) \<Rightarrow> nat \<Rightarrow> nat \<Rightarrow> coordinator
   \<Rightarrow> (reservation_error + build_reservation_lease \<times> u64) \<times> coordinator" where
  "reserve_up_to_loop p bytes minimum samples k now c =
     (case reserve_scoped p bytes (samples k) now c of
        (Inr lease, c') \<Rightarrow> (Inr (lease, bytes), c')
      | (Inl e, c') \<Rightarrow>
          if e = ProcessPressure \<and> bytes > minimum
          then reserve_up_to_loop p (smaller_request bytes minimum) minimum samples (Suc k) now c'
          else (Inl e, c'))"
  by pat_completeness auto
termination
  by (relation "measure (\<lambda>(p, bytes, minimum, samples, k, now, c). unat bytes)")
    (auto simp: smaller_request_less)

declare reserve_up_to_loop.simps [simp del]

definition reserve_scoped_up_to ::
  "build_permit \<Rightarrow> u64 \<Rightarrow> u64 \<Rightarrow> (nat \<Rightarrow> u64) \<Rightarrow> nat \<Rightarrow> coordinator
   \<Rightarrow> (reservation_error + build_reservation_lease \<times> u64) \<times> coordinator" where
  "reserve_scoped_up_to p preferred minimum samples now c =
     (case active_for p (co_state c) of
        None \<Rightarrow> (Inl StalePermit, c)
      | Some a \<Rightarrow>
          (let bytes = min preferred
                 (sat_sub (bp_temporary_reservation_bytes (co_policy c)) (ab_reserved_bytes a))
           in if bytes < minimum then (Inl TemporaryBudgetExceeded, c)
              else reserve_up_to_loop p bytes minimum samples 0 now c))"

definition lease_retain ::
  "build_reservation_lease \<Rightarrow> u64 \<Rightarrow> u64 \<Rightarrow> nat \<Rightarrow> coordinator
   \<Rightarrow> (reservation_error + unit) \<times> coordinator" where
  "lease_retain l bytes sampled now c =
     (if sat_add bytes (rl_parent_reserved l) > bp_temporary_reservation_bytes (co_policy c)
      then (Inl TemporaryBudgetExceeded, c)
      else reserve (rl_permit l) (rl_parent_reserved l) (sat_add (rl_parent_retained l) bytes)
             sampled now c)"

definition lease_drop :: "build_reservation_lease \<Rightarrow> coordinator \<Rightarrow> coordinator" where
  "lease_drop l c =
     upd_state (\<lambda>s.
       case active_for (rl_permit l) s of
         None \<Rightarrow> s
       | Some a \<Rightarrow>
           s\<lparr> cs_active := Some (a\<lparr> ab_reserved_bytes := rl_parent_reserved l,
                                      ab_retained_bytes := rl_parent_retained l \<rparr>) \<rparr>) c"

text \<open>The waiting reservation, over the rounds it observes: the sampler's value, the time when the
  round is judged, and whether the cancellation woke it. No result means that it still waits.\<close>

fun reserve_with_wait ::
  "build_permit \<Rightarrow> u64 \<Rightarrow> u64 \<Rightarrow> nat \<Rightarrow> (u64 \<times> nat \<times> bool) list \<Rightarrow> coordinator
   \<Rightarrow> (reservation_error + unit) option \<times> coordinator" where
  "reserve_with_wait p reserved retained deadline [] c = (None, c)"
| "reserve_with_wait p reserved retained deadline ((sampled, now, woken_by_cancel) # rounds) c =
     (case reserve p reserved retained sampled now c of
        (Inr u, c') \<Rightarrow> (Some (Inr u), c')
      | (Inl e, c') \<Rightarrow>
          if e = ProcessPressure \<and> now < deadline then
            (if woken_by_cancel then (Some (Inl ReserveCancelled), c')
             else reserve_with_wait p reserved retained deadline rounds c')
          else (Some (Inl e), c'))"

section \<open>Observation\<close>

record build_coordinator_snapshot =
  sn_active_builds :: nat
  sn_active_kind :: "build_kind option"
  sn_peak_active_builds :: u64
  sn_waiting_builds :: nat
  sn_deferred_roots :: nat
  sn_deferred_requested_bytes :: u64
  sn_active_reserved_bytes :: u64
  sn_active_retained_bytes :: u64
  sn_peak_reserved_bytes :: u64
  sn_peak_retained_bytes :: u64
  sn_compaction_roots :: nat
  sn_sampling_unavailable_count :: u64
  sn_budget_denial_count :: u64
  sn_cancellation_count :: u64
  sn_sampling_available :: bool
  sn_process_memory_bytes :: u64
  sn_shutting_down :: bool
  sn_last_index_elapsed_ms :: "128 word"
  sn_last_index_write_ms :: "128 word"

definition snapshot :: "u64 \<Rightarrow> coordinator \<Rightarrow> build_coordinator_snapshot" where
  "snapshot sampled c =
     (let s = co_state c; active = cs_active s
      in \<lparr> sn_active_builds = (if active = None then 0 else 1),
           sn_active_kind = map_option ab_kind active,
           sn_peak_active_builds = cs_peak_active_builds s,
           sn_waiting_builds = length (cs_waiters s),
           sn_deferred_roots = length (cs_deferred s),
           sn_deferred_requested_bytes =
             fold (\<lambda>(_, d) bytes. sat_add bytes (db_requested_bytes d)) (cs_deferred s) 0,
           sn_active_reserved_bytes = (case active of None \<Rightarrow> 0 | Some a \<Rightarrow> ab_reserved_bytes a),
           sn_active_retained_bytes = (case active of None \<Rightarrow> 0 | Some a \<Rightarrow> ab_retained_bytes a),
           sn_peak_reserved_bytes = cs_peak_reserved_bytes s,
           sn_peak_retained_bytes = cs_peak_retained_bytes s,
           sn_compaction_roots = length (cs_compactions s),
           sn_sampling_unavailable_count = cs_sampling_unavailable_count s,
           sn_budget_denial_count = cs_budget_denial_count s,
           sn_cancellation_count = cs_cancellation_count s,
           sn_sampling_available = (sampled \<noteq> 0),
           sn_process_memory_bytes = sampled,
           sn_shutting_down = cs_shutting_down s,
           sn_last_index_elapsed_ms = cs_last_index_elapsed_ms s,
           sn_last_index_write_ms = cs_last_index_write_ms s \<rparr>)"

end
