(* ===== verification/Build_Machine.thy ===== *)
theory Build_Machine
  imports Build_Coordinator
begin

text \<open>
  The build coordinator as a state machine. The state adds to the coordinator what the
  asynchronous runtime keeps: the acquire tasks that are about to run their check (ready) and
  those parked on the notification, the live permit leases, and the ledger values that scoped
  reservations have read. \<open>notify_waiters\<close> makes every parked task ready, because a task
  creates its \<open>notified\<close> future before it takes the lock.

  The theory shows mutual exclusion of permits, the budget of the reservation ledger, that
  shutdown admits no further build, and that a parked task can be left behind by an exit that
  does not notify.
\<close>

type_synonym task = "u64 \<times> token"

record machine =
  mc_coord :: coordinator
  mc_ready :: "task set"
  mc_parked :: "task set"
  mc_leases :: "u64 list"
  mc_reads :: "(u64 \<times> u64 \<times> u64) set"

definition notify_waiters :: "machine \<Rightarrow> machine" where
  "notify_waiters m = m\<lparr> mc_ready := mc_ready m \<union> mc_parked m, mc_parked := {} \<rparr>"

definition with_coord :: "coordinator \<Rightarrow> machine \<Rightarrow> machine" where
  "with_coord c m = m\<lparr> mc_coord := c \<rparr>"

definition initial_machine :: "build_policy \<Rightarrow> machine" where
  "initial_machine policy =
     \<lparr> mc_coord = \<lparr> co_policy = policy, co_state = default_state, co_cancelled = {} \<rparr>,
       mc_ready = {}, mc_parked = {}, mc_leases = [], mc_reads = {} \<rparr>"

inductive mstep :: "machine \<Rightarrow> machine \<Rightarrow> bool" where
  step_enter: "acquire_enter kind (mc_coord m) = Inr c \<Longrightarrow> mstep m (with_coord c m)"
| step_enqueue:
    "acquire_enqueue root kind tok (mc_coord m) = Inr (t, c) \<Longrightarrow>
       mstep m (notify_waiters (with_coord c m\<lparr> mc_ready := insert (t, tok) (mc_ready m) \<rparr>))"
| step_wait:
    "(t, tok) \<in> mc_ready m \<Longrightarrow> acquire_check t tok (mc_coord m) = (Wait, c) \<Longrightarrow>
       mstep m (with_coord c m\<lparr> mc_ready := mc_ready m - {(t, tok)},
                                mc_parked := insert (t, tok) (mc_parked m) \<rparr>)"
| step_fail:
    "(t, tok) \<in> mc_ready m \<Longrightarrow> acquire_check t tok (mc_coord m) = (Failed e, c) \<Longrightarrow>
       mstep m (with_coord c m\<lparr> mc_ready := mc_ready m - {(t, tok)} \<rparr>)"
| step_grant:
    "(t, tok) \<in> mc_ready m \<Longrightarrow> acquire_check t tok (mc_coord m) = (Granted p, c) \<Longrightarrow>
       mstep m (with_coord c m\<lparr> mc_ready := mc_ready m - {(t, tok)},
                                mc_leases := pm_ticket p # mc_leases m \<rparr>)"
| step_timeout:
    "(t, tok) \<in> mc_parked m \<Longrightarrow> acquire_timeout t now (mc_coord m) = (e, c) \<Longrightarrow>
       mstep m (with_coord c m\<lparr> mc_parked := mc_parked m - {(t, tok)} \<rparr>)"
| step_cancel: "mstep m (with_coord (cancel tok (mc_coord m)) m)"
| step_cancel_wake:
    "(t, tok) \<in> mc_parked m \<Longrightarrow> is_cancelled tok (mc_coord m) \<Longrightarrow>
       mstep m (m\<lparr> mc_ready := insert (t, tok) (mc_ready m), mc_parked := mc_parked m - {(t, tok)} \<rparr>)"
| step_release:
    "t \<in> set (mc_leases m) \<Longrightarrow>
       mstep m (notify_waiters (with_coord (upd_state (release t) (mc_coord m)) m
                  \<lparr> mc_leases := remove1 t (mc_leases m) \<rparr>))"
| step_reserve:
    "pm_ticket p \<in> set (mc_leases m) \<Longrightarrow>
       reserve p reserved retained sampled now (mc_coord m) = (r, c) \<Longrightarrow> mstep m (with_coord c m)"
| step_read:
    "pm_ticket p \<in> set (mc_leases m) \<Longrightarrow> active_for p (co_state (mc_coord m)) = Some a \<Longrightarrow>
       mstep m (m\<lparr> mc_reads :=
         insert (pm_ticket p, ab_reserved_bytes a, ab_retained_bytes a) (mc_reads m) \<rparr>)"
| step_lease_drop:
    "pm_ticket (rl_permit l) \<in> set (mc_leases m) \<Longrightarrow>
       (pm_ticket (rl_permit l), rl_parent_reserved l, rl_parent_retained l) \<in> mc_reads m \<Longrightarrow>
       mstep m (notify_waiters (with_coord (lease_drop l (mc_coord m)) m))"
| step_shutdown: "mstep m (notify_waiters (with_coord (shutdown (mc_coord m)) m))"
| step_remove_root: "mstep m (notify_waiters (with_coord (remove_root root (mc_coord m)) m))"
| step_request: "request_compaction root epoch (mc_coord m) = (r, c) \<Longrightarrow> mstep m (with_coord c m)"
| step_begin: "begin_next_compaction root fresh (mc_coord m) = (b, c) \<Longrightarrow> mstep m (with_coord c m)"
| step_finish: "finish_compaction root epoch (mc_coord m) = (f, c) \<Longrightarrow> mstep m (with_coord c m)"
| step_retry: "retry_compaction root epoch (mc_coord m) = (f, c) \<Longrightarrow> mstep m (with_coord c m)"
| step_stats: "mstep m (with_coord (record_index_stats e w (mc_coord m)) m)"

inductive msteps :: "machine \<Rightarrow> machine \<Rightarrow> bool" for m where
  msteps_refl: "msteps m m"
| msteps_step: "msteps m m' \<Longrightarrow> mstep m' m'' \<Longrightarrow> msteps m m''"

section \<open>What the operations change\<close>

lemma machine_simps [simp]:
  "mc_coord (notify_waiters m) = mc_coord m"
  "mc_leases (notify_waiters m) = mc_leases m"
  "mc_reads (notify_waiters m) = mc_reads m"
  "mc_coord (with_coord c m) = c"
  "mc_leases (with_coord c m) = mc_leases m"
  "mc_reads (with_coord c m) = mc_reads m"
  "mc_ready (with_coord c m) = mc_ready m"
  "mc_parked (with_coord c m) = mc_parked m"
  by (simp_all add: notify_waiters_def with_coord_def)

lemma coord_simps [simp]:
  "co_state (cancel t c) = co_state c"
  "co_policy (cancel t c) = co_policy c"
  "co_state (cancel_opt t' c) = co_state c"
  "co_policy (cancel_opt t' c) = co_policy c"
  "co_state (upd_state f c) = f (co_state c)"
  "co_policy (upd_state f c) = co_policy c"
  by (simp_all add: cancel_def cancel_opt_def upd_state_def split: option.split)

text \<open>The operations that leave the active build alone.\<close>

lemma active_unchanged:
  "acquire_enter kind c = Inr c' \<Longrightarrow> cs_active (co_state c') = cs_active (co_state c)"
  "acquire_enqueue root kind tok c = Inr (t, c') \<Longrightarrow> cs_active (co_state c') = cs_active (co_state c)"
  "acquire_timeout t now c = (e, c') \<Longrightarrow> cs_active (co_state c') = cs_active (co_state c)"
  "cs_active (co_state (shutdown c)) = cs_active (co_state c)"
  "cs_active (co_state (remove_root root c)) = cs_active (co_state c)"
  "request_compaction root epoch c = (r, c') \<Longrightarrow> cs_active (co_state c') = cs_active (co_state c)"
  "begin_next_compaction root fresh c = (b, c') \<Longrightarrow> cs_active (co_state c') = cs_active (co_state c)"
  "finish_compaction root epoch c = (f, c') \<Longrightarrow> cs_active (co_state c') = cs_active (co_state c)"
  "retry_compaction root epoch c = (f, c') \<Longrightarrow> cs_active (co_state c') = cs_active (co_state c)"
  "cs_active (co_state (record_index_stats x y c)) = cs_active (co_state c)"
  by (auto simp: acquire_enter_def acquire_enqueue_def acquire_timeout_def shutdown_def remove_root_def
      request_compaction_def begin_next_compaction_def finish_compaction_def retry_compaction_def
      record_index_stats_def cancel_stale_compaction_def next_ticket_def remove_waiter_def Let_def
      split: if_splits option.splits prod.splits)

lemma policy_unchanged:
  "acquire_enter kind c = Inr c' \<Longrightarrow> co_policy c' = co_policy c"
  "acquire_enqueue root kind tok c = Inr (t, c') \<Longrightarrow> co_policy c' = co_policy c"
  "acquire_check t tok c = (out, c') \<Longrightarrow> co_policy c' = co_policy c"
  "acquire_timeout t now c = (e, c') \<Longrightarrow> co_policy c' = co_policy c"
  "co_policy (shutdown c) = co_policy c"
  "co_policy (remove_root root c) = co_policy c"
  "request_compaction root epoch c = (r, c') \<Longrightarrow> co_policy c' = co_policy c"
  "begin_next_compaction root fresh c = (b, c') \<Longrightarrow> co_policy c' = co_policy c"
  "finish_compaction root epoch c = (f, c') \<Longrightarrow> co_policy c' = co_policy c"
  "retry_compaction root epoch c = (f, c') \<Longrightarrow> co_policy c' = co_policy c"
  "co_policy (record_index_stats x y c) = co_policy c"
  "co_policy (lease_drop l c) = co_policy c"
  by (auto simp: acquire_enter_def acquire_enqueue_def acquire_check_def acquire_timeout_def
      shutdown_def remove_root_def request_compaction_def begin_next_compaction_def
      finish_compaction_def retry_compaction_def record_index_stats_def cancel_stale_compaction_def
      lease_drop_def Let_def
      split: if_splits option.splits prod.splits)

lemma check_active:
  "acquire_check t tok c = (Wait, c') \<Longrightarrow> c' = c"
  "acquire_check t tok c = (Failed e, c') \<Longrightarrow> cs_active (co_state c') = cs_active (co_state c)"
  by (auto simp: acquire_check_def remove_waiter_def Let_def
      split: if_splits option.splits prod.splits)

text \<open>A grant happens only on an idle coordinator that is not shutting down, to the waiter the queue
  selects.\<close>

lemma check_granted:
  assumes "acquire_check t tok c = (Granted p, c')"
  shows "cs_active (co_state c) = None" "\<not> cs_shutting_down (co_state c)" "\<not> is_cancelled tok c"
    "pm_ticket p = t"
    "\<exists>i. next_waiter_index (co_state c) = Some i \<and> qb_ticket (cs_waiters (co_state c) ! i) = t \<and>
       cs_waiters (co_state c') = remove_at i (cs_waiters (co_state c)) \<and>
       cs_last_granted_root (co_state c') = Some (qb_root (cs_waiters (co_state c) ! i))"
    "\<exists>a. cs_active (co_state c') = Some a \<and> ab_ticket a = t \<and> ab_reserved_bytes a = 0 \<and>
       ab_retained_bytes a = 0"
  using assms
  by (auto simp: acquire_check_def grant_def Let_def split: if_splits option.splits prod.splits)

section \<open>Invariants of the machine\<close>

locale step_invariant =
  fixes inv :: "machine \<Rightarrow> bool"
  assumes preserved: "inv m \<Longrightarrow> mstep m m' \<Longrightarrow> inv m'"
begin

lemma along: "msteps m m' \<Longrightarrow> inv m \<Longrightarrow> inv m'"
  by (induction rule: msteps.induct) (auto intro: preserved)

end

subsection \<open>Mutual exclusion\<close>

definition exclusive :: "machine \<Rightarrow> bool" where
  "exclusive m \<longleftrightarrow>
     mc_leases m = (case cs_active (co_state (mc_coord m)) of None \<Rightarrow> [] | Some a \<Rightarrow> [ab_ticket a])"

lemma reserve_active:
  assumes "reserve p reserved retained sampled now c = (r, c')"
  shows "map_option ab_ticket (cs_active (co_state c')) = map_option ab_ticket (cs_active (co_state c))"
    and "co_policy c' = co_policy c"
  using assms
  by (auto simp: reserve_def deny_def active_for_def Let_def
      split: if_splits option.splits sum.splits prod.splits)

lemma lease_drop_active:
  "map_option ab_ticket (cs_active (co_state (lease_drop l c))) =
     map_option ab_ticket (cs_active (co_state c))"
  by (auto simp: lease_drop_def active_for_def split: option.split)

lemma exclusive_iff:
  "exclusive m \<longleftrightarrow>
     mc_leases m = (case map_option ab_ticket (cs_active (co_state (mc_coord m))) of
       None \<Rightarrow> [] | Some t \<Rightarrow> [t])"
  by (simp add: exclusive_def split: option.split)

interpretation exclusion: step_invariant exclusive
proof
  fix m m' assume inv: "exclusive m" and "mstep m m'"
  from this(2) show "exclusive m'"
  proof cases
    case (step_wait t tok c)
    with inv show ?thesis by (auto simp: exclusive_def dest: check_active)
  next
    case (step_fail t tok e c)
    with inv show ?thesis by (auto simp: exclusive_def check_active(2))
  next
    case (step_grant t tok p c)
    with inv check_granted [OF step_grant(3)] show ?thesis by (auto simp: exclusive_def)
  next
    case (step_release t)
    with inv show ?thesis by (auto simp: exclusive_def release_def split: option.splits)
  next
    case (step_reserve p reserved retained sampled now r c)
    with inv reserve_active [OF step_reserve(3)] show ?thesis by (simp add: exclusive_iff)
  next
    case (step_lease_drop l)
    with inv show ?thesis by (simp add: exclusive_iff lease_drop_active)
  qed (use inv in \<open>auto simp: exclusive_def active_unchanged notify_waiters_def with_coord_def\<close>)
qed

text \<open>C34. Builds are mutually exclusive. In every state reached from a fresh coordinator, whatever the
  interleaving of requests, cancellations, timeouts, reservations, compactions and shutdown, at
  most one permit lease is alive, and it is that of the build recorded as active.\<close>

theorem builds_mutually_exclusive:
  assumes "msteps (initial_machine policy) m"
  shows "mc_leases m =
    (case cs_active (co_state (mc_coord m)) of None \<Rightarrow> [] | Some a \<Rightarrow> [ab_ticket a])"
  using exclusion.along [OF assms]
  by (simp add: exclusive_def initial_machine_def default_state_def)

subsection \<open>The reservation ledger\<close>

definition within_budget :: "build_policy \<Rightarrow> u64 \<Rightarrow> u64 \<Rightarrow> bool" where
  "within_budget policy reserved retained \<longleftrightarrow>
     reserved \<le> bp_temporary_reservation_bytes policy \<and>
     unat retained + unat reserved + unat (bp_unattributed_headroom_bytes policy)
       \<le> unat (bp_process_pressure_target_bytes policy)"

definition policy_ok :: "build_policy \<Rightarrow> bool" where
  "policy_ok policy \<longleftrightarrow>
     bp_unattributed_headroom_bytes policy \<le> bp_process_pressure_target_bytes policy \<and>
     bp_process_pressure_target_bytes policy < - 1"

definition ledger_ok :: "build_policy \<Rightarrow> machine \<Rightarrow> bool" where
  "ledger_ok policy m \<longleftrightarrow>
     co_policy (mc_coord m) = policy \<and>
     (\<forall>a. cs_active (co_state (mc_coord m)) = Some a \<longrightarrow>
        within_budget policy (ab_reserved_bytes a) (ab_retained_bytes a)) \<and>
     (\<forall>t r k. (t, r, k) \<in> mc_reads m \<longrightarrow> within_budget policy r k)"

lemma pressure_bound:
  assumes "sat_add (sat_add (max sampled retained) reserved) headroom \<le> (target :: u64)" "target < - 1"
  shows "unat retained + unat reserved + unat headroom \<le> unat target"
proof -
  let ?M = "2 ^ 64 - 1 :: nat"
  have "unat target < ?M"
    using assms(2) by (simp add: word_less_nat_alt unat_minus_one_eq)
  moreover have "min (min (unat (max sampled retained) + unat reserved) ?M + unat headroom) ?M \<le> unat target"
    using assms(1) by (simp add: word_le_nat_alt unat_sat_add)
  moreover have "unat retained \<le> unat (max sampled retained)"
    by (simp add: max_def word_le_nat_alt)
  ultimately show ?thesis by linarith
qed

lemma reserve_ledger:
  assumes "policy_ok (co_policy c)" "reserve p reserved retained sampled now c = (r, c')"
    and "cs_active (co_state c') = Some a'"
  shows "(\<exists>a. cs_active (co_state c) = Some a \<and> ab_reserved_bytes a' = ab_reserved_bytes a \<and>
        ab_retained_bytes a' = ab_retained_bytes a)
    \<or> r = Inr () \<and> ab_reserved_bytes a' = reserved \<and> ab_retained_bytes a' = retained \<and>
        within_budget (co_policy c) reserved retained"
proof (cases r)
  case (Inl e)
  with assms(2,3) show ?thesis
    by (auto simp: reserve_def deny_def active_for_def Let_def
        split: if_splits option.splits sum.splits prod.splits)
next
  case (Inr u)
  from assms(2) Inr have p: "reserved \<le> bp_temporary_reservation_bytes (co_policy c)"
    "sat_add (sat_add (max sampled retained) reserved) (bp_unattributed_headroom_bytes (co_policy c))
      \<le> bp_process_pressure_target_bytes (co_policy c)"
    by (auto simp: reserve_def Let_def not_less split: if_splits option.splits sum.splits prod.splits)
  have "within_budget (co_policy c) reserved retained"
    using p(1) pressure_bound [OF p(2)] assms(1) by (simp add: within_budget_def policy_ok_def)
  moreover have "ab_reserved_bytes a' = reserved \<and> ab_retained_bytes a' = retained"
    using assms(2,3) Inr
    by (auto simp: reserve_def Let_def split: if_splits option.splits sum.splits prod.splits)
  ultimately show ?thesis using Inr by auto
qed

lemma idle_within_budget: "policy_ok policy \<Longrightarrow> within_budget policy 0 0"
  by (simp add: policy_ok_def within_budget_def word_le_nat_alt)

lemma ledger_step:
  assumes "policy_ok policy" "ledger_ok policy m" "mstep m m'"
  shows "ledger_ok policy m'"
  using assms(3)
proof cases
  case (step_wait t tok c)
  with assms(2) show ?thesis by (auto simp: ledger_ok_def dest: check_active)
next
  case (step_fail t tok e c)
  with assms(2) show ?thesis by (simp add: ledger_ok_def check_active(2) policy_unchanged)
next
  case (step_grant t tok p c)
  with assms(2) check_granted [OF step_grant(3)] idle_within_budget [OF assms(1)] show ?thesis
    by (auto simp: ledger_ok_def policy_unchanged)
next
  case (step_release t)
  with assms(2) show ?thesis by (auto simp: ledger_ok_def release_def split: option.splits if_splits)
next
  case (step_reserve p reserved retained sampled now r c)
  have pol: "co_policy (mc_coord m) = policy" using assms(2) by (simp add: ledger_ok_def)
  have "within_budget policy (ab_reserved_bytes a) (ab_retained_bytes a)"
    if "cs_active (co_state c) = Some a" for a
    using reserve_ledger [OF _ step_reserve(3) that] assms(1,2) pol by (auto simp: ledger_ok_def)
  with step_reserve assms(2) reserve_active(2) [OF step_reserve(3)] show ?thesis
    by (simp add: ledger_ok_def)
next
  case (step_read p a)
  then have "cs_active (co_state (mc_coord m)) = Some a"
    by (auto simp: active_for_def split: option.splits if_splits)
  with step_read assms(2) show ?thesis by (auto simp: ledger_ok_def)
next
  case (step_lease_drop l)
  with assms(2) show ?thesis
    by (auto simp: ledger_ok_def lease_drop_def active_for_def policy_unchanged split: option.splits if_splits)
qed (use assms(2) in \<open>auto simp: ledger_ok_def active_unchanged policy_unchanged notify_waiters_def with_coord_def\<close>)

interpretation ledger: step_invariant "\<lambda>m. policy_ok policy \<and> ledger_ok policy m" for policy
  by unfold_locales (auto intro: ledger_step)

text \<open>C35. The ledger of the active build stays within the policy. In every reachable state its reserved
  bytes are at most the temporary budget, and reserved plus retained bytes plus the headroom stay
  at or below the process pressure target, without overflow; this also holds after a scoped
  reservation restores the values of its parent.\<close>

theorem ledger_within_budget:
  assumes "policy_ok policy" "msteps (initial_machine policy) m"
    and "cs_active (co_state (mc_coord m)) = Some a"
  shows "ab_reserved_bytes a \<le> bp_temporary_reservation_bytes policy \<and>
    unat (ab_retained_bytes a) + unat (ab_reserved_bytes a) + unat (bp_unattributed_headroom_bytes policy)
      \<le> unat (bp_process_pressure_target_bytes policy)"
proof -
  have "ledger_ok policy (initial_machine policy)"
    by (simp add: ledger_ok_def initial_machine_def default_state_def)
  with ledger.along [OF assms(2)] assms(1) have "ledger_ok policy m" by blast
  with assms(3) show ?thesis by (simp add: ledger_ok_def within_budget_def)
qed

subsection \<open>A first run\<close>

text \<open>Two tasks of different roots enqueue on a fresh coordinator; the first is granted.\<close>

definition enqueue_run :: "string \<Rightarrow> build_kind \<Rightarrow> token \<Rightarrow> machine \<Rightarrow> machine" where
  "enqueue_run root kind tok m =
     (case acquire_enqueue root kind tok (mc_coord m) of
        Inl _ \<Rightarrow> m
      | Inr (t, c) \<Rightarrow> notify_waiters (with_coord c m\<lparr> mc_ready := insert (t, tok) (mc_ready m) \<rparr>))"

definition check_run :: "u64 \<Rightarrow> token \<Rightarrow> machine \<Rightarrow> machine" where
  "check_run t tok m =
     (if (t, tok) \<notin> mc_ready m then m
      else case acquire_check t tok (mc_coord m) of
        (Wait, c) \<Rightarrow> with_coord c m\<lparr> mc_ready := mc_ready m - {(t, tok)},
                                      mc_parked := insert (t, tok) (mc_parked m) \<rparr>
      | (Failed e, c) \<Rightarrow> with_coord c m\<lparr> mc_ready := mc_ready m - {(t, tok)} \<rparr>
      | (Granted p, c) \<Rightarrow> with_coord c m\<lparr> mc_ready := mc_ready m - {(t, tok)},
                                           mc_leases := pm_ticket p # mc_leases m \<rparr>)"

definition release_run :: "u64 \<Rightarrow> machine \<Rightarrow> machine" where
  "release_run t m =
     (if t \<in> set (mc_leases m)
      then notify_waiters (with_coord (upd_state (release t) (mc_coord m)) m
                  \<lparr> mc_leases := remove1 t (mc_leases m) \<rparr>)
      else m)"

definition cancel_run :: "token \<Rightarrow> machine \<Rightarrow> machine" where
  "cancel_run tok m = with_coord (cancel tok (mc_coord m)) m"

lemma run_steps:
  "msteps m0 m \<Longrightarrow> msteps m0 (enqueue_run root kind tok m)"
  "msteps m0 m \<Longrightarrow> msteps m0 (check_run t tok m)"
  "msteps m0 m \<Longrightarrow> msteps m0 (release_run t m)"
  "msteps m0 m \<Longrightarrow> msteps m0 (cancel_run tok m)"
  by (auto simp: enqueue_run_def check_run_def release_run_def cancel_run_def
      intro: msteps_step mstep.intros split: sum.split prod.split check_outcome.split)

lemmas run_simps =
  enqueue_run_def check_run_def release_run_def cancel_run_def acquire_enqueue_def acquire_check_def
  cancel_stale_compaction_def next_ticket_def next_waiter_index_def remove_waiter_def remove_at_def
  grant_def release_def is_cancelled_def cancel_def upd_state_def initial_machine_def default_state_def
  notify_waiters_def with_coord_def Let_def

definition one_active :: machine where
  "one_active =
     check_run 1 7 (enqueue_run ''/b'' FullIndex 8 (enqueue_run ''/a'' FullIndex 7 (initial_machine default_policy)))"

lemma one_active_reached: "msteps (initial_machine default_policy) one_active"
  unfolding one_active_def by (intro run_steps msteps_refl)

lemma one_active_active:
  "map_option (\<lambda>a. (ab_ticket a, ab_root a)) (cs_active (co_state (mc_coord one_active))) = Some (1, ''/a'')"
  by (simp add: one_active_def run_simps)

theorem builds_mutually_exclusive_witness:
  "msteps (initial_machine default_policy) one_active \<and> mc_leases one_active = [1]"
  using builds_mutually_exclusive [OF one_active_reached] one_active_reached one_active_active
  by (auto split: option.splits)

lemma default_policy_ok: "policy_ok default_policy"
  by (simp add: policy_ok_def default_policy_def DEFAULT_PROCESS_PRESSURE_TARGET_BYTES_def
      DEFAULT_UNATTRIBUTED_HEADROOM_BYTES_def)

theorem ledger_within_budget_witness:
  "policy_ok default_policy \<and> msteps (initial_machine default_policy) one_active \<and>
   (\<exists>a. cs_active (co_state (mc_coord one_active)) = Some a \<and>
        ab_reserved_bytes a \<le> bp_temporary_reservation_bytes default_policy)"
proof -
  obtain a where "cs_active (co_state (mc_coord one_active)) = Some a"
    using one_active_active by blast
  with ledger_within_budget [OF default_policy_ok one_active_reached this]
    default_policy_ok one_active_reached show ?thesis by blast
qed

subsection \<open>A task left behind\<close>

text \<open>The first task of the queue is woken by a release together with the second one. The second
  checks first, finds that it is not selected and parks again; the first then finds its token
  cancelled and leaves the queue without a notification.\<close>

definition stranded :: machine where
  "stranded =
     check_run 2 8
       (cancel_run 8
         (check_run 3 9
           (release_run 1
             (check_run 3 9
               (check_run 2 8
                 (check_run 1 7
                   (enqueue_run ''/c'' FullIndex 9
                     (enqueue_run ''/b'' FullIndex 8
                       (enqueue_run ''/a'' FullIndex 7 (initial_machine default_policy))))))))))"

text \<open>A wakeup can be lost. A state is reachable in which no build is active, nothing is shutting
  down, a task waits that the queue selects and whose token is not cancelled, and yet no task is
  ready to run: the waiting task stays parked until its timeout or an unrelated event.\<close>

theorem idle_coordinator_can_strand_waiter:
  "msteps (initial_machine default_policy) stranded \<and>
   cs_active (co_state (mc_coord stranded)) = None \<and>
   \<not> cs_shutting_down (co_state (mc_coord stranded)) \<and>
   map qb_ticket (cs_waiters (co_state (mc_coord stranded))) = [3] \<and>
   next_waiter_index (co_state (mc_coord stranded)) = Some 0 \<and>
   \<not> is_cancelled 9 (mc_coord stranded) \<and>
   mc_ready stranded = {} \<and> mc_parked stranded = {(3, 9)}"
proof -
  have "msteps (initial_machine default_policy) stranded"
    unfolding stranded_def by (intro run_steps msteps_refl)
  moreover have "cs_active (co_state (mc_coord stranded)) = None \<and>
     \<not> cs_shutting_down (co_state (mc_coord stranded)) \<and>
     map qb_ticket (cs_waiters (co_state (mc_coord stranded))) = [3] \<and>
     next_waiter_index (co_state (mc_coord stranded)) = Some 0 \<and>
     \<not> is_cancelled 9 (mc_coord stranded) \<and> mc_ready stranded = {} \<and> mc_parked stranded = {(3, 9)}"
    by (simp add: stranded_def run_simps insert_Diff_if insert_commute)
  ultimately show ?thesis by blast
qed

end
