(* ===== verification/Build_Policy.thy ===== *)
theory Build_Policy
  imports Build_Machine
begin

text \<open>
  Properties of the operations of the build coordinator: fairness of the queue between roots,
  shutdown, scoped reservations and their negotiation, the waiting reservation, and the epochs
  of compaction workers.
\<close>

section \<open>Fairness between roots\<close>

lemma position_from_Some:
  "position_from k P xs = Some i \<Longrightarrow>
     k \<le> i \<and> i - k < length xs \<and> P (xs ! (i - k)) \<and> (\<forall>j < i - k. \<not> P (xs ! j))"
proof (induction k P xs rule: position_from.induct)
  case (2 k P x xs)
  show ?case
  proof (cases "P x")
    case True
    with 2 show ?thesis by simp
  next
    case False
    with 2 have IH: "Suc k \<le> i \<and> i - Suc k < length xs \<and> P (xs ! (i - Suc k)) \<and>
        (\<forall>j < i - Suc k. \<not> P (xs ! j))" by simp
    then have i: "i - k = Suc (i - Suc k)" by (simp add: Suc_diff_Suc Suc_le_eq)
    have "\<not> P ((x # xs) ! j)" if "j < i - k" for j
      using that IH False i by (cases j) auto
    with IH i show ?thesis by simp
  qed
qed simp

lemma position_from_None: "position_from k P xs = None \<longleftrightarrow> (\<forall>x \<in> set xs. \<not> P x)"
  by (induction k P xs rule: position_from.induct) auto

lemma next_waiter_index_Some:
  assumes "next_waiter_index s = Some i"
  shows "i < length (cs_waiters s)"
    and "(Some (qb_root (cs_waiters s ! i)) \<noteq> cs_last_granted_root s \<and>
          (\<forall>j < i. Some (qb_root (cs_waiters s ! j)) = cs_last_granted_root s)) \<or>
         (i = 0 \<and> (\<forall>w \<in> set (cs_waiters s). Some (qb_root w) = cs_last_granted_root s))"
  using assms
    position_from_Some [of 0 "\<lambda>w. Some (qb_root w) \<noteq> cs_last_granted_root s" "cs_waiters s"]
    position_from_None [of 0 "\<lambda>w. Some (qb_root w) \<noteq> cs_last_granted_root s" "cs_waiters s"]
  by (auto simp: next_waiter_index_def split: option.splits if_splits)

lemma length_remove_at: "i < length xs \<Longrightarrow> length (remove_at i xs) = length xs - 1"
  by (simp add: remove_at_def)

lemma nth_remove_at:
  "i < length xs \<Longrightarrow> j < length xs - 1 \<Longrightarrow>
     remove_at i xs ! j = (if j < i then xs ! j else xs ! Suc j)"
  by (auto simp: remove_at_def nth_append min_def)

text \<open>The debt of the waiter at position \<open>k\<close>: how many grants may still pass it by.\<close>

definition debt :: "coordinator_state \<Rightarrow> nat \<Rightarrow> nat" where
  "debt s k = 2 * k + (if Some (qb_root (cs_waiters s ! k)) = cs_last_granted_root s then 1 else 0)"

text \<open>C36. No root starves. Whenever a build is granted, a task waiting at position \<open>k\<close> is granted itself or its
  debt, at most \<open>2 k + 1\<close>, decreases, where the debt counts two for each task in front and one
  when its own root was granted last; so a waiter is passed by at most \<open>2 k + 1\<close> grants. Roots
  alternate: a root is granted twice in a row only when no other root waits.\<close>

theorem grant_is_fair:
  assumes "acquire_check t tok c = (Granted p, c')" "k < length (cs_waiters (co_state c))"
  shows "(qb_ticket (cs_waiters (co_state c) ! k) = t \<or>
      (\<exists>k'. k' < length (cs_waiters (co_state c')) \<and>
         cs_waiters (co_state c') ! k' = cs_waiters (co_state c) ! k \<and>
         debt (co_state c') k' < debt (co_state c) k)) \<and>
    (cs_last_granted_root (co_state c') = cs_last_granted_root (co_state c) \<longrightarrow>
      (\<forall>w \<in> set (cs_waiters (co_state c)). Some (qb_root w) = cs_last_granted_root (co_state c)))"
proof -
  let ?ws = "cs_waiters (co_state c)"
  obtain i where i: "next_waiter_index (co_state c) = Some i" "qb_ticket (?ws ! i) = t"
    "cs_waiters (co_state c') = remove_at i ?ws"
    "cs_last_granted_root (co_state c') = Some (qb_root (?ws ! i))"
    using check_granted(5) [OF assms(1)] by blast
  note sel = next_waiter_index_Some [OF i(1)]
  let ?k = "if k < i then k else k - 1"
  have "?k < length (cs_waiters (co_state c')) \<and> cs_waiters (co_state c') ! ?k = ?ws ! k \<and>
      debt (co_state c') ?k < debt (co_state c) k" if "k \<noteq> i"
  proof -
    have k: "?k < length (cs_waiters (co_state c'))" "cs_waiters (co_state c') ! ?k = ?ws ! k"
      using that assms(2) sel(1) by (auto simp: i(3) length_remove_at nth_remove_at)
    moreover have "debt (co_state c') ?k < debt (co_state c) k"
    proof (cases "k < i")
      case True
      then have "Some (qb_root (?ws ! k)) = cs_last_granted_root (co_state c)"
        "Some (qb_root (?ws ! i)) \<noteq> cs_last_granted_root (co_state c)"
        using sel(2) by auto
      with True k(2) show ?thesis by (auto simp: debt_def i(4))
    next
      case False
      with that obtain n where "k = Suc n" by (cases k) auto
      with False that show ?thesis by (simp add: debt_def)
    qed
    ultimately show ?thesis by blast
  qed
  then have "qb_ticket (?ws ! k) = t \<or> (\<exists>k'. k' < length (cs_waiters (co_state c')) \<and>
         cs_waiters (co_state c') ! k' = ?ws ! k \<and> debt (co_state c') k' < debt (co_state c) k)"
    using i(2) by blast
  moreover have "\<forall>w \<in> set ?ws. Some (qb_root w) = cs_last_granted_root (co_state c)"
    if "cs_last_granted_root (co_state c') = cs_last_granted_root (co_state c)"
    using sel(2) that i(4) by auto
  ultimately show ?thesis by blast
qed

definition two_waiting :: coordinator where
  "two_waiting =
     \<lparr> co_policy = default_policy,
       co_state = default_state\<lparr> cs_next_ticket := 2, cs_last_granted_root := Some ''/a'',
         cs_waiters := [\<lparr> qb_ticket = 1, qb_root = ''/a'', qb_kind = FullIndex, qb_cancellation = 7 \<rparr>,
                        \<lparr> qb_ticket = 2, qb_root = ''/b'', qb_kind = DirtyIndex, qb_cancellation = 8 \<rparr>] \<rparr>,
       co_cancelled = {} \<rparr>"

theorem grant_is_fair_witness:
  "\<exists>p c'. acquire_check 2 8 two_waiting = (Granted p, c') \<and>
     0 < length (cs_waiters (co_state two_waiting)) \<and> debt (co_state c') 0 < debt (co_state two_waiting) 0"
proof -
  obtain p c' where g: "acquire_check 2 8 two_waiting = (Granted p, c')"
    and one: "length (cs_waiters (co_state c')) = 1"
    by (simp add: two_waiting_def acquire_check_def default_state_def is_cancelled_def
        next_waiter_index_def grant_def remove_at_def Let_def)
  have len: "0 < length (cs_waiters (co_state two_waiting))" by (simp add: two_waiting_def)
  have "qb_ticket (cs_waiters (co_state two_waiting) ! 0) \<noteq> 2" by (simp add: two_waiting_def)
  with grant_is_fair [OF g len] one have "debt (co_state c') 0 < debt (co_state two_waiting) 0"
    by (metis less_one)
  with g len show ?thesis by blast
qed

section \<open>Shutdown\<close>

lemma shutting_down_step:
  assumes "mstep m m'" "cs_shutting_down (co_state (mc_coord m))"
  shows "cs_shutting_down (co_state (mc_coord m')) \<and> set (mc_leases m') \<subseteq> set (mc_leases m)"
  using assms(1)
proof cases
  case (step_grant t tok p c)
  with check_granted(2) [OF step_grant(3)] assms(2) show ?thesis by simp
next
  case (step_release t)
  with assms(2) show ?thesis
    by (auto simp: release_def split: option.split dest: set_mp [OF set_remove1_subset])
qed (use assms(2) in \<open>auto simp: acquire_enter_def acquire_enqueue_def acquire_check_def
    acquire_timeout_def shutdown_def remove_root_def request_compaction_def begin_next_compaction_def
    finish_compaction_def retry_compaction_def record_index_stats_def reserve_def deny_def lease_drop_def
    remove_waiter_def notify_waiters_def with_coord_def Let_def
    split: if_splits option.splits prod.splits sum.splits\<close>)

lemma shutting_down_stays:
  "msteps m m' \<Longrightarrow> cs_shutting_down (co_state (mc_coord m)) \<Longrightarrow>
     cs_shutting_down (co_state (mc_coord m')) \<and> set (mc_leases m') \<subseteq> set (mc_leases m)"
  by (induction rule: msteps.induct) (auto dest: shutting_down_step)

lemma in_map_filter_compactions:
  "(root, cp) \<in> set table \<Longrightarrow> cp_current_cancellation cp = Some token \<Longrightarrow>
     token \<in> set (List.map_filter (\<lambda>(_, cp). cp_current_cancellation cp) table)"
  by (induction table) (auto simp: map_filter_simps split: option.split)

text \<open>C38. Shutdown is final and reaches every build. It cancels the active build, every queued one and
  every running compaction; afterwards no execution creates a new permit, the flag is never
  taken back, and a waiting task that runs its check fails.\<close>

theorem shutdown_is_final:
  assumes "msteps (with_coord (shutdown c) m) m'"
  shows "set (mc_leases m') \<subseteq> set (mc_leases m) \<and> cs_shutting_down (co_state (mc_coord m')) \<and>
    fst (acquire_check t tok (mc_coord m')) = Failed AcquireShuttingDown \<and>
    (\<forall>a. cs_active (co_state c) = Some a \<longrightarrow> is_cancelled (ab_cancellation a) (shutdown c)) \<and>
    (\<forall>w \<in> set (cs_waiters (co_state c)). is_cancelled (qb_cancellation w) (shutdown c)) \<and>
    (\<forall>root cp token. (root, cp) \<in> set (cs_compactions (co_state c)) \<longrightarrow>
       cp_current_cancellation cp = Some token \<longrightarrow> is_cancelled token (shutdown c))"
proof -
  have "cs_shutting_down (co_state (shutdown c))" by (simp add: shutdown_def Let_def)
  with shutting_down_stays [OF assms]
  have "cs_shutting_down (co_state (mc_coord m'))" "set (mc_leases m') \<subseteq> set (mc_leases m)" by auto
  then show ?thesis
    by (auto simp: acquire_check_def shutdown_def is_cancelled_def Let_def
        dest: in_map_filter_compactions split: option.split)
qed

theorem shutdown_is_final_witness:
  "msteps (with_coord (shutdown two_waiting) one_active) (with_coord (shutdown two_waiting) one_active) \<and>
   fst (acquire_check 1 7 (shutdown two_waiting)) = Failed AcquireShuttingDown"
  using shutdown_is_final [OF msteps_refl, of two_waiting one_active 1 7]
  by (auto intro: msteps_refl)

section \<open>Scoped reservations\<close>

lemma reserve_Inr:
  assumes "reserve p reserved retained sampled now c = (Inr u, c')"
  obtains a where "active_for p (co_state c) = Some a"
    "active_for p (co_state c') = Some (a\<lparr> ab_reserved_bytes := reserved, ab_retained_bytes := retained \<rparr>)"
    "cs_active (co_state c) = Some a"
    "reserved \<le> bp_temporary_reservation_bytes (co_policy c)"
  using assms
  by (auto simp: reserve_def active_for_def Let_def not_less
      split: if_splits option.splits sum.splits prod.splits)

lemma reserve_scoped_Inr:
  assumes "reserve_scoped p bytes sampled now c = (Inr l, c')"
  obtains a where "cs_active (co_state c) = Some a" "ab_ticket a = pm_ticket p"
    "l = \<lparr> rl_permit = p, rl_parent_reserved = ab_reserved_bytes a, rl_parent_retained = ab_retained_bytes a \<rparr>"
    "cs_active (co_state c') = Some (a\<lparr> ab_reserved_bytes := sat_add (ab_reserved_bytes a) bytes \<rparr>)"
    "sat_add (ab_reserved_bytes a) bytes \<le> bp_temporary_reservation_bytes (co_policy c)"
  using assms
  by (auto simp: reserve_scoped_def reserve_def active_for_def Let_def not_less
      split: if_splits option.splits sum.splits prod.splits)

text \<open>A scoped reservation is undone by dropping its lease: after a successful \<open>reserve_scoped\<close> the
  ledger holds the parent's bytes plus the request, and dropping the lease restores the active
  build exactly as it was.\<close>

theorem scoped_reservation_round_trip:
  assumes "reserve_scoped p bytes sampled now c = (Inr l, c')"
  shows "cs_active (co_state (lease_drop l c')) = cs_active (co_state c) \<and>
    (\<exists>a. cs_active (co_state c') = Some a \<and>
       ab_reserved_bytes a = sat_add (rl_parent_reserved l) bytes \<and>
       ab_retained_bytes a = rl_parent_retained l)"
  using assms
  by (rule reserve_scoped_Inr) (simp add: lease_drop_def active_for_def)

definition one_permit :: build_permit where
  "one_permit = \<lparr> pm_ticket = 1, pm_root = ''/a'', pm_cancellation = 7, pm_stage = FullIndex \<rparr>"

definition one_building :: coordinator where
  "one_building =
     \<lparr> co_policy = default_policy,
       co_state = default_state\<lparr> cs_active := Some \<lparr> ab_ticket = 1, ab_root = ''/a'', ab_kind = FullIndex,
         ab_reserved_bytes = 4096, ab_retained_bytes = 0, ab_cancellation = 7 \<rparr> \<rparr>,
       co_cancelled = {} \<rparr>"

lemmas policy_simps = default_policy_def DEFAULT_TEMPORARY_RESERVATION_BYTES_def
  DEFAULT_PROCESS_PRESSURE_TARGET_BYTES_def DEFAULT_UNATTRIBUTED_HEADROOM_BYTES_def

lemma one_building_reserves:
  "\<exists>l c'. reserve_scoped one_permit 1024 0 0 one_building = (Inr l, c')"
  by (simp add: reserve_scoped_def reserve_def active_for_def one_permit_def one_building_def
      check_cancelled_def is_cancelled_def default_state_def policy_simps sat_add_def Let_def)

theorem scoped_reservation_round_trip_witness:
  "\<exists>l c'. reserve_scoped one_permit 1024 0 0 one_building = (Inr l, c') \<and>
     cs_active (co_state (lease_drop l c')) = cs_active (co_state one_building)"
  using one_building_reserves scoped_reservation_round_trip by blast

lemma reserve_scoped_policy: "reserve_scoped p bytes sampled now c = (r, c') \<Longrightarrow> co_policy c' = co_policy c"
  by (auto simp: reserve_scoped_def dest: reserve_active(2) split: option.splits prod.splits sum.splits)

lemma reserve_up_to_loop_result:
  "reserve_up_to_loop p bytes minimum samples k now c = (Inr (l, b), c') \<Longrightarrow> minimum \<le> bytes \<Longrightarrow>
     minimum \<le> b \<and> b \<le> bytes \<and>
     (\<exists>a. cs_active (co_state c') = Some a \<and> ab_reserved_bytes a = sat_add (rl_parent_reserved l) b \<and>
        ab_reserved_bytes a \<le> bp_temporary_reservation_bytes (co_policy c))"
proof (induction p bytes minimum samples k now c rule: reserve_up_to_loop.induct)
  case (1 p bytes minimum samples k now c)
  obtain r c1 where r: "reserve_scoped p bytes (samples k) now c = (r, c1)" by fastforce
  show ?case
  proof (cases r)
    case (Inr l')
    with 1(2) r have "l' = l" "b = bytes" "c1 = c'"
      by (simp_all add: reserve_up_to_loop.simps [of p bytes])
    with r Inr 1(3) show ?thesis by (auto elim!: reserve_scoped_Inr)
  next
    case (Inl e)
    with 1(2) r have e: "e = ProcessPressure \<and> minimum < bytes"
      by (auto simp: reserve_up_to_loop.simps [of p bytes] split: if_splits)
    have "smaller_request bytes minimum \<le> bytes"
      using smaller_request_less [of minimum bytes] e by (simp add: word_le_nat_alt)
    moreover have "minimum \<le> smaller_request bytes minimum" by (simp add: smaller_request_def)
    ultimately show ?thesis
      using 1(1) [OF r [symmetric] Inl e] 1(2) r Inl e reserve_scoped_policy [OF r]
      by (auto simp: reserve_up_to_loop.simps [of p bytes])
  qed
qed

text \<open>C39. The negotiated phase gets what it was promised. The negotiation always ends; when it succeeds
  the granted size lies between the minimum and the preference, the ledger holds the parent's
  bytes plus exactly that size, and the total respects the temporary budget.\<close>

theorem negotiated_reservation_bounds:
  assumes "reserve_scoped_up_to p preferred minimum samples now c = (Inr (l, b), c')"
  shows "minimum \<le> b \<and> b \<le> preferred \<and>
    (\<exists>a. cs_active (co_state c') = Some a \<and> ab_reserved_bytes a = sat_add (rl_parent_reserved l) b \<and>
       ab_reserved_bytes a \<le> bp_temporary_reservation_bytes (co_policy c))"
proof -
  obtain a where a: "active_for p (co_state c) = Some a"
    using assms by (auto simp: reserve_scoped_up_to_def split: option.splits)
  define bytes where "bytes = min preferred
    (sat_sub (bp_temporary_reservation_bytes (co_policy c)) (ab_reserved_bytes a))"
  from assms a have "minimum \<le> bytes" and "reserve_up_to_loop p bytes minimum samples 0 now c = (Inr (l, b), c')"
    by (auto simp: reserve_scoped_up_to_def bytes_def Let_def not_less split: if_splits)
  moreover have "bytes \<le> preferred" by (simp add: bytes_def)
  ultimately show ?thesis using reserve_up_to_loop_result by fastforce
qed

theorem negotiated_reservation_bounds_witness:
  "\<exists>l b c'. reserve_scoped_up_to one_permit 1024 512 (\<lambda>_. 0) 0 one_building = (Inr (l, b), c') \<and>
     512 \<le> b \<and> b \<le> 1024"
proof -
  obtain l c' where "reserve_scoped one_permit 1024 0 0 one_building = (Inr l, c')"
    using one_building_reserves by blast
  then have "reserve_scoped_up_to one_permit 1024 512 (\<lambda>_. 0) 0 one_building = (Inr (l, 1024), c')"
    by (simp add: reserve_scoped_up_to_def reserve_up_to_loop.simps active_for_def one_permit_def
        one_building_def default_state_def policy_simps sat_sub_def)
  with negotiated_reservation_bounds [OF this] show ?thesis by blast
qed

lemma reserve_with_wait_pressure:
  "fst (reserve_with_wait p reserved retained deadline rounds c) = Some (Inl ProcessPressure) \<Longrightarrow>
     \<exists>(sampled, now, woken) \<in> set rounds. deadline \<le> now"
  by (induction p reserved retained deadline rounds c rule: reserve_with_wait.induct)
    (auto split: prod.splits sum.splits if_splits)

lemma reserve_with_wait_answers:
  "\<exists>(sampled, now, woken) \<in> set rounds. deadline \<le> now \<Longrightarrow>
     fst (reserve_with_wait p reserved retained deadline rounds c) \<noteq> None"
proof (induction p reserved retained deadline rounds c rule: reserve_with_wait.induct)
  case (2 p reserved retained deadline sampled now woken rounds c)
  obtain r c' where r: "reserve p reserved retained sampled now c = (r, c')" by fastforce
  show ?case
  proof (cases "(\<exists>e. r = Inl e \<and> e = ProcessPressure) \<and> now < deadline \<and> \<not> woken")
    case True
    with 2(2) have "\<exists>(sampled, now, woken) \<in> set rounds. deadline \<le> now" by auto
    with 2(1) [OF r [symmetric]] True r show ?thesis by auto
  next
    case False
    with r show ?thesis by (auto split: sum.split)
  qed
qed simp

text \<open>C40. A waiting reservation gives an answer. Whatever it observes, once a round is judged at or after
  the deadline the reservation has returned; and it gives up for process pressure only in a round
  judged at or after the deadline.\<close>

theorem waiting_reservation_ends:
  "((\<exists>(sampled, now, woken) \<in> set rounds. deadline \<le> now) \<longrightarrow>
      fst (reserve_with_wait p reserved retained deadline rounds c) \<noteq> None) \<and>
   (fst (reserve_with_wait p reserved retained deadline rounds c) = Some (Inl ProcessPressure) \<longrightarrow>
      (\<exists>(sampled, now, woken) \<in> set rounds. deadline \<le> now))"
  using reserve_with_wait_answers reserve_with_wait_pressure by blast

theorem waiting_reservation_ends_witness:
  "(\<exists>(sampled, now, woken) \<in> set [(0 :: u64, 5 :: nat, False)]. 3 \<le> now) \<and>
   fst (reserve_with_wait one_permit (-1) 0 3 [(0, 5, False)] one_building) \<noteq> None"
  using waiting_reservation_ends [of "[(0, 5, False)]" 3 one_permit "-1" 0 one_building] by simp

section \<open>Compaction epochs\<close>

definition epoch_ok :: "compaction_state \<Rightarrow> bool" where
  "epoch_ok cp \<longleftrightarrow> (\<forall>e. cp_current_epoch cp = Some e \<longrightarrow> e \<le> cp_latest_epoch cp)"

definition compactions_ok :: "coordinator \<Rightarrow> bool" where
  "compactions_ok c \<longleftrightarrow> (\<forall>root cp. map_of (cs_compactions (co_state c)) root = Some cp \<longrightarrow> epoch_ok cp)"

lemma compactions_ok_cong:
  "cs_compactions (co_state c') = cs_compactions (co_state c) \<Longrightarrow> compactions_ok c' = compactions_ok c"
  by (simp add: compactions_ok_def)

lemma compactions_unchanged:
  "acquire_enter kind c = Inr c' \<Longrightarrow> cs_compactions (co_state c') = cs_compactions (co_state c)"
  "acquire_enqueue root kind tok c = Inr (t, c') \<Longrightarrow> cs_compactions (co_state c') = cs_compactions (co_state c)"
  "acquire_check t tok c = (out, c') \<Longrightarrow> cs_compactions (co_state c') = cs_compactions (co_state c)"
  "acquire_timeout t now c = (e, c') \<Longrightarrow> cs_compactions (co_state c') = cs_compactions (co_state c)"
  "reserve p reserved retained sampled now c = (r, c') \<Longrightarrow> cs_compactions (co_state c') = cs_compactions (co_state c)"
  "cs_compactions (co_state (lease_drop l c)) = cs_compactions (co_state c)"
  "cs_compactions (release t s) = cs_compactions s"
  "cs_compactions (co_state (record_index_stats x y c)) = cs_compactions (co_state c)"
  by (auto simp: acquire_enter_def acquire_enqueue_def acquire_check_def acquire_timeout_def
      record_index_stats_def cancel_stale_compaction_def next_ticket_def remove_waiter_def
      grant_def release_def reserve_def deny_def lease_drop_def Let_def
      split: if_splits option.splits prod.splits sum.splits)

lemma compactions_shutdown:
  "compactions_ok c \<Longrightarrow> compactions_ok (shutdown c)"
  "compactions_ok c \<Longrightarrow> compactions_ok (remove_root root c)"
  by (auto simp: compactions_ok_def shutdown_def remove_root_def map_of_delete Let_def
      split: option.splits if_splits)

lemma compactions_worker:
  "request_compaction root epoch c = (r, c') \<Longrightarrow> compactions_ok c \<Longrightarrow> compactions_ok c'"
  "begin_next_compaction root fresh c = (b, c') \<Longrightarrow> compactions_ok c \<Longrightarrow> compactions_ok c'"
  "finish_compaction root epoch c = (f, c') \<Longrightarrow> compactions_ok c \<Longrightarrow> compactions_ok c'"
  "retry_compaction root epoch c = (f, c') \<Longrightarrow> compactions_ok c \<Longrightarrow> compactions_ok c'"
  subgoal
    by (auto simp: compactions_ok_def epoch_ok_def request_compaction_def default_compaction_def
        get_or_def update_conv' Let_def split: if_splits option.splits; force)
  subgoal
    by (auto simp: compactions_ok_def epoch_ok_def begin_next_compaction_def update_conv'
        split: if_splits option.splits)
  subgoal
    by (auto simp: compactions_ok_def epoch_ok_def finish_compaction_def clear_epoch_def update_conv'
        map_of_delete Let_def split: if_splits option.splits)
  subgoal
    by (auto simp: compactions_ok_def epoch_ok_def retry_compaction_def clear_epoch_def update_conv'
        split: if_splits option.splits)
  done

lemma release_compactions:
  "cs_compactions (co_state (upd_state (release t) c)) = cs_compactions (co_state c)"
  by (simp add: compactions_unchanged)

lemma cancel_compactions: "cs_compactions (co_state (cancel tok c)) = cs_compactions (co_state c)"
  by simp

interpretation epochs: step_invariant "\<lambda>m. compactions_ok (mc_coord m)"
proof
  fix m m' assume "compactions_ok (mc_coord m)" "mstep m m'"
  from this(2,1) show "compactions_ok (mc_coord m')"
    by cases (auto intro: compactions_shutdown compactions_worker
        simp: compactions_ok_cong [OF compactions_unchanged(6)] compactions_ok_cong [OF compactions_unchanged(8)]
          compactions_ok_cong [OF release_compactions] compactions_ok_cong [OF cancel_compactions]
        dest!: compactions_unchanged(1-5) [THEN compactions_ok_cong])
qed

lemma request_accepted:
  assumes "request_compaction root epoch c = (r, c')" "r \<noteq> IgnoredStale"
  obtains cp cp' where "cp = get_or default_compaction (cs_compactions (co_state c)) root"
    "cp_latest_epoch cp < epoch" "map_of (cs_compactions (co_state c')) root = Some cp'"
    "cp_latest_epoch cp' = epoch" "cp_current_epoch cp' = cp_current_epoch cp"
    "r = (if cp_worker_running cp then UpdatedPending else StartWorker)"
    "\<And>tok. r = UpdatedPending \<Longrightarrow> cp_current_cancellation cp = Some tok \<Longrightarrow> is_cancelled tok c'"
  using assms
  by (auto simp: request_compaction_def Let_def get_or_def or_insert_def update_conv' not_le
      is_cancelled_def cancel_opt_def cancel_def upd_state_def split: if_splits option.splits)

lemma begin_after_finish:
  assumes "map_of (cs_compactions (co_state c)) root = Some cp" "e < cp_latest_epoch cp"
    "cp_current_epoch cp = Some e"
  shows "fst (finish_compaction root e c) \<and>
    fst (begin_next_compaction root fresh (snd (finish_compaction root e c))) = Some (cp_latest_epoch cp, fresh)"
  using assms
  by (simp add: finish_compaction_def begin_next_compaction_def clear_epoch_def update_conv' Let_def)

text \<open>C37. A compaction request that a coordinator accepts is not lost. In every reachable state the
  epoch a worker runs is not newer than the latest requested one. A request accepted while no
  round is running is the epoch the next round starts; a request accepted while epoch \<open>e\<close> runs
  cancels that round, and when the round finishes the worker is told to go on and starts exactly the
  requested epoch. Finishing the newest epoch removes the root's entry.\<close>

theorem accepted_compaction_is_run:
  assumes "msteps (initial_machine policy) m" "request_compaction root epoch (mc_coord m) = (r, c)"
    "r \<noteq> IgnoredStale"
  shows "let cp = get_or default_compaction (cs_compactions (co_state (mc_coord m))) root in
    (case cp_current_epoch cp of
       None \<Rightarrow> fst (begin_next_compaction root fresh c) = Some (epoch, fresh)
     | Some e \<Rightarrow> e < epoch \<and> fst (finish_compaction root e c) \<and>
         fst (begin_next_compaction root fresh (snd (finish_compaction root e c))) = Some (epoch, fresh)) \<and>
    (r = UpdatedPending \<longrightarrow> (\<forall>tok. cp_current_cancellation cp = Some tok \<longrightarrow> is_cancelled tok c)) \<and>
    \<not> fst (finish_compaction root epoch c) \<and>
    map_of (cs_compactions (co_state (snd (finish_compaction root epoch c)))) root = None"
proof -
  have "compactions_ok (mc_coord (initial_machine policy))"
    by (simp add: compactions_ok_def initial_machine_def default_state_def)
  from epochs.along [OF assms(1) this] have ok: "compactions_ok (mc_coord m)" .
  obtain cp cp' where r: "cp = get_or default_compaction (cs_compactions (co_state (mc_coord m))) root"
    "cp_latest_epoch cp < epoch" "map_of (cs_compactions (co_state c)) root = Some cp'"
    "cp_latest_epoch cp' = epoch" "cp_current_epoch cp' = cp_current_epoch cp"
    "\<And>tok. r = UpdatedPending \<Longrightarrow> cp_current_cancellation cp = Some tok \<Longrightarrow> is_cancelled tok c"
    using request_accepted [OF assms(2,3)] by metis
  have fin: "\<not> fst (finish_compaction root epoch c) \<and>
      map_of (cs_compactions (co_state (snd (finish_compaction root epoch c)))) root = None"
    using r(3,4) by (simp add: finish_compaction_def clear_epoch_def map_of_delete Let_def)
  have "epoch_ok cp"
    using ok r(1) by (auto simp: compactions_ok_def get_or_def epoch_ok_def default_compaction_def
        split: option.splits)
  show ?thesis
  proof (cases "cp_current_epoch cp")
    case None
    with r(3-5) have "fst (begin_next_compaction root fresh c) = Some (epoch, fresh)"
      by (simp add: begin_next_compaction_def)
    with None r(6) fin show ?thesis by (simp add: Let_def flip: r(1))
  next
    case (Some e)
    with \<open>epoch_ok cp\<close> r(2) have "e < epoch" by (auto simp: epoch_ok_def)
    with begin_after_finish [of c root cp' e fresh] r(3-5) Some r(6) fin show ?thesis
      by (simp add: Let_def flip: r(1))
  qed
qed

theorem accepted_compaction_is_run_witness:
  "\<exists>c. request_compaction ''/a'' 3 (mc_coord (initial_machine default_policy)) = (StartWorker, c) \<and>
     fst (begin_next_compaction ''/a'' 5 c) = Some (3, 5)"
proof -
  obtain c where c: "request_compaction ''/a'' 3 (mc_coord (initial_machine default_policy)) = (StartWorker, c)"
    by (simp add: request_compaction_def initial_machine_def default_state_def default_compaction_def
        get_or_def or_insert_def Let_def)
  have "cp_current_epoch (get_or default_compaction
      (cs_compactions (co_state (mc_coord (initial_machine default_policy)))) ''/a'') = None"
    by (simp add: initial_machine_def default_state_def default_compaction_def)
  with accepted_compaction_is_run [OF msteps_refl c, of 5] c show ?thesis by (auto simp: Let_def)
qed

end
