(* ===== verification/Call_Model.thy ===== *)
theory Call_Model
  imports Prelude
begin

text \<open>
  The vocabulary of call relations, \<open>src/crates/fossilsense/src/call_model.rs\<close>: source ranges,
  callable anchors and entities, call sites, confidence levels and evidence codes. Line and
  column numbers are 32-bit words and byte offsets are 64-bit words, as in the code.
\<close>

definition RELATION_PROTOCOL_VERSION :: u32 where "RELATION_PROTOCOL_VERSION = 2"

datatype semantic_generation = SemanticGeneration u64

definition MISSING :: semantic_generation where "MISSING = SemanticGeneration 0"

fun is_published :: "semantic_generation \<Rightarrow> bool" where
  "is_published (SemanticGeneration n) = (n \<noteq> 0)"

record relation_revision =
  rv_engine_epoch :: u64
  rv_semantic_generation :: semantic_generation
  rv_overlay_epoch :: u64
  rv_resolver_version :: u32

record source_position =
  sp_line :: u32
  sp_character :: u32

record source_range =
  sr_start :: source_position
  sr_end :: source_position
  sr_start_byte :: u64
  sr_end_byte :: u64

datatype callable_kind = Function | SyntheticGlobalInitializer | SyntheticLambda | FunctionLikeMacro

fun callable_kind_as_str :: "callable_kind \<Rightarrow> string" where
  "callable_kind_as_str Function = ''function''"
| "callable_kind_as_str SyntheticGlobalInitializer = ''synthetic_global_initializer''"
| "callable_kind_as_str SyntheticLambda = ''synthetic_lambda''"
| "callable_kind_as_str FunctionLikeMacro = ''function_like_macro''"

datatype anchor_role = Declaration | Definition | SyntheticRole

fun anchor_role_as_str :: "anchor_role \<Rightarrow> string" where
  "anchor_role_as_str Declaration = ''declaration''"
| "anchor_role_as_str Definition = ''definition''"
| "anchor_role_as_str SyntheticRole = ''synthetic''"

datatype owner_kind_hint = NamespaceOwner | RecordOwner | UnknownOwner

fun owner_kind_as_str :: "owner_kind_hint \<Rightarrow> string" where
  "owner_kind_as_str NamespaceOwner = ''namespace''"
| "owner_kind_as_str RecordOwner = ''record''"
| "owner_kind_as_str UnknownOwner = ''unknown''"

datatype linkage_domain =
    ExternalLinkage
  | InternalLinkageOf string
  | PackageLinkage string
  | UnknownLinkage

datatype fact_provenance = Ast | SyntheticFact

fun provenance_as_str :: "fact_provenance \<Rightarrow> string" where
  "provenance_as_str Ast = ''ast''"
| "provenance_as_str SyntheticFact = ''synthetic''"

datatype call_fact_availability = Available | NotRequested | LexicalFallback

record signature_shape =
  ss_normalized :: string
  ss_min_arity :: "u32 option"
  ss_max_arity :: "u32 option"
  ss_variadic :: bool

datatype signature_fidelity = AstExact | Malformed

definition accepts_arity :: "signature_shape \<Rightarrow> u32 \<Rightarrow> bool option" where
  "accepts_arity sig arity =
     (case ss_min_arity sig of
        None \<Rightarrow> None
      | Some min_arity \<Rightarrow>
          if arity < min_arity then Some False
          else
            (case ss_max_arity sig of
               Some max_arity \<Rightarrow> Some (arity \<le> max_arity)
             | None \<Rightarrow> if ss_variadic sig then Some True else None))"

record callable_locator =
  cl_workspace_id :: string
  cl_path :: string
  cl_entity_key :: string
  cl_anchor_fingerprint :: string
  cl_old_start_byte :: u64
  cl_signature_digest :: string

record callable_anchor =
  ca_path :: string
  ca_name :: string
  ca_qualified_name :: string
  ca_owner :: "string option"
  ca_owner_kind :: "owner_kind_hint option"
  ca_kind :: callable_kind
  ca_role :: anchor_role
  ca_linkage :: linkage_domain
  ca_signature :: signature_shape
  ca_canonical_signature :: string
  ca_presentation_signature :: string
  ca_signature_fidelity :: signature_fidelity
  ca_name_range :: source_range
  ca_declaration_range :: source_range
  ca_body_range :: "source_range option"
  ca_guard :: "string option"
  ca_provenance :: fact_provenance
  ca_syntax_error_overlap :: bool
  ca_entity_key :: string
  ca_anchor_fingerprint :: string

record callable_entity =
  ce_entity_key :: string
  ce_name :: string
  ce_qualified_name :: string
  ce_owner :: "string option"
  ce_owner_kind :: "owner_kind_hint option"
  ce_kind :: callable_kind
  ce_linkage :: linkage_domain
  ce_signature :: signature_shape
  ce_primary_anchor :: callable_anchor
  ce_variants :: "callable_anchor list"

datatype call_form =
    DirectName | QualifiedName | ParenthesizedName | MemberDot | MemberArrow | StaticMember
  | FunctionPointer | CallableObject | ExplicitConstruction | Unsupported

fun call_form_as_str :: "call_form \<Rightarrow> string" where
  "call_form_as_str DirectName = ''direct_name''"
| "call_form_as_str QualifiedName = ''qualified_name''"
| "call_form_as_str ParenthesizedName = ''parenthesized_name''"
| "call_form_as_str MemberDot = ''member_dot''"
| "call_form_as_str MemberArrow = ''member_arrow''"
| "call_form_as_str StaticMember = ''static_member''"
| "call_form_as_str FunctionPointer = ''function_pointer''"
| "call_form_as_str CallableObject = ''callable_object''"
| "call_form_as_str ExplicitConstruction = ''explicit_construction''"
| "call_form_as_str Unsupported = ''unsupported''"

record call_site_fact =
  cf_path :: string
  cf_caller_entity_key :: string
  cf_expression_range :: source_range
  cf_callee_range :: source_range
  cf_callee_name :: "string option"
  cf_qualified_name :: "string option"
  cf_form :: call_form
  cf_argument_count :: "u32 option"
  cf_guard :: "string option"
  cf_provenance :: fact_provenance
  cf_syntax_error_overlap :: bool
  cf_site_fingerprint :: string

datatype relation_confidence = High | Medium | Low | AmbiguousRelation | Unresolved | Unavailable

fun relation_confidence_rank :: "relation_confidence \<Rightarrow> nat" where
  "relation_confidence_rank High = 5"
| "relation_confidence_rank Medium = 4"
| "relation_confidence_rank Low = 3"
| "relation_confidence_rank AmbiguousRelation = 2"
| "relation_confidence_rank Unresolved = 1"
| "relation_confidence_rank Unavailable = 0"

datatype evidence_code =
    SameFile | InternalLinkage | ExplicitQualifier | ReachableDeclaration | CompatibleArity
  | CompatibleSignature | NameOnly | OpenIncludeScope | MacroExpansionUnknown
  | PreprocessorBranchUnknown | SyntaxErrorOverlap | UnsupportedCallForm | ExternalBodyUnavailable

record evidence_ledger =
  el_supports :: "evidence_code list"
  el_contradictions :: "evidence_code list"
  el_unknowns :: "evidence_code list"

record call_target_candidate =
  ct_entity :: callable_entity
  ct_confidence :: relation_confidence
  ct_evidence :: evidence_ledger
  ct_ambiguity_set_id :: "string option"

datatype relation_direction = Incoming | Outgoing

record call_relation =
  rl_caller :: callable_entity
  rl_callee :: "callable_entity option"
  rl_direction :: relation_direction
  rl_call_sites :: "call_site_fact list"
  rl_confidence :: relation_confidence
  rl_evidence :: evidence_ledger
  rl_ambiguity_set_id :: "string option"

datatype budget_state =
  CompleteBudget | PageLimited | ScanLimited | CandidateLimited | TimeLimited | CancelledBudget

record coverage_summary =
  cv_eligible_files :: u64
  cv_analyzed_files :: u64
  cv_fallback_files :: u64
  cv_external_bodies_limited :: bool

text \<open>The call forms whose callee is a plain name, the ones the resolvers support.\<close>

definition named_form :: "call_form \<Rightarrow> bool" where
  "named_form form = (form \<in> {DirectName, QualifiedName, ParenthesizedName})"

text \<open>The inclusive position test, which \<open>call_catalog.rs\<close> and \<open>query/callables/arity.rs\<close> both have.\<close>

definition position_le :: "source_position \<Rightarrow> source_position \<Rightarrow> bool" where
  "position_le p q = ((sp_line p, sp_character p) \<le> (sp_line q, sp_character q))"

definition position_in_range :: "source_position \<Rightarrow> source_range \<Rightarrow> bool" where
  "position_in_range p r = (position_le (sr_start r) p \<and> position_le p (sr_end r))"

lemma position_le_trans: "position_le p q \<Longrightarrow> position_le q r \<Longrightarrow> position_le p r"
  unfolding position_le_def by (rule order_trans)

text \<open>The range the worked examples use.\<close>

definition zero_range :: source_range where
  "zero_range = \<lparr> sr_start = \<lparr> sp_line = 0, sp_character = 0 \<rparr>, sr_end = \<lparr> sp_line = 0, sp_character = 0 \<rparr>,
     sr_start_byte = 0, sr_end_byte = 0 \<rparr>"

end
