(* ===== verification/Entity_Relation.thy ===== *)
theory Entity_Relation
  imports Semantic_Model Call_Model
begin

text \<open>
  Declaration facts and the evidence that relates two of them,
  \<open>src/crates/fossilsense/src/semantic_model.rs\<close> and its submodule \<open>entity\<close>: entity identities,
  the small algebra of preprocessor conditions, and the decision whether two declarations or
  two callable anchors are proven counterparts. The JSON encoder and the BLAKE3 hash of an
  identity's digest are arguments.
\<close>

section \<open>Declaration facts\<close>

datatype semantic_declaration_role =
  DeclarationRole | DefinitionRole | TentativeDefinition | UnknownRole

datatype language_fidelity = ExplicitLanguage | Inferred | HeuristicLanguage | UnknownFidelity

datatype semantic_fact_provenance = AstFact

datatype semantic_fact_fidelity = Authoritative | Incomplete | LowFidelity

record declaration_locator =
  dl_workspace_id :: string
  dl_path :: string
  dl_range :: source_range
  dl_fingerprint :: string

record declaration_identity =
  di_locator :: declaration_locator
  di_logical_key :: logical_entity_key
  di_language :: semantic_language
  di_language_fidelity :: language_fidelity
  di_provenance :: semantic_fact_provenance
  di_fact_fidelity :: semantic_fact_fidelity
  di_role :: semantic_declaration_role

datatype declaration_tag_kind = StructTag | UnionTag | ClassTag | EnumTag | InterfaceTag

definition tag_from_keyword :: "string \<Rightarrow> declaration_tag_kind option" where
  "tag_from_keyword v =
     (if v = ''struct'' then Some StructTag
      else if v = ''union'' then Some UnionTag
      else if v = ''class'' then Some ClassTag
      else if v = ''enum'' then Some EnumTag
      else if v = ''interface'' then Some InterfaceTag
      else None)"

definition tag_from_code :: "int \<Rightarrow> declaration_tag_kind option" where
  "tag_from_code v =
     (if v = 0 then Some StructTag
      else if v = 1 then Some UnionTag
      else if v = 2 then Some ClassTag
      else if v = 3 then Some EnumTag
      else if v = 4 then Some InterfaceTag
      else None)"

fun tag_entity_kind :: "declaration_tag_kind \<Rightarrow> string" where
  "tag_entity_kind StructTag = ''struct''"
| "tag_entity_kind ClassTag = ''struct''"
| "tag_entity_kind UnionTag = ''union''"
| "tag_entity_kind EnumTag = ''enum''"
| "tag_entity_kind InterfaceTag = ''interface''"

datatype declarator_shape =
    Identity
  | PointerShape "string list"
  | ArrayShape string
  | FunctionShape string
  | FunctionPointerShape string
  | QualifiedShape "string list"
  | UnsupportedShape

datatype declaration_backing =
    CallableAnchorBacking string
  | RecordBacking string
  | TypeAliasBacking string
  | SourceRangeBacking source_range
  | NoBacking

record declaration_fact =
  df_tag_kind :: "declaration_tag_kind option"
  df_identity :: declaration_identity
  df_name :: string
  df_qualified_name :: string
  df_declaration_kind :: semantic_declaration_kind
  df_role :: semantic_declaration_role
  df_path :: string
  df_name_range :: source_range
  df_declaration_range :: source_range
  df_canonical_signature :: "string option"
  df_declarator_shape :: "declarator_shape option"
  df_has_initializer :: "bool option"
  df_owner :: "string option"
  df_linkage :: linkage_domain
  df_guard :: "string option"
  df_backing :: declaration_backing

section \<open>Entity identity\<close>

definition ENTITY_RELATION_FORMAT_VERSION :: int where "ENTITY_RELATION_FORMAT_VERSION = 2"

datatype entity_domain = CallableDomain | TagDomain | AliasDomain | ValueDomain | MacroDomain

record entity_identity =
  ei_family :: semantic_family
  ei_domain :: entity_domain
  ei_qualified_name :: string
  ei_owner :: "string option"
  ei_structural_signature :: "string option"
  ei_linkage_domain :: string

definition declaration_domain :: "declaration_fact \<Rightarrow> entity_domain" where
  "declaration_domain f =
     (case df_declaration_kind f of
        FunctionDecl \<Rightarrow> CallableDomain
      | MethodDecl \<Rightarrow> CallableDomain
      | TypeDecl \<Rightarrow> TagDomain
      | AliasDecl \<Rightarrow> AliasDomain
      | MacroDecl \<Rightarrow> MacroDomain
      | ObjectDecl \<Rightarrow> ValueDomain
      | EnumConstant \<Rightarrow> ValueDomain)"

definition declaration_signature :: "declaration_fact \<Rightarrow> entity_domain \<Rightarrow> string option" where
  "declaration_signature f d =
     (if d = TagDomain then map_option tag_entity_kind (df_tag_kind f)
      else if d \<noteq> CallableDomain then None
      else if di_language (df_identity f) = Go
           then lk_canonical_signature (di_logical_key (df_identity f))
      else df_canonical_signature f)"

definition from_declaration :: "declaration_fact \<Rightarrow> entity_identity" where
  "from_declaration f =
     (let d = declaration_domain f
      in \<lparr> ei_family = semantic_family_of (di_language (df_identity f)), ei_domain = d,
           ei_qualified_name = df_qualified_name f, ei_owner = df_owner f,
           ei_structural_signature = declaration_signature f d,
           ei_linkage_domain = lk_linkage_domain (di_logical_key (df_identity f)) \<rparr>)"

type_synonym identity_tuple =
  "int \<times> semantic_family \<times> entity_domain \<times> string \<times> string option \<times> string option \<times> string"

definition digest_parts ::
  "(identity_tuple \<Rightarrow> string) \<Rightarrow> (string \<Rightarrow> string) \<Rightarrow> semantic_family \<Rightarrow> entity_domain \<Rightarrow> string
   \<Rightarrow> string option \<Rightarrow> string option \<Rightarrow> string \<Rightarrow> string" where
  "digest_parts to_vec hash family domain name owner signature linkage =
     take 12 (hash (to_vec
       (ENTITY_RELATION_FORMAT_VERSION, family, domain, name, owner, signature, linkage)))"

definition digest_for_declaration ::
  "(identity_tuple \<Rightarrow> string) \<Rightarrow> (string \<Rightarrow> string) \<Rightarrow> declaration_fact \<Rightarrow> string" where
  "digest_for_declaration to_vec hash f =
     (let d = declaration_domain f
      in digest_parts to_vec hash (semantic_family_of (di_language (df_identity f))) d
           (df_qualified_name f) (df_owner f) (declaration_signature f d)
           (lk_linkage_domain (di_logical_key (df_identity f))))"

definition digest ::
  "(identity_tuple \<Rightarrow> string) \<Rightarrow> (string \<Rightarrow> string) \<Rightarrow> entity_identity \<Rightarrow> string" where
  "digest to_vec hash e =
     digest_parts to_vec hash (ei_family e) (ei_domain e) (ei_qualified_name e) (ei_owner e)
       (ei_structural_signature e) (ei_linkage_domain e)"

section \<open>Conditions\<close>

datatype relation_strength = Proven | CompatibleCandidate | IncompatibleRelation

datatype condition_verdict = Same | Unconditional | UnknownCondition | IncompatibleCondition

record relation_evidence =
  rv_strength :: relation_strength
  rv_condition :: condition_verdict
  rv_reachable :: bool
  rv_owner_proven :: bool
  rv_complete :: bool

definition is_ascii_digit :: "char \<Rightarrow> bool" where
  "is_ascii_digit c = (CHR ''0'' \<le> c \<and> c \<le> CHR ''9'')"

definition is_ascii_alphanumeric :: "char \<Rightarrow> bool" where
  "is_ascii_alphanumeric c =
     (is_ascii_digit c \<or> CHR ''A'' \<le> c \<and> c \<le> CHR ''Z'' \<or> CHR ''a'' \<le> c \<and> c \<le> CHR ''z'')"

definition is_word_byte :: "char \<Rightarrow> bool" where
  "is_word_byte c = (is_ascii_alphanumeric c \<or> c = CHR ''_'')"

definition strip_condition_keyword :: "string \<Rightarrow> string \<Rightarrow> string option" where
  "strip_condition_keyword text keyword =
     (if prefix keyword text then
        (let rest = drop (length keyword) text
         in if (case rest of [] \<Rightarrow> False | c # _ \<Rightarrow> is_word_byte c) then None
            else Some (str_trim rest))
      else None)"

text \<open>The scan that splits a guard at the \<open>&&\<close> outside parentheses; \<open>None\<close> where the code gives up.\<close>

fun scan_terms :: "int \<Rightarrow> string \<Rightarrow> string list \<Rightarrow> string \<Rightarrow> string list option" where
  "scan_terms depth current terms [] =
     (if depth \<noteq> 0 then None else Some (terms @ [current]))"
| "scan_terms depth current terms (c # rest) =
     (if c = CHR ''('' then scan_terms (depth + 1) (current @ [c]) terms rest
      else if c = CHR '')'' then
        (if depth - 1 < 0 then None else scan_terms (depth - 1) (current @ [c]) terms rest)
      else if c = CHR ''&'' \<and> depth = 0 \<and> (rest \<noteq> [] \<and> hd rest = CHR ''&'') then
        (if length terms = 32 then None
         else scan_terms depth [] (terms @ [current]) (tl rest))
      else scan_terms depth (current @ [c]) terms rest)"

fun enclosing_from :: "int \<Rightarrow> string \<Rightarrow> bool" where
  "enclosing_from depth [] = True"
| "enclosing_from depth (c # rest) =
     (let depth = (if c = CHR ''('' then depth + 1 else if c = CHR '')'' then depth - 1 else depth)
      in (depth > 0 \<or> rest = []) \<and> enclosing_from depth rest)"

text \<open>The loop that peels negations and enclosing parentheses, sixteen rounds at most.\<close>

fun peel :: "nat \<Rightarrow> string \<Rightarrow> bool \<Rightarrow> string \<times> bool" where
  "peel 0 text positive = (text, positive)"
| "peel (Suc n) text positive =
     (if text \<noteq> [] \<and> hd text = CHR ''!'' then peel n (str_trim (tl text)) (\<not> positive)
      else if text \<noteq> [] \<and> hd text = CHR ''('' \<and> last text = CHR '')'' \<and> enclosing_from 0 text
           then peel n (str_trim (butlast (tl text))) positive
      else (text, positive))"

definition strip_not :: "string \<Rightarrow> bool \<Rightarrow> string \<times> bool" where
  "strip_not atom positive =
     (if atom \<noteq> [] \<and> hd atom = CHR ''!'' then (str_trim (tl atom), \<not> positive) else (atom, positive))"

definition strip_parens :: "string \<Rightarrow> string" where
  "strip_parens inner =
     (if inner \<noteq> [] \<and> hd inner = CHR ''('' \<and> tl inner \<noteq> [] \<and> last inner = CHR '')''
      then butlast (tl inner) else inner)"

definition is_condition_atom :: "string \<Rightarrow> bool" where
  "is_condition_atom atom =
     (atom \<noteq> [] \<and> list_all is_word_byte atom \<and> \<not> is_ascii_digit (hd atom))"

definition strip_directive :: "string \<Rightarrow> bool \<Rightarrow> string \<times> bool \<times> bool" where
  "strip_directive text positive =
     (case strip_condition_keyword text ''#ifndef'' of
        Some atom \<Rightarrow> (atom, True, \<not> positive)
      | None \<Rightarrow>
     (case strip_condition_keyword text ''#ifdef'' of
        Some atom \<Rightarrow> (atom, True, positive)
      | None \<Rightarrow>
     (case strip_condition_keyword text ''#elif'' of
        Some atom \<Rightarrow> (atom, False, positive)
      | None \<Rightarrow>
     (case strip_condition_keyword text ''#if'' of
        Some atom \<Rightarrow> (atom, False, positive)
      | None \<Rightarrow> (text, False, positive)))))"

definition strip_defined :: "string \<Rightarrow> bool \<Rightarrow> string \<times> bool" where
  "strip_defined atom is_defined =
     (case strip_condition_keyword atom ''defined'' of
        Some inner \<Rightarrow> (str_trim (strip_parens inner), True)
      | None \<Rightarrow> (str_trim atom, is_defined))"

definition literal_name :: "bool \<Rightarrow> string \<Rightarrow> string" where
  "literal_name is_defined atom = (if is_defined then ''defined:'' else ''value:'') @ atom"

definition term_literal :: "string \<Rightarrow> (string \<times> bool) option" where
  "term_literal text =
     (let (text, positive) = peel 16 (str_trim text) True;
          (atom, is_defined, positive) = strip_directive text positive;
          (atom, positive) = strip_not atom positive;
          (atom, is_defined) = strip_defined atom is_defined
      in if is_condition_atom atom then Some (literal_name is_defined atom, positive) else None)"

definition condition_literals :: "string \<Rightarrow> (string \<times> bool) list" where
  "condition_literals guard =
     (if length guard > 4096 \<or> sublist ''||'' guard then []
      else
        (case scan_terms 0 [] [] guard of
           None \<Rightarrow> []
         | Some terms \<Rightarrow> List.map_filter term_literal (take 32 terms)))"

definition condition_relation :: "string option \<Rightarrow> string option \<Rightarrow> condition_verdict" where
  "condition_relation left right =
     (if left = right then Same
      else if (case left of None \<Rightarrow> True | Some s \<Rightarrow> s = []) \<or>
              (case right of None \<Rightarrow> True | Some s \<Rightarrow> s = []) then Unconditional
      else
        (let left_terms = condition_literals (case left of None \<Rightarrow> [] | Some s \<Rightarrow> s);
             right_terms = condition_literals (case right of None \<Rightarrow> [] | Some s \<Rightarrow> s)
         in if list_ex (\<lambda>(name, v). list_ex (\<lambda>(other, w). name = other \<and> v \<noteq> w) right_terms) left_terms
            then IncompatibleCondition
            else UnknownCondition))"

section \<open>Relation evidence\<close>

definition relation_evidence_of :: "bool \<Rightarrow> condition_verdict \<Rightarrow> bool \<Rightarrow> bool \<Rightarrow> bool \<Rightarrow> relation_evidence" where
  "relation_evidence_of same_identity condition reachable owner_proven complete =
     \<lparr> rv_strength =
         (if \<not> same_identity \<or> condition = IncompatibleCondition then IncompatibleRelation
          else if complete \<and> owner_proven \<and> reachable \<and> condition = Same then Proven
          else CompatibleCandidate),
       rv_condition = condition, rv_reachable = reachable, rv_owner_proven = owner_proven,
       rv_complete = complete \<rparr>"

definition declaration_relation :: "declaration_fact \<Rightarrow> declaration_fact \<Rightarrow> bool \<Rightarrow> relation_evidence" where
  "declaration_relation left right reachable =
     relation_evidence_of (from_declaration left = from_declaration right)
       (condition_relation (df_guard left) (df_guard right)) reachable
       (df_owner left = df_owner right)
       (di_fact_fidelity (df_identity left) = Authoritative \<and>
        di_fact_fidelity (df_identity right) = Authoritative)"

definition callable_relation :: "callable_anchor \<Rightarrow> callable_anchor \<Rightarrow> bool \<Rightarrow> relation_evidence" where
  "callable_relation left right reachable =
     (let same_identity =
            ca_kind left = Function \<and> ca_kind right = Function \<and>
            ca_qualified_name left = ca_qualified_name right \<and> ca_owner left = ca_owner right \<and>
            ca_canonical_signature left \<noteq> [] \<and>
            ca_canonical_signature left = ca_canonical_signature right \<and>
            ca_linkage left = ca_linkage right \<and> ca_linkage left = ExternalLinkage;
          owner_proven =
            list_all (\<lambda>a. ca_owner_kind a \<in> {None, Some NamespaceOwner}) [left, right];
          complete =
            list_all (\<lambda>a. ca_signature_fidelity a = AstExact \<and> \<not> ca_syntax_error_overlap a) [left, right]
      in relation_evidence_of same_identity (condition_relation (ca_guard left) (ca_guard right))
           reachable owner_proven complete)"

lemma digest_of_identity:
  "digest to_vec hash (from_declaration f) = digest_for_declaration to_vec hash f"
  by (simp add: digest_def digest_for_declaration_def from_declaration_def Let_def)

end
