(* ===== verification/Callables.thy ===== *)
theory Callables
  imports Entity_Relation Resolver
begin

text \<open>
  Request-time resolution of callable candidates, \<open>src/crates/fossilsense/src/query/callables\<close>:
  the arity policy (\<open>arity.rs\<close>), the pairing of source definitions with header declarations
  (\<open>counterpart.rs\<close>) and the orchestration of both over the recalled facts (\<open>mod.rs\<close>).
\<close>

section \<open>Vocabulary\<close>

datatype candidate_origin = BaseOrigin | OverlayOrigin

datatype candidate_incomplete_reason =
  ScanLimit | CandidateBudget | TimeBudget | CancelledQuery | FactsUnavailable | GenerationMismatch

record candidate_coverage =
  cc_scanned :: nat
  cc_truncated :: bool
  cc_scope_open :: bool
  cc_incomplete_reason :: "candidate_incomplete_reason option"

definition permits_uniqueness :: "candidate_coverage \<Rightarrow> bool" where
  "permits_uniqueness c =
     (\<not> cc_truncated c \<and> \<not> cc_scope_open c \<and> cc_incomplete_reason c = None)"

datatype argument_state = CompleteArguments | PartialArguments u32 u32 | UnknownArguments

datatype context_reliability = Reliable | SyntaxErrorContext | UnsupportedContext

definition is_reliable :: "context_reliability \<Rightarrow> bool" where
  "is_reliable r = (r = Reliable)"

record call_site_context =
  cx_callee_name :: string
  cx_qualified_name :: "string option"
  cx_form :: call_form
  cx_callee_range :: source_range
  cx_argument_count :: "u32 option"
  cx_argument_state :: argument_state
  cx_reliability :: context_reliability

definition from_complete_call :: "call_site_fact \<Rightarrow> source_position \<Rightarrow> call_site_context option" where
  "from_complete_call f position =
     (if \<not> position_in_range position (cf_callee_range f) then None
      else
        (case cf_callee_name f of
           None \<Rightarrow> None
         | Some callee_name \<Rightarrow>
             Some \<lparr> cx_callee_name = callee_name, cx_qualified_name = cf_qualified_name f,
                    cx_form = cf_form f, cx_callee_range = cf_callee_range f,
                    cx_argument_count = cf_argument_count f,
                    cx_argument_state =
                      (if cf_argument_count f \<noteq> None then CompleteArguments else UnknownArguments),
                    cx_reliability =
                      (if cf_syntax_error_overlap f then SyntaxErrorContext
                       else if \<not> named_form (cf_form f) then UnsupportedContext
                       else Reliable) \<rparr>))"

definition partial_context ::
  "string \<Rightarrow> call_form \<Rightarrow> source_range \<Rightarrow> u32 \<Rightarrow> u32 \<Rightarrow> context_reliability \<Rightarrow> call_site_context" where
  "partial_context callee_name form callee_range minimum_arity active_argument reliability =
     \<lparr> cx_callee_name = callee_name, cx_qualified_name = None, cx_form = form,
       cx_callee_range = callee_range, cx_argument_count = None,
       cx_argument_state = PartialArguments minimum_arity active_argument,
       cx_reliability = reliability \<rparr>"

datatype arity_compatibility = Compatible | UnknownArity | IncompatibleArity

fun arity_rank :: "arity_compatibility \<Rightarrow> nat" where
  "arity_rank Compatible = 2"
| "arity_rank UnknownArity = 1"
| "arity_rank IncompatibleArity = 0"

datatype arity_filter_outcome = NotApplied | Filtered | UnknownOnly | MismatchFallback

record resolved_callable_anchor =
  ra_anchor :: callable_anchor
  ra_candidate :: definition_candidate
  ra_arity_compatibility :: arity_compatibility
  ra_origin :: candidate_origin

definition resolved_anchor_new ::
  "callable_anchor \<Rightarrow> definition_candidate \<Rightarrow> candidate_origin \<Rightarrow> resolved_callable_anchor" where
  "resolved_anchor_new anchor candidate origin =
     \<lparr> ra_anchor = anchor, ra_candidate = candidate, ra_arity_compatibility = UnknownArity,
       ra_origin = origin \<rparr>"

datatype counterpart_evidence = Unpaired | IncompleteCoverage | AmbiguousPair nat | StrictOneToOne

record callable_variant_group =
  vg_header_declaration :: "resolved_callable_anchor option"
  vg_source_definition :: "resolved_callable_anchor option"
  vg_other_variants :: "resolved_callable_anchor list"
  vg_group_tier :: scope_tier
  vg_counterpart_evidence :: counterpart_evidence

fun option_list :: "'a option \<Rightarrow> 'a list" where
  "option_list None = []"
| "option_list (Some x) = [x]"

definition variants :: "callable_variant_group \<Rightarrow> resolved_callable_anchor list" where
  "variants g =
     option_list (vg_header_declaration g) @ option_list (vg_source_definition g) @ vg_other_variants g"

definition strongest_arity_compatibility :: "callable_variant_group \<Rightarrow> arity_compatibility" where
  "strongest_arity_compatibility g =
     (case max_by_key arity_rank (map ra_arity_compatibility (variants g)) of
        None \<Rightarrow> UnknownArity
      | Some a \<Rightarrow> a)"

section \<open>Arity policy\<close>

definition compatibility_for_signature ::
  "signature_shape \<Rightarrow> call_site_context option \<Rightarrow> arity_compatibility" where
  "compatibility_for_signature signature ctx =
     (case ctx of
        None \<Rightarrow> UnknownArity
      | Some ctx \<Rightarrow>
          if \<not> is_reliable (cx_reliability ctx) then UnknownArity
          else
            (case cx_argument_state ctx of
               CompleteArguments \<Rightarrow>
                 (case cx_argument_count ctx of
                    None \<Rightarrow> UnknownArity
                  | Some arity \<Rightarrow>
                      (case accepts_arity signature arity of
                         Some True \<Rightarrow> Compatible
                       | Some False \<Rightarrow> IncompatibleArity
                       | None \<Rightarrow> UnknownArity))
             | PartialArguments minimum_arity active_argument \<Rightarrow>
                 (case ss_max_arity signature of
                    Some max_arity \<Rightarrow>
                      if max_arity < minimum_arity then IncompatibleArity else Compatible
                  | None \<Rightarrow>
                      if ss_variadic signature \<and> ss_min_arity signature \<noteq> None then Compatible
                      else UnknownArity)
             | UnknownArguments \<Rightarrow> UnknownArity))"

definition anchor_cmp :: "resolved_callable_anchor \<Rightarrow> resolved_callable_anchor \<Rightarrow> ordering" where
  "anchor_cmp left right =
     then_with (then_with (then_with (then_with
       (cmp_of (tier_rank (dc_tier (ra_candidate right))) (tier_rank (dc_tier (ra_candidate left))))
       (cmp_of (arity_rank (ra_arity_compatibility right)) (arity_rank (ra_arity_compatibility left))))
       (cmp_of (dc_base_match (ra_candidate right)) (dc_base_match (ra_candidate left))))
       (cmp_of (ca_path (ra_anchor left)) (ca_path (ra_anchor right))))
       (cmp_of (sr_start_byte (ca_name_range (ra_anchor left)))
               (sr_start_byte (ca_name_range (ra_anchor right))))"

definition sort_anchors :: "resolved_callable_anchor list \<Rightarrow> resolved_callable_anchor list" where
  "sort_anchors anchors = sort_by anchor_cmp anchors"

definition apply_arity_policy ::
  "resolved_callable_anchor list \<Rightarrow> call_site_context option
   \<Rightarrow> arity_filter_outcome \<times> resolved_callable_anchor list" where
  "apply_arity_policy anchors ctx =
     (let anchors = map (\<lambda>a. a\<lparr> ra_arity_compatibility :=
            compatibility_for_signature (ca_signature (ra_anchor a)) ctx \<rparr>) anchors;
          can_apply = (case ctx of
             None \<Rightarrow> False
           | Some ctx \<Rightarrow> is_reliable (cx_reliability ctx) \<and> cx_argument_state ctx \<noteq> UnknownArguments)
      in if \<not> can_apply \<or> anchors = [] then (NotApplied, sort_anchors anchors)
         else if list_ex (\<lambda>a. ra_arity_compatibility a = Compatible) anchors then
           (Filtered, sort_anchors (filter (\<lambda>a. ra_arity_compatibility a \<noteq> IncompatibleArity) anchors))
         else if list_ex (\<lambda>a. ra_arity_compatibility a = UnknownArity) anchors then
           (UnknownOnly, sort_anchors (filter (\<lambda>a. ra_arity_compatibility a = UnknownArity) anchors))
         else
           (MismatchFallback,
            sort_anchors (map (\<lambda>a. a\<lparr> ra_candidate :=
              (ra_candidate a)\<lparr> dc_confidence := FallbackMatch \<rparr> \<rparr>) anchors)))"

section \<open>Counterparts\<close>

definition extension :: "string \<Rightarrow> string option" where
  "extension path = map_option snd (rsplit_once (CHR ''.'') path)"

definition is_header_path :: "string \<Rightarrow> bool" where
  "is_header_path path =
     (case extension path of
        None \<Rightarrow> False
      | Some e \<Rightarrow> list_ex (eq_ignore_ascii_case e) [''h'', ''hh'', ''hpp'', ''hxx'', ''inl''])"

definition is_source_path :: "string \<Rightarrow> bool" where
  "is_source_path path =
     (case extension path of
        None \<Rightarrow> False
      | Some e \<Rightarrow> list_ex (eq_ignore_ascii_case e) [''c'', ''cc'', ''cpp'', ''cxx''])"

definition is_source_definition :: "resolved_callable_anchor \<Rightarrow> bool" where
  "is_source_definition a =
     (ca_role (ra_anchor a) = Definition \<and> is_source_path (ca_path (ra_anchor a)))"

definition is_header_declaration :: "resolved_callable_anchor \<Rightarrow> bool" where
  "is_header_declaration a =
     (ca_role (ra_anchor a) = Declaration \<and> is_header_path (ca_path (ra_anchor a)))"

type_synonym source_reach = "(string, reach_scope) hmap"

definition strict_edge ::
  "resolved_callable_anchor \<Rightarrow> resolved_callable_anchor \<Rightarrow> source_reach \<Rightarrow> bool" where
  "strict_edge source header reach =
     (let reachable =
        (case map_of reach (ca_path (ra_anchor source)) of
           None \<Rightarrow> False
         | Some scope \<Rightarrow> ca_path (ra_anchor header) \<in> rs_files scope)
      in rv_strength (callable_relation (ra_anchor source) (ra_anchor header) reachable) = Proven)"

definition stronger_tier :: "scope_tier \<Rightarrow> scope_tier \<Rightarrow> scope_tier" where
  "stronger_tier left right = (if tier_rank left \<ge> tier_rank right then left else right)"

definition pair_group ::
  "resolved_callable_anchor \<Rightarrow> resolved_callable_anchor \<Rightarrow> callable_variant_group" where
  "pair_group source header =
     \<lparr> vg_header_declaration = Some header, vg_source_definition = Some source,
       vg_other_variants = [],
       vg_group_tier = stronger_tier (dc_tier (ra_candidate source)) (dc_tier (ra_candidate header)),
       vg_counterpart_evidence = StrictOneToOne \<rparr>"

definition singleton_group ::
  "resolved_callable_anchor \<Rightarrow> counterpart_evidence \<Rightarrow> callable_variant_group" where
  "singleton_group a evidence =
     (let tier = dc_tier (ra_candidate a)
      in if is_header_declaration a then
           \<lparr> vg_header_declaration = Some a, vg_source_definition = None, vg_other_variants = [],
             vg_group_tier = tier, vg_counterpart_evidence = evidence \<rparr>
         else if is_source_definition a then
           \<lparr> vg_header_declaration = None, vg_source_definition = Some a, vg_other_variants = [],
             vg_group_tier = tier, vg_counterpart_evidence = evidence \<rparr>
         else
           \<lparr> vg_header_declaration = None, vg_source_definition = None, vg_other_variants = [a],
             vg_group_tier = tier, vg_counterpart_evidence = evidence \<rparr>)"

definition group_stable_key :: "callable_variant_group \<Rightarrow> string \<times> u64" where
  "group_stable_key g =
     (case variants g of
        [] \<Rightarrow> ([], 0)
      | a # _ \<Rightarrow> (ca_path (ra_anchor a), sr_start_byte (ca_name_range (ra_anchor a))))"

definition group_cmp :: "callable_variant_group \<Rightarrow> callable_variant_group \<Rightarrow> ordering" where
  "group_cmp left right =
     then_with (cmp_of (tier_rank (vg_group_tier right)) (tier_rank (vg_group_tier left)))
       (cmp_of (group_stable_key left) (group_stable_key right))"

type_synonym edge_tables = "(nat, nat list) hmap \<times> (nat, nat list) hmap"

definition add_strict_edge ::
  "resolved_callable_anchor list \<Rightarrow> source_reach \<Rightarrow> nat \<Rightarrow> nat \<Rightarrow> edge_tables \<Rightarrow> edge_tables" where
  "add_strict_edge anchors reach source header tables =
     (if strict_edge (anchors ! source) (anchors ! header) reach then
        (entry_modify source [] (\<lambda>es. es @ [header]) (fst tables),
         entry_modify header [] (\<lambda>es. es @ [source]) (snd tables))
      else tables)"

definition edge_tables_of ::
  "resolved_callable_anchor list \<Rightarrow> source_reach \<Rightarrow> nat list \<Rightarrow> nat list \<Rightarrow> edge_tables" where
  "edge_tables_of anchors reach sources headers =
     fold (\<lambda>source. fold (add_strict_edge anchors reach source) headers) sources ([], [])"

definition unique_partner :: "(nat, nat list) hmap \<Rightarrow> (nat, nat list) hmap \<Rightarrow> nat \<Rightarrow> nat option" where
  "unique_partner edges back index =
     (case map_of edges index of
        Some [partner] \<Rightarrow>
          (case map_of back partner of
             Some es \<Rightarrow> if length es = 1 then Some partner else None
           | None \<Rightarrow> None)
      | _ \<Rightarrow> None)"

definition degree_evidence :: "edge_tables \<Rightarrow> nat \<Rightarrow> counterpart_evidence" where
  "degree_evidence tables index =
     (let degree =
        (case map_of (fst tables) index of
           Some es \<Rightarrow> length es
         | None \<Rightarrow> (case map_of (snd tables) index of Some es \<Rightarrow> length es | None \<Rightarrow> 0))
      in if degree = 0 then Unpaired else AmbiguousPair degree)"

definition pair_step ::
  "resolved_callable_anchor list \<Rightarrow> edge_tables \<Rightarrow> nat
   \<Rightarrow> nat list \<times> callable_variant_group list \<Rightarrow> nat list \<times> callable_variant_group list" where
  "pair_step anchors tables index st =
     (let (paired, groups) = st
      in if index \<in> set paired then st
         else
           (case unique_partner (fst tables) (snd tables) index of
              Some header \<Rightarrow>
                (header # index # paired, groups @ [pair_group (anchors ! index) (anchors ! header)])
            | None \<Rightarrow>
                (case unique_partner (snd tables) (fst tables) index of
                   Some source \<Rightarrow>
                     (source # index # paired,
                      groups @ [pair_group (anchors ! source) (anchors ! index)])
                 | None \<Rightarrow>
                     (paired,
                      groups @ [singleton_group (anchors ! index) (degree_evidence tables index)]))))"

definition resolve_counterparts ::
  "resolved_callable_anchor list \<Rightarrow> source_reach \<Rightarrow> candidate_coverage \<Rightarrow> callable_variant_group list" where
  "resolve_counterparts anchors reach coverage =
     (if cc_truncated coverage \<or> cc_incomplete_reason coverage \<noteq> None then
        map (\<lambda>a. singleton_group a IncompleteCoverage) anchors
      else
        (let indices = [0..<length anchors];
             sources = filter (\<lambda>i. is_source_definition (anchors ! i)) indices;
             headers = filter (\<lambda>i. is_header_declaration (anchors ! i)) indices;
             tables = edge_tables_of anchors reach sources headers
         in sort_by group_cmp (snd (fold (pair_step anchors tables) indices ([], [])))))"

section \<open>Callable candidates\<close>

record callable_candidate_set =
  cd_anchors :: "resolved_callable_anchor list"
  cd_groups :: "callable_variant_group list"
  cd_coverage :: candidate_coverage
  cd_arity_mismatch_fallback :: bool

record callable_candidate_metrics =
  cm_raw_candidates :: nat
  cm_filtered_candidates :: nat
  cm_grouped_candidates :: nat
  cm_arity_compatible :: nat
  cm_arity_unknown :: nat
  cm_arity_incompatible :: nat
  cm_counterpart_strict :: nat
  cm_counterpart_ambiguous :: nat

definition count_arity :: "resolved_callable_anchor \<Rightarrow> callable_candidate_metrics \<Rightarrow> callable_candidate_metrics" where
  "count_arity a m =
     (case ra_arity_compatibility a of
        Compatible \<Rightarrow> m\<lparr> cm_arity_compatible := cm_arity_compatible m + 1 \<rparr>
      | UnknownArity \<Rightarrow> m\<lparr> cm_arity_unknown := cm_arity_unknown m + 1 \<rparr>
      | IncompatibleArity \<Rightarrow> m\<lparr> cm_arity_incompatible := cm_arity_incompatible m + 1 \<rparr>)"

definition count_group :: "callable_variant_group \<Rightarrow> callable_candidate_metrics \<Rightarrow> callable_candidate_metrics" where
  "count_group g m =
     (case vg_counterpart_evidence g of
        StrictOneToOne \<Rightarrow> m\<lparr> cm_counterpart_strict := cm_counterpart_strict m + 1 \<rparr>
      | AmbiguousPair n \<Rightarrow> m\<lparr> cm_counterpart_ambiguous := cm_counterpart_ambiguous m + 1 \<rparr>
      | Unpaired \<Rightarrow> m
      | IncompleteCoverage \<Rightarrow> m)"

definition metrics :: "callable_candidate_set \<Rightarrow> callable_candidate_metrics" where
  "metrics s =
     fold count_group (cd_groups s)
       (fold count_arity (cd_anchors s)
         \<lparr> cm_raw_candidates = cc_scanned (cd_coverage s),
           cm_filtered_candidates = length (cd_anchors s),
           cm_grouped_candidates = length (cd_groups s),
           cm_arity_compatible = 0, cm_arity_unknown = 0, cm_arity_incompatible = 0,
           cm_counterpart_strict = 0, cm_counterpart_ambiguous = 0 \<rparr>)"

record callable_query_input =
  qi_base_anchors :: "resolved_callable_anchor list"
  qi_overlay_anchors :: "resolved_callable_anchor list"
  qi_shadowed_paths :: "string set"
  qi_call_context :: "call_site_context option"
  qi_source_reach :: source_reach
  qi_visible_internal_paths :: "string set"
  qi_coverage :: candidate_coverage

type_synonym anchor_identity = "string \<times> string \<times> u64 \<times> u64"

definition anchor_identity :: "resolved_callable_anchor \<Rightarrow> anchor_identity" where
  "anchor_identity a =
     (ca_path (ra_anchor a), ca_anchor_fingerprint (ra_anchor a),
      sr_start_byte (ca_name_range (ra_anchor a)), sr_end_byte (ca_name_range (ra_anchor a)))"

text \<open>\<open>retain\<close> with a set of the keys seen so far keeps the first element of each key.\<close>

fun retain_new :: "('a \<Rightarrow> 'k) \<Rightarrow> 'k set \<Rightarrow> 'a list \<Rightarrow> 'a list" where
  "retain_new key seen [] = []"
| "retain_new key seen (x # xs) =
     (if key x \<in> seen then retain_new key seen xs
      else x # retain_new key (insert (key x) seen) xs)"

definition linkage_visible :: "string set \<Rightarrow> resolved_callable_anchor \<Rightarrow> bool" where
  "linkage_visible visible a =
     (case ca_linkage (ra_anchor a) of
        InternalLinkageOf _ \<Rightarrow> ca_path (ra_anchor a) \<in> visible
      | _ \<Rightarrow> True)"

definition unsupported_context :: "call_site_context option \<Rightarrow> bool" where
  "unsupported_context ctx =
     (case ctx of
        None \<Rightarrow> False
      | Some c \<Rightarrow> cx_reliability c = UnsupportedContext \<or> \<not> named_form (cx_form c))"

definition required_qualifier :: "call_site_context option \<Rightarrow> string option" where
  "required_qualifier ctx =
     (case ctx of
        None \<Rightarrow> None
      | Some c \<Rightarrow> if is_reliable (cx_reliability c) then cx_qualified_name c else None)"

definition recalled_anchors :: "callable_query_input \<Rightarrow> resolved_callable_anchor list" where
  "recalled_anchors input =
     (let anchors =
            filter (\<lambda>a. ca_path (ra_anchor a) \<notin> qi_shadowed_paths input) (qi_base_anchors input) @
            qi_overlay_anchors input;
          anchors = filter (\<lambda>a. ca_owner_kind (ra_anchor a)
                       \<in> {None, Some NamespaceOwner, Some UnknownOwner}) anchors;
          anchors = filter (linkage_visible (qi_visible_internal_paths input)) anchors;
          anchors = (if unsupported_context (qi_call_context input) then [] else anchors);
          anchors = (case required_qualifier (qi_call_context input) of
             None \<Rightarrow> anchors
           | Some q \<Rightarrow> filter (\<lambda>a. ca_qualified_name (ra_anchor a) = q) anchors)
      in retain_new anchor_identity {} anchors)"

definition resolve_callable_input :: "callable_query_input \<Rightarrow> bool \<Rightarrow> callable_candidate_set" where
  "resolve_callable_input input with_counterparts =
     (let (outcome, anchors) = apply_arity_policy (recalled_anchors input) (qi_call_context input)
      in \<lparr> cd_anchors = anchors,
           cd_groups =
             (if with_counterparts
              then resolve_counterparts anchors (qi_source_reach input) (qi_coverage input) else []),
           cd_coverage = qi_coverage input,
           cd_arity_mismatch_fallback = (outcome = MismatchFallback) \<rparr>)"

definition resolve_callable_candidates :: "callable_query_input \<Rightarrow> callable_candidate_set" where
  "resolve_callable_candidates input = resolve_callable_input input True"

definition resolve_callable_subject_candidates :: "callable_query_input \<Rightarrow> callable_candidate_set" where
  "resolve_callable_subject_candidates input = resolve_callable_input input False"

end
