(* ===== verification/Call_Grouping.thy ===== *)
theory Call_Grouping
  imports Callables
begin

text \<open>
  From stored rows to callable groups: the row conversion of
  \<open>src/crates/fossilsense/src/call_catalog/rows.rs\<close> with the row types of
  \<open>store/views/call_facts.rs\<close>, and the conservative grouping of anchors by
  \<open>call_catalog/grouping.rs\<close>. The hash of a derived group key is an argument.
\<close>

section \<open>Rows\<close>

record callable_anchor_row =
  ar_id :: int
  ar_path :: string
  ar_semantic_family :: semantic_family
  ar_source :: string
  ar_directly_included :: bool
  ar_entity_key :: string
  ar_anchor_fingerprint :: string
  ar_name :: string
  ar_qualified_name :: string
  ar_owner :: "string option"
  ar_owner_kind :: "string option"
  ar_kind :: string
  ar_role :: string
  ar_linkage_kind :: string
  ar_linkage_file :: "string option"
  ar_signature :: string
  ar_canonical_signature :: string
  ar_presentation_signature :: string
  ar_signature_fidelity :: signature_fidelity
  ar_min_arity :: "u32 option"
  ar_max_arity :: "u32 option"
  ar_variadic :: bool
  ar_name_range :: source_range
  ar_declaration_range :: source_range
  ar_body_range :: "source_range option"
  ar_guard :: "string option"
  ar_provenance :: string
  ar_syntax_error_overlap :: bool

record call_site_row =
  cw_id :: int
  cw_path :: string
  cw_source :: string
  cw_caller_entity_key :: string
  cw_site_fingerprint :: string
  cw_expression_range :: source_range
  cw_callee_range :: source_range
  cw_callee_name :: "string option"
  cw_qualified_name :: "string option"
  cw_call_form :: string
  cw_argument_count :: "u32 option"
  cw_guard :: "string option"
  cw_provenance :: string
  cw_syntax_error_overlap :: bool

definition parse_callable_kind :: "string \<Rightarrow> callable_kind" where
  "parse_callable_kind v =
     (if v = ''synthetic_global_initializer'' then SyntheticGlobalInitializer
      else if v = ''synthetic_lambda'' then SyntheticLambda
      else if v = ''function_like_macro'' then FunctionLikeMacro
      else Function)"

definition parse_anchor_role :: "string \<Rightarrow> anchor_role" where
  "parse_anchor_role v =
     (if v = ''definition'' then Definition
      else if v = ''synthetic'' then SyntheticRole
      else Declaration)"

definition parse_owner_kind :: "string option \<Rightarrow> owner_kind_hint option" where
  "parse_owner_kind v = map_option (\<lambda>v.
     if v = ''namespace'' then NamespaceOwner
     else if v = ''record'' then RecordOwner
     else UnknownOwner) v"

definition parse_provenance :: "string \<Rightarrow> fact_provenance" where
  "parse_provenance v = (if v = ''synthetic'' then SyntheticFact else Ast)"

definition parse_call_form :: "string \<Rightarrow> call_form" where
  "parse_call_form v =
     (if v = ''direct_name'' then DirectName
      else if v = ''qualified_name'' then QualifiedName
      else if v = ''parenthesized_name'' then ParenthesizedName
      else if v = ''member_dot'' then MemberDot
      else if v = ''member_arrow'' then MemberArrow
      else if v = ''static_member'' then StaticMember
      else if v = ''function_pointer'' then FunctionPointer
      else if v = ''callable_object'' then CallableObject
      else if v = ''explicit_construction'' then ExplicitConstruction
      else Unsupported)"

definition anchor_from_row :: "callable_anchor_row \<Rightarrow> callable_anchor" where
  "anchor_from_row r =
     \<lparr> ca_path = ar_path r, ca_name = ar_name r, ca_qualified_name = ar_qualified_name r,
       ca_owner = ar_owner r, ca_owner_kind = parse_owner_kind (ar_owner_kind r),
       ca_kind = parse_callable_kind (ar_kind r), ca_role = parse_anchor_role (ar_role r),
       ca_linkage =
         (if ar_linkage_kind r = ''external'' then ExternalLinkage
          else if ar_linkage_kind r = ''internal'' then InternalLinkageOf (ar_path r)
          else if ar_linkage_kind r = ''package'' then
            PackageLinkage (case ar_linkage_file r of None \<Rightarrow> [] | Some f \<Rightarrow> f)
          else UnknownLinkage),
       ca_signature = \<lparr> ss_normalized = ar_signature r, ss_min_arity = ar_min_arity r,
                        ss_max_arity = ar_max_arity r, ss_variadic = ar_variadic r \<rparr>,
       ca_canonical_signature = ar_canonical_signature r,
       ca_presentation_signature = ar_presentation_signature r,
       ca_signature_fidelity = ar_signature_fidelity r, ca_name_range = ar_name_range r,
       ca_declaration_range = ar_declaration_range r, ca_body_range = ar_body_range r,
       ca_guard = ar_guard r, ca_provenance = parse_provenance (ar_provenance r),
       ca_syntax_error_overlap = ar_syntax_error_overlap r, ca_entity_key = ar_entity_key r,
       ca_anchor_fingerprint = ar_anchor_fingerprint r \<rparr>"

definition call_from_row :: "call_site_row \<Rightarrow> call_site_fact" where
  "call_from_row r =
     \<lparr> cf_path = cw_path r, cf_caller_entity_key = cw_caller_entity_key r,
       cf_expression_range = cw_expression_range r, cf_callee_range = cw_callee_range r,
       cf_callee_name = cw_callee_name r, cf_qualified_name = cw_qualified_name r,
       cf_form = parse_call_form (cw_call_form r), cf_argument_count = cw_argument_count r,
       cf_guard = cw_guard r, cf_provenance = parse_provenance (cw_provenance r),
       cf_syntax_error_overlap = cw_syntax_error_overlap r,
       cf_site_fingerprint = cw_site_fingerprint r \<rparr>"

section \<open>Grouping\<close>

definition GROUP_KEY_SEPARATOR :: string where "GROUP_KEY_SEPARATOR = ''::fossilsense-group::''"

definition STRICT_COUNTERPART_ANCHOR_BUDGET :: nat where "STRICT_COUNTERPART_ANCHOR_BUDGET = 1024"

definition STRICT_COUNTERPART_EDGE_BUDGET :: nat where "STRICT_COUNTERPART_EDGE_BUDGET = 16384"

record semantic_anchor_group =
  sg_variants :: "callable_anchor list"
  sg_candidate_limited :: bool

type_synonym anchor_key = "string \<times> u64 \<times> string"

definition anchor_key :: "callable_anchor \<Rightarrow> anchor_key" where
  "anchor_key a = (ca_path a, sr_start_byte (ca_name_range a), ca_anchor_fingerprint a)"

definition anchor_key_cmp :: "callable_anchor \<Rightarrow> callable_anchor \<Rightarrow> ordering" where
  "anchor_key_cmp left right =
     then_with (then_with (cmp_of (ca_path left) (ca_path right))
       (cmp_of (sr_start_byte (ca_name_range left)) (sr_start_byte (ca_name_range right))))
       (cmp_of (ca_anchor_fingerprint left) (ca_anchor_fingerprint right))"

definition same_anchor :: "callable_anchor \<Rightarrow> callable_anchor \<Rightarrow> bool" where
  "same_anchor left right =
     (ca_path left = ca_path right \<and> ca_anchor_fingerprint left = ca_anchor_fingerprint right \<and>
      ca_name_range left = ca_name_range right)"

text \<open>The iteration of a \<open>BTreeMap\<close> is in key order.\<close>

definition btree_values :: "('k::linorder, 'v) hmap \<Rightarrow> 'v list" where
  "btree_values m = map snd (sort_by (\<lambda>a b. cmp_of (fst a) (fst b)) m)"

definition name_buckets :: "callable_anchor list \<Rightarrow> callable_anchor list list" where
  "name_buckets anchors =
     btree_values (fold (\<lambda>a. entry_modify (ca_name a) [] (\<lambda>as. as @ [a])) anchors [])"

definition resolved_anchor_for_relation_grouping :: "callable_anchor \<Rightarrow> resolved_callable_anchor" where
  "resolved_anchor_for_relation_grouping a =
     (let tier = Global; (confidence, reason) = confidence_reason_for tier True None
      in resolved_anchor_new a
           \<lparr> dc_name = ca_name a, dc_kind = callable_kind_as_str (ca_kind a),
             dc_role = anchor_role_as_str (ca_role a), dc_path = ca_path a,
             dc_range = \<lparr> cr_start_line = sp_line (sr_start (ca_name_range a)),
                          cr_start_col = sp_character (sr_start (ca_name_range a)),
                          cr_end_line = sp_line (sr_end (ca_name_range a)),
                          cr_end_col = sp_character (sr_end (ca_name_range a)) \<rparr>,
             dc_source = (if is_absolute (ca_path a) then ''external'' else ''workspace''),
             dc_tier = tier, dc_base_match = (if ca_role a = Definition then 1000 else 900),
             dc_confidence = confidence, dc_reason = reason \<rparr>
           BaseOrigin)"

definition source_paths_of :: "resolved_callable_anchor list \<Rightarrow> string list" where
  "source_paths_of resolved =
     map (\<lambda>a. ca_path (ra_anchor a))
       (filter (\<lambda>a. ca_role (ra_anchor a) = Definition \<and> is_source_path (ca_path (ra_anchor a))) resolved)"

text \<open>The scopes of the source paths; a query of the graph fills its memo table.\<close>

fun collect_reach :: "string list \<Rightarrow> source_reach \<Rightarrow> reach_graph \<Rightarrow> source_reach \<times> reach_graph" where
  "collect_reach [] reach g = (reach, g)"
| "collect_reach (path # paths) reach g =
     (case map_of reach path of
        Some _ \<Rightarrow> collect_reach paths reach g
      | None \<Rightarrow>
          (let (scope, g) = reachable g path
           in collect_reach paths (AList.update path scope reach) g))"

record grouping_state =
  gs_remaining_anchor_budget :: nat
  gs_remaining_edge_budget :: nat
  gs_graph :: "reach_graph option"
  gs_grouped :: "semantic_anchor_group list"

text \<open>The cheap upper bound on the comparisons of a bucket.\<close>

definition edge_cost :: "resolved_callable_anchor list \<Rightarrow> nat" where
  "edge_cost resolved =
     length (source_paths_of resolved) *
     length (filter (\<lambda>a. ca_role (ra_anchor a) = Declaration) resolved)"

definition budget_limited :: "resolved_callable_anchor list \<Rightarrow> grouping_state \<Rightarrow> bool" where
  "budget_limited resolved st =
     (length resolved > gs_remaining_anchor_budget st \<or>
      edge_cost resolved > gs_remaining_edge_budget st)"

definition bucket_reach ::
  "bool \<Rightarrow> string list \<Rightarrow> reach_graph option \<Rightarrow> source_reach \<times> reach_graph option" where
  "bucket_reach usable source_paths graph =
     (if usable then
        (case graph of
           None \<Rightarrow> ([], None)
         | Some g \<Rightarrow> (let (reach, g) = collect_reach source_paths [] g in (reach, Some g)))
      else ([], graph))"

definition bucket_coverage ::
  "bool \<Rightarrow> bool \<Rightarrow> resolved_callable_anchor list \<Rightarrow> source_reach \<Rightarrow> candidate_coverage" where
  "bucket_coverage incomplete limited resolved reach =
     \<lparr> cc_scanned = length resolved, cc_truncated = limited,
       cc_scope_open = (\<not> incomplete \<and> \<not> limited \<and>
         list_ex (\<lambda>path. case map_of reach path of None \<Rightarrow> True | Some scope \<Rightarrow> rs_open scope)
           (source_paths_of resolved)),
       cc_incomplete_reason =
         (if limited then Some CandidateBudget else if incomplete then Some CancelledQuery else None) \<rparr>"

definition group_bucket :: "bool \<Rightarrow> callable_anchor list \<Rightarrow> grouping_state \<Rightarrow> grouping_state" where
  "group_bucket incomplete bucket st =
     (let resolved = map resolved_anchor_for_relation_grouping bucket;
          limited = budget_limited resolved st;
          usable = (\<not> incomplete \<and> \<not> limited);
          (reach, graph) = bucket_reach usable (source_paths_of resolved) (gs_graph st)
      in \<lparr> gs_remaining_anchor_budget =
             (if usable then gs_remaining_anchor_budget st - length resolved
              else gs_remaining_anchor_budget st),
           gs_remaining_edge_budget =
             (if usable then gs_remaining_edge_budget st - edge_cost resolved
              else gs_remaining_edge_budget st),
           gs_graph = graph,
           gs_grouped = gs_grouped st @
             map (\<lambda>g. \<lparr> sg_variants = map ra_anchor (variants g), sg_candidate_limited = limited \<rparr>)
               (resolve_counterparts resolved reach (bucket_coverage incomplete limited resolved reach)) \<rparr>)"

definition anchors_stable_key :: "callable_anchor list \<Rightarrow> anchor_key" where
  "anchors_stable_key anchors = (case anchors of [] \<Rightarrow> ([], 0, []) | a # _ \<Rightarrow> anchor_key a)"

definition semantic_anchor_groups ::
  "callable_anchor list \<Rightarrow> reach_graph option \<Rightarrow> bool \<Rightarrow> semantic_anchor_group list" where
  "semantic_anchor_groups anchors graph incomplete =
     (let anchors = dedup_by same_anchor (sort_by anchor_key_cmp anchors);
          st = fold (group_bucket incomplete) (name_buckets anchors)
                 \<lparr> gs_remaining_anchor_budget = STRICT_COUNTERPART_ANCHOR_BUDGET,
                   gs_remaining_edge_budget = STRICT_COUNTERPART_EDGE_BUDGET,
                   gs_graph = graph, gs_grouped = [] \<rparr>
      in sort_by (\<lambda>left right. cmp_of (anchors_stable_key (sg_variants left))
                                      (anchors_stable_key (sg_variants right))) (gs_grouped st))"

section \<open>Group keys\<close>

definition to_le_bytes :: "u64 \<Rightarrow> string" where
  "to_le_bytes n = map (\<lambda>i. char_of (unat n div 256 ^ i mod 256)) [0..<8]"

definition identity_bytes :: "anchor_key \<Rightarrow> string" where
  "identity_bytes k =
     (case k of (path, start_byte, fingerprint) \<Rightarrow>
        path @ [CHR 0x00] @ to_le_bytes start_byte @ [CHR 0x00] @ fingerprint @ [CHR 0xFF])"

definition derived_group_key :: "(string \<Rightarrow> string) \<Rightarrow> string \<Rightarrow> callable_anchor list \<Rightarrow> string" where
  "derived_group_key hash_hex raw_key vs =
     (let identities = sort_by cmp_of (map anchor_key vs)
      in raw_key @ GROUP_KEY_SEPARATOR @ take 24 (hash_hex (concat (map identity_bytes identities))))"

text \<open>\<open>str::split_once\<close> at the first occurrence of a separator.\<close>

fun split_once_at :: "string \<Rightarrow> string \<Rightarrow> (string \<times> string) option" where
  "split_once_at sep [] = (if sep = [] then Some ([], []) else None)"
| "split_once_at sep (c # cs) =
     (if prefix sep (c # cs) then Some ([], drop (length sep) (c # cs))
      else map_option (\<lambda>(a, b). (c # a, b)) (split_once_at sep cs))"

definition raw_entity_key :: "string \<Rightarrow> string" where
  "raw_entity_key logical_key =
     (case split_once_at GROUP_KEY_SEPARATOR logical_key of
        None \<Rightarrow> logical_key
      | Some (raw, _) \<Rightarrow> raw)"

section \<open>Facts\<close>

lemma parse_as_str:
  "parse_callable_kind (callable_kind_as_str kind) = kind"
  "parse_anchor_role (anchor_role_as_str role) = role"
  "parse_owner_kind (map_option owner_kind_as_str owner) = owner"
  "parse_provenance (provenance_as_str provenance) = provenance"
  "parse_call_form (call_form_as_str form) = form"
      apply (cases kind; simp add: parse_callable_kind_def)
     apply (cases role; simp add: parse_anchor_role_def)
    apply (rule option.exhaust [of owner]; simp add: parse_owner_kind_def)
    subgoal for hint by (cases hint) simp_all
   apply (cases provenance; simp add: parse_provenance_def)
  apply (cases form; simp add: parse_call_form_def)
  done

lemma split_once_at_no_colon:
  "CHR '':'' \<notin> set raw \<Longrightarrow> sep \<noteq> [] \<Longrightarrow> hd sep = CHR '':'' \<Longrightarrow>
     split_once_at sep (raw @ sep @ rest) = Some (raw, rest)"
proof (induction raw)
  case Nil
  then show ?case by (cases sep) auto
next
  case (Cons c raw)
  then have "\<not> prefix sep (c # raw @ sep @ rest)" by (cases sep) auto
  with Cons show ?case by simp
qed

lemma split_once_at_no_colon_None:
  "CHR '':'' \<notin> set raw \<Longrightarrow> sep \<noteq> [] \<Longrightarrow> hd sep = CHR '':'' \<Longrightarrow> split_once_at sep raw = None"
proof (induction raw)
  case (Cons c raw)
  then have "\<not> prefix sep (c # raw)" by (cases sep) auto
  with Cons show ?case by simp
qed simp

text \<open>A group key names its parser key. For a parser key without a colon, as the hexadecimal
  digests of the parser are, \<open>raw_entity_key\<close> recovers it from every key derived from it and
  leaves it alone when it was not derived.\<close>

theorem raw_key_round_trip:
  assumes "CHR '':'' \<notin> set raw"
  shows "raw_entity_key (derived_group_key hash_hex raw vs) = raw \<and> raw_entity_key raw = raw"
  using split_once_at_no_colon [OF assms, of GROUP_KEY_SEPARATOR]
    split_once_at_no_colon_None [OF assms, of GROUP_KEY_SEPARATOR]
  by (simp add: raw_entity_key_def derived_group_key_def GROUP_KEY_SEPARATOR_def Let_def)

theorem raw_key_round_trip_witness:
  "CHR '':'' \<notin> set ''3fa9'' \<and>
   raw_entity_key (derived_group_key (\<lambda>bytes. ''00ff'' @ bytes) ''3fa9'' []) = ''3fa9''"
  using raw_key_round_trip [of "''3fa9''"] by simp

text \<open>Stored rows keep the vocabulary: reading back the text that a kind, role, owner hint, provenance
  or call form is stored as gives that value, and an anchor row's internal linkage is the row's own
  file.\<close>

theorem row_vocabulary_round_trip:
  "parse_callable_kind (callable_kind_as_str kind) = kind \<and>
   parse_anchor_role (anchor_role_as_str role) = role \<and>
   parse_owner_kind (map_option owner_kind_as_str owner) = owner \<and>
   parse_provenance (provenance_as_str provenance) = provenance \<and>
   parse_call_form (call_form_as_str form) = form \<and>
   ca_linkage (anchor_from_row (row\<lparr> ar_linkage_kind := ''internal'' \<rparr>)) = InternalLinkageOf (ar_path row)"
  by (simp add: parse_as_str anchor_from_row_def)

end
