(* ===== verification/Call_Compact.thy ===== *)
theory Call_Compact
  imports Call_Model
begin

text \<open>
  The compact storage of the relation catalog, \<open>src/crates/fossilsense/src/call_catalog/compact.rs\<close>:
  evidence as three 16-bit masks, the interning string pool, and call sites stored through it.
  An id that does not fit 32 bits makes the code panic; the model returns \<open>None\<close> there.

  The evidence masks are shown to be sets of codes, and the pool and the stored call sites to
  give back what was stored, whatever is interned later.
\<close>

unbundle bit_operations_syntax

section \<open>Evidence masks\<close>

record evidence_bits =
  eb_supports :: u16
  eb_contradictions :: u16
  eb_unknowns :: u16

definition default_bits :: evidence_bits where
  "default_bits = \<lparr> eb_supports = 0, eb_contradictions = 0, eb_unknowns = 0 \<rparr>"

fun evidence_index :: "evidence_code \<Rightarrow> nat" where
  "evidence_index SameFile = 0"
| "evidence_index InternalLinkage = 1"
| "evidence_index ExplicitQualifier = 2"
| "evidence_index ReachableDeclaration = 3"
| "evidence_index CompatibleArity = 4"
| "evidence_index CompatibleSignature = 5"
| "evidence_index NameOnly = 6"
| "evidence_index OpenIncludeScope = 7"
| "evidence_index MacroExpansionUnknown = 8"
| "evidence_index PreprocessorBranchUnknown = 9"
| "evidence_index SyntaxErrorOverlap = 10"
| "evidence_index UnsupportedCallForm = 11"
| "evidence_index ExternalBodyUnavailable = 12"

definition evidence_bit :: "evidence_code \<Rightarrow> u16" where
  "evidence_bit code = push_bit (evidence_index code) 1"

definition EVIDENCE_CODES :: "evidence_code list" where
  "EVIDENCE_CODES =
     [SameFile, InternalLinkage, ExplicitQualifier, ReachableDeclaration, CompatibleArity,
      CompatibleSignature, NameOnly, OpenIncludeScope, MacroExpansionUnknown,
      PreprocessorBranchUnknown, SyntaxErrorOverlap, UnsupportedCallForm, ExternalBodyUnavailable]"

definition support :: "evidence_code \<Rightarrow> evidence_bits \<Rightarrow> evidence_bits" where
  "support code b = b\<lparr> eb_supports := eb_supports b OR evidence_bit code \<rparr>"

definition unknown :: "evidence_code \<Rightarrow> evidence_bits \<Rightarrow> evidence_bits" where
  "unknown code b = b\<lparr> eb_unknowns := eb_unknowns b OR evidence_bit code \<rparr>"

definition merge :: "evidence_bits \<Rightarrow> evidence_bits \<Rightarrow> evidence_bits" where
  "merge b other =
     \<lparr> eb_supports = eb_supports b OR eb_supports other,
       eb_contradictions = eb_contradictions b OR eb_contradictions other,
       eb_unknowns = eb_unknowns b OR eb_unknowns other \<rparr>"

definition contains_support :: "evidence_bits \<Rightarrow> evidence_code \<Rightarrow> bool" where
  "contains_support b code = (eb_supports b AND evidence_bit code \<noteq> 0)"

definition collect :: "u16 \<Rightarrow> evidence_code list" where
  "collect bits = filter (\<lambda>code. bits AND evidence_bit code \<noteq> 0) EVIDENCE_CODES"

definition into_ledger :: "evidence_bits \<Rightarrow> evidence_ledger" where
  "into_ledger b =
     \<lparr> el_supports = collect (eb_supports b), el_contradictions = collect (eb_contradictions b),
       el_unknowns = collect (eb_unknowns b) \<rparr>"

section \<open>Relations\<close>

record compact_relation_key =
  rk_caller :: nat
  rk_callee :: "nat option"
  rk_confidence :: relation_confidence
  rk_ambiguity_site :: "nat option"

record relation_builder =
  rb_key :: compact_relation_key
  rb_first_call_site :: nat
  rb_additional_call_sites :: "nat list"
  rb_evidence :: evidence_bits

record compact_relation =
  cr_key :: compact_relation_key
  cr_call_site_start :: nat
  cr_call_site_len :: nat
  cr_evidence :: evidence_bits

section \<open>String pool\<close>

record string_pool =
  po_values :: "string list"
  po_ids :: "(string, nat) hmap"

definition empty_pool :: string_pool where
  "empty_pool = \<lparr> po_values = [], po_ids = [] \<rparr>"

definition intern :: "string \<Rightarrow> string_pool \<Rightarrow> (nat \<times> string_pool) option" where
  "intern v p =
     (case map_of (po_ids p) v of
        Some i \<Rightarrow> Some (i, p)
      | None \<Rightarrow>
          (case fits_u32 (length (po_values p)) of
             None \<Rightarrow> None
           | Some i \<Rightarrow>
               Some (i, \<lparr> po_values = po_values p @ [v], po_ids = AList.update v i (po_ids p) \<rparr>)))"

definition intern_optional ::
  "string option \<Rightarrow> string_pool \<Rightarrow> (nat option \<times> string_pool) option" where
  "intern_optional v p =
     (case v of
        None \<Rightarrow> Some (None, p)
      | Some v \<Rightarrow> map_option (\<lambda>(i, p). (Some i, p)) (intern v p))"

text \<open>Indexing outside the pool panics.\<close>

definition pool_get :: "string_pool \<Rightarrow> nat \<Rightarrow> string option" where
  "pool_get p i = (if i < length (po_values p) then Some (po_values p ! i) else None)"

definition pool_id :: "string_pool \<Rightarrow> string \<Rightarrow> nat option" where
  "pool_id p v = map_of (po_ids p) v"

section \<open>Stored call sites\<close>

record stored_call_site =
  st_path :: nat
  st_caller_entity_key :: nat
  st_expression_range :: source_range
  st_callee_range :: source_range
  st_callee_name :: "nat option"
  st_qualified_name :: "nat option"
  st_form :: call_form
  st_argument_count :: "u32 option"
  st_guard :: "nat option"
  st_provenance :: fact_provenance
  st_syntax_error_overlap :: bool
  st_site_fingerprint :: string

definition from_fact :: "call_site_fact \<Rightarrow> string_pool \<Rightarrow> (stored_call_site \<times> string_pool) option" where
  "from_fact f p =
     Option.bind (intern (cf_path f) p) (\<lambda>(path, p).
     Option.bind (intern (cf_caller_entity_key f) p) (\<lambda>(caller, p).
     Option.bind (intern_optional (cf_callee_name f) p) (\<lambda>(callee, p).
     Option.bind (intern_optional (cf_qualified_name f) p) (\<lambda>(qualified, p).
     Option.bind (intern_optional (cf_guard f) p) (\<lambda>(guard, p).
       Some (\<lparr> st_path = path, st_caller_entity_key = caller,
               st_expression_range = cf_expression_range f, st_callee_range = cf_callee_range f,
               st_callee_name = callee, st_qualified_name = qualified, st_form = cf_form f,
               st_argument_count = cf_argument_count f, st_guard = guard,
               st_provenance = cf_provenance f,
               st_syntax_error_overlap = cf_syntax_error_overlap f,
               st_site_fingerprint = cf_site_fingerprint f \<rparr>, p))))))"

definition get_optional :: "string_pool \<Rightarrow> nat option \<Rightarrow> string option option" where
  "get_optional p i = (case i of None \<Rightarrow> Some None | Some i \<Rightarrow> map_option Some (pool_get p i))"

definition materialize :: "string_pool \<Rightarrow> stored_call_site \<Rightarrow> call_site_fact option" where
  "materialize p s =
     Option.bind (pool_get p (st_path s)) (\<lambda>path.
     Option.bind (pool_get p (st_caller_entity_key s)) (\<lambda>caller.
     Option.bind (get_optional p (st_callee_name s)) (\<lambda>callee.
     Option.bind (get_optional p (st_qualified_name s)) (\<lambda>qualified.
     Option.bind (get_optional p (st_guard s)) (\<lambda>guard.
       Some \<lparr> cf_path = path, cf_caller_entity_key = caller,
              cf_expression_range = st_expression_range s, cf_callee_range = st_callee_range s,
              cf_callee_name = callee, cf_qualified_name = qualified, cf_form = st_form s,
              cf_argument_count = st_argument_count s, cf_guard = guard,
              cf_provenance = st_provenance s,
              cf_syntax_error_overlap = st_syntax_error_overlap s,
              cf_site_fingerprint = st_site_fingerprint s \<rparr>)))))"

text \<open>Storing all call sites of a request, as the constructors of the catalog do.\<close>

fun store_all :: "call_site_fact list \<Rightarrow> string_pool \<Rightarrow> (stored_call_site list \<times> string_pool) option" where
  "store_all [] p = Some ([], p)"
| "store_all (f # fs) p =
     Option.bind (from_fact f p) (\<lambda>(s, p).
     Option.bind (store_all fs p) (\<lambda>(ss, p). Some (s # ss, p)))"

section \<open>Evidence masks are sets of codes\<close>

lemma evidence_index_less: "evidence_index code < 13"
  by (cases code) simp_all

lemma evidence_index_inj [simp]: "evidence_index a = evidence_index b \<longleftrightarrow> a = b"
  by (cases a; cases b) simp_all

lemma set_EVIDENCE_CODES: "code \<in> set EVIDENCE_CODES"
  by (cases code) (simp_all add: EVIDENCE_CODES_def)

definition codes_of :: "u16 \<Rightarrow> evidence_code set" where
  "codes_of bits = {code. bit bits (evidence_index code)}"

lemma bit_evidence_bit: "bit (evidence_bit a) (evidence_index b) \<longleftrightarrow> a = b"
  using evidence_index_less [of b]
  by (auto simp: evidence_bit_def bit_exp_iff)

lemma and_evidence_bit: "bits AND evidence_bit code \<noteq> 0 \<longleftrightarrow> code \<in> codes_of bits"
proof -
  have "bits AND evidence_bit code = of_bool (bit bits (evidence_index code)) * evidence_bit code"
    by (rule bit_eqI) (auto simp: evidence_bit_def bit_and_iff bit_exp_iff)
  moreover have "evidence_bit code \<noteq> 0"
    using bit_evidence_bit [of code code] by auto
  ultimately show ?thesis by (simp add: codes_of_def)
qed

lemma codes_of_simps [simp]:
  "codes_of 0 = {}"
  "codes_of (a OR b) = codes_of a \<union> codes_of b"
  "codes_of (evidence_bit code) = {code}"
  by (auto simp: codes_of_def bit_or_iff bit_evidence_bit)

lemma set_collect [simp]: "set (collect bits) = codes_of bits"
  by (auto simp: collect_def and_evidence_bit set_EVIDENCE_CODES)

lemma distinct_collect: "distinct (collect bits)"
proof -
  have "distinct EVIDENCE_CODES" by (simp add: EVIDENCE_CODES_def)
  then show ?thesis by (simp add: collect_def)
qed

lemma contains_support_iff: "contains_support b code \<longleftrightarrow> code \<in> codes_of (eb_supports b)"
  by (simp add: contains_support_def and_evidence_bit)

section \<open>The pool gives back what was interned\<close>

definition pool_ok :: "string_pool \<Rightarrow> bool" where
  "pool_ok p \<longleftrightarrow>
     (\<forall>v i. map_of (po_ids p) v = Some i \<longleftrightarrow> i < length (po_values p) \<and> po_values p ! i = v)"

text \<open>A later pool still holds every string at its id.\<close>

definition extends :: "string_pool \<Rightarrow> string_pool \<Rightarrow> bool" where
  "extends p q \<longleftrightarrow> (\<forall>i v. pool_get p i = Some v \<longrightarrow> pool_get q i = Some v)"

lemma extends_refl [simp]: "extends p p"
  by (simp add: extends_def)

lemma extends_trans: "extends p q \<Longrightarrow> extends q r \<Longrightarrow> extends p r"
  by (simp add: extends_def)

lemma extends_get: "extends p q \<Longrightarrow> pool_get p i = Some v \<Longrightarrow> pool_get q i = Some v"
  by (simp add: extends_def)

lemma empty_pool_ok [simp]: "pool_ok empty_pool"
  by (simp add: pool_ok_def empty_pool_def)

lemma pool_id_get: "pool_ok p \<Longrightarrow> pool_id p v = Some i \<longleftrightarrow> pool_get p i = Some v"
  by (auto simp: pool_ok_def pool_id_def pool_get_def)

lemma intern_correct:
  assumes "intern v p = Some (i, q)" "pool_ok p"
  shows "pool_ok q" "extends p q" "pool_get q i = Some v" "i < 2 ^ 32 \<or> i < length (po_values p)"
proof -
  have "pool_ok q \<and> extends p q \<and> pool_get q i = Some v \<and> (i < 2 ^ 32 \<or> i < length (po_values p))"
  proof (cases "map_of (po_ids p) v")
    case (Some j)
    with assms show ?thesis by (auto simp: intern_def pool_ok_def pool_get_def)
  next
    case None
    with assms have q: "q = \<lparr> po_values = po_values p @ [v], po_ids = AList.update v i (po_ids p) \<rparr>"
      and i: "i = length (po_values p)" "i < 2 ^ 32"
      by (auto simp: intern_def fits_u32_def split: if_splits)
    from None assms(2) have "v \<notin> set (po_values p)"
      by (metis in_set_conv_nth not_Some_eq pool_ok_def)
    with assms(2) q i have "pool_ok q"
      by (auto simp: pool_ok_def nth_append less_Suc_eq)
    with q i show ?thesis by (auto simp: extends_def pool_get_def nth_append)
  qed
  then show "pool_ok q" "extends p q" "pool_get q i = Some v" "i < 2 ^ 32 \<or> i < length (po_values p)"
    by blast+
qed

lemma intern_optional_correct:
  assumes "intern_optional v p = Some (i, q)" "pool_ok p"
  shows "pool_ok q" "extends p q" "\<And>r. extends q r \<Longrightarrow> get_optional r i = Some v"
  using assms
  by (auto simp: intern_optional_def get_optional_def split: option.splits
      dest: intern_correct intro: extends_get)

lemma from_fact_correct:
  assumes "from_fact f p = Some (s, q)" "pool_ok p"
  shows "pool_ok q" "extends p q" "\<And>r. extends q r \<Longrightarrow> materialize r s = Some f"
proof -
  from assms(1) obtain i1 p1 i2 p2 i3 p3 i4 p4 i5 where
    1: "intern (cf_path f) p = Some (i1, p1)" and
    2: "intern (cf_caller_entity_key f) p1 = Some (i2, p2)" and
    3: "intern_optional (cf_callee_name f) p2 = Some (i3, p3)" and
    4: "intern_optional (cf_qualified_name f) p3 = Some (i4, p4)" and
    5: "intern_optional (cf_guard f) p4 = Some (i5, q)" and
    s: "s = \<lparr> st_path = i1, st_caller_entity_key = i2,
               st_expression_range = cf_expression_range f, st_callee_range = cf_callee_range f,
               st_callee_name = i3, st_qualified_name = i4, st_form = cf_form f,
               st_argument_count = cf_argument_count f, st_guard = i5,
               st_provenance = cf_provenance f,
               st_syntax_error_overlap = cf_syntax_error_overlap f,
               st_site_fingerprint = cf_site_fingerprint f \<rparr>"
    by (auto simp: from_fact_def bind_eq_Some_conv)
  note ok1 = intern_correct [OF 1 assms(2)]
  note ok2 = intern_correct [OF 2 ok1(1)]
  note ok3 = intern_optional_correct [OF 3 ok2(1)]
  note ok4 = intern_optional_correct [OF 4 ok3(1)]
  note ok5 = intern_optional_correct [OF 5 ok4(1)]
  have e: "extends p1 q" "extends p2 q" "extends p3 q" "extends p4 q"
    using ok2(2) ok3(2) ok4(2) ok5(2) extends_trans by blast+
  show "pool_ok q" by (rule ok5(1))
  show "extends p q" using ok1(2) e(1) by (rule extends_trans)
  show "materialize r s = Some f" if r: "extends q r" for r
    using extends_get [OF r extends_get [OF e(1) ok1(3)]] extends_get [OF r extends_get [OF e(2) ok2(3)]]
      ok3(3) [OF extends_trans [OF e(3) r]] ok4(3) [OF extends_trans [OF e(4) r]] ok5(3) [OF r]
    by (simp add: materialize_def s)
qed

lemma store_all_correct:
  "store_all fs p = Some (ss, q) \<Longrightarrow> pool_ok p \<Longrightarrow>
     pool_ok q \<and> extends p q \<and> (\<forall>r. extends q r \<longrightarrow> map (materialize r) ss = map Some fs)"
proof (induction fs arbitrary: p ss)
  case (Cons f fs)
  from Cons.prems(1) obtain s p1 ss1 where
    1: "from_fact f p = Some (s, p1)" "store_all fs p1 = Some (ss1, q)" and ss: "ss = s # ss1"
    by (auto simp: bind_eq_Some_conv)
  note c = from_fact_correct [OF 1(1) Cons.prems(2)]
  from Cons.IH [OF 1(2) c(1)] c ss show ?case
    by (auto intro: extends_trans)
qed simp

lemma intern_size:
  "length (po_values p) < 2 ^ 32 \<Longrightarrow>
     \<exists>i q. intern v p = Some (i, q) \<and> length (po_values q) \<le> Suc (length (po_values p))"
  by (auto simp: intern_def fits_u32_def split: option.split)

lemma intern_optional_size:
  "length (po_values p) < 2 ^ 32 \<Longrightarrow>
     \<exists>i q. intern_optional v p = Some (i, q) \<and> length (po_values q) \<le> Suc (length (po_values p))"
  using intern_size [of p] by (fastforce simp: intern_optional_def split: option.split)

lemma from_fact_size:
  assumes "length (po_values p) + 5 \<le> 2 ^ 32"
  shows "\<exists>s q. from_fact f p = Some (s, q) \<and> length (po_values q) \<le> length (po_values p) + 5"
proof -
  obtain i1 p1 where 1: "intern (cf_path f) p = Some (i1, p1)" "length (po_values p1) \<le> length (po_values p) + 1"
    using intern_size [of p "cf_path f"] assms by auto
  obtain i2 p2 where 2: "intern (cf_caller_entity_key f) p1 = Some (i2, p2)"
    "length (po_values p2) \<le> length (po_values p) + 2"
    using intern_size [of p1 "cf_caller_entity_key f"] 1 assms by auto
  obtain i3 p3 where 3: "intern_optional (cf_callee_name f) p2 = Some (i3, p3)"
    "length (po_values p3) \<le> length (po_values p) + 3"
    using intern_optional_size [of p2 "cf_callee_name f"] 2 assms by auto
  obtain i4 p4 where 4: "intern_optional (cf_qualified_name f) p3 = Some (i4, p4)"
    "length (po_values p4) \<le> length (po_values p) + 4"
    using intern_optional_size [of p3 "cf_qualified_name f"] 3 assms by auto
  obtain i5 p5 where 5: "intern_optional (cf_guard f) p4 = Some (i5, p5)"
    "length (po_values p5) \<le> length (po_values p) + 5"
    using intern_optional_size [of p4 "cf_guard f"] 4 assms by auto
  show ?thesis by (simp add: from_fact_def 1(1) 2(1) 3(1) 4(1) 5(1)) (use 5(2) in simp)
qed

lemma store_all_total:
  "length (po_values p) + 5 * length fs \<le> 2 ^ 32 \<Longrightarrow> store_all fs p \<noteq> None"
proof (induction fs arbitrary: p)
  case (Cons f fs)
  then obtain s q where "from_fact f p = Some (s, q)" "length (po_values q) \<le> length (po_values p) + 5"
    using from_fact_size [of p f] by auto
  with Cons.IH [of q] Cons.prems show ?case by (auto simp: bind_eq_None_conv)
qed simp

text \<open>C24. The compact store of call sites loses nothing. Storing the call sites of a request through a fresh
  pool panics only when the request has more strings than 32-bit ids; otherwise materialising the
  stored sites from the final pool, or from any pool that extends it, gives back the facts in
  order, and the pool's two directions are inverse to each other.\<close>

theorem stored_calls_round_trip:
  "(5 * length fs \<le> 2 ^ 32 \<longrightarrow> store_all fs empty_pool \<noteq> None) \<and>
   (\<forall>ss q. store_all fs empty_pool = Some (ss, q) \<longrightarrow>
      (\<forall>r. extends q r \<longrightarrow> map (materialize r) ss = map Some fs) \<and>
      (\<forall>v i. pool_id q v = Some i \<longleftrightarrow> pool_get q i = Some v))"
  using store_all_total [of empty_pool fs] store_all_correct [of fs empty_pool] pool_id_get
  by (auto simp: empty_pool_def [THEN arg_cong [of _ _ po_values]])

definition sample_call :: call_site_fact where
  "sample_call = \<lparr> cf_path = ''a.c'', cf_caller_entity_key = ''k'', cf_expression_range = zero_range,
     cf_callee_range = zero_range, cf_callee_name = Some ''f'', cf_qualified_name = None,
     cf_form = DirectName, cf_argument_count = Some 1, cf_guard = None, cf_provenance = Ast,
     cf_syntax_error_overlap = False, cf_site_fingerprint = ''s'' \<rparr>"

theorem stored_calls_round_trip_witness:
  "\<exists>ss q. store_all [sample_call, sample_call] empty_pool = Some (ss, q) \<and>
     map (materialize q) ss = [Some sample_call, Some sample_call]"
  using stored_calls_round_trip [of "[sample_call, sample_call]"] by auto

text \<open>The evidence masks implement sets of codes. Recording a code adds exactly that code, merging two
  relations' evidence is the union in each of the three classes, a lookup is membership, and the
  ledger lists exactly the recorded codes, each once.\<close>

theorem evidence_masks_are_sets:
  "codes_of (eb_supports (support code b)) = insert code (codes_of (eb_supports b)) \<and>
   codes_of (eb_unknowns (unknown code b)) = insert code (codes_of (eb_unknowns b)) \<and>
   codes_of (eb_supports (merge b b')) = codes_of (eb_supports b) \<union> codes_of (eb_supports b') \<and>
   codes_of (eb_contradictions (merge b b')) =
     codes_of (eb_contradictions b) \<union> codes_of (eb_contradictions b') \<and>
   codes_of (eb_unknowns (merge b b')) = codes_of (eb_unknowns b) \<union> codes_of (eb_unknowns b') \<and>
   contains_support b code = (code \<in> codes_of (eb_supports b)) \<and>
   set (el_supports (into_ledger b)) = codes_of (eb_supports b) \<and>
   set (el_contradictions (into_ledger b)) = codes_of (eb_contradictions b) \<and>
   set (el_unknowns (into_ledger b)) = codes_of (eb_unknowns b) \<and>
   distinct (el_supports (into_ledger b)) \<and> distinct (el_unknowns (into_ledger b)) \<and>
   codes_of (eb_supports default_bits) = {}"
  by (simp add: support_def unknown_def merge_def into_ledger_def contains_support_iff
      distinct_collect default_bits_def)

end
