(* ===== verification/Call_Catalog.thy ===== *)
theory Call_Catalog
  imports Call_Grouping Call_Compact
begin

text \<open>
  The request-scoped index of call relations, \<open>src/crates/fossilsense/src/call_catalog.rs\<close>: its
  construction from anchors and call sites and its queries. Ids are natural numbers that
  \<open>compact_id\<close> keeps below 2^32; where it would panic the construction returns \<open>None\<close>. The
  lookups by id that the code writes as slice indexing are written with \<open>!\<close>; the theory
  \<open>Call_Relations\<close> shows that every id the index holds is in range. The BLAKE3 hash is an
  argument of the functions that use it.
\<close>

section \<open>The index\<close>

definition compact_id :: "nat \<Rightarrow> nat option" where
  "compact_id index = (if index < 2 ^ 32 then Some index else None)"

record relation_query_stats =
  qs_entities :: nat
  qs_call_sites :: nat
  qs_relations :: nat
  qs_relation_call_site_refs :: nat

record relation_page_view =
  pg_relations :: "call_relation list"
  pg_total :: nat
  pg_site_limited :: bool
  pg_scan_limited :: bool
  pg_candidate_limited :: bool

record relation_query_index =
  qx_entities :: "callable_entity list"
  qx_entity_by_key :: "(string, nat) hmap"
  qx_entity_raw_keys :: "string list list"
  qx_entities_by_raw_key :: "(string, nat list) hmap"
  qx_by_name :: "(string, nat list) hmap"
  qx_by_path :: "(string, nat list) hmap"
  qx_strings :: string_pool
  qx_call_sites :: "stored_call_site list"
  qx_calls_by_path :: "(nat, nat list) hmap"
  qx_relations :: "compact_relation list"
  qx_relation_call_sites :: "nat list"
  qx_outgoing :: "(nat, nat list) hmap"
  qx_incoming :: "(nat, nat list) hmap"
  qx_coverage :: coverage_summary
  qx_entity_candidate_limited :: "bool list"

definition pool_str :: "string_pool \<Rightarrow> nat \<Rightarrow> string" where
  "pool_str p i = the (pool_get p i)"

section \<open>Orders and small decisions\<close>

definition primary_anchor_cmp :: "callable_anchor \<Rightarrow> callable_anchor \<Rightarrow> ordering" where
  "primary_anchor_cmp left right =
     then_with (then_with (then_with
       (cmp_of (ca_role left \<noteq> Definition) (ca_role right \<noteq> Definition))
       (cmp_of (ca_provenance left \<noteq> Ast) (ca_provenance right \<noteq> Ast)))
       (cmp_of (ca_path left) (ca_path right)))
       (cmp_of (sr_start_byte (ca_name_range left)) (sr_start_byte (ca_name_range right)))"

definition eligible_free_function :: "callable_entity \<Rightarrow> bool" where
  "eligible_free_function e =
     (ce_kind e = Function \<and> \<not> (ce_owner e \<noteq> None \<and> ce_owner_kind e = Some UnknownOwner))"

definition confidence :: "evidence_bits \<Rightarrow> relation_confidence" where
  "confidence ev =
     (if contains_support ev ExplicitQualifier \<or> contains_support ev InternalLinkage then High
      else if contains_support ev SameFile \<or> contains_support ev CompatibleArity then Medium
      else Low)"

definition unresolved_evidence :: "stored_call_site \<Rightarrow> evidence_bits" where
  "unresolved_evidence call =
     (if named_form (st_form call) then unknown NameOnly default_bits
      else unknown UnsupportedCallForm default_bits)"

definition signature_digest :: "(string \<Rightarrow> string) \<Rightarrow> signature_shape \<Rightarrow> string" where
  "signature_digest hash_hex sig = hash_hex (ss_normalized sig)"

section \<open>Entities\<close>

definition raw_group_counts :: "semantic_anchor_group list \<Rightarrow> (string, nat) hmap" where
  "raw_group_counts grouped =
     fold (\<lambda>g counts. fold (\<lambda>raw. entry_modify raw 0 Suc)
       (remdups (map ca_entity_key (sg_variants g))) counts) grouped []"

record entity_tables =
  et_entities :: "callable_entity list"
  et_entity_by_key :: "(string, nat) hmap"
  et_entity_raw_keys :: "string list list"
  et_entities_by_raw_key :: "(string, nat list) hmap"
  et_by_name :: "(string, nat list) hmap"
  et_by_path :: "(string, nat list) hmap"
  et_entity_candidate_limited :: "bool list"

definition empty_tables :: entity_tables where
  "empty_tables = \<lparr> et_entities = [], et_entity_by_key = [], et_entity_raw_keys = [],
     et_entities_by_raw_key = [], et_by_name = [], et_by_path = [], et_entity_candidate_limited = [] \<rparr>"

definition push_id :: "'k \<Rightarrow> nat \<Rightarrow> ('k, nat list) hmap \<Rightarrow> ('k, nat list) hmap" where
  "push_id k i m = entry_modify k [] (\<lambda>ids. ids @ [i]) m"

definition sorted_raw_keys :: "callable_anchor list \<Rightarrow> string list" where
  "sorted_raw_keys vs = dedup (sort_by cmp_of (map ca_entity_key vs))"

definition group_entity ::
  "(string \<Rightarrow> string) \<Rightarrow> (string, nat) hmap \<Rightarrow> callable_anchor \<Rightarrow> callable_anchor list \<Rightarrow> callable_entity" where
  "group_entity hash_hex counts primary vs =
     (let raw_key = ca_entity_key primary
      in \<lparr> ce_entity_key =
             (if length (sorted_raw_keys vs) = 1 \<and> get_or 0 counts raw_key = 1 then raw_key
              else derived_group_key hash_hex raw_key vs),
           ce_name = ca_name primary, ce_qualified_name = ca_qualified_name primary,
           ce_owner = ca_owner primary, ce_owner_kind = ca_owner_kind primary,
           ce_kind = ca_kind primary, ce_linkage = ca_linkage primary,
           ce_signature = ca_signature primary, ce_primary_anchor = primary, ce_variants = vs \<rparr>)"

definition insert_entity :: "callable_entity \<Rightarrow> nat \<Rightarrow> bool \<Rightarrow> entity_tables \<Rightarrow> entity_tables" where
  "insert_entity e i candidate_limited t =
     \<lparr> et_entities = et_entities t @ [e],
       et_entity_by_key = AList.update (ce_entity_key e) i (et_entity_by_key t),
       et_entity_raw_keys = et_entity_raw_keys t @ [sorted_raw_keys (ce_variants e)],
       et_entities_by_raw_key =
         fold (\<lambda>raw. push_id raw i) (sorted_raw_keys (ce_variants e)) (et_entities_by_raw_key t),
       et_by_name =
         (if eligible_free_function e then push_id (ce_name e) i (et_by_name t) else et_by_name t),
       et_by_path = fold (\<lambda>path. push_id path i) (map ca_path (ce_variants e)) (et_by_path t),
       et_entity_candidate_limited = et_entity_candidate_limited t @ [candidate_limited] \<rparr>"

definition add_group ::
  "(string \<Rightarrow> string) \<Rightarrow> (string, nat) hmap \<Rightarrow> bool \<Rightarrow> semantic_anchor_group \<Rightarrow> entity_tables
   \<Rightarrow> entity_tables option" where
  "add_group hash_hex counts recall_limited g t =
     (let vs = dedup_by same_anchor (sort_by primary_anchor_cmp (sg_variants g))
      in case vs of
           [] \<Rightarrow> None
         | primary # _ \<Rightarrow>
             Option.bind (compact_id (length (et_entities t))) (\<lambda>i.
               Some (insert_entity (group_entity hash_hex counts primary vs) i
                       (sg_candidate_limited g \<or> recall_limited) t)))"

definition order_ids :: "callable_entity list \<Rightarrow> nat list \<Rightarrow> nat list" where
  "order_ids entities ids =
     dedup (sort_by (\<lambda>l r. cmp_of (ce_entity_key (entities ! l)) (ce_entity_key (entities ! r))) ids)"

fun enumerate_calls :: "nat \<Rightarrow> stored_call_site list \<Rightarrow> (nat, nat list) hmap \<Rightarrow> (nat, nat list) hmap option" where
  "enumerate_calls index [] m = Some m"
| "enumerate_calls index (call # calls) m =
     Option.bind (compact_id index) (\<lambda>i. enumerate_calls (Suc index) calls (push_id (st_path call) i m))"

section \<open>Resolving a call site\<close>

definition resolve_caller :: "relation_query_index \<Rightarrow> nat \<Rightarrow> nat option" where
  "resolve_caller x call_id =
     (let call = qx_call_sites x ! call_id;
          raw_key = pool_str (qx_strings x) (st_caller_entity_key call)
      in case map_of (qx_entities_by_raw_key x) raw_key of
           None \<Rightarrow> None
         | Some candidates \<Rightarrow>
             if length candidates = 1 then Some (hd candidates)
             else
               (let call_path = pool_str (qx_strings x) (st_path call);
                    exact = filter (\<lambda>i. list_ex (\<lambda>a. ca_entity_key a = raw_key \<and>
                        ca_path a = call_path \<and> ca_role a = Definition)
                      (ce_variants (qx_entities x ! i))) candidates;
                    exact = dedup (sort_by (\<lambda>l r. primary_anchor_cmp
                        (ce_primary_anchor (qx_entities x ! l)) (ce_primary_anchor (qx_entities x ! r))) exact)
                in if length exact = 1 then Some (hd exact) else None))"

definition qualifier_evidence :: "string option \<Rightarrow> callable_entity \<Rightarrow> evidence_bits option" where
  "qualifier_evidence qualified cand =
     (case qualified of
        None \<Rightarrow> Some default_bits
      | Some q \<Rightarrow>
          if q \<noteq> ce_qualified_name cand then None else Some (support ExplicitQualifier default_bits))"

definition linkage_evidence :: "string \<Rightarrow> callable_entity \<Rightarrow> evidence_bits \<Rightarrow> evidence_bits option" where
  "linkage_evidence call_path cand ev =
     (case ce_linkage cand of
        InternalLinkageOf path \<Rightarrow> if path \<noteq> call_path then None else Some (support InternalLinkage ev)
      | _ \<Rightarrow> Some ev)"

definition arity_evidence :: "u32 option \<Rightarrow> callable_entity \<Rightarrow> evidence_bits \<Rightarrow> evidence_bits option" where
  "arity_evidence argument_count cand ev =
     (case argument_count of
        None \<Rightarrow> Some ev
      | Some arity \<Rightarrow>
          (case accepts_arity (ce_signature cand) arity of
             Some True \<Rightarrow> Some (support CompatibleArity ev)
           | Some False \<Rightarrow> None
           | None \<Rightarrow> Some (unknown CompatibleArity ev)))"

definition final_evidence :: "stored_call_site \<Rightarrow> callable_entity \<Rightarrow> evidence_bits \<Rightarrow> evidence_bits" where
  "final_evidence call cand ev =
     (let ev = (if st_syntax_error_overlap call then unknown SyntaxErrorOverlap ev else ev);
          ev = (if is_absolute (ca_path (ce_primary_anchor cand)) \<and>
                   list_all (\<lambda>a. ca_body_range a = None) (ce_variants cand)
                then unknown ExternalBodyUnavailable ev else ev)
      in if eb_supports ev = 0 then support NameOnly ev else ev)"

definition candidate_evidence ::
  "string_pool \<Rightarrow> stored_call_site \<Rightarrow> callable_entity \<Rightarrow> evidence_bits option" where
  "candidate_evidence strings call cand =
     (let call_path = pool_str strings (st_path call)
      in if st_form call \<noteq> QualifiedName \<and> ce_owner_kind cand = Some RecordOwner then None
         else
           Option.bind (qualifier_evidence (map_option (pool_str strings) (st_qualified_name call)) cand) (\<lambda>ev.
           Option.bind (linkage_evidence call_path cand
             (if ca_path (ce_primary_anchor cand) = call_path then support SameFile ev else ev)) (\<lambda>ev.
           map_option (final_evidence call cand) (arity_evidence (st_argument_count call) cand ev))))"

definition resolve_call :: "relation_query_index \<Rightarrow> nat \<Rightarrow> (nat \<times> evidence_bits) list" where
  "resolve_call x call_id =
     (let call = qx_call_sites x ! call_id
      in if \<not> named_form (st_form call) then []
         else
           (case map_option (pool_str (qx_strings x)) (st_callee_name call) of
              None \<Rightarrow> []
            | Some name \<Rightarrow>
                (case map_of (qx_by_name x) name of
                   None \<Rightarrow> []
                 | Some ids \<Rightarrow>
                     List.map_filter (\<lambda>i. map_option (Pair i)
                       (candidate_evidence (qx_strings x) call (qx_entities x ! i))) ids)))"

section \<open>Relations\<close>

type_synonym relation_state = "(compact_relation_key, nat) hmap \<times> relation_builder list"

definition record_relation ::
  "compact_relation_key \<Rightarrow> nat \<Rightarrow> evidence_bits \<Rightarrow> relation_state \<Rightarrow> relation_state option" where
  "record_relation key call_site ev st =
     (let (by_key, builders) = st
      in case map_of by_key key of
           Some i \<Rightarrow>
             Some (by_key, builders[i := (builders ! i)
               \<lparr> rb_additional_call_sites := rb_additional_call_sites (builders ! i) @ [call_site],
                 rb_evidence := merge (rb_evidence (builders ! i)) ev \<rparr>])
         | None \<Rightarrow>
             Option.bind (compact_id (length builders)) (\<lambda>i.
               Some (AList.update key i by_key,
                 builders @ [\<lparr> rb_key = key, rb_first_call_site = call_site,
                               rb_additional_call_sites = [], rb_evidence = ev \<rparr>])))"

definition relate_call :: "relation_query_index \<Rightarrow> nat \<Rightarrow> relation_state \<Rightarrow> relation_state option" where
  "relate_call x index st =
     Option.bind (compact_id index) (\<lambda>call_id.
       case resolve_caller x call_id of
         None \<Rightarrow> Some st
       | Some caller \<Rightarrow>
           (let candidates = resolve_call x call_id
            in if candidates = [] then
                 record_relation
                   \<lparr> rk_caller = caller, rk_callee = None, rk_confidence = Unresolved,
                     rk_ambiguity_site = None \<rparr>
                   call_id (unresolved_evidence (qx_call_sites x ! call_id)) st
               else
                 (let ambiguous = length candidates > 1
                  in ofold (\<lambda>(callee, ev). record_relation
                       \<lparr> rk_caller = caller, rk_callee = Some callee,
                         rk_confidence = (if ambiguous then AmbiguousRelation else confidence ev),
                         rk_ambiguity_site = (if ambiguous then Some call_id else None) \<rparr>
                       call_id ev) candidates st)))"

definition flatten_builder ::
  "relation_builder \<Rightarrow> compact_relation list \<times> nat list \<Rightarrow> (compact_relation list \<times> nat list) option" where
  "flatten_builder b st =
     (let (relations, sites) = st
      in Option.bind (compact_id (length sites)) (\<lambda>start.
         Option.bind (compact_id (1 + length (rb_additional_call_sites b))) (\<lambda>len.
           Some (relations @ [\<lparr> cr_key = rb_key b, cr_call_site_start = start,
                                cr_call_site_len = len, cr_evidence = rb_evidence b \<rparr>],
                 sites @ rb_first_call_site b # rb_additional_call_sites b))))"

fun link_relations ::
  "nat \<Rightarrow> compact_relation list \<Rightarrow> (nat, nat list) hmap \<times> (nat, nat list) hmap
   \<Rightarrow> ((nat, nat list) hmap \<times> (nat, nat list) hmap) option" where
  "link_relations index [] st = Some st"
| "link_relations index (r # rs) st =
     Option.bind (compact_id index) (\<lambda>i.
       link_relations (Suc index) rs
         (push_id (rk_caller (cr_key r)) i (fst st),
          (case rk_callee (cr_key r) of None \<Rightarrow> snd st | Some callee \<Rightarrow> push_id callee i (snd st))))"

definition option_cmp :: "'a::linorder option \<Rightarrow> 'a option \<Rightarrow> ordering" where
  "option_cmp a b =
     (case (a, b) of
        (None, None) \<Rightarrow> Equal
      | (None, Some _) \<Rightarrow> Less
      | (Some _, None) \<Rightarrow> Greater
      | (Some x, Some y) \<Rightarrow> cmp_of x y)"

definition relation_order :: "callable_entity list \<Rightarrow> compact_relation list \<Rightarrow> nat \<Rightarrow> nat \<Rightarrow> ordering" where
  "relation_order entities relations left right =
     (let l = cr_key (relations ! left); r = cr_key (relations ! right)
      in then_with (then_with
           (option_cmp (map_option (\<lambda>i. ce_qualified_name (entities ! i)) (rk_callee l))
                       (map_option (\<lambda>i. ce_qualified_name (entities ! i)) (rk_callee r)))
           (cmp_of (ce_qualified_name (entities ! rk_caller l)) (ce_qualified_name (entities ! rk_caller r))))
           (option_cmp (rk_ambiguity_site l) (rk_ambiguity_site r)))"

section \<open>Construction\<close>

definition entity_index ::
  "(string \<Rightarrow> string) \<Rightarrow> callable_anchor list \<Rightarrow> string_pool \<Rightarrow> stored_call_site list \<Rightarrow> coverage_summary
   \<Rightarrow> reach_graph option \<Rightarrow> bool \<Rightarrow> bool \<Rightarrow> relation_query_index option" where
  "entity_index hash_hex anchors strings call_sites coverage graph incomplete recall_limited =
     (let grouped = semantic_anchor_groups anchors graph (incomplete \<or> recall_limited)
      in Option.bind (ofold (add_group hash_hex (raw_group_counts grouped) recall_limited) grouped empty_tables) (\<lambda>t.
         Option.bind (enumerate_calls 0 call_sites []) (\<lambda>calls_by_path.
           Some \<lparr> qx_entities = et_entities t, qx_entity_by_key = et_entity_by_key t,
                  qx_entity_raw_keys = et_entity_raw_keys t,
                  qx_entities_by_raw_key = et_entities_by_raw_key t,
                  qx_by_name = map_values (order_ids (et_entities t)) (et_by_name t),
                  qx_by_path = map_values (order_ids (et_entities t)) (et_by_path t),
                  qx_strings = strings, qx_call_sites = call_sites,
                  qx_calls_by_path = calls_by_path, qx_relations = [],
                  qx_relation_call_sites = [], qx_outgoing = [], qx_incoming = [],
                  qx_coverage = coverage,
                  qx_entity_candidate_limited = et_entity_candidate_limited t \<rparr>)))"

definition relate_calls :: "relation_query_index \<Rightarrow> relation_query_index option" where
  "relate_calls x =
     Option.bind (ofold (relate_call x) [0..<length (qx_call_sites x)] ([], [])) (\<lambda>(_, builders).
     Option.bind (ofold flatten_builder builders ([], [])) (\<lambda>(relations, sites).
     Option.bind (link_relations 0 relations ([], [])) (\<lambda>(outgoing, incoming).
       Some (x\<lparr> qx_relations := relations, qx_relation_call_sites := sites,
                 qx_outgoing := map_values (sort_by (relation_order (qx_entities x) relations)) outgoing,
                 qx_incoming := map_values (sort_by (relation_order (qx_entities x) relations)) incoming \<rparr>))))"

definition from_stored_facts ::
  "(string \<Rightarrow> string) \<Rightarrow> callable_anchor list \<Rightarrow> string_pool \<Rightarrow> stored_call_site list \<Rightarrow> coverage_summary
   \<Rightarrow> reach_graph option \<Rightarrow> bool \<Rightarrow> bool \<Rightarrow> relation_query_index option" where
  "from_stored_facts hash_hex anchors strings call_sites coverage graph incomplete recall_limited =
     Option.bind (entity_index hash_hex anchors strings call_sites coverage graph incomplete recall_limited)
       relate_calls"

definition build_from_facts_with_context ::
  "(string \<Rightarrow> string) \<Rightarrow> callable_anchor list \<Rightarrow> call_site_fact list \<Rightarrow> coverage_summary
   \<Rightarrow> reach_graph option \<Rightarrow> bool \<Rightarrow> bool \<Rightarrow> relation_query_index option" where
  "build_from_facts_with_context hash_hex anchors facts coverage graph incomplete recall_limited =
     Option.bind (store_all facts empty_pool) (\<lambda>(call_sites, strings).
       from_stored_facts hash_hex anchors strings call_sites coverage graph incomplete recall_limited)"

section \<open>Queries\<close>

definition entity_of :: "relation_query_index \<Rightarrow> string \<Rightarrow> callable_entity option" where
  "entity_of x key = map_option (\<lambda>i. qx_entities x ! i) (map_of (qx_entity_by_key x) key)"

definition raw_keys_for_entity :: "relation_query_index \<Rightarrow> string \<Rightarrow> string list option" where
  "raw_keys_for_entity x key =
     (case map_of (qx_entity_by_key x) key of
        None \<Rightarrow> None
      | Some i \<Rightarrow> if i < length (qx_entity_raw_keys x) then Some (qx_entity_raw_keys x ! i) else None)"

definition entity_for_unique_raw_key :: "relation_query_index \<Rightarrow> string \<Rightarrow> callable_entity option" where
  "entity_for_unique_raw_key x raw_key =
     (case map_of (qx_entities_by_raw_key x) raw_key of
        None \<Rightarrow> None
      | Some ids \<Rightarrow> if length ids = 1 then Some (qx_entities x ! hd ids) else None)"

text \<open>\<open>Iterator::min_by_key\<close> keeps the first of the least elements.\<close>

fun min_by_key :: "('a \<Rightarrow> 'k::linorder) \<Rightarrow> 'a list \<Rightarrow> 'a option" where
  "min_by_key key [] = None"
| "min_by_key key (x # xs) =
     (case min_by_key key xs of
        None \<Rightarrow> Some x
      | Some y \<Rightarrow> if key y < key x then Some y else Some x)"

definition call_candidates_at :: "relation_query_index \<Rightarrow> string \<Rightarrow> source_position \<Rightarrow> callable_entity list" where
  "call_candidates_at x path position =
     (let call_ids = (case Option.bind (pool_id (qx_strings x) path) (map_of (qx_calls_by_path x)) of
            None \<Rightarrow> [] | Some ids \<Rightarrow> ids);
          found = concat (map (\<lambda>c.
            if position_in_range position (st_callee_range (qx_call_sites x ! c))
            then map (\<lambda>(i, _). qx_entities x ! i) (resolve_call x c) else []) call_ids)
      in dedup_by (\<lambda>a b. ce_entity_key a = ce_entity_key b)
           (sort_by (\<lambda>a b. cmp_of (ce_entity_key a) (ce_entity_key b)) found))"

definition anchors_position :: "string \<Rightarrow> source_position \<Rightarrow> callable_entity \<Rightarrow> bool" where
  "anchors_position path position e =
     list_ex (\<lambda>a. ca_path a = path \<and>
       (position_in_range position (ca_name_range a) \<or>
        (case ca_body_range a of None \<Rightarrow> False | Some r \<Rightarrow> position_in_range position r))) (ce_variants e)"

definition declaration_span :: "callable_entity \<Rightarrow> u64" where
  "declaration_span e =
     (let r = ca_declaration_range (ce_primary_anchor e) in sat_sub (sr_end_byte r) (sr_start_byte r))"

definition entities_at :: "relation_query_index \<Rightarrow> string \<Rightarrow> source_position \<Rightarrow> callable_entity list" where
  "entities_at x path position =
     (let called = call_candidates_at x path position
      in if called \<noteq> [] then called
         else
           option_list (min_by_key declaration_span
             (filter (anchors_position path position)
               (filter eligible_free_function
                 (map (\<lambda>i. qx_entities x ! i) (get_or [] (qx_by_path x) path))))))"

definition entity_at :: "relation_query_index \<Rightarrow> string \<Rightarrow> source_position \<Rightarrow> callable_entity option" where
  "entity_at x path position = (case entities_at x path position of [] \<Rightarrow> None | e # _ \<Rightarrow> Some e)"

definition materialize_relation ::
  "relation_query_index \<Rightarrow> nat \<Rightarrow> relation_direction \<Rightarrow> nat \<Rightarrow> call_relation \<times> bool" where
  "materialize_relation x relation_id direction call_site_limit =
     (let r = qx_relations x ! relation_id;
          len = cr_call_site_len r;
          taken = min len call_site_limit
      in (\<lparr> rl_caller = qx_entities x ! rk_caller (cr_key r),
            rl_callee = map_option (\<lambda>i. qx_entities x ! i) (rk_callee (cr_key r)),
            rl_direction = direction,
            rl_call_sites = map (\<lambda>c. the (materialize (qx_strings x) (qx_call_sites x ! c)))
              (take taken (take len (drop (cr_call_site_start r) (qx_relation_call_sites x)))),
            rl_confidence = rk_confidence (cr_key r),
            rl_evidence = into_ledger (cr_evidence r),
            rl_ambiguity_set_id =
              map_option (\<lambda>c. st_site_fingerprint (qx_call_sites x ! c)) (rk_ambiguity_site (cr_key r)) \<rparr>,
          len > taken))"

definition relation_page ::
  "relation_query_index \<Rightarrow> relation_direction \<Rightarrow> string \<Rightarrow> nat \<Rightarrow> nat \<Rightarrow> nat \<Rightarrow> relation_page_view" where
  "relation_page x direction entity_key cursor relation_limit call_site_limit =
     (case map_of (qx_entity_by_key x) entity_key of
        None \<Rightarrow>
          \<lparr> pg_relations = [], pg_total = 0, pg_site_limited = False, pg_scan_limited = False,
            pg_candidate_limited = False \<rparr>
      | Some entity_id \<Rightarrow>
          (let ids = (case direction of
                 Outgoing \<Rightarrow> get_or [] (qx_outgoing x) entity_id
               | Incoming \<Rightarrow> get_or [] (qx_incoming x) entity_id);
               page = map (\<lambda>r. materialize_relation x r direction call_site_limit)
                 (take relation_limit (drop cursor ids))
           in \<lparr> pg_relations = map fst page, pg_total = length ids,
                pg_site_limited = list_ex snd page, pg_scan_limited = False,
                pg_candidate_limited =
                  (entity_id < length (qx_entity_candidate_limited x) \<and>
                   qx_entity_candidate_limited x ! entity_id) \<rparr>))"

definition abs_diff :: "u64 \<Rightarrow> u64 \<Rightarrow> u64" where
  "abs_diff a b = (if a < b then b - a else a - b)"

definition resolve_locator ::
  "(string \<Rightarrow> string) \<Rightarrow> relation_query_index \<Rightarrow> callable_locator \<Rightarrow> callable_entity option" where
  "resolve_locator hash_hex x locator =
     (case map_of (qx_entity_by_key x) (cl_entity_key locator) of
        Some i \<Rightarrow> Some (qx_entities x ! i)
      | None \<Rightarrow>
          (case map_of (qx_by_path x) (cl_path locator) of
             None \<Rightarrow> None
           | Some ids \<Rightarrow>
               min_by_key (\<lambda>e. abs_diff (sr_start_byte (ca_name_range (ce_primary_anchor e)))
                                        (cl_old_start_byte locator))
                 (filter (\<lambda>e. signature_digest hash_hex (ce_signature e) = cl_signature_digest locator)
                   (filter eligible_free_function (map (\<lambda>i. qx_entities x ! i) ids)))))"

definition stats :: "relation_query_index \<Rightarrow> relation_query_stats" where
  "stats x =
     \<lparr> qs_entities = length (qx_entities x), qs_call_sites = length (qx_call_sites x),
       qs_relations = length (qx_relations x),
       qs_relation_call_site_refs = length (qx_relation_call_sites x) \<rparr>"

end
