(* ===== verification/Callable_Pairing.thy ===== *)
theory Callable_Pairing
  imports Callables
begin

text \<open>
  What the callable resolver promises: the pairing of definitions with declarations is a
  partition of the anchors whose pairs are exactly the mutually unique strict edges, and the
  arity policy removes only candidates that the call rules out.
\<close>

section \<open>Edge tables\<close>

lemma map_of_append_entry:
  "map_of (entry_modify k [] (\<lambda>es. es @ [x]) m) i =
     (if i = k then Some (get_or [] m k @ [x]) else map_of m i)"
  by simp

lemma get_or_some: "map_of m i = Some es \<Longrightarrow> get_or d m i = es"
  by (simp add: get_or_def)

text \<open>A table lists exactly the non-empty neighbour lists.\<close>

definition lists_neighbours :: "(nat, nat list) hmap \<Rightarrow> (nat \<Rightarrow> nat list) \<Rightarrow> bool" where
  "lists_neighbours m f \<longleftrightarrow> (\<forall>i. map_of m i = (if f i = [] then None else Some (f i)))"

lemma lists_get_or: "lists_neighbours m f \<Longrightarrow> get_or [] m i = f i"
  by (simp add: lists_neighbours_def get_or_def)

lemma lists_append:
  "lists_neighbours m f \<Longrightarrow>
     lists_neighbours (entry_modify k [] (\<lambda>es. es @ [x]) m) (f(k := f k @ [x]))"
  using lists_get_or [of m f k] by (simp add: lists_neighbours_def)

lemma inner_tables:
  assumes "lists_neighbours (fst t) f" "lists_neighbours (snd t) g"
  shows "lists_neighbours (fst (fold (add_strict_edge anchors reach s) hs t))
      (f(s := f s @ filter (\<lambda>h. strict_edge (anchors ! s) (anchors ! h) reach) hs)) \<and>
    (distinct hs \<longrightarrow> lists_neighbours (snd (fold (add_strict_edge anchors reach s) hs t))
      (\<lambda>h. g h @ (if h \<in> set hs \<and> strict_edge (anchors ! s) (anchors ! h) reach then [s] else [])))"
  using assms
proof (induction hs arbitrary: t f g)
  case (Cons h hs)
  show ?case
  proof (cases "strict_edge (anchors ! s) (anchors ! h) reach")
    case True
    define t1 where "t1 = add_strict_edge anchors reach s h t"
    have t1: "lists_neighbours (fst t1) (f(s := f s @ [h]))" "lists_neighbours (snd t1) (g(h := g h @ [s]))"
      using True Cons.prems lists_append [of "fst t" f s h] lists_append [of "snd t" g h s]
      by (simp_all add: t1_def add_strict_edge_def)
    have "(g(h := g h @ [s])) x @
        (if x \<in> set hs \<and> strict_edge (anchors ! s) (anchors ! x) reach then [s] else []) =
      g x @ (if x \<in> set (h # hs) \<and> strict_edge (anchors ! s) (anchors ! x) reach then [s] else [])"
      if "h \<notin> set hs" for x
      using that True by auto
    with Cons.IH [OF t1] True show ?thesis by (auto simp: t1_def fun_upd_def cong: if_cong)
  next
    case False
    then have "add_strict_edge anchors reach s h t = t" by (simp add: add_strict_edge_def)
    moreover have "(x \<in> set (h # hs) \<and> strict_edge (anchors ! s) (anchors ! x) reach) =
        (x \<in> set hs \<and> strict_edge (anchors ! s) (anchors ! x) reach)" for x
      using False by auto
    ultimately show ?thesis using Cons.IH [OF Cons.prems] False by simp
  qed
qed (simp add: fun_upd_idem)

definition partners :: "resolved_callable_anchor list \<Rightarrow> source_reach \<Rightarrow> nat list \<Rightarrow> nat \<Rightarrow> nat list" where
  "partners anchors reach headers s =
     filter (\<lambda>h. strict_edge (anchors ! s) (anchors ! h) reach) headers"

definition back_partners :: "resolved_callable_anchor list \<Rightarrow> source_reach \<Rightarrow> nat list \<Rightarrow> nat \<Rightarrow> nat list" where
  "back_partners anchors reach sources h =
     filter (\<lambda>s. strict_edge (anchors ! s) (anchors ! h) reach) sources"

lemma outer_tables:
  assumes "lists_neighbours (fst t) f" "lists_neighbours (snd t) g" "distinct hs"
  shows "distinct ss \<Longrightarrow> set ss \<inter> {s. f s \<noteq> []} = {} \<Longrightarrow>
    lists_neighbours (fst (fold (\<lambda>s. fold (add_strict_edge anchors reach s) hs) ss t))
      (\<lambda>s. if s \<in> set ss then partners anchors reach hs s else f s) \<and>
    lists_neighbours (snd (fold (\<lambda>s. fold (add_strict_edge anchors reach s) hs) ss t))
      (\<lambda>h. g h @ (if h \<in> set hs then back_partners anchors reach ss h else []))"
  using assms
proof (induction ss arbitrary: t f g)
  case (Cons s ss)
  define t1 where "t1 = fold (add_strict_edge anchors reach s) hs t"
  define f1 where "f1 = f(s := partners anchors reach hs s)"
  define g1 where "g1 = (\<lambda>h. g h @ (if h \<in> set hs \<and> strict_edge (anchors ! s) (anchors ! h) reach then [s] else []))"
  have fs: "f s = []" using Cons.prems(2) by auto
  have t1: "lists_neighbours (fst t1) f1" "lists_neighbours (snd t1) g1"
    using inner_tables [OF Cons.prems(3,4), of anchors reach s hs] Cons.prems(5) fs
    by (simp_all add: t1_def f1_def g1_def partners_def)
  have "set ss \<inter> {s. f1 s \<noteq> []} = {}"
    using Cons.prems(1,2) by (auto simp: f1_def)
  with Cons.IH [OF _ _ t1] Cons.prems(1,5)
  have IH: "lists_neighbours (fst (fold (\<lambda>s. fold (add_strict_edge anchors reach s) hs) ss t1))
      (\<lambda>s. if s \<in> set ss then partners anchors reach hs s else f1 s)"
    "lists_neighbours (snd (fold (\<lambda>s. fold (add_strict_edge anchors reach s) hs) ss t1))
      (\<lambda>h. g1 h @ (if h \<in> set hs then back_partners anchors reach ss h else []))" by auto
  moreover have "(\<lambda>x. if x \<in> set ss then partners anchors reach hs x else f1 x) =
      (\<lambda>x. if x \<in> set (s # ss) then partners anchors reach hs x else f x)"
    by (auto simp: f1_def)
  moreover have "(\<lambda>h. g1 h @ (if h \<in> set hs then back_partners anchors reach ss h else [])) =
      (\<lambda>h. g h @ (if h \<in> set hs then back_partners anchors reach (s # ss) h else []))"
    by (auto simp: g1_def back_partners_def)
  ultimately show ?case by (simp add: t1_def)
qed (simp add: back_partners_def cong: if_cong)

section \<open>Mutually unique strict edges\<close>

definition header_at :: "resolved_callable_anchor list \<Rightarrow> nat \<Rightarrow> bool" where
  "header_at anchors i \<longleftrightarrow> i < length anchors \<and> is_header_declaration (anchors ! i)"

definition source_at :: "resolved_callable_anchor list \<Rightarrow> nat \<Rightarrow> bool" where
  "source_at anchors i \<longleftrightarrow> i < length anchors \<and> is_source_definition (anchors ! i)"

text \<open>The specification of a pair: a strict edge that is the only one of both of its ends.\<close>

definition counterpart_pair :: "resolved_callable_anchor list \<Rightarrow> source_reach \<Rightarrow> nat \<Rightarrow> nat \<Rightarrow> bool" where
  "counterpart_pair anchors reach s h \<longleftrightarrow>
     source_at anchors s \<and> header_at anchors h \<and> strict_edge (anchors ! s) (anchors ! h) reach \<and>
     (\<forall>h'. header_at anchors h' \<longrightarrow> strict_edge (anchors ! s) (anchors ! h') reach \<longrightarrow> h' = h) \<and>
     (\<forall>s'. source_at anchors s' \<longrightarrow> strict_edge (anchors ! s') (anchors ! h) reach \<longrightarrow> s' = s)"

lemma roles_disjoint: "source_at anchors i \<Longrightarrow> \<not> header_at anchors i"
  by (auto simp: source_at_def header_at_def is_source_definition_def is_header_declaration_def)

lemma filter_singleton:
  "distinct xs \<Longrightarrow> filter P xs = [x] \<longleftrightarrow> x \<in> set xs \<and> P x \<and> (\<forall>y \<in> set xs. P y \<longrightarrow> y = x)"
proof (induction xs)
  case (Cons a xs)
  then show ?case by (cases "P a") (auto simp: filter_empty_conv)
qed simp

definition source_indices :: "resolved_callable_anchor list \<Rightarrow> nat list" where
  "source_indices anchors = filter (\<lambda>i. is_source_definition (anchors ! i)) [0..<length anchors]"

definition header_indices :: "resolved_callable_anchor list \<Rightarrow> nat list" where
  "header_indices anchors = filter (\<lambda>i. is_header_declaration (anchors ! i)) [0..<length anchors]"

lemma indices_simps [simp]:
  "i \<in> set (source_indices anchors) \<longleftrightarrow> source_at anchors i"
  "i \<in> set (header_indices anchors) \<longleftrightarrow> header_at anchors i"
  "distinct (source_indices anchors)" "distinct (header_indices anchors)"
  by (auto simp: source_indices_def header_indices_def source_at_def header_at_def)

lemma edge_tables_neighbours:
  fixes anchors reach
  defines "t \<equiv> edge_tables_of anchors reach (source_indices anchors) (header_indices anchors)"
  shows "lists_neighbours (fst t)
      (\<lambda>s. if source_at anchors s then partners anchors reach (header_indices anchors) s else [])"
    "lists_neighbours (snd t)
      (\<lambda>h. if header_at anchors h then back_partners anchors reach (source_indices anchors) h else [])"
  using outer_tables [of "([], [])" "\<lambda>_. []" "\<lambda>_. []" "header_indices anchors" "source_indices anchors"
      anchors reach]
  by (simp_all add: t_def edge_tables_of_def lists_neighbours_def cong: if_cong)

lemma unique_partner_iff:
  assumes "lists_neighbours m f" "lists_neighbours b g"
  shows "unique_partner m b i = Some j \<longleftrightarrow> f i = [j] \<and> length (g j) = 1"
  using assms
  by (auto simp: unique_partner_def lists_neighbours_def split: option.splits list.splits if_splits)

lemma partners_singleton:
  "partners anchors reach (header_indices anchors) s = [h] \<longleftrightarrow>
     header_at anchors h \<and> strict_edge (anchors ! s) (anchors ! h) reach \<and>
     (\<forall>h'. header_at anchors h' \<longrightarrow> strict_edge (anchors ! s) (anchors ! h') reach \<longrightarrow> h' = h)"
  by (auto simp: partners_def filter_singleton)

lemma back_partners_singleton:
  "back_partners anchors reach (source_indices anchors) h = [s] \<longleftrightarrow>
     source_at anchors s \<and> strict_edge (anchors ! s) (anchors ! h) reach \<and>
     (\<forall>s'. source_at anchors s' \<longrightarrow> strict_edge (anchors ! s') (anchors ! h) reach \<longrightarrow> s' = s)"
  by (auto simp: back_partners_def filter_singleton)

lemma singleton_member: "length xs = 1 \<Longrightarrow> x \<in> set xs \<Longrightarrow> xs = [x]"
  by (cases xs) auto

lemma unique_partner_pair:
  fixes anchors reach
  defines "t \<equiv> edge_tables_of anchors reach (source_indices anchors) (header_indices anchors)"
  shows "unique_partner (fst t) (snd t) i = Some j \<longleftrightarrow> counterpart_pair anchors reach i j"
    and "unique_partner (snd t) (fst t) j = Some i \<longleftrightarrow> counterpart_pair anchors reach i j"
proof -
  note n = edge_tables_neighbours [of anchors reach, folded t_def]
  define P where "P = partners anchors reach (header_indices anchors) i"
  define B where "B = back_partners anchors reach (source_indices anchors) j"
  have pair: "counterpart_pair anchors reach i j \<longleftrightarrow>
      source_at anchors i \<and> header_at anchors j \<and> P = [j] \<and> B = [i]"
    unfolding P_def B_def partners_singleton back_partners_singleton counterpart_pair_def by blast
  have mem: "i \<in> set B \<longleftrightarrow> source_at anchors i \<and> strict_edge (anchors ! i) (anchors ! j) reach"
    "j \<in> set P \<longleftrightarrow> header_at anchors j \<and> strict_edge (anchors ! i) (anchors ! j) reach"
    by (auto simp: P_def B_def partners_def back_partners_def)
  have 1: "unique_partner (fst t) (snd t) i = Some j \<longleftrightarrow>
      source_at anchors i \<and> P = [j] \<and> header_at anchors j \<and> length B = 1"
    unfolding unique_partner_iff [OF n] P_def B_def by auto
  have 2: "unique_partner (snd t) (fst t) j = Some i \<longleftrightarrow>
      header_at anchors j \<and> B = [i] \<and> source_at anchors i \<and> length P = 1"
    unfolding unique_partner_iff [OF n(2,1)] P_def B_def by auto
  show "unique_partner (fst t) (snd t) i = Some j \<longleftrightarrow> counterpart_pair anchors reach i j"
    unfolding 1 pair using mem singleton_member [of B i] by auto
  show "unique_partner (snd t) (fst t) j = Some i \<longleftrightarrow> counterpart_pair anchors reach i j"
    unfolding 2 pair using mem singleton_member [of P j] by auto
qed

section \<open>The pairing loop\<close>

definition paired_with :: "resolved_callable_anchor list \<Rightarrow> source_reach \<Rightarrow> nat \<Rightarrow> nat \<Rightarrow> bool" where
  "paired_with anchors reach i j \<longleftrightarrow>
     counterpart_pair anchors reach i j \<or> counterpart_pair anchors reach j i"

lemma paired_with_sym: "paired_with anchors reach i j \<Longrightarrow> paired_with anchors reach j i"
  by (auto simp: paired_with_def)

lemma paired_with_unique:
  "paired_with anchors reach i j \<Longrightarrow> paired_with anchors reach i k \<Longrightarrow> j = k"
  unfolding paired_with_def counterpart_pair_def using roles_disjoint by blast

lemma paired_with_neq: "paired_with anchors reach i j \<Longrightarrow> i \<noteq> j"
  unfolding paired_with_def counterpart_pair_def using roles_disjoint by blast

lemma paired_with_less: "paired_with anchors reach i j \<Longrightarrow> i < length anchors \<and> j < length anchors"
  by (auto simp: paired_with_def counterpart_pair_def source_at_def header_at_def)

lemma variants_simps [simp]:
  "variants (pair_group s h) = [h, s]"
  "variants (singleton_group a e) = [a]"
  by (auto simp: variants_def pair_group_def singleton_group_def Let_def)

text \<open>What holds after the first \<open>k\<close> rounds.\<close>

definition pairing_inv ::
  "resolved_callable_anchor list \<Rightarrow> source_reach \<Rightarrow> nat \<Rightarrow> nat list \<times> callable_variant_group list \<Rightarrow> bool" where
  "pairing_inv anchors reach k st \<longleftrightarrow>
     (let covered = {0..<k} \<union> set (fst st)
      in set (fst st) = {i. \<exists>j. paired_with anchors reach i j \<and> min i j < k} \<and>
         mset (concat (map variants (snd st))) = image_mset ((!) anchors) (mset_set covered) \<and>
         (\<forall>s h. pair_group s h \<in> set (snd st) \<longrightarrow>
            (\<exists>i j. counterpart_pair anchors reach i j \<and> s = anchors ! i \<and> h = anchors ! j)) \<and>
         (\<forall>i j. counterpart_pair anchors reach i j \<longrightarrow> min i j < k \<longrightarrow>
            pair_group (anchors ! i) (anchors ! j) \<in> set (snd st)) \<and>
         (\<forall>g \<in> set (snd st). vg_counterpart_evidence g = StrictOneToOne \<longrightarrow> (\<exists>s h. g = pair_group s h)))"

lemma pair_not_singleton: "degree_evidence tables i \<noteq> StrictOneToOne"
  by (simp add: degree_evidence_def Let_def)

lemma singleton_evidence: "vg_counterpart_evidence (singleton_group a e) = e"
  by (simp add: singleton_group_def Let_def)

lemma pair_evidence: "vg_counterpart_evidence (pair_group s h) = StrictOneToOne"
  by (simp add: pair_group_def)

lemma pair_group_inject: "pair_group s h = pair_group s' h' \<Longrightarrow> s = s' \<and> h = h'"
  by (simp add: pair_group_def)

lemma pairing_step_pair:
  assumes inv: "pairing_inv anchors reach k (paired, groups)" and k: "k \<notin> set paired"
    and p: "paired_with anchors reach k j"
    and g: "g = (if counterpart_pair anchors reach k j then pair_group (anchors ! k) (anchors ! j)
                 else pair_group (anchors ! j) (anchors ! k))"
  shows "pairing_inv anchors reach (Suc k) (j # k # paired, groups @ [g])"
proof -
  from inv have P: "set paired = {i. \<exists>j. paired_with anchors reach i j \<and> min i j < k}"
    and M: "mset (concat (map variants groups)) = image_mset ((!) anchors) (mset_set ({0..<k} \<union> set paired))"
    and S: "\<And>s h. pair_group s h \<in> set groups \<Longrightarrow>
      \<exists>i j. counterpart_pair anchors reach i j \<and> s = anchors ! i \<and> h = anchors ! j"
    and C: "\<And>i j. counterpart_pair anchors reach i j \<Longrightarrow> min i j < k \<Longrightarrow>
      pair_group (anchors ! i) (anchors ! j) \<in> set groups"
    and E: "\<And>g. g \<in> set groups \<Longrightarrow> vg_counterpart_evidence g = StrictOneToOne \<Longrightarrow> \<exists>s h. g = pair_group s h"
    by (auto simp: pairing_inv_def Let_def)
  from k P p have "\<not> min k j < k" by blast
  with paired_with_neq [OF p] have j: "k < j" by auto
  have jP: "j \<notin> set paired"
  proof
    assume "j \<in> set paired"
    with P obtain x where "paired_with anchors reach j x" "min j x < k" by blast
    with paired_with_unique [OF paired_with_sym [OF p]] j have "x = k" by blast
    with \<open>min j x < k\<close> j show False by simp
  qed
  have new: "{i. \<exists>j. paired_with anchors reach i j \<and> min i j < Suc k} = insert j (insert k (set paired))"
  proof (intro equalityI subsetI)
    fix i assume "i \<in> {i. \<exists>j. paired_with anchors reach i j \<and> min i j < Suc k}"
    then obtain x where x: "paired_with anchors reach i x" "min i x < k \<or> min i x = k" by force
    from x(2) have "min i x < k \<or> i = k \<or> x = k" by (metis min_def)
    then show "i \<in> insert j (insert k (set paired))"
      using P x(1) p paired_with_unique paired_with_sym by blast
  next
    fix i assume "i \<in> insert j (insert k (set paired))"
    then consider "i = j" | "i = k" | "i \<in> set paired" by blast
    then show "i \<in> {i. \<exists>j. paired_with anchors reach i j \<and> min i j < Suc k}"
    proof cases
      case 1 then show ?thesis using paired_with_sym [OF p] j by auto
    next
      case 2 then show ?thesis using p j by auto
    next
      case 3 then show ?thesis using P less_SucI by blast
    qed
  qed
  have cov: "{0..<Suc k} \<union> set (j # k # paired) = insert j (insert k ({0..<k} \<union> set paired))"
    by auto
  have "mset (concat (map variants (groups @ [g]))) =
      image_mset ((!) anchors) (mset_set ({0..<Suc k} \<union> set (j # k # paired)))"
    unfolding cov using M k jP j g by (simp add: add_mset_commute)
  moreover have "pair_group s h \<in> set (groups @ [g]) \<Longrightarrow>
      \<exists>i j. counterpart_pair anchors reach i j \<and> s = anchors ! i \<and> h = anchors ! j" for s h
    using S [of s h] g p unfolding paired_with_def by (auto dest: pair_group_inject split: if_splits)
  moreover have "pair_group (anchors ! a) (anchors ! b) \<in> set (groups @ [g])"
    if ab: "counterpart_pair anchors reach a b" "min a b < Suc k" for a b
  proof (cases "min a b < k")
    case False
    with ab(2) have "a = k \<or> b = k" by auto
    moreover have w: "paired_with anchors reach a b" using ab(1) by (simp add: paired_with_def)
    ultimately have "a = k \<and> b = j \<or> a = j \<and> b = k"
      using p paired_with_unique paired_with_sym by blast
    moreover have "\<not> counterpart_pair anchors reach k j" if "counterpart_pair anchors reach j k"
      using that roles_disjoint unfolding counterpart_pair_def by blast
    ultimately show ?thesis using ab(1) g by auto
  qed (use C ab(1) in auto)
  moreover have "\<exists>s h. x = pair_group s h"
    if "x \<in> set (groups @ [g])" "vg_counterpart_evidence x = StrictOneToOne" for x
    using that E g by (auto split: if_splits)
  ultimately show ?thesis using new by (simp add: pairing_inv_def Let_def)
qed

lemma pairing_step_single:
  assumes inv: "pairing_inv anchors reach k (paired, groups)"
    and none: "\<And>j. \<not> paired_with anchors reach k j" and e: "e \<noteq> StrictOneToOne"
  shows "pairing_inv anchors reach (Suc k) (paired, groups @ [singleton_group (anchors ! k) e])"
proof -
  have new: "paired_with anchors reach i j \<and> min i j < Suc k \<longleftrightarrow> paired_with anchors reach i j \<and> min i j < k" for i j
    using none paired_with_sym by (metis less_Suc_eq min_def)
  have k: "k \<notin> {i. \<exists>j. paired_with anchors reach i j \<and> min i j < k}" using none by blast
  have neq: "pair_group s h \<noteq> singleton_group (anchors ! k) e" for s h
    using e singleton_evidence [of "anchors ! k" e] pair_evidence [of s h] by metis
  have pw: "counterpart_pair anchors reach i j \<and> min i j < Suc k \<longleftrightarrow> counterpart_pair anchors reach i j \<and> min i j < k" for i j
    using new [of i j] by (auto simp: paired_with_def)
  have cov: "{0..<Suc k} \<union> A = insert k ({0..<k} \<union> A)" for A by auto
  let ?P = "{i. \<exists>j. paired_with anchors reach i j \<and> min i j < k}"
  from inv have P: "set paired = ?P"
    and M: "mset (concat (map variants groups)) = image_mset ((!) anchors) (mset_set ({0..<k} \<union> ?P))"
    and S: "\<forall>s h. pair_group s h \<in> set groups \<longrightarrow>
      (\<exists>i j. counterpart_pair anchors reach i j \<and> s = anchors ! i \<and> h = anchors ! j)"
    and C: "\<forall>i j. counterpart_pair anchors reach i j \<longrightarrow> min i j < k \<longrightarrow>
      pair_group (anchors ! i) (anchors ! j) \<in> set groups"
    and E: "\<forall>g \<in> set groups. vg_counterpart_evidence g = StrictOneToOne \<longrightarrow> (\<exists>s h. g = pair_group s h)"
    by (simp_all add: pairing_inv_def Let_def)
  have "finite ?P" using P by (metis List.finite_set)
  with k have "image_mset ((!) anchors) (mset_set (insert k ({0..<k} \<union> ?P)))
      = add_mset (anchors ! k) (image_mset ((!) anchors) (mset_set ({0..<k} \<union> ?P)))"
    by simp
  with M have "mset (concat (map variants (groups @ [singleton_group (anchors ! k) e]))) =
      image_mset ((!) anchors) (mset_set ({0..<Suc k} \<union> set paired))"
    unfolding cov P by simp
  moreover have "pair_group s h \<in> set (groups @ [singleton_group (anchors ! k) e]) \<Longrightarrow>
      \<exists>i j. counterpart_pair anchors reach i j \<and> s = anchors ! i \<and> h = anchors ! j" for s h
    using S neq by auto
  moreover have "pair_group (anchors ! i) (anchors ! j) \<in> set (groups @ [singleton_group (anchors ! k) e])"
    if "counterpart_pair anchors reach i j" "min i j < Suc k" for i j
    using C pw that by auto
  moreover have "\<exists>s h. g = pair_group s h"
    if "g \<in> set (groups @ [singleton_group (anchors ! k) e])" "vg_counterpart_evidence g = StrictOneToOne" for g
    using that E e by (auto simp: singleton_evidence)
  ultimately show ?thesis using P by (simp add: pairing_inv_def Let_def new)
qed

lemma pairing_step_done:
  assumes inv: "pairing_inv anchors reach k (paired, groups)" and k: "k \<in> set paired"
  shows "pairing_inv anchors reach (Suc k) (paired, groups)"
proof -
  have P: "set paired = {i. \<exists>j. paired_with anchors reach i j \<and> min i j < k}"
    using inv by (simp add: pairing_inv_def Let_def)
  with k obtain x where x: "paired_with anchors reach k x" "min k x < k" by blast
  have "min i j < k" if "paired_with anchors reach i j" "min i j < Suc k" for i j
  proof (cases "min i j < k")
    case False
    with that(2) have "i = k \<or> j = k" by auto
    with that(1) x(1) have "i = k \<and> j = x \<or> i = x \<and> j = k"
      using paired_with_unique paired_with_sym by blast
    with x(2) show ?thesis by auto
  qed
  then have new: "paired_with anchors reach i j \<and> min i j < Suc k \<longleftrightarrow> paired_with anchors reach i j \<and> min i j < k"
    for i j by (meson less_Suc_eq)
  then have pw: "min i j < k" if "counterpart_pair anchors reach i j" "min i j < Suc k" for i j
    using that unfolding paired_with_def by blast
  have "{0..<Suc k} \<union> set paired = {0..<k} \<union> set paired" using k by (auto simp: less_Suc_eq)
  with inv pw show ?thesis unfolding pairing_inv_def Let_def by (simp add: new)
qed

lemma pairing_step:
  assumes "pairing_inv anchors reach k st"
  shows "pairing_inv anchors reach (Suc k)
    (pair_step anchors (edge_tables_of anchors reach (source_indices anchors) (header_indices anchors)) k st)"
proof -
  let ?t = "edge_tables_of anchors reach (source_indices anchors) (header_indices anchors)"
  obtain paired groups where st: "st = (paired, groups)" by fastforce
  note up = unique_partner_pair [of anchors reach]
  consider "k \<in> set paired"
    | j where "k \<notin> set paired" "unique_partner (fst ?t) (snd ?t) k = Some j"
    | j where "k \<notin> set paired" "unique_partner (fst ?t) (snd ?t) k = None"
        "unique_partner (snd ?t) (fst ?t) k = Some j"
    | "k \<notin> set paired" "unique_partner (fst ?t) (snd ?t) k = None" "unique_partner (snd ?t) (fst ?t) k = None"
    by fastforce
  then show ?thesis
  proof cases
    case 1
    with pairing_step_done assms st show ?thesis by (simp add: pair_step_def)
  next
    case (2 j)
    then have "counterpart_pair anchors reach k j" by (simp add: up)
    with pairing_step_pair [of anchors reach k paired groups j] 2 assms st show ?thesis
      by (simp add: pair_step_def paired_with_def)
  next
    case (3 j)
    then have "counterpart_pair anchors reach j k" by (simp add: up)
    moreover from this have "\<not> counterpart_pair anchors reach k j"
      using roles_disjoint unfolding counterpart_pair_def by blast
    ultimately show ?thesis
      using pairing_step_pair [of anchors reach k paired groups j] 3 assms st
      by (simp add: pair_step_def paired_with_def)
  next
    case 4
    then have "\<not> paired_with anchors reach k j" for j
      unfolding paired_with_def by (metis up option.distinct(1))
    with pairing_step_single [OF assms [unfolded st]] 4 st show ?thesis
      by (simp add: pair_step_def pair_not_singleton)
  qed
qed

lemma pairing_loop:
  "pairing_inv anchors reach k (fold (pair_step anchors
     (edge_tables_of anchors reach (source_indices anchors) (header_indices anchors))) [0..<k] ([], []))"
proof (induction k)
  case 0
  then show ?case by (simp add: pairing_inv_def)
next
  case (Suc k)
  with pairing_step show ?case by simp
qed

section \<open>Counterparts\<close>

lemma mset_concat_map_cong: "mset xs = mset ys \<Longrightarrow> mset (concat (map f xs)) = mset (concat (map f ys))"
  by (metis (no_types, lifting) map_map mset_concat mset_map sum_mset_sum_list)

lemma mset_nth_upt: "image_mset ((!) xs) (mset_set {0..<length xs}) = mset xs"
  by (metis map_nth mset_map mset_upt)

lemma concat_singletons: "concat (map (\<lambda>a. variants (singleton_group a e)) xs) = xs"
  by (induction xs) auto

lemma counterparts_spec:
  "mset (concat (map variants (resolve_counterparts anchors reach coverage))) = mset anchors \<and>
   {g \<in> set (resolve_counterparts anchors reach coverage). vg_counterpart_evidence g = StrictOneToOne} =
     (if cc_truncated coverage \<or> cc_incomplete_reason coverage \<noteq> None then {}
      else {pair_group (anchors ! i) (anchors ! j) | i j. counterpart_pair anchors reach i j})"
proof (cases "cc_truncated coverage \<or> cc_incomplete_reason coverage \<noteq> None")
  case True
  then show ?thesis
    by (auto simp: resolve_counterparts_def comp_def concat_singletons singleton_evidence)
next
  case False
  let ?t = "edge_tables_of anchors reach (source_indices anchors) (header_indices anchors)"
  define st where "st = fold (pair_step anchors ?t) [0..<length anchors] ([], [])"
  have R: "resolve_counterparts anchors reach coverage = sort_by group_cmp (snd st)"
    using False by (simp add: resolve_counterparts_def st_def source_indices_def header_indices_def Let_def)
  have inv: "pairing_inv anchors reach (length anchors) st" using pairing_loop by (simp add: st_def)
  from inv have "set (fst st) \<subseteq> {0..<length anchors}"
    using paired_with_less by (auto simp: pairing_inv_def Let_def)
  with inv have "mset (concat (map variants (snd st))) = mset anchors"
    by (simp add: pairing_inv_def Let_def Un_absorb2 mset_nth_upt)
  moreover have "{g \<in> set (snd st). vg_counterpart_evidence g = StrictOneToOne} =
      {pair_group (anchors ! i) (anchors ! j) | i j. counterpart_pair anchors reach i j}"
  proof (intro equalityI subsetI)
    fix g assume "g \<in> {g \<in> set (snd st). vg_counterpart_evidence g = StrictOneToOne}"
    then have g: "g \<in> set (snd st)" "vg_counterpart_evidence g = StrictOneToOne" by auto
    with inv obtain s h where "g = pair_group s h" by (auto simp: pairing_inv_def Let_def)
    moreover from inv g(1) this obtain i j where "counterpart_pair anchors reach i j" "s = anchors ! i" "h = anchors ! j"
      unfolding pairing_inv_def Let_def by blast
    ultimately show "g \<in> {pair_group (anchors ! i) (anchors ! j) | i j. counterpart_pair anchors reach i j}"
      by blast
  next
    fix g assume "g \<in> {pair_group (anchors ! i) (anchors ! j) | i j. counterpart_pair anchors reach i j}"
    then obtain i j where g: "g = pair_group (anchors ! i) (anchors ! j)" and c: "counterpart_pair anchors reach i j"
      by auto
    from c have "min i j < length anchors"
      using paired_with_less [of anchors reach i j] by (simp add: paired_with_def min_less_iff_disj)
    with c g inv show "g \<in> {g \<in> set (snd st). vg_counterpart_evidence g = StrictOneToOne}"
      by (simp add: pairing_inv_def Let_def pair_evidence)
  qed
  ultimately show ?thesis
    using False mset_concat_map_cong [OF mset_sort_by [of group_cmp "snd st"], of variants]
    by (simp add: R)
qed

text \<open>Every group is one anchor or one pair.\<close>

lemma pair_step_shape:
  assumes "\<forall>g \<in> set (snd st). (\<exists>a. variants g = [a]) \<or> (\<exists>s h. g = pair_group s h)"
  shows "\<forall>g \<in> set (snd (pair_step anchors tables i st)). (\<exists>a. variants g = [a]) \<or> (\<exists>s h. g = pair_group s h)"
  using assms by (auto simp: pair_step_def split: prod.splits option.splits)

lemma counterparts_shape:
  assumes "g \<in> set (resolve_counterparts anchors reach coverage)"
  shows "(\<exists>a. variants g = [a]) \<or> (\<exists>s h. g = pair_group s h)"
proof -
  have "\<forall>g \<in> set (snd (fold (pair_step anchors tables) is st)). (\<exists>a. variants g = [a]) \<or> (\<exists>s h. g = pair_group s h)"
    if "\<forall>g \<in> set (snd st). (\<exists>a. variants g = [a]) \<or> (\<exists>s h. g = pair_group s h)" for tables "is" st
    using that by (induction "is" arbitrary: st) (simp, metis (no_types, lifting) fold_simps(2) pair_step_shape)
  from this [of "([], [])"] assms show ?thesis
    by (auto simp: resolve_counterparts_def Let_def split: if_splits)
qed

text \<open>C19. Pairing definitions with declarations loses and duplicates nothing, and pairs exactly what is
  certain. The groups partition the given anchors. With a complete candidate set the groups marked
  as strict pairs are exactly the pairs of a source definition and a header declaration joined
  by a strict edge that is the only strict edge of both; with an incomplete set nothing is paired.\<close>

theorem counterparts_are_mutually_unique:
  "mset (concat (map variants (resolve_counterparts anchors reach coverage))) = mset anchors \<and>
   {g \<in> set (resolve_counterparts anchors reach coverage). vg_counterpart_evidence g = StrictOneToOne} =
     (if \<not> cc_truncated coverage \<and> cc_incomplete_reason coverage = None
      then {pair_group (anchors ! i) (anchors ! j) | i j. counterpart_pair anchors reach i j} else {})"
  using counterparts_spec [of anchors reach coverage] by auto

section \<open>Arity policy\<close>

definition with_arity :: "call_site_context option \<Rightarrow> resolved_callable_anchor \<Rightarrow> resolved_callable_anchor" where
  "with_arity ctx a =
     a\<lparr> ra_arity_compatibility := compatibility_for_signature (ca_signature (ra_anchor a)) ctx \<rparr>"

definition downgrade :: "resolved_callable_anchor \<Rightarrow> resolved_callable_anchor" where
  "downgrade a = a\<lparr> ra_candidate := (ra_candidate a)\<lparr> dc_confidence := FallbackMatch \<rparr> \<rparr>"

definition arity_known :: "call_site_context option \<Rightarrow> bool" where
  "arity_known ctx = (case ctx of None \<Rightarrow> False
     | Some c \<Rightarrow> cx_reliability c = Reliable \<and> cx_argument_state c \<noteq> UnknownArguments)"

interpretation anchor_order: lawful_cmp anchor_cmp
  unfolding anchor_cmp_def by (intro lawful_cmp_intros)

lemma filter_unknown:
  "\<not> list_ex (\<lambda>a. ra_arity_compatibility a = Compatible) xs \<Longrightarrow>
     filter (\<lambda>a. ra_arity_compatibility a = UnknownArity) xs =
     filter (\<lambda>a. ra_arity_compatibility a \<noteq> IncompatibleArity) xs"
  by (induction xs) (auto, (metis arity_compatibility.exhaust)+)

lemma no_incompatible_ex:
  "(\<exists>a \<in> set xs. ra_arity_compatibility a \<noteq> IncompatibleArity) \<longleftrightarrow>
     list_ex (\<lambda>a. ra_arity_compatibility a = Compatible) xs \<or>
     list_ex (\<lambda>a. ra_arity_compatibility a = UnknownArity) xs"
  by (metis (mono_tags, lifting) arity_compatibility.distinct(3,5) arity_compatibility.exhaust list_ex_iff)

text \<open>C25. The arity policy drops a candidate only on proof. Without a reliable argument count every
  candidate is kept; otherwise the candidates that the call rules out are dropped, unless that would
  drop all of them, in which case all are kept with fallback confidence and the fallback is
  reported. The result is in the canonical order.\<close>

theorem arity_policy_drops_only_incompatible:
  "mset (snd (apply_arity_policy anchors ctx)) =
     (if \<not> arity_known ctx then mset (map (with_arity ctx) anchors)
      else if \<exists>a \<in> set (map (with_arity ctx) anchors). ra_arity_compatibility a \<noteq> IncompatibleArity
      then mset (filter (\<lambda>a. ra_arity_compatibility a \<noteq> IncompatibleArity) (map (with_arity ctx) anchors))
      else mset (map (downgrade \<circ> with_arity ctx) anchors)) \<and>
   (fst (apply_arity_policy anchors ctx) = MismatchFallback) =
     (arity_known ctx \<and> anchors \<noteq> [] \<and>
      list_all (\<lambda>a. ra_arity_compatibility (with_arity ctx a) = IncompatibleArity) anchors) \<and>
   sorted_cmp anchor_cmp (snd (apply_arity_policy anchors ctx))"
proof -
  define ann where "ann = map (with_arity ctx) anchors"
  define fallback where "fallback = map downgrade ann"
  have E: "apply_arity_policy anchors ctx =
     (if \<not> arity_known ctx \<or> ann = [] then (NotApplied, sort_anchors ann)
      else if list_ex (\<lambda>a. ra_arity_compatibility a = Compatible) ann then
        (Filtered, sort_anchors (filter (\<lambda>a. ra_arity_compatibility a \<noteq> IncompatibleArity) ann))
      else if list_ex (\<lambda>a. ra_arity_compatibility a = UnknownArity) ann then
        (UnknownOnly, sort_anchors (filter (\<lambda>a. ra_arity_compatibility a = UnknownArity) ann))
      else (MismatchFallback, sort_anchors fallback))"
    unfolding apply_arity_policy_def arity_known_def is_reliable_def Let_def ann_def fallback_def
      with_arity_def downgrade_def by (simp add: comp_def split: option.split)
  have f: "map (downgrade \<circ> with_arity ctx) anchors = fallback" by (simp add: fallback_def ann_def)
  have s: "sorted_cmp anchor_cmp (sort_anchors xs)" "mset (sort_anchors xs) = mset xs" for xs
    by (simp_all add: sort_anchors_def anchor_order.sorted_sort_by)
  have all: "list_all (\<lambda>a. ra_arity_compatibility (with_arity ctx a) = IncompatibleArity) anchors \<longleftrightarrow>
      \<not> (\<exists>a \<in> set ann. ra_arity_compatibility a \<noteq> IncompatibleArity)"
    by (auto simp: ann_def list_all_iff)
  have nil: "anchors = [] \<longleftrightarrow> ann = []" by (simp add: ann_def)
  show ?thesis
    unfolding f all E nil ann_def [symmetric] no_incompatible_ex
    using filter_unknown [of ann] s by (auto simp: fallback_def)
qed

end
