(* ===== verification/Call_Groups.thy ===== *)
theory Call_Groups
  imports Call_Grouping Callable_Pairing
begin

text \<open>
  What the grouping of \<open>call_catalog/grouping.rs\<close> promises: the groups partition the anchors of
  the request, and two anchors share a group only when they are proven counterparts.
\<close>

section \<open>Name buckets\<close>

lemma mset_concat_update:
  "distinct (map fst m) \<Longrightarrow>
     mset (concat (map snd (AList.update k (get_or [] m k @ [a]) m))) = add_mset a (mset (concat (map snd m)))"
proof (induction m)
  case (Cons p m)
  obtain k' v where p: "p = (k', v)" by fastforce
  show ?case
  proof (cases "k' = k")
    case True
    then show ?thesis by (simp add: p get_or_def)
  next
    case False
    with Cons p have "get_or [] (p # m) k = get_or [] m k" by (simp add: get_or_def)
    with False Cons p show ?thesis by simp
  qed
qed simp

lemma bucket_fold:
  assumes "distinct (map fst m)" "\<forall>(k, as) \<in> set m. as \<noteq> [] \<and> (\<forall>a \<in> set as. ca_name a = k)"
  defines "step \<equiv> \<lambda>a. entry_modify (ca_name a) [] (\<lambda>as. as @ [a])"
  shows "mset (concat (map snd (fold step anchors m))) = mset (concat (map snd m)) + mset anchors \<and>
    (\<forall>(k, as) \<in> set (fold step anchors m). as \<noteq> [] \<and> (\<forall>a \<in> set as. ca_name a = k))"
  using assms(1,2)
proof (induction anchors arbitrary: m)
  case (Cons a anchors)
  have s: "step a m = AList.update (ca_name a) (get_or [] m (ca_name a) @ [a]) m"
    by (simp add: step_def entry_modify_def get_or_def)
  have d: "distinct (map fst (step a m))" using Cons.prems(1) by (simp add: step_def)
  have "\<forall>(k, as) \<in> set (step a m). as \<noteq> [] \<and> (\<forall>a \<in> set as. ca_name a = k)"
  proof (intro ballI, clarify)
    fix k as assume "(k, as) \<in> set (step a m)"
    with d have "map_of (step a m) k = Some as" by simp
    then have "as = get_or [] m (ca_name a) @ [a] \<and> k = ca_name a \<or> map_of m k = Some as"
      by (auto simp: s split: if_splits)
    then show "as \<noteq> [] \<and> (\<forall>a \<in> set as. ca_name a = k)"
      using Cons.prems(2) by (fastforce simp: get_or_def split: option.splits dest!: map_of_SomeD)
  qed
  from Cons.IH [OF d this] mset_concat_update [OF Cons.prems(1)] show ?case by (simp add: s)
qed simp

lemma name_buckets_spec:
  "mset (concat (name_buckets anchors)) = mset anchors"
  "bucket \<in> set (name_buckets anchors) \<Longrightarrow> a \<in> set bucket \<Longrightarrow> b \<in> set bucket \<Longrightarrow> ca_name a = ca_name b"
proof -
  let ?m = "fold (\<lambda>a. entry_modify (ca_name a) [] (\<lambda>as. as @ [a])) anchors []"
  note f = bucket_fold [of "[]" anchors]
  have "mset (concat (map snd (sort_by c ?m))) = mset (concat (map snd ?m))" for c
    by (rule mset_concat_map_cong) simp
  with f show "mset (concat (name_buckets anchors)) = mset anchors"
    by (simp add: name_buckets_def btree_values_def)
  show "ca_name a = ca_name b" if "bucket \<in> set (name_buckets anchors)" "a \<in> set bucket" "b \<in> set bucket"
    using that f by (fastforce simp: name_buckets_def btree_values_def)
qed

section \<open>One bucket\<close>

lemma ra_anchor_resolved [simp]: "ra_anchor (resolved_anchor_for_relation_grouping a) = a"
  by (simp add: resolved_anchor_for_relation_grouping_def resolved_anchor_new_def Let_def split: prod.split)

text \<open>Proven counterparts: a source definition and a header declaration of one external function.\<close>

definition proven_counterparts :: "callable_anchor \<Rightarrow> callable_anchor \<Rightarrow> bool" where
  "proven_counterparts s h \<longleftrightarrow>
     ca_role s = Definition \<and> is_source_path (ca_path s) \<and>
     ca_role h = Declaration \<and> is_header_path (ca_path h) \<and>
     rv_strength (callable_relation s h True) = Proven"

lemma proven_mono:
  "rv_strength (callable_relation s h in_scope) = Proven \<Longrightarrow> in_scope \<and> rv_strength (callable_relation s h True) = Proven"
  by (auto simp: callable_relation_def relation_evidence_of_def Let_def split: if_splits)

definition good_group :: "bool \<Rightarrow> semantic_anchor_group \<Rightarrow> bool" where
  "good_group complete g \<longleftrightarrow>
     (\<exists>a. sg_variants g = [a]) \<or>
     complete \<and> \<not> sg_candidate_limited g \<and> (\<exists>s h. sg_variants g = [h, s] \<and> proven_counterparts s h)"

lemma counterpart_pair_proven:
  assumes "counterpart_pair resolved reach i j"
  shows "proven_counterparts (ra_anchor (resolved ! i)) (ra_anchor (resolved ! j))"
proof -
  from assms have "source_at resolved i" "header_at resolved j" "strict_edge (resolved ! i) (resolved ! j) reach"
    by (auto simp: counterpart_pair_def)
  then show ?thesis
    using proven_mono by (auto simp: proven_counterparts_def source_at_def header_at_def
        is_source_definition_def is_header_declaration_def strict_edge_def Let_def)
qed

lemma group_bucket_spec:
  obtains new where
    "gs_grouped (group_bucket incomplete bucket st) = gs_grouped st @ new"
    "mset (concat (map sg_variants new)) = mset bucket"
    "\<And>g. g \<in> set new \<Longrightarrow> good_group (\<not> incomplete) g \<and> set (sg_variants g) \<subseteq> set bucket"
proof -
  let ?resolved = "map resolved_anchor_for_relation_grouping bucket"
  define limited where "limited = budget_limited ?resolved st"
  obtain reach graph where
    R: "bucket_reach (\<not> incomplete \<and> \<not> limited) (source_paths_of ?resolved) (gs_graph st) = (reach, graph)"
    by fastforce
  define coverage where "coverage = bucket_coverage incomplete limited ?resolved reach"
  have G: "gs_grouped (group_bucket incomplete bucket st) = gs_grouped st @
      map (\<lambda>g. \<lparr> sg_variants = map ra_anchor (variants g), sg_candidate_limited = limited \<rparr>)
        (resolve_counterparts ?resolved reach coverage)"
    using R by (simp add: group_bucket_def limited_def coverage_def Let_def)
  have cov: "cc_truncated coverage = limited"
    "cc_incomplete_reason coverage = (if limited then Some CandidateBudget else if incomplete then Some CancelledQuery else None)"
    by (simp_all add: coverage_def bucket_coverage_def)
  define groups where "groups = resolve_counterparts ?resolved reach coverage"
  define new where "new = map (\<lambda>g. \<lparr> sg_variants = map ra_anchor (variants g), sg_candidate_limited = limited \<rparr>) groups"
  note spec = counterparts_spec [of ?resolved reach coverage, folded groups_def]
  have conc: "concat (map sg_variants new) = map ra_anchor (concat (map variants groups))"
    by (simp add: new_def comp_def map_concat)
  have m: "mset (concat (map sg_variants new)) = mset bucket"
  proof -
    have "mset (map ra_anchor (concat (map variants groups))) = mset (map ra_anchor ?resolved)"
      using spec by (metis mset_map)
    then show ?thesis unfolding conc by (simp add: comp_def)
  qed
  have good: "good_group (\<not> incomplete) g \<and> set (sg_variants g) \<subseteq> set bucket" if "g \<in> set new" for g
  proof
    from that obtain v where v: "v \<in> set groups"
      "g = \<lparr> sg_variants = map ra_anchor (variants v), sg_candidate_limited = limited \<rparr>"
      by (auto simp: new_def)
    show "good_group (\<not> incomplete) g"
    proof (cases "\<exists>a. variants v = [a]")
      case False
      with counterparts_shape [of v ?resolved reach coverage] v(1) obtain s h where p: "v = pair_group s h"
        by (auto simp: groups_def)
      with v(1) have "v \<in> {g \<in> set groups. vg_counterpart_evidence g = StrictOneToOne}"
        by (simp add: pair_evidence)
      with spec have c: "\<not> limited" "\<not> incomplete"
        "v \<in> {pair_group (?resolved ! i) (?resolved ! j) | i j. counterpart_pair ?resolved reach i j}"
        using cov by (auto split: if_splits)
      from c(3) obtain i j where "v = pair_group (?resolved ! i) (?resolved ! j)" "counterpart_pair ?resolved reach i j"
        by blast
      with counterpart_pair_proven [OF this(2)] c v(2) show ?thesis by (auto simp: good_group_def)
    qed (use v in \<open>auto simp: good_group_def\<close>)
    have "set (sg_variants g) \<subseteq> set (concat (map sg_variants new))" using that by auto
    also have "\<dots> = set bucket" using m by (metis set_mset_mset)
    finally show "set (sg_variants g) \<subseteq> set bucket" .
  qed
  from that [of new] G m good show ?thesis by (simp add: new_def groups_def)
qed

section \<open>All buckets\<close>

lemma fold_group_bucket:
  "\<exists>new. gs_grouped (fold (group_bucket incomplete) buckets st) = gs_grouped st @ new \<and>
     mset (concat (map sg_variants new)) = mset (concat buckets) \<and>
     (\<forall>g \<in> set new. good_group (\<not> incomplete) g \<and> (\<exists>bucket \<in> set buckets. set (sg_variants g) \<subseteq> set bucket))"
proof (induction buckets arbitrary: st)
  case (Cons bucket buckets)
  obtain new1 where 1: "gs_grouped (group_bucket incomplete bucket st) = gs_grouped st @ new1"
    "mset (concat (map sg_variants new1)) = mset bucket"
    "\<And>g. g \<in> set new1 \<Longrightarrow> good_group (\<not> incomplete) g \<and> set (sg_variants g) \<subseteq> set bucket"
    by (rule group_bucket_spec [of incomplete bucket st]) blast
  obtain new2 where 2:
    "gs_grouped (fold (group_bucket incomplete) buckets (group_bucket incomplete bucket st)) =
      gs_grouped (group_bucket incomplete bucket st) @ new2"
    "mset (concat (map sg_variants new2)) = mset (concat buckets)"
    "\<forall>g \<in> set new2. good_group (\<not> incomplete) g \<and> (\<exists>bucket \<in> set buckets. set (sg_variants g) \<subseteq> set bucket)"
    using Cons.IH by blast
  show ?case
    by (rule exI [of _ "new1 @ new2"]) (use 1 2 in auto)
qed simp

lemma groups_spec:
  "mset (concat (map sg_variants (semantic_anchor_groups anchors graph incomplete))) =
     mset (dedup_by same_anchor (sort_by anchor_key_cmp anchors))"
  "g \<in> set (semantic_anchor_groups anchors graph incomplete) \<Longrightarrow>
     good_group (\<not> incomplete) g \<and> (\<forall>a \<in> set (sg_variants g). \<forall>b \<in> set (sg_variants g). ca_name a = ca_name b)"
proof -
  let ?as = "dedup_by same_anchor (sort_by anchor_key_cmp anchors)"
  define st where "st = fold (group_bucket incomplete) (name_buckets ?as)
    \<lparr> gs_remaining_anchor_budget = STRICT_COUNTERPART_ANCHOR_BUDGET,
      gs_remaining_edge_budget = STRICT_COUNTERPART_EDGE_BUDGET, gs_graph = graph, gs_grouped = [] \<rparr>"
  have st: "mset (concat (map sg_variants (gs_grouped st))) = mset ?as"
    "\<And>g. g \<in> set (gs_grouped st) \<Longrightarrow> good_group (\<not> incomplete) g \<and>
       (\<exists>bucket \<in> set (name_buckets ?as). set (sg_variants g) \<subseteq> set bucket)"
    using fold_group_bucket [of incomplete "name_buckets ?as"] name_buckets_spec(1) [of ?as]
    unfolding st_def by (metis append_Nil grouping_state.select_convs(4))+
  have R: "\<exists>c. semantic_anchor_groups anchors graph incomplete = sort_by c (gs_grouped st)"
    by (auto simp: semantic_anchor_groups_def st_def Let_def)
  then obtain c where c: "semantic_anchor_groups anchors graph incomplete = sort_by c (gs_grouped st)" by blast
  show "mset (concat (map sg_variants (semantic_anchor_groups anchors graph incomplete))) = mset ?as"
    unfolding c st(1) [symmetric] by (rule mset_concat_map_cong) simp
  show "good_group (\<not> incomplete) g \<and> (\<forall>a \<in> set (sg_variants g). \<forall>b \<in> set (sg_variants g). ca_name a = ca_name b)"
    if "g \<in> set (semantic_anchor_groups anchors graph incomplete)"
    using that st(2) [of g] name_buckets_spec(2) unfolding c by (simp, blast)
qed

text \<open>C18. Grouping loses no anchor and joins only proven counterparts. The groups of a request partition its
  deduplicated anchors; a group is a single anchor, or a pair of a source definition and a header
  declaration of the same external function whose relation is proven, and pairs arise only
  when the request is complete and the bucket is within the budget.\<close>

theorem groups_join_only_counterparts:
  "mset (concat (map sg_variants (semantic_anchor_groups anchors graph incomplete))) =
     mset (dedup_by same_anchor (sort_by anchor_key_cmp anchors)) \<and>
   (\<forall>g. g \<in> set (semantic_anchor_groups anchors graph incomplete) \<longrightarrow>
      (\<exists>a. sg_variants g = [a]) \<or>
      \<not> incomplete \<and> \<not> sg_candidate_limited g \<and>
      (\<exists>s h. sg_variants g = [h, s] \<and> ca_name s = ca_name h \<and> proven_counterparts s h))"
proof -
  have "(\<exists>a. sg_variants g = [a]) \<or> \<not> incomplete \<and> \<not> sg_candidate_limited g \<and>
      (\<exists>s h. sg_variants g = [h, s] \<and> ca_name s = ca_name h \<and> proven_counterparts s h)"
    if "g \<in> set (semantic_anchor_groups anchors graph incomplete)" for g
  proof -
    note s = groups_spec(2) [OF that]
    then have "ca_name a = ca_name b" if "a \<in> set (sg_variants g)" "b \<in> set (sg_variants g)" for a b
      using that by blast
    with conjunct1 [OF s] show ?thesis unfolding good_group_def by (metis list.set_intros)
  qed
  then show ?thesis using groups_spec(1) [of anchors graph incomplete] by simp
qed

lemma length_dedup_from: "length (dedup_from s k xs) \<le> length xs"
  by (induction s k xs rule: dedup_from.induct) auto

lemma length_dedup_by: "length (dedup_by s xs) \<le> length xs"
  using length_dedup_from by (cases xs) auto

lemma group_nonempty:
  "g \<in> set (semantic_anchor_groups anchors graph incomplete) \<Longrightarrow> sg_variants g \<noteq> []"
  using groups_spec(2) [of g] unfolding good_group_def by auto

lemma length_concat_nonempty: "\<forall>x \<in> set xs. f x \<noteq> [] \<Longrightarrow> length xs \<le> length (concat (map f xs))"
proof (induction xs)
  case (Cons x xs)
  then have "length xs \<le> length (concat (map f xs))" "0 < length (f x)" by auto
  then have "Suc (length xs) \<le> length (f x) + length (concat (map f xs))" by linarith
  then show ?case by simp
qed simp

lemma length_groups: "length (semantic_anchor_groups anchors graph incomplete) \<le> length anchors"
proof -
  let ?g = "semantic_anchor_groups anchors graph incomplete"
  have "length ?g \<le> length (concat (map sg_variants ?g))"
    using group_nonempty by (intro length_concat_nonempty) blast
  also have "\<dots> = length (dedup_by same_anchor (sort_by anchor_key_cmp anchors))"
    using groups_spec(1) by (metis size_mset)
  also have "\<dots> \<le> length anchors"
    using length_dedup_by [of same_anchor "sort_by anchor_key_cmp anchors"] by simp
  finally show ?thesis .
qed

definition sample_anchor :: callable_anchor where
  "sample_anchor = \<lparr> ca_path = ''a.c'', ca_name = ''f'', ca_qualified_name = ''f'', ca_owner = None,
     ca_owner_kind = None, ca_kind = Function, ca_role = Definition, ca_linkage = ExternalLinkage,
     ca_signature = \<lparr> ss_normalized = ''(int)'', ss_min_arity = Some 1, ss_max_arity = Some 1, ss_variadic = False \<rparr>,
     ca_canonical_signature = ''void(int)'', ca_presentation_signature = ''void f(int)'',
     ca_signature_fidelity = AstExact, ca_name_range = zero_range, ca_declaration_range = zero_range,
     ca_body_range = Some zero_range, ca_guard = None, ca_provenance = Ast,
     ca_syntax_error_overlap = False, ca_entity_key = ''k'', ca_anchor_fingerprint = ''p'' \<rparr>"

lemma sample_groups:
  "semantic_anchor_groups [sample_anchor] None True =
     [\<lparr> sg_variants = [sample_anchor], sg_candidate_limited = False \<rparr>]"
  by (simp add: semantic_anchor_groups_def name_buckets_def btree_values_def entry_modify_def
      group_bucket_def budget_limited_def edge_cost_def bucket_reach_def bucket_coverage_def
      STRICT_COUNTERPART_ANCHOR_BUDGET_def STRICT_COUNTERPART_EDGE_BUDGET_def resolve_counterparts_def
      resolved_anchor_for_relation_grouping_def confidence_reason_for_def resolved_anchor_new_def
      source_paths_of_def sample_anchor_def singleton_group_def variants_def is_header_declaration_def
      is_source_definition_def Let_def)

theorem groups_join_only_counterparts_witness:
  "\<exists>g. g \<in> set (semantic_anchor_groups [sample_anchor] None True) \<and> (\<exists>a. sg_variants g = [a])"
  using groups_join_only_counterparts [of "[sample_anchor]" None True] sample_groups
  by (metis list.set_intros(1))

end
