(* ===== verification/Call_Relations.thy ===== *)
theory Call_Relations
  imports Call_Catalog Call_Groups
begin

text \<open>
  What the relation index holds: its relations are the call edges of the request grouped by
  key, its directories list exactly the relations of an entity, its pages cut the ordered
  relations without gap or overlap, every id it stores is in range, and its groups join
  only proven counterparts.
\<close>

section \<open>Call edges\<close>

type_synonym call_edge = "compact_relation_key \<times> nat \<times> evidence_bits"

text \<open>The specification of the relation loop: the edges of one call site.\<close>

definition call_edges :: "relation_query_index \<Rightarrow> nat \<Rightarrow> call_edge list" where
  "call_edges x c =
     (case resolve_caller x c of
        None \<Rightarrow> []
      | Some caller \<Rightarrow>
          (let cands = resolve_call x c; ambiguous = length cands > 1
           in if cands = [] then
                [(\<lparr> rk_caller = caller, rk_callee = None, rk_confidence = Unresolved,
                    rk_ambiguity_site = None \<rparr>, c, unresolved_evidence (qx_call_sites x ! c))]
              else
                map (\<lambda>(callee, ev).
                  (\<lparr> rk_caller = caller, rk_callee = Some callee,
                     rk_confidence = (if ambiguous then AmbiguousRelation else confidence ev),
                     rk_ambiguity_site = (if ambiguous then Some c else None) \<rparr>, c, ev)) cands))"

definition all_edges :: "relation_query_index \<Rightarrow> call_edge list" where
  "all_edges x = concat (map (call_edges x) [0..<length (qx_call_sites x)])"

definition record_edge :: "call_edge \<Rightarrow> relation_state \<Rightarrow> relation_state option" where
  "record_edge e st = record_relation (fst e) (fst (snd e)) (snd (snd e)) st"

lemma relate_call_edges:
  "relate_call x c st = (if c < 2 ^ 32 then ofold record_edge (call_edges x c) st else None)"
proof (cases "resolve_caller x c")
  case (Some caller)
  show ?thesis
  proof (cases "resolve_call x c = []")
    case True
    with Some show ?thesis
      by (simp add: relate_call_def call_edges_def compact_id_def record_edge_def Let_def)
  next
    case False
    have "(\<lambda>(callee, ev). record_relation
        \<lparr> rk_caller = caller, rk_callee = Some callee,
          rk_confidence = (if 1 < length (resolve_call x c) then AmbiguousRelation else confidence ev),
          rk_ambiguity_site = (if 1 < length (resolve_call x c) then Some c else None) \<rparr> c ev) =
      record_edge \<circ> (\<lambda>(callee, ev).
        (\<lparr> rk_caller = caller, rk_callee = Some callee,
           rk_confidence = (if 1 < length (resolve_call x c) then AmbiguousRelation else confidence ev),
           rk_ambiguity_site = (if 1 < length (resolve_call x c) then Some c else None) \<rparr>, c, ev))"
      by (auto simp: record_edge_def fun_eq_iff)
    with Some False show ?thesis
      by (simp add: relate_call_def call_edges_def compact_id_def Let_def ofold_map)
  qed
qed (simp add: relate_call_def call_edges_def compact_id_def)

lemma relate_calls_edges:
  "ofold (relate_call x) cs st = Some st' \<Longrightarrow> ofold record_edge (concat (map (call_edges x) cs)) st = Some st'"
  by (induction cs arbitrary: st)
    (auto simp: relate_call_edges ofold_append bind_eq_Some_conv split: if_splits)

section \<open>Grouping edges into relations\<close>

definition edges_of :: "compact_relation_key \<Rightarrow> call_edge list \<Rightarrow> call_edge list" where
  "edges_of k es = filter (\<lambda>e. fst e = k) es"

definition builder_holds :: "call_edge list \<Rightarrow> relation_builder \<Rightarrow> bool" where
  "builder_holds es b \<longleftrightarrow>
     (\<exists>e rest. edges_of (rb_key b) es = e # rest \<and>
        rb_first_call_site b = fst (snd e) \<and> rb_additional_call_sites b = map (fst \<circ> snd) rest \<and>
        rb_evidence b = foldl merge (snd (snd e)) (map (snd \<circ> snd) rest))"

definition grouped :: "call_edge list \<Rightarrow> relation_state \<Rightarrow> bool" where
  "grouped es st \<longleftrightarrow>
     (\<forall>k i. map_of (fst st) k = Some i \<longleftrightarrow> i < length (snd st) \<and> rb_key (snd st ! i) = k) \<and>
     (\<forall>b \<in> set (snd st). builder_holds es b) \<and>
     rb_key ` set (snd st) = fst ` set es"

lemma edges_of_snoc [simp]:
  "edges_of k (es @ [e]) = (if fst e = k then edges_of k es @ [e] else edges_of k es)"
  by (simp add: edges_of_def)

lemma builder_holds_other:
  "builder_holds es b \<Longrightarrow> fst e \<noteq> rb_key b \<Longrightarrow> builder_holds (es @ [e]) b"
  by (auto simp: builder_holds_def)

lemma builder_holds_extend:
  assumes "builder_holds es b" "fst e = rb_key b"
  shows "builder_holds (es @ [e]) (b\<lparr> rb_additional_call_sites := rb_additional_call_sites b @ [fst (snd e)],
    rb_evidence := merge (rb_evidence b) (snd (snd e)) \<rparr>)"
  using assms by (auto simp: builder_holds_def)

lemma builder_holds_new:
  "fst e \<notin> fst ` set es \<Longrightarrow>
     builder_holds (es @ [e]) \<lparr> rb_key = fst e, rb_first_call_site = fst (snd e),
       rb_additional_call_sites = [], rb_evidence = snd (snd e) \<rparr>"
proof -
  assume "fst e \<notin> fst ` set es"
  then have "edges_of (fst e) es = []" by (auto simp: edges_of_def filter_empty_conv image_iff)
  then show ?thesis by (simp add: builder_holds_def)
qed

lemma grouped_keys:
  assumes "grouped es st"
  shows "map_of (fst st) k = None \<longleftrightarrow> k \<notin> fst ` set es"
proof -
  have "fst ` set es = rb_key ` set (snd st)" using assms by (simp add: grouped_def)
  then have "k \<in> fst ` set es \<longleftrightarrow> (\<exists>i < length (snd st). rb_key (snd st ! i) = k)"
    by (metis (no_types, lifting) image_iff in_set_conv_nth)
  moreover have "map_of (fst st) k = Some i \<longleftrightarrow> i < length (snd st) \<and> rb_key (snd st ! i) = k" for i
    using assms by (simp add: grouped_def)
  ultimately show ?thesis by (metis not_None_eq)
qed

lemma grouped_step:
  assumes g: "grouped es st" and r: "record_edge e st = Some st'"
  shows "grouped (es @ [e]) st'"
proof -
  obtain m bs where st: "st = (m, bs)" by fastforce
  have M: "map_of m k = Some i \<longleftrightarrow> i < length bs \<and> rb_key (bs ! i) = k" for k i
    using g st by (simp add: grouped_def)
  have B: "builder_holds es b" if "b \<in> set bs" for b using g st that by (simp add: grouped_def)
  have K: "rb_key ` set bs = fst ` set es" using g st by (simp add: grouped_def)
  show ?thesis
  proof (cases "map_of m (fst e)")
    case None
    with r st have st': "st' = (AList.update (fst e) (length bs) m,
        bs @ [\<lparr> rb_key = fst e, rb_first_call_site = fst (snd e), rb_additional_call_sites = [],
                rb_evidence = snd (snd e) \<rparr>])"
      by (auto simp: record_edge_def record_relation_def compact_id_def split: if_splits)
    have new: "fst e \<notin> fst ` set es" using None grouped_keys [OF g] st by simp
    then have "rb_key b \<noteq> fst e" if "b \<in> set bs" for b
      using that K by (metis image_eqI)
    then have "\<forall>b \<in> set bs. builder_holds (es @ [e]) b" using B builder_holds_other by metis
    moreover have "(map_of (fst st') k = Some i) = (i < length (snd st') \<and> rb_key (snd st' ! i) = k)" for k i
      using M None st' \<open>\<And>b. b \<in> set bs \<Longrightarrow> rb_key b \<noteq> fst e\<close>
      by (auto simp: nth_append less_Suc_eq)
    ultimately show ?thesis
      using K st' builder_holds_new [OF new] by (auto simp: grouped_def)
  next
    case (Some i)
    with M have i: "i < length bs" "rb_key (bs ! i) = fst e" by auto
    define b where "b = (bs ! i)\<lparr> rb_additional_call_sites := rb_additional_call_sites (bs ! i) @ [fst (snd e)],
        rb_evidence := merge (rb_evidence (bs ! i)) (snd (snd e)) \<rparr>"
    from r st Some have st': "st' = (m, bs[i := b])"
      by (simp add: record_edge_def record_relation_def b_def)
    have keys: "rb_key (bs[i := b] ! j) = rb_key (bs ! j)" for j
      by (cases "j = i") (use i in \<open>auto simp: b_def\<close>)
    have "builder_holds (es @ [e]) (bs[i := b] ! j)" if "j < length bs" for j
    proof (cases "j = i")
      case True
      with i B builder_holds_extend [of es "bs ! i" e] show ?thesis by (simp add: b_def)
    next
      case False
      have "rb_key (bs ! j) \<noteq> fst e"
      proof
        assume "rb_key (bs ! j) = fst e"
        with M [of "fst e" j] that have "map_of m (fst e) = Some j" by simp
        with Some False show False by simp
      qed
      with False that B builder_holds_other [of es "bs ! j" e] show ?thesis by simp
    qed
    then have "\<forall>b' \<in> set (bs[i := b]). builder_holds (es @ [e]) b'"
      by (metis in_set_conv_nth length_list_update)
    moreover have "map rb_key (bs[i := b]) = map rb_key bs" by (rule nth_equalityI) (simp_all add: keys)
    then have "rb_key ` set (bs[i := b]) = fst ` set (es @ [e])"
      using K i by (metis (no_types, lifting) Un_insert_right image_insert image_set insert_absorb
          insert_iff list.simps(15) nth_mem rev_image_eqI set_append set_empty2 sup_bot_right)
    ultimately show ?thesis using M keys st' by (simp add: grouped_def)
  qed
qed

lemma grouped_all: "ofold record_edge es ([], []) = Some st \<Longrightarrow> grouped es st"
  by (erule ofold_invariant [where I = grouped]) (simp add: grouped_def, rule grouped_step)

lemma grouped_distinct:
  assumes "grouped es (m, bs)"
  shows "distinct (map rb_key bs)"
  unfolding distinct_conv_nth
proof (intro allI impI)
  fix i j assume "i < length (map rb_key bs)" "j < length (map rb_key bs)" "i \<noteq> j"
  with assms show "map rb_key bs ! i \<noteq> map rb_key bs ! j"
    unfolding grouped_def fst_conv snd_conv length_map by (metis nth_map option.inject)
qed

section \<open>The flat relation table\<close>

definition builder_calls :: "relation_builder \<Rightarrow> nat list" where
  "builder_calls b = rb_first_call_site b # rb_additional_call_sites b"

definition relation_of_builder :: "relation_builder list \<Rightarrow> nat \<Rightarrow> compact_relation" where
  "relation_of_builder bs i =
     \<lparr> cr_key = rb_key (bs ! i),
       cr_call_site_start = length (concat (map builder_calls (take i bs))),
       cr_call_site_len = length (builder_calls (bs ! i)), cr_evidence = rb_evidence (bs ! i) \<rparr>"

lemma relation_of_builder_snoc:
  "i < length bs \<Longrightarrow> relation_of_builder (bs @ [b]) i = relation_of_builder bs i"
  by (simp add: relation_of_builder_def nth_append)

lemma flatten_builders:
  assumes "ofold flatten_builder bs ([], []) = Some (relations, sites)"
  shows "sites = concat (map builder_calls bs) \<and>
    relations = map (relation_of_builder bs) [0..<length bs]"
proof -
  define I where "I = (\<lambda>bs st. snd st = concat (map builder_calls bs) \<and>
    fst st = map (relation_of_builder bs) [0..<length bs])"
  have "I bs (relations, sites)"
  proof (rule ofold_invariant [OF assms])
    show "I [] ([], [])" by (simp add: I_def)
  next
    fix bs b st st'
    assume i: "I bs st" and f: "flatten_builder b st = Some st'"
    have "map (relation_of_builder (bs @ [b])) [0..<length bs] = map (relation_of_builder bs) [0..<length bs]"
      by (simp add: relation_of_builder_snoc)
    with i f show "I (bs @ [b]) st'"
      by (auto simp: I_def flatten_builder_def compact_id_def relation_of_builder_def [of "bs @ [b]" "length bs"]
          builder_calls_def bind_eq_Some_conv split: if_splits prod.splits)
  qed
  then show ?thesis by (simp add: I_def)
qed

lemma concat_slice:
  "i < length xs \<Longrightarrow>
     take (length (f (xs ! i))) (drop (length (concat (map f (take i xs)))) (concat (map f xs))) = f (xs ! i)"
proof -
  assume i: "i < length xs"
  have "concat (map f xs) = concat (map f (take i xs)) @ f (xs ! i) @ concat (map f (drop (Suc i) xs))"
    using id_take_nth_drop [OF i] by (metis concat.simps(2) concat_append list.map(2) map_append)
  then show ?thesis by simp
qed

section \<open>Directories\<close>

lemma get_or_push_id [simp]:
  "get_or [] (push_id k i m) k' = (if k' = k then get_or [] m k @ [i] else get_or [] m k')"
  by (simp add: push_id_def)

lemma link_relations_lists:
  "link_relations n rs st = Some st' \<Longrightarrow>
     get_or [] (fst st') e = get_or [] (fst st) e @
       map fst (filter (\<lambda>(i, r). rk_caller (cr_key r) = e) (enumerate n rs)) \<and>
     get_or [] (snd st') e = get_or [] (snd st) e @
       map fst (filter (\<lambda>(i, r). rk_callee (cr_key r) = Some e) (enumerate n rs))"
  by (induction n rs st rule: link_relations.induct)
    (auto simp: compact_id_def bind_eq_Some_conv split: if_splits option.splits)

lemma enumerate_filter:
  "map fst (filter (\<lambda>(i, r). P r) (enumerate 0 rs)) = filter (\<lambda>i. P (rs ! i)) [0..<length rs]"
proof (induction rs rule: rev_induct)
  case (snoc r rs)
  have "filter (\<lambda>i. P ((rs @ [r]) ! i)) [0..<length rs] = filter (\<lambda>i. P (rs ! i)) [0..<length rs]"
    by (rule filter_cong) (auto simp: nth_append)
  with snoc show ?case by (simp add: enumerate_append_eq)
qed simp

lemma get_or_map_values_sort [simp]:
  "mset (get_or [] (map_values (sort_by c) m) k) = mset (get_or [] m k)"
  by (simp add: get_or_def split: option.split)

section \<open>The built index\<close>

lemma resolve_ignores_relations:
  "resolve_caller (x\<lparr> qx_relations := a, qx_relation_call_sites := b, qx_outgoing := c, qx_incoming := d \<rparr>) =
     resolve_caller x"
  "resolve_call (x\<lparr> qx_relations := a, qx_relation_call_sites := b, qx_outgoing := c, qx_incoming := d \<rparr>) =
     resolve_call x"
  by (simp_all add: resolve_caller_def resolve_call_def fun_eq_iff Let_def cong: option.case_cong if_cong)

lemma all_edges_ignores_relations:
  "all_edges (x\<lparr> qx_relations := a, qx_relation_call_sites := b, qx_outgoing := c, qx_incoming := d \<rparr>) =
     all_edges x"
proof -
  have "call_edges (x\<lparr> qx_relations := a, qx_relation_call_sites := b, qx_outgoing := c, qx_incoming := d \<rparr>) =
      call_edges x"
    by (rule ext) (simp add: call_edges_def resolve_ignores_relations Let_def cong: option.case_cong if_cong)
  then show ?thesis by (simp add: all_edges_def)
qed

text \<open>The evidence masks of one class, and their union over the edges of a relation.\<close>

lemma foldl_merge_codes:
  "codes_of (eb_supports (foldl merge ev evs)) = (\<Union>e \<in> set (ev # evs). codes_of (eb_supports e))"
  "codes_of (eb_contradictions (foldl merge ev evs)) = (\<Union>e \<in> set (ev # evs). codes_of (eb_contradictions e))"
  "codes_of (eb_unknowns (foldl merge ev evs)) = (\<Union>e \<in> set (ev # evs). codes_of (eb_unknowns e))"
  by (induction evs arbitrary: ev) (auto simp: merge_def)

definition relation_calls :: "relation_query_index \<Rightarrow> compact_relation \<Rightarrow> nat list" where
  "relation_calls x r =
     take (cr_call_site_len r) (drop (cr_call_site_start r) (qx_relation_call_sites x))"

lemma relate_calls_correct:
  assumes "relate_calls x0 = Some x"
  shows "distinct (map cr_key (qx_relations x))"
    and "cr_key ` set (qx_relations x) = fst ` set (all_edges x)"
    and "\<And>r. r \<in> set (qx_relations x) \<Longrightarrow>
      relation_calls x r = map (fst \<circ> snd) (edges_of (cr_key r) (all_edges x)) \<and>
      codes_of (eb_supports (cr_evidence r)) =
        (\<Union>e \<in> set (edges_of (cr_key r) (all_edges x)). codes_of (eb_supports (snd (snd e)))) \<and>
      codes_of (eb_unknowns (cr_evidence r)) =
        (\<Union>e \<in> set (edges_of (cr_key r) (all_edges x)). codes_of (eb_unknowns (snd (snd e))))"
    and "\<And>r. r \<in> set (qx_relations x) \<Longrightarrow> cr_call_site_len r = length (relation_calls x r)"
    and "\<And>e. mset (get_or [] (qx_outgoing x) e) =
      mset (filter (\<lambda>i. rk_caller (cr_key (qx_relations x ! i)) = e) [0..<length (qx_relations x)])"
    and "\<And>e. mset (get_or [] (qx_incoming x) e) =
      mset (filter (\<lambda>i. rk_callee (cr_key (qx_relations x ! i)) = Some e) [0..<length (qx_relations x)])"
proof -
  from assms obtain m bs relations sites out inc where
    1: "ofold (relate_call x0) [0..<length (qx_call_sites x0)] ([], []) = Some (m, bs)" and
    2: "ofold flatten_builder bs ([], []) = Some (relations, sites)" and
    3: "link_relations 0 relations ([], []) = Some (out, inc)" and
    x: "x = x0\<lparr> qx_relations := relations, qx_relation_call_sites := sites,
      qx_outgoing := map_values (sort_by (relation_order (qx_entities x0) relations)) out,
      qx_incoming := map_values (sort_by (relation_order (qx_entities x0) relations)) inc \<rparr>"
    by (auto simp: relate_calls_def bind_eq_Some_conv)
  have g: "grouped (all_edges x0) (m, bs)"
    using grouped_all relate_calls_edges [OF 1] by (simp add: all_edges_def)
  have es: "all_edges x = all_edges x0" unfolding x by (rule all_edges_ignores_relations)
  note fl = flatten_builders [OF 2]
  have keys: "map cr_key relations = map rb_key bs"
    using fl by (auto simp: relation_of_builder_def intro: nth_equalityI)
  note grouped_distinct [OF g]
  with keys show "distinct (map cr_key (qx_relations x))" by (simp add: x)
  have "cr_key ` set relations = rb_key ` set bs" using keys by (metis list.set_map)
  with g show "cr_key ` set (qx_relations x) = fst ` set (all_edges x)" by (simp add: es) (simp add: x grouped_def)
  have rel: "\<exists>b \<in> set bs. cr_key r = rb_key b \<and> cr_evidence r = rb_evidence b \<and>
      relation_calls x r = builder_calls b \<and> cr_call_site_len r = length (builder_calls b)"
    if "r \<in> set (qx_relations x)" for r
  proof -
    from that x fl obtain i where i: "i < length bs" "r = relation_of_builder bs i" by auto
    with concat_slice [OF i(1), of builder_calls] fl
    show ?thesis by (intro bexI [of _ "bs ! i"]) (simp_all add: x relation_calls_def relation_of_builder_def)
  qed
  show "relation_calls x r = map (fst \<circ> snd) (edges_of (cr_key r) (all_edges x)) \<and>
      codes_of (eb_supports (cr_evidence r)) =
        (\<Union>e \<in> set (edges_of (cr_key r) (all_edges x)). codes_of (eb_supports (snd (snd e)))) \<and>
      codes_of (eb_unknowns (cr_evidence r)) =
        (\<Union>e \<in> set (edges_of (cr_key r) (all_edges x)). codes_of (eb_unknowns (snd (snd e))))"
    if "r \<in> set (qx_relations x)" for r
  proof -
    from rel [OF that] obtain b where b: "b \<in> set bs" "cr_key r = rb_key b" "cr_evidence r = rb_evidence b"
      "relation_calls x r = builder_calls b" by blast
    from g b(1) obtain e rest where "edges_of (rb_key b) (all_edges x) = e # rest"
      "rb_first_call_site b = fst (snd e)" "rb_additional_call_sites b = map (fst \<circ> snd) rest"
      "rb_evidence b = foldl merge (snd (snd e)) (map (snd \<circ> snd) rest)"
      unfolding grouped_def builder_holds_def es by auto
    with b show ?thesis by (simp add: builder_calls_def foldl_merge_codes)
  qed
  show "cr_call_site_len r = length (relation_calls x r)" if "r \<in> set (qx_relations x)" for r
    using rel [OF that] by auto
  note ln = link_relations_lists [OF 3]
  show "mset (get_or [] (qx_outgoing x) e) =
      mset (filter (\<lambda>i. rk_caller (cr_key (qx_relations x ! i)) = e) [0..<length (qx_relations x)])" for e
    using ln [of e] by (simp add: x enumerate_filter)
  show "mset (get_or [] (qx_incoming x) e) =
      mset (filter (\<lambda>i. rk_callee (cr_key (qx_relations x ! i)) = Some e) [0..<length (qx_relations x)])" for e
    using ln [of e] by (simp add: x enumerate_filter)
qed

lemma from_stored_facts_relate:
  assumes "from_stored_facts hash_hex anchors strings call_sites coverage graph incomplete recall_limited = Some x"
  obtains x0 where "relate_calls x0 = Some x"
    "entity_index hash_hex anchors strings call_sites coverage graph incomplete recall_limited = Some x0"
  using assms by (auto simp: from_stored_facts_def bind_eq_Some_conv)

text \<open>C17. The relations of a built index are its call edges, grouped by key and nothing else. Each call site
  whose caller resolves gives one edge per candidate, or one unresolved edge; there is exactly one
  relation per key of an edge; its call sites are those of the edges with that key, in call
  order; its evidence is the union of theirs; and the two directories list, for every entity,
  exactly the relations it is the caller or the callee of.\<close>

theorem index_relations_exact:
  assumes "from_stored_facts hash_hex anchors strings call_sites coverage graph incomplete recall_limited = Some x"
  shows "distinct (map cr_key (qx_relations x)) \<and>
    cr_key ` set (qx_relations x) = fst ` set (all_edges x) \<and>
    (\<forall>r \<in> set (qx_relations x).
       relation_calls x r = map (fst \<circ> snd) (edges_of (cr_key r) (all_edges x)) \<and>
       codes_of (eb_supports (cr_evidence r)) =
         (\<Union>e \<in> set (edges_of (cr_key r) (all_edges x)). codes_of (eb_supports (snd (snd e)))) \<and>
       codes_of (eb_unknowns (cr_evidence r)) =
         (\<Union>e \<in> set (edges_of (cr_key r) (all_edges x)). codes_of (eb_unknowns (snd (snd e))))) \<and>
    (\<forall>e. mset (get_or [] (qx_outgoing x) e) =
       mset (filter (\<lambda>i. rk_caller (cr_key (qx_relations x ! i)) = e) [0..<length (qx_relations x)])) \<and>
    (\<forall>e. mset (get_or [] (qx_incoming x) e) =
       mset (filter (\<lambda>i. rk_callee (cr_key (qx_relations x ! i)) = Some e) [0..<length (qx_relations x)]))"
proof -
  obtain x0 where "relate_calls x0 = Some x" using from_stored_facts_relate [OF assms] .
  note c = relate_calls_correct [OF this]
  show ?thesis using c(1,2,3,5,6) by blast
qed

section \<open>Pages\<close>

definition entity_relations :: "relation_query_index \<Rightarrow> relation_direction \<Rightarrow> nat \<Rightarrow> nat list" where
  "entity_relations x dir i =
     (case dir of Outgoing \<Rightarrow> get_or [] (qx_outgoing x) i | Incoming \<Rightarrow> get_or [] (qx_incoming x) i)"

lemma page_relations:
  assumes "map_of (qx_entity_by_key x) key = Some i"
  shows "pg_relations (relation_page x dir key cursor limit sites) =
      map (\<lambda>r. fst (materialize_relation x r dir sites)) (take limit (drop cursor (entity_relations x dir i)))"
    and "pg_total (relation_page x dir key cursor limit sites) = length (entity_relations x dir i)"
    and "pg_site_limited (relation_page x dir key cursor limit sites) =
      list_ex (\<lambda>r. snd (materialize_relation x r dir sites)) (take limit (drop cursor (entity_relations x dir i)))"
  using assms by (simp_all add: relation_page_def entity_relations_def Let_def comp_def list_ex_iff)

lemma materialize_unlimited:
  assumes "\<not> snd (materialize_relation x r dir sites)" "sites \<le> sites'"
  shows "materialize_relation x r dir sites' = materialize_relation x r dir sites"
proof -
  have "min (cr_call_site_len (qx_relations x ! r)) sites' = min (cr_call_site_len (qx_relations x ! r)) sites"
    using assms by (simp add: materialize_relation_def Let_def)
  then show ?thesis by (simp add: materialize_relation_def Let_def)
qed

text \<open>C21. Paging an entity's relations neither skips nor repeats any. Two consecutive pages together are
  the page of their combined size, a page holds exactly what is left after its cursor up to its
  limit, the total is the number of relations of the entity whatever the page, an unknown
  entity has none, and a page that is not marked as limited in call sites shows all of them: a
  larger site limit gives the same page.\<close>

theorem relation_pages_tile:
  "pg_relations (relation_page x dir key cursor (n + m) sites) =
     pg_relations (relation_page x dir key cursor n sites) @
     pg_relations (relation_page x dir key (cursor + n) m sites) \<and>
   length (pg_relations (relation_page x dir key cursor n sites)) =
     min n (pg_total (relation_page x dir key cursor n sites) - cursor) \<and>
   pg_total (relation_page x dir key cursor n sites) =
     (case map_of (qx_entity_by_key x) key of None \<Rightarrow> 0 | Some i \<Rightarrow> length (entity_relations x dir i)) \<and>
   (\<not> pg_site_limited (relation_page x dir key cursor n sites) \<longrightarrow>
      relation_page x dir key cursor n (sites + extra) = relation_page x dir key cursor n sites)"
proof (cases "map_of (qx_entity_by_key x) key")
  case None
  then show ?thesis by (simp add: relation_page_def)
next
  case (Some i)
  have "relation_page x dir key cursor n (sites + extra) = relation_page x dir key cursor n sites"
    if "\<not> pg_site_limited (relation_page x dir key cursor n sites)"
  proof -
    from that have "\<forall>r \<in> set (take n (drop cursor (entity_relations x dir i))).
        materialize_relation x r dir (sites + extra) = materialize_relation x r dir sites"
      unfolding page_relations [OF Some] list_ex_iff by (auto intro!: materialize_unlimited)
    then show ?thesis
      using Some by (simp add: relation_page_def entity_relations_def Let_def cong: map_cong)
  qed
  with Some show ?thesis
    by (simp add: page_relations [OF Some] take_add min.commute add.commute [of cursor n])
qed

section \<open>The construction panics only at its limits\<close>

definition entity_count_ok :: "semantic_anchor_group list \<Rightarrow> entity_tables \<Rightarrow> bool" where
  "entity_count_ok pre t \<longleftrightarrow>
     length (et_entities t) = length pre \<and> (\<forall>n. length (get_or [] (et_by_name t) n) \<le> length pre)"

lemma dedup_by_Nil_iff [simp]: "dedup_by s xs = [] \<longleftrightarrow> xs = []"
  by (cases xs) auto

lemma add_group_total:
  assumes "entity_count_ok pre t" "length pre < 2 ^ 32" "sg_variants g \<noteq> []"
  shows "\<exists>t'. add_group hash_hex counts limited g t = Some t' \<and> entity_count_ok (pre @ [g]) t'"
proof -
  have le: "length (get_or [] (et_by_name t) n) \<le> Suc (length pre)" for n
    using assms(1) by (simp add: entity_count_ok_def le_SucI)
  obtain p vs where "dedup_by same_anchor (sort_by primary_anchor_cmp (sg_variants g)) = p # vs"
    using assms(3) by (metis dedup_by_Nil_iff neq_Nil_conv sort_by_Nil_iff)
  with assms(1,2) le show ?thesis
    by (auto simp: add_group_def insert_entity_def entity_count_ok_def compact_id_def Let_def)
qed

lemma entity_tables_total:
  assumes "length groups \<le> 2 ^ 32" "\<And>g. g \<in> set groups \<Longrightarrow> sg_variants g \<noteq> []"
  shows "\<exists>t. ofold (add_group hash_hex counts limited) groups empty_tables = Some t \<and> entity_count_ok groups t"
  using assms
  by (intro ofold_total add_group_total)
    (auto simp: entity_count_ok_def empty_tables_def)

lemma enumerate_calls_total:
  "n + length calls \<le> 2 ^ 32 \<Longrightarrow> \<exists>m'. enumerate_calls n calls m = Some m'"
  by (induction n calls m rule: enumerate_calls.induct) (auto simp: compact_id_def)

lemma record_edge_total:
  assumes "length (snd st) < 2 ^ 32"
  shows "\<exists>st'. record_edge e st = Some st' \<and> length (snd st') \<le> Suc (length (snd st))"
  using assms by (auto simp: record_edge_def record_relation_def compact_id_def split: prod.split option.split)

lemma record_edges_total:
  assumes "length (snd st) + length es \<le> 2 ^ 32"
  shows "\<exists>st'. ofold record_edge es st = Some st' \<and> length (snd st') \<le> length (snd st) + length es"
proof (rule ofold_total [where I = "\<lambda>pre st'. length (snd st') \<le> length (snd st) + length pre"])
  fix pre e rest and st' :: relation_state
  assume "es = pre @ e # rest" "length (snd st') \<le> length (snd st) + length pre"
  moreover from this assms have "length (snd st') < 2 ^ 32" by simp
  ultimately show "\<exists>s'. record_edge e st' = Some s' \<and> length (snd s') \<le> length (snd st) + length (pre @ [e])"
    using record_edge_total [of st' e] by fastforce
qed simp

lemma relate_all_total:
  assumes "length (concat (map (call_edges x) cs)) \<le> 2 ^ 32" "\<forall>c \<in> set cs. c < 2 ^ 32"
  shows "ofold (relate_call x) cs ([], []) = ofold record_edge (concat (map (call_edges x) cs)) ([], [])"
proof -
  have "\<forall>c \<in> set cs. c < 2 ^ 32 \<Longrightarrow>
    ofold (relate_call x) cs st = ofold record_edge (concat (map (call_edges x) cs)) st" for cs st
  proof (induction cs arbitrary: st)
    case (Cons c cs)
    then have "ofold (relate_call x) cs = ofold record_edge (concat (map (call_edges x) cs))"
      by (intro ext) simp
    moreover have "relate_call x c st = ofold record_edge (call_edges x c) st"
      using Cons.prems by (simp add: relate_call_edges)
    ultimately show ?case by (simp add: ofold_append)
  qed simp
  with assms(2) show ?thesis by blast
qed

lemma link_relations_total:
  "n + length rs \<le> 2 ^ 32 \<Longrightarrow> \<exists>st'. link_relations n rs st = Some st'"
  by (induction n rs st rule: link_relations.induct) (auto simp: compact_id_def)

lemma flatten_total:
  assumes "length (concat (map builder_calls bs)) < 2 ^ 32"
  shows "\<exists>st. ofold flatten_builder bs ([], []) = Some st \<and> length (fst st) = length bs"
proof -
  have "\<exists>st. ofold flatten_builder bs ([], []) = Some st \<and>
      length (fst st) = length bs \<and> snd st = concat (map builder_calls bs)"
  proof (rule ofold_total [where I = "\<lambda>pre st. length (fst st) = length pre \<and>
      snd st = concat (map builder_calls pre)"])
    fix pre b rest and st :: "compact_relation list \<times> nat list"
    assume bs: "bs = pre @ b # rest" and st: "length (fst st) = length pre \<and> snd st = concat (map builder_calls pre)"
    have "length (concat (map builder_calls pre)) + length (builder_calls b) < 2 ^ 32"
      using assms bs by simp
    with st show "\<exists>st'. flatten_builder b st = Some st' \<and> length (fst st') = length (pre @ [b]) \<and>
        snd st' = concat (map builder_calls (pre @ [b]))"
      by (auto simp: flatten_builder_def compact_id_def builder_calls_def split: prod.split)
  qed simp
  then show ?thesis by blast
qed

lemma sum_length_filter_keys:
  "finite A \<Longrightarrow> f ` set xs \<subseteq> A \<Longrightarrow> (\<Sum>k\<in>A. length (filter (\<lambda>x. f x = k) xs)) = length xs"
proof (induction xs)
  case (Cons x xs)
  have "(\<Sum>k\<in>A. length (filter (\<lambda>y. f y = k) (x # xs))) =
      (\<Sum>k\<in>A. (if k = f x then 1 else 0) + length (filter (\<lambda>y. f y = k) xs))"
    by (rule sum.cong) auto
  also have "\<dots> = 1 + length xs" using Cons by (simp add: sum.distrib)
  finally show ?case by simp
qed simp
lemma length_builder_calls:
  assumes "grouped es (m, bs)"
  shows "length (concat (map builder_calls bs)) = length es"
proof -
  note d = grouped_distinct [OF assms]
  have b: "length (builder_calls b) = length (edges_of (rb_key b) es)" if "b \<in> set bs" for b
    using assms that by (auto simp: grouped_def builder_holds_def builder_calls_def)
  have "length (concat (map builder_calls bs)) = (\<Sum>b\<leftarrow>bs. length (edges_of (rb_key b) es))"
    using b by (simp add: length_concat comp_def cong: map_cong)
  also have "\<dots> = (\<Sum>k\<leftarrow>map rb_key bs. length (filter (\<lambda>e. fst e = k) es))"
    by (simp add: edges_of_def comp_def)
  also have "\<dots> = (\<Sum>k\<in>set (map rb_key bs). length (filter (\<lambda>e. fst e = k) es))"
    using d by (rule sum_list_distinct_conv_sum_set)
  also have "set (map rb_key bs) = fst ` set es" using assms by (simp add: grouped_def)
  also have "(\<Sum>k\<in>fst ` set es. length (filter (\<lambda>e. fst e = k) es)) = length es"
    by (rule sum_length_filter_keys) auto
  finally show ?thesis .
qed

lemma relate_calls_total:
  assumes "length (all_edges x) < 2 ^ 32" "length (qx_call_sites x) \<le> 2 ^ 32"
  shows "relate_calls x \<noteq> None"
proof -
  have "ofold (relate_call x) [0..<length (qx_call_sites x)] ([], []) = ofold record_edge (all_edges x) ([], [])"
    using assms relate_all_total [of x "[0..<length (qx_call_sites x)]"] by (simp add: all_edges_def)
  moreover obtain m bs where r: "ofold record_edge (all_edges x) ([], []) = Some (m, bs)"
    "length bs \<le> length (all_edges x)"
    using record_edges_total [of "([], [])" "all_edges x"] assms(1) by fastforce
  moreover obtain relations sites where "ofold flatten_builder bs ([], []) = Some (relations, sites)"
    "length relations = length bs"
    using flatten_total [of bs] length_builder_calls [OF grouped_all [OF r(1)]] assms(1) by fastforce
  moreover from this r(2) assms(1) obtain out inc where "link_relations 0 relations ([], []) = Some (out, inc)"
    using link_relations_total [of 0 relations "([], [])"] by fastforce
  ultimately show ?thesis by (simp add: relate_calls_def)
qed

lemma length_map_filter: "length (List.map_filter f xs) \<le> length xs"
  by (simp add: List.map_filter_def)

lemma length_call_edges:
  assumes "\<And>n ids. map_of (qx_by_name x) n = Some ids \<Longrightarrow> length ids \<le> k"
  shows "length (call_edges x c) \<le> Suc k"
proof -
  have "length (resolve_call x c) \<le> k"
    by (auto simp: resolve_call_def Let_def dest: assms split: option.split
        intro!: order_trans [OF length_map_filter])
  then show ?thesis by (simp add: call_edges_def Let_def split: option.split)
qed

lemma length_all_edges:
  assumes "\<And>n ids. map_of (qx_by_name x) n = Some ids \<Longrightarrow> length ids \<le> k"
  shows "length (all_edges x) \<le> length (qx_call_sites x) * Suc k"
proof -
  have "length (concat (map (call_edges x) cs)) \<le> length cs * Suc k" for cs
  proof (induction cs)
    case (Cons c cs)
    have "length (call_edges x c) \<le> Suc k" by (rule length_call_edges [OF assms])
    with Cons show ?case by simp
  qed simp
  then show ?thesis unfolding all_edges_def by (metis diff_zero length_upt)
qed

lemma from_stored_facts_total:
  assumes "length anchors \<le> 2 ^ 32" "length call_sites * Suc (length anchors) < 2 ^ 32"
  shows "from_stored_facts hash_hex anchors strings call_sites coverage graph incomplete recall_limited \<noteq> None"
proof -
  let ?g = "semantic_anchor_groups anchors graph (incomplete \<or> recall_limited)"
  have g: "length ?g \<le> length anchors" by (rule length_groups)
  have calls: "length call_sites \<le> 2 ^ 32"
    using assms(2) by (metis le_add1 less_imp_le mult_Suc_right order_trans)
  obtain t where t: "ofold (add_group hash_hex (raw_group_counts ?g) recall_limited) ?g empty_tables = Some t"
    "entity_count_ok ?g t"
    using entity_tables_total [of ?g hash_hex "raw_group_counts ?g" recall_limited] g assms(1) group_nonempty
    by (meson order_trans)
  obtain m where m: "enumerate_calls 0 call_sites [] = Some m"
    using enumerate_calls_total [of 0 call_sites "[]"] calls by auto
  obtain x0 where x0: "entity_index hash_hex anchors strings call_sites coverage graph incomplete recall_limited = Some x0"
    "qx_call_sites x0 = call_sites" "qx_by_name x0 = map_values (order_ids (et_entities t)) (et_by_name t)"
    using t(1) m by (simp add: entity_index_def Let_def)
  have "length ids \<le> length anchors" if ids: "map_of (qx_by_name x0) n = Some ids" for n ids
  proof -
    from ids x0(3) obtain ids0 where "map_of (et_by_name t) n = Some ids0" "ids = order_ids (et_entities t) ids0"
      by auto
    moreover from this(1) have "ids0 = get_or [] (et_by_name t) n" by (simp add: get_or_def)
    moreover have "length (order_ids es js) \<le> length js" for es js
      unfolding order_ids_def dedup_def by (rule order_trans [OF length_dedup_by]) simp
    ultimately have "length ids \<le> length (get_or [] (et_by_name t) n)" by metis
    also have "\<dots> \<le> length ?g" using t(2) by (simp add: entity_count_ok_def)
    finally show ?thesis using g by simp
  qed
  then have "length (all_edges x0) \<le> length call_sites * Suc (length anchors)"
    using length_all_edges [of x0 "length anchors"] x0(2) by blast
  then have "length (all_edges x0) < 2 ^ 32" using assms(2) by (rule order_le_less_trans)
  with relate_calls_total [of x0] x0 calls show ?thesis by (simp add: from_stored_facts_def)
qed

section \<open>The entity tables\<close>

text \<open>What the tables hold after the groups: ids in range, and per name, path and parser key exactly the
  entities that have it.\<close>

definition tables_ok :: "entity_tables \<Rightarrow> bool" where
  "tables_ok t \<longleftrightarrow>
     length (et_entity_raw_keys t) = length (et_entities t) \<and>
     length (et_entity_candidate_limited t) = length (et_entities t) \<and>
     (\<forall>k i. map_of (et_entity_by_key t) k = Some i \<longrightarrow>
        i < length (et_entities t) \<and> ce_entity_key (et_entities t ! i) = k) \<and>
     (\<forall>n. set (get_or [] (et_by_name t) n) =
        {i. i < length (et_entities t) \<and> eligible_free_function (et_entities t ! i) \<and> ce_name (et_entities t ! i) = n}) \<and>
     (\<forall>p. set (get_or [] (et_by_path t) p) =
        {i. i < length (et_entities t) \<and> p \<in> ca_path ` set (ce_variants (et_entities t ! i))}) \<and>
     (\<forall>k. set (get_or [] (et_entities_by_raw_key t) k) =
        {i. i < length (et_entities t) \<and> k \<in> ca_entity_key ` set (ce_variants (et_entities t ! i))})"

lemma set_push_id: "set (get_or [] (push_id k i m) k') = set (get_or [] m k') \<union> (if k' = k then {i} else {})"
  by auto

lemma set_fold_push_id:
  "set (get_or [] (fold (\<lambda>k. push_id k i) ks m) k') =
     set (get_or [] m k') \<union> (if k' \<in> set ks then {i} else {})"
  by (induction ks arbitrary: m) auto

lemma insert_entity_ok:
  assumes "tables_ok t"
  shows "tables_ok (insert_entity e (length (et_entities t)) limited t)" (is "tables_ok ?t")
  unfolding tables_ok_def
proof (intro conjI allI)
  fix n
  show "set (get_or [] (et_by_name ?t) n) = {i. i < length (et_entities ?t) \<and>
      eligible_free_function (et_entities ?t ! i) \<and> ce_name (et_entities ?t ! i) = n}"
    using assms by (auto simp: insert_entity_def tables_ok_def set_push_id less_Suc_eq nth_append)
  show "set (get_or [] (et_by_path ?t) n) = {i. i < length (et_entities ?t) \<and>
      n \<in> ca_path ` set (ce_variants (et_entities ?t ! i))}"
    using assms by (auto simp: insert_entity_def tables_ok_def set_fold_push_id less_Suc_eq nth_append)
  show "set (get_or [] (et_entities_by_raw_key ?t) n) = {i. i < length (et_entities ?t) \<and>
      n \<in> ca_entity_key ` set (ce_variants (et_entities ?t ! i))}"
    using assms
    by (auto simp: insert_entity_def sorted_raw_keys_def tables_ok_def set_fold_push_id less_Suc_eq nth_append)
qed (use assms in \<open>auto simp: insert_entity_def tables_ok_def nth_append intro: less_SucI\<close>)

lemma add_group_ok:
  "add_group hash_hex counts limited g t = Some t' \<Longrightarrow> tables_ok t \<Longrightarrow> tables_ok t'"
  by (auto simp: add_group_def compact_id_def Let_def insert_entity_ok split: list.splits if_splits)

lemma tables_ok_all:
  "ofold (add_group hash_hex counts limited) groups empty_tables = Some t \<Longrightarrow> tables_ok t"
  by (erule ofold_invariant [where I = "\<lambda>_. tables_ok"])
    (simp add: tables_ok_def empty_tables_def, rule add_group_ok)

definition lookups_ok :: "relation_query_index \<Rightarrow> bool" where
  "lookups_ok x \<longleftrightarrow>
     (\<forall>k i. map_of (qx_entity_by_key x) k = Some i \<longrightarrow>
        i < length (qx_entities x) \<and> ce_entity_key (qx_entities x ! i) = k) \<and>
     (\<forall>n. set (get_or [] (qx_by_name x) n) =
        {i. i < length (qx_entities x) \<and> eligible_free_function (qx_entities x ! i) \<and> ce_name (qx_entities x ! i) = n}) \<and>
     (\<forall>p. set (get_or [] (qx_by_path x) p) =
        {i. i < length (qx_entities x) \<and> p \<in> ca_path ` set (ce_variants (qx_entities x ! i))}) \<and>
     (\<forall>k. set (get_or [] (qx_entities_by_raw_key x) k) =
        {i. i < length (qx_entities x) \<and> k \<in> ca_entity_key ` set (ce_variants (qx_entities x ! i))})"

lemma set_order_ids: "set (get_or [] (map_values (order_ids es) m) k) = set (get_or [] m k)"
  by (simp add: get_or_def order_ids_def split: option.split)

lemma entity_index_lookups:
  assumes "entity_index hash_hex anchors strings call_sites coverage graph incomplete recall_limited = Some x"
  shows "lookups_ok x" "qx_call_sites x = call_sites" "qx_strings x = strings"
proof -
  let ?g = "semantic_anchor_groups anchors graph (incomplete \<or> recall_limited)"
  from assms obtain t m where
    t: "ofold (add_group hash_hex (raw_group_counts ?g) recall_limited) ?g empty_tables = Some t" and
    x: "qx_entities x = et_entities t" "qx_entity_by_key x = et_entity_by_key t"
      "qx_entities_by_raw_key x = et_entities_by_raw_key t"
      "qx_by_name x = map_values (order_ids (et_entities t)) (et_by_name t)"
      "qx_by_path x = map_values (order_ids (et_entities t)) (et_by_path t)"
      "qx_call_sites x = call_sites" "qx_strings x = strings"
    by (auto simp: entity_index_def Let_def bind_eq_Some_conv)
  from tables_ok_all [OF t] show "lookups_ok x" by (simp add: lookups_ok_def tables_ok_def x set_order_ids)
  show "qx_call_sites x = call_sites" "qx_strings x = strings" by (fact x)+
qed

lemma relate_calls_lookups:
  "relate_calls x0 = Some x \<Longrightarrow> lookups_ok x = lookups_ok x0 \<and> qx_call_sites x = qx_call_sites x0 \<and>
     qx_strings x = qx_strings x0"
  by (auto simp: relate_calls_def bind_eq_Some_conv lookups_ok_def)

lemma lookups_range:
  assumes "lookups_ok x"
  shows "map_of (qx_by_name x) n = Some ids \<Longrightarrow> i \<in> set ids \<Longrightarrow> i < length (qx_entities x)"
    and "map_of (qx_entities_by_raw_key x) k = Some ids \<Longrightarrow> i \<in> set ids \<Longrightarrow> i < length (qx_entities x)"
proof -
  have "set (get_or [] (qx_by_name x) n) \<subseteq> {i. i < length (qx_entities x)}"
    "set (get_or [] (qx_entities_by_raw_key x) k) \<subseteq> {i. i < length (qx_entities x)}"
    using assms by (auto simp: lookups_ok_def)
  then show "map_of (qx_by_name x) n = Some ids \<Longrightarrow> i \<in> set ids \<Longrightarrow> i < length (qx_entities x)"
    "map_of (qx_entities_by_raw_key x) k = Some ids \<Longrightarrow> i \<in> set ids \<Longrightarrow> i < length (qx_entities x)"
    by (auto simp: get_or_some)
qed

lemma single_in_set: "(if length xs = 1 then Some (hd xs) else None) = Some i \<Longrightarrow> i \<in> set xs"
  by (cases xs) (auto split: if_splits)

lemma resolve_caller_range:
  assumes "lookups_ok x" "resolve_caller x c = Some i"
  shows "i < length (qx_entities x)"
proof -
  define raw where "raw = pool_str (qx_strings x) (st_caller_entity_key (qx_call_sites x ! c))"
  obtain ids where ids: "map_of (qx_entities_by_raw_key x) raw = Some ids"
    using assms(2) by (auto simp: resolve_caller_def raw_def Let_def split: option.splits)
  define P where "P = (\<lambda>i. list_ex (\<lambda>a. ca_entity_key a = raw \<and>
      ca_path a = pool_str (qx_strings x) (st_path (qx_call_sites x ! c)) \<and> ca_role a = Definition)
    (ce_variants (qx_entities x ! i)))"
  define r where "r = (\<lambda>l r. primary_anchor_cmp
    (ce_primary_anchor (qx_entities x ! l)) (ce_primary_anchor (qx_entities x ! r)))"
  from assms(2) ids have "(if length ids = 1 then Some (hd ids)
      else if length (dedup (sort_by r (filter P ids))) = 1 then Some (hd (dedup (sort_by r (filter P ids)))) else None) = Some i"
    by (simp only: resolve_caller_def raw_def P_def r_def Let_def option.case)
  then have "i \<in> set ids"
    using single_in_set [of ids i] single_in_set [of "dedup (sort_by r (filter P ids))" i]
    by (cases "length ids = 1") auto
  with lookups_range(2) [OF assms(1) ids] show ?thesis .
qed

lemma resolve_call_range:
  assumes "lookups_ok x" "(i, ev) \<in> set (resolve_call x c)"
  shows "i < length (qx_entities x)"
  using assms(2) lookups_range(1) [OF assms(1)]
  by (auto simp: resolve_call_def Let_def List.map_filter_def split: option.splits if_splits)

lemma edges_range:
  assumes "lookups_ok x" "(k, c, ev) \<in> set (all_edges x)"
  shows "rk_caller k < length (qx_entities x)" "c < length (qx_call_sites x)"
    "rk_callee k = Some j \<Longrightarrow> j < length (qx_entities x)"
    "rk_ambiguity_site k = Some s \<Longrightarrow> s < length (qx_call_sites x)"
  using assms resolve_caller_range [OF assms(1), of c] resolve_call_range [OF assms(1), of _ _ c]
  by (auto simp: all_edges_def call_edges_def Let_def split: option.splits if_splits)

section \<open>The candidates of a call\<close>

text \<open>What a call site rules out: a record member of a call that is not qualified, another qualified name,
  an internal function of another file, and a signature that refuses the argument count.\<close>

definition call_admits :: "string_pool \<Rightarrow> stored_call_site \<Rightarrow> callable_entity \<Rightarrow> bool" where
  "call_admits strings call e \<longleftrightarrow>
     (st_form call = QualifiedName \<or> ce_owner_kind e \<noteq> Some RecordOwner) \<and>
     (\<forall>q. st_qualified_name call = Some q \<longrightarrow> pool_str strings q = ce_qualified_name e) \<and>
     (\<forall>f. ce_linkage e = InternalLinkageOf f \<longrightarrow> f = pool_str strings (st_path call)) \<and>
     (\<forall>a. st_argument_count call = Some a \<longrightarrow> accepts_arity (ce_signature e) a \<noteq> Some False)"

lemma qualifier_evidence_None:
  "qualifier_evidence q e = None \<longleftrightarrow> (\<exists>n. q = Some n \<and> n \<noteq> ce_qualified_name e)"
  by (simp add: qualifier_evidence_def split: option.split)

lemma linkage_evidence_None:
  "linkage_evidence path e ev = None \<longleftrightarrow> (\<exists>f. ce_linkage e = InternalLinkageOf f \<and> f \<noteq> path)"
  by (simp add: linkage_evidence_def split: linkage_domain.split)

lemma arity_evidence_None:
  "arity_evidence n e ev = None \<longleftrightarrow> (\<exists>a. n = Some a \<and> accepts_arity (ce_signature e) a = Some False)"
  by (simp add: arity_evidence_def split: option.split bool.split)

lemma candidate_evidence_None: "candidate_evidence strings call e = None \<longleftrightarrow> \<not> call_admits strings call e"
  by (auto simp: candidate_evidence_def call_admits_def Let_def bind_eq_None_conv qualifier_evidence_None
      linkage_evidence_None arity_evidence_None)

text \<open>The supports a candidate carries are exactly the facts that hold of it.\<close>

definition support_facts :: "string_pool \<Rightarrow> stored_call_site \<Rightarrow> callable_entity \<Rightarrow> evidence_code set" where
  "support_facts strings call e =
     (if st_qualified_name call \<noteq> None then {ExplicitQualifier} else {}) \<union>
     (if ca_path (ce_primary_anchor e) = pool_str strings (st_path call) then {SameFile} else {}) \<union>
     (if \<exists>f. ce_linkage e = InternalLinkageOf f then {InternalLinkage} else {}) \<union>
     (if \<exists>a. st_argument_count call = Some a \<and> accepts_arity (ce_signature e) a = Some True
      then {CompatibleArity} else {})"

lemma codes_of_support [simp]:
  "codes_of (eb_supports (support code b)) = insert code (codes_of (eb_supports b))"
  "codes_of (eb_supports (unknown code b)) = codes_of (eb_supports b)"
  "codes_of (eb_supports default_bits) = {}"
  by (simp_all add: support_def unknown_def default_bits_def)

lemma qualifier_evidence_codes:
  "qualifier_evidence q e = Some ev \<Longrightarrow> codes_of (eb_supports ev) = (if q \<noteq> None then {ExplicitQualifier} else {})"
  by (auto simp: qualifier_evidence_def split: option.splits if_splits)

lemma linkage_evidence_codes:
  "linkage_evidence path e ev = Some ev' \<Longrightarrow> codes_of (eb_supports ev') =
     codes_of (eb_supports ev) \<union> (if \<exists>f. ce_linkage e = InternalLinkageOf f then {InternalLinkage} else {})"
  by (auto simp: linkage_evidence_def split: linkage_domain.splits if_splits)

lemma arity_evidence_codes:
  "arity_evidence n e ev = Some ev' \<Longrightarrow> codes_of (eb_supports ev') =
     codes_of (eb_supports ev) \<union>
     (if \<exists>a. n = Some a \<and> accepts_arity (ce_signature e) a = Some True then {CompatibleArity} else {})"
  by (auto simp: arity_evidence_def split: option.splits bool.splits)

lemma supports_zero: "codes_of (eb_supports ev) \<noteq> {} \<Longrightarrow> eb_supports ev \<noteq> 0"
  by auto

lemma final_evidence_codes:
  "codes_of (eb_supports ev) \<subseteq> codes_of (eb_supports (final_evidence call e ev)) \<and>
   codes_of (eb_supports (final_evidence call e ev)) \<subseteq> insert NameOnly (codes_of (eb_supports ev))"
proof -
  have "eb_supports (final_evidence call e ev) = eb_supports ev \<or>
      eb_supports (final_evidence call e ev) = eb_supports ev OR evidence_bit NameOnly"
    by (simp add: final_evidence_def support_def unknown_def Let_def)
  then show ?thesis by (metis Un_insert_right codes_of_simps(2,3) subset_insertI sup_bot.right_neutral order_refl)
qed

lemma candidate_evidence_codes:
  assumes "candidate_evidence strings call e = Some ev"
  shows "support_facts strings call e \<subseteq> codes_of (eb_supports ev) \<and>
    codes_of (eb_supports ev) \<subseteq> insert NameOnly (support_facts strings call e)"
proof -
  define same where "same ev1 =
    (if ca_path (ce_primary_anchor e) = pool_str strings (st_path call) then support SameFile ev1 else ev1)" for ev1
  from assms obtain ev1 ev2 ev3 where
    1: "qualifier_evidence (map_option (pool_str strings) (st_qualified_name call)) e = Some ev1" and
    2: "linkage_evidence (pool_str strings (st_path call)) e (same ev1) = Some ev2" and
    3: "arity_evidence (st_argument_count call) e ev2 = Some ev3" and
    ev: "ev = final_evidence call e ev3"
    unfolding candidate_evidence_def Let_def same_def [symmetric]
    by (auto simp: bind_eq_Some_conv split: if_splits)
  have "codes_of (eb_supports ev3) = support_facts strings call e"
    using arity_evidence_codes [OF 3] linkage_evidence_codes [OF 2] qualifier_evidence_codes [OF 1]
    by (auto simp: support_facts_def same_def)
  with final_evidence_codes [of ev3 call e] ev show ?thesis by simp
qed

lemma set_map_filter_Pair:
  "(i, ev) \<in> set (List.map_filter (\<lambda>i. map_option (Pair i) (f i)) ids) \<longleftrightarrow> i \<in> set ids \<and> f i = Some ev"
  by (induction ids) (auto simp: map_filter_simps split: option.split)

lemma resolve_call_mem:
  "(i, ev) \<in> set (resolve_call x c) \<longleftrightarrow> named_form (st_form (qx_call_sites x ! c)) \<and>
     (\<exists>n. st_callee_name (qx_call_sites x ! c) = Some n \<and>
        i \<in> set (get_or [] (qx_by_name x) (pool_str (qx_strings x) n)) \<and>
        candidate_evidence (qx_strings x) (qx_call_sites x ! c) (qx_entities x ! i) = Some ev)"
proof (cases "st_callee_name (qx_call_sites x ! c)")
  case (Some n)
  then show ?thesis
    by (cases "map_of (qx_by_name x) (pool_str (qx_strings x) n)")
      (simp_all add: resolve_call_def Let_def get_or_def set_map_filter_Pair)
qed (simp add: resolve_call_def Let_def)

lemma built_index_lookups:
  assumes "from_stored_facts hash_hex anchors strings call_sites coverage graph incomplete recall_limited = Some x"
  shows "lookups_ok x" "qx_call_sites x = call_sites" "qx_strings x = strings"
proof -
  obtain x0 where x: "relate_calls x0 = Some x"
    "entity_index hash_hex anchors strings call_sites coverage graph incomplete recall_limited = Some x0"
    using from_stored_facts_relate [OF assms] .
  show "lookups_ok x" "qx_call_sites x = call_sites" "qx_strings x = strings"
    using relate_calls_lookups [OF x(1)] entity_index_lookups [OF x(2)] by simp_all
qed

text \<open>C20. A call resolves to exactly the functions it can mean. For a call site with a plain callee name the
  candidates are the eligible entities of that name that the call does not rule out, each recorded
  once per listing with exactly the supporting facts that hold of it (and \<open>NameOnly\<close> at most in
  addition); other call forms resolve to nothing.\<close>

theorem call_candidates_exact:
  assumes "from_stored_facts hash_hex anchors strings call_sites coverage graph incomplete recall_limited = Some x"
  shows "fst ` set (resolve_call x c) =
      (case st_callee_name (qx_call_sites x ! c) of
         None \<Rightarrow> {}
       | Some n \<Rightarrow>
           {i. named_form (st_form (qx_call_sites x ! c)) \<and> i < length (qx_entities x) \<and>
               eligible_free_function (qx_entities x ! i) \<and>
               ce_name (qx_entities x ! i) = pool_str strings n \<and>
               call_admits strings (qx_call_sites x ! c) (qx_entities x ! i)}) \<and>
    (\<forall>(i, ev) \<in> set (resolve_call x c).
       support_facts strings (qx_call_sites x ! c) (qx_entities x ! i) \<subseteq> codes_of (eb_supports ev) \<and>
       codes_of (eb_supports ev) \<subseteq>
         insert NameOnly (support_facts strings (qx_call_sites x ! c) (qx_entities x ! i)))"
proof -
  note l = built_index_lookups [OF assms]
  have mem: "(i, ev) \<in> set (resolve_call x c) \<longleftrightarrow> named_form (st_form (qx_call_sites x ! c)) \<and>
      (\<exists>n. st_callee_name (qx_call_sites x ! c) = Some n \<and> i \<in> set (get_or [] (qx_by_name x) (pool_str strings n)) \<and>
        candidate_evidence strings (qx_call_sites x ! c) (qx_entities x ! i) = Some ev)" for i ev
    by (simp add: resolve_call_mem l(3))
  have ids: "set (get_or [] (qx_by_name x) n) = {i. i < length (qx_entities x) \<and>
      eligible_free_function (qx_entities x ! i) \<and> ce_name (qx_entities x ! i) = n}" for n
    using l(1) by (simp add: lookups_ok_def)
  have adm: "call_admits strings call e \<longleftrightarrow> (\<exists>ev. candidate_evidence strings call e = Some ev)" for call e
    using candidate_evidence_None [of strings call e] by auto
  have "fst ` set (resolve_call x c) = {i. \<exists>ev. (i, ev) \<in> set (resolve_call x c)}" by force
  then have 1: "fst ` set (resolve_call x c) =
      (case st_callee_name (qx_call_sites x ! c) of
         None \<Rightarrow> {}
       | Some n \<Rightarrow>
           {i. named_form (st_form (qx_call_sites x ! c)) \<and> i < length (qx_entities x) \<and>
               eligible_free_function (qx_entities x ! i) \<and>
               ce_name (qx_entities x ! i) = pool_str strings n \<and>
               call_admits strings (qx_call_sites x ! c) (qx_entities x ! i)})"
    by (auto simp: mem ids adm split: option.split)
  have 2: "\<forall>(i, ev) \<in> set (resolve_call x c).
       support_facts strings (qx_call_sites x ! c) (qx_entities x ! i) \<subseteq> codes_of (eb_supports ev) \<and>
       codes_of (eb_supports ev) \<subseteq>
         insert NameOnly (support_facts strings (qx_call_sites x ! c) (qx_entities x ! i))"
    using candidate_evidence_codes mem by blast
  show ?thesis by (rule conjI [OF 1 2])
qed

text \<open>C22. No id of a built index is out of range, and its lookups are exact: a key names the entity that
  carries it, a name lists the eligible entities of that name, a path the entities with an anchor
  there, a parser key the entities with an anchor of that key; and every relation refers to
  existing entities and call sites.\<close>

theorem index_lookups_exact:
  assumes "from_stored_facts hash_hex anchors strings call_sites coverage graph incomplete recall_limited = Some x"
  shows "lookups_ok x \<and>
    (\<forall>r \<in> set (qx_relations x).
       rk_caller (cr_key r) < length (qx_entities x) \<and>
       (\<forall>j. rk_callee (cr_key r) = Some j \<longrightarrow> j < length (qx_entities x)) \<and>
       (\<forall>s. rk_ambiguity_site (cr_key r) = Some s \<longrightarrow> s < length (qx_call_sites x)) \<and>
       cr_call_site_len r = length (relation_calls x r) \<and>
       (\<forall>c \<in> set (relation_calls x r). c < length (qx_call_sites x)))"
proof -
  obtain x0 where "relate_calls x0 = Some x" using from_stored_facts_relate [OF assms] .
  note c = relate_calls_correct [OF this]
  note l = built_index_lookups(1) [OF assms]
  note e = edges_range [OF l]
  have "rk_caller (cr_key r) < length (qx_entities x) \<and>
       (\<forall>j. rk_callee (cr_key r) = Some j \<longrightarrow> j < length (qx_entities x)) \<and>
       (\<forall>s. rk_ambiguity_site (cr_key r) = Some s \<longrightarrow> s < length (qx_call_sites x)) \<and>
       cr_call_site_len r = length (relation_calls x r) \<and>
       (\<forall>c \<in> set (relation_calls x r). c < length (qx_call_sites x))" if "r \<in> set (qx_relations x)" for r
  proof -
    from c(2) that have "cr_key r \<in> fst ` set (all_edges x)" by blast
    then obtain c' ev where "(cr_key r, c', ev) \<in> set (all_edges x)" by force
    note e' = e [OF this]
    have "c < length (qx_call_sites x)" if "c \<in> set (relation_calls x r)" for c
    proof -
      from c(3) [OF \<open>r \<in> set (qx_relations x)\<close>] that
      obtain k ev where "(k, c, ev) \<in> set (all_edges x)" by (force simp: edges_of_def)
      then show ?thesis by (rule e(2))
    qed
    then show ?thesis using e'(1,3,4) c(4) [OF that] by blast
  qed
  then show ?thesis using l by blast
qed

text \<open>C23. Building the index of a request panics only at the limits of its 32-bit ids: it succeeds whenever
  the anchors, the strings of the call sites and the possible call edges fit.\<close>

theorem index_build_total:
  assumes "length anchors \<le> 2 ^ 32" "5 * length facts \<le> 2 ^ 32" "length facts * Suc (length anchors) < 2 ^ 32"
  shows "build_from_facts_with_context hash_hex anchors facts coverage graph incomplete recall_limited \<noteq> None"
proof -
  obtain ss q where s: "store_all facts empty_pool = Some (ss, q)"
    using store_all_total [of empty_pool facts] assms(2) by (auto simp: empty_pool_def)
  moreover from store_all_correct [OF s] have "length ss = length facts"
    by (metis empty_pool_ok extends_refl length_map)
  ultimately show ?thesis
    using from_stored_facts_total [OF assms(1), of ss] assms(3)
    by (simp add: build_from_facts_with_context_def)
qed

section \<open>A worked example\<close>

text \<open>A function that calls itself: one anchor, one call site, one relation.\<close>

definition no_coverage :: coverage_summary where
  "no_coverage = \<lparr> cv_eligible_files = 0, cv_analyzed_files = 0, cv_fallback_files = 0, cv_external_bodies_limited = True \<rparr>"

definition sample_site :: stored_call_site where
  "sample_site = \<lparr> st_path = 0, st_caller_entity_key = 1, st_expression_range = zero_range,
     st_callee_range = zero_range, st_callee_name = Some 2, st_qualified_name = None, st_form = DirectName,
     st_argument_count = Some 1, st_guard = None, st_provenance = Ast, st_syntax_error_overlap = False,
     st_site_fingerprint = ''s'' \<rparr>"

definition sample_pool :: string_pool where
  "sample_pool = \<lparr> po_values = [''a.c'', ''k'', ''f''], po_ids = [(''a.c'', 0), (''k'', 1), (''f'', 2)] \<rparr>"

definition sample_entity :: callable_entity where
  "sample_entity = \<lparr> ce_entity_key = ''k'', ce_name = ''f'', ce_qualified_name = ''f'', ce_owner = None,
     ce_owner_kind = None, ce_kind = Function, ce_linkage = ExternalLinkage,
     ce_signature = ca_signature sample_anchor, ce_primary_anchor = sample_anchor,
     ce_variants = [sample_anchor] \<rparr>"

definition sample_entities :: relation_query_index where
  "sample_entities = \<lparr> qx_entities = [sample_entity], qx_entity_by_key = [(''k'', 0)],
     qx_entity_raw_keys = [[''k'']], qx_entities_by_raw_key = [(''k'', [0])], qx_by_name = [(''f'', [0])],
     qx_by_path = [(''a.c'', [0])], qx_strings = sample_pool, qx_call_sites = [sample_site],
     qx_calls_by_path = [(0, [0])], qx_relations = [], qx_relation_call_sites = [], qx_outgoing = [],
     qx_incoming = [], qx_coverage = no_coverage, qx_entity_candidate_limited = [False] \<rparr>"

definition sample_key :: compact_relation_key where
  "sample_key = \<lparr> rk_caller = 0, rk_callee = Some 0, rk_confidence = Medium, rk_ambiguity_site = None \<rparr>"

definition sample_index :: relation_query_index where
  "sample_index = sample_entities\<lparr>
     qx_relations := [\<lparr> cr_key = sample_key, cr_call_site_start = 0, cr_call_site_len = 1,
       cr_evidence = support CompatibleArity (support SameFile default_bits) \<rparr>],
     qx_relation_call_sites := [0], qx_outgoing := [(0, [0])], qx_incoming := [(0, [0])] \<rparr>"

lemma sample_entity_index:
  "entity_index (\<lambda>b. b) [sample_anchor] sample_pool [sample_site] no_coverage None True False = Some sample_entities"
  unfolding entity_index_def simp_thms sample_groups
  by (simp add: raw_group_counts_def add_group_def insert_entity_def
      group_entity_def sorted_raw_keys_def entry_modify_def push_id_def empty_tables_def dedup_def get_or_def
      compact_id_def order_ids_def map_values_def eligible_free_function_def sample_entities_def
      sample_entity_def sample_anchor_def sample_site_def Let_def)

lemma sample_call_resolves:
  "resolve_caller sample_entities 0 = Some 0"
  "resolve_call sample_entities 0 = [(0, support CompatibleArity (support SameFile default_bits))]"
  by (simp_all add: resolve_caller_def resolve_call_def sample_entities_def sample_site_def sample_pool_def
      pool_str_def pool_get_def named_form_def candidate_evidence_def qualifier_evidence_def
      linkage_evidence_def arity_evidence_def final_evidence_def accepts_arity_def sample_entity_def
      sample_anchor_def map_filter_simps supports_zero Let_def)

lemma sample_confidence: "confidence (support CompatibleArity (support SameFile default_bits)) = Medium"
  by (simp add: confidence_def contains_support_iff)

lemma sample_relates: "relate_calls sample_entities = Some sample_index"
proof -
  have n: "length (qx_call_sites sample_entities) = 1" "qx_entities sample_entities = [sample_entity]"
    by (simp_all add: sample_entities_def)
  show ?thesis
    by (simp add: relate_calls_def n relate_call_def sample_call_resolves sample_confidence record_relation_def
        flatten_builder_def push_id_def entry_modify_def map_values_def compact_id_def sample_index_def
        sample_key_def Let_def)
qed

lemma sample_built:
  "from_stored_facts (\<lambda>b. b) [sample_anchor] sample_pool [sample_site] no_coverage None True False = Some sample_index"
  by (simp add: from_stored_facts_def sample_entity_index sample_relates)

theorem index_relations_exact_witness:
  "from_stored_facts (\<lambda>b. b) [sample_anchor] sample_pool [sample_site] no_coverage None True False = Some sample_index \<and>
   cr_key ` set (qx_relations sample_index) = fst ` set (all_edges sample_index) \<and>
   sample_key \<in> fst ` set (all_edges sample_index)"
proof -
  have "sample_key \<in> cr_key ` set (qx_relations sample_index)" by (simp add: sample_index_def)
  with index_relations_exact [OF sample_built] sample_built show ?thesis by blast
qed

theorem relation_pages_tile_witness:
  "\<not> pg_site_limited (relation_page sample_index Outgoing ''k'' 0 1 5) \<and>
   relation_page sample_index Outgoing ''k'' 0 1 (5 + 3) = relation_page sample_index Outgoing ''k'' 0 1 5"
proof -
  have "\<not> pg_site_limited (relation_page sample_index Outgoing ''k'' 0 1 5)"
    by (simp add: relation_page_def sample_index_def sample_entities_def get_or_def materialize_relation_def Let_def)
  with relation_pages_tile [of sample_index Outgoing "''k''" 0 1 0 5 3] show ?thesis by blast
qed

theorem call_candidates_exact_witness:
  "from_stored_facts (\<lambda>b. b) [sample_anchor] sample_pool [sample_site] no_coverage None True False = Some sample_index \<and>
   st_callee_name (qx_call_sites sample_index ! 0) = Some 2 \<and>
   fst ` set (resolve_call sample_index 0) =
     {i. named_form (st_form sample_site) \<and> i < length (qx_entities sample_index) \<and>
         eligible_free_function (qx_entities sample_index ! i) \<and>
         ce_name (qx_entities sample_index ! i) = pool_str sample_pool 2 \<and>
         call_admits sample_pool sample_site (qx_entities sample_index ! i)}"
proof -
  have s: "qx_call_sites sample_index ! 0 = sample_site" "st_callee_name sample_site = Some 2"
    by (simp_all add: sample_index_def sample_entities_def sample_site_def)
  from call_candidates_exact [OF sample_built, of 0] show ?thesis
    unfolding s(1) by (simp only: s(2) option.case sample_built simp_thms)
qed

theorem index_lookups_exact_witness:
  "from_stored_facts (\<lambda>b. b) [sample_anchor] sample_pool [sample_site] no_coverage None True False = Some sample_index \<and>
   lookups_ok sample_index"
  using index_lookups_exact [OF sample_built] sample_built by blast

theorem index_build_total_witness:
  "build_from_facts_with_context (\<lambda>b. b) [sample_anchor] [sample_call, sample_call] no_coverage None True False \<noteq> None"
  by (rule index_build_total) simp_all

end
