(* ===== verification/Name_Match.thy ===== *)
theory Name_Match
  imports Entity_Relation Resolver
begin

text \<open>
  Matching a query against a name: \<open>is_boundary\<close> of \<open>src/crates/fossilsense/src/query/text.rs\<close>,
  \<open>score_match\<close> and \<open>subsequence_match\<close> of \<open>query/name_search.rs\<close>. A name matches when the query is
  a subsequence of its lower-case spelling; the score grades how. The results are the meaning of
  each grade, and that a longer query matches fewer names, which is what lets completion narrow an
  earlier result.
\<close>

section \<open>Bytes\<close>

definition is_ascii_lowercase :: "char \<Rightarrow> bool" where
  "is_ascii_lowercase c = (CHR ''a'' \<le> c \<and> c \<le> CHR ''z'')"

definition is_ascii_uppercase :: "char \<Rightarrow> bool" where
  "is_ascii_uppercase c = (CHR ''A'' \<le> c \<and> c \<le> CHR ''Z'')"

definition is_ascii_alphabetic :: "char \<Rightarrow> bool" where
  "is_ascii_alphabetic c = (is_ascii_lowercase c \<or> is_ascii_uppercase c)"

definition is_boundary :: "string \<Rightarrow> nat \<Rightarrow> bool" where
  "is_boundary bytes i =
     (i = 0 \<or>
      (let prev = bytes ! (i - 1); cur = bytes ! i
       in prev = CHR ''_'' \<and> cur \<noteq> CHR ''_'' \<or>
          is_ascii_lowercase prev \<and> is_ascii_uppercase cur \<or>
          is_ascii_alphabetic prev \<and> is_ascii_digit cur))"

text \<open>\<open>str::find\<close>: the offset of the first occurrence.\<close>

fun str_find :: "string \<Rightarrow> string \<Rightarrow> nat option" where
  "str_find [] needle = (if needle = [] then Some 0 else None)"
| "str_find (c # cs) needle =
     (if starts_with (c # cs) needle then Some 0 else map_option Suc (str_find cs needle))"

section \<open>The scores\<close>

fun boundary_scan :: "string \<Rightarrow> string \<Rightarrow> nat \<Rightarrow> string \<Rightarrow> nat \<Rightarrow> nat" where
  "boundary_scan needle orig index [] qi = qi"
| "boundary_scan needle orig index (byte # bytes) qi =
     boundary_scan needle orig (Suc index) bytes
       (if qi < length needle \<and> byte = needle ! qi \<and> is_boundary orig index then Suc qi else qi)"

fun plain_scan :: "string \<Rightarrow> string \<Rightarrow> nat \<Rightarrow> nat" where
  "plain_scan needle [] qi = qi"
| "plain_scan needle (byte # bytes) qi =
     plain_scan needle bytes (if qi < length needle \<and> byte = needle ! qi then Suc qi else qi)"

definition subsequence_match :: "string \<Rightarrow> string \<Rightarrow> string \<Rightarrow> bool option" where
  "subsequence_match needle orig lower =
     (if boundary_scan needle orig 0 lower 0 = length needle then Some True
      else if plain_scan needle lower 0 = length needle then Some False
      else None)"

definition score_match :: "string \<Rightarrow> string \<Rightarrow> string \<Rightarrow> int option" where
  "score_match needle orig hay =
     (if hay = needle then Some 1000
      else if starts_with hay needle then Some 800
      else case str_find hay needle of
        Some at \<Rightarrow> Some (if is_boundary orig at then 650 else 500)
      | None \<Rightarrow>
          map_option (\<lambda>all_boundary. if all_boundary then 400 else 200)
            (subsequence_match needle orig hay))"

section \<open>What the scans decide\<close>

text \<open>Both loops are one greedy scan: consume the query over the bytes that are eligible.\<close>

fun greedy :: "string \<Rightarrow> string \<Rightarrow> string" where
  "greedy needle [] = needle"
| "greedy [] bytes = []"
| "greedy (q # qs) (b # bs) = (if b = q then greedy qs bs else greedy (q # qs) bs)"

definition boundary_bytes :: "string \<Rightarrow> string \<Rightarrow> string" where
  "boundary_bytes orig lower = map ((!) lower) (filter (is_boundary orig) [0..<length lower])"

lemma greedy_Nil [simp]: "greedy [] bytes = []"
  by (cases bytes) auto

lemma greedy_subseq: "greedy needle bytes = [] \<longleftrightarrow> subseq needle bytes"
proof (induction needle bytes rule: greedy.induct)
  case (3 q qs b bs)
  then show ?case by (simp add: subseq_Cons2_iff)
qed auto

lemma plain_scan_greedy:
  "qi \<le> length needle \<Longrightarrow>
     plain_scan needle bytes qi + length (greedy (drop qi needle) bytes) = length needle"
proof (induction bytes arbitrary: qi)
  case (Cons b bs)
  show ?case
  proof (cases "qi < length needle")
    case True
    then have "drop qi needle = needle ! qi # drop (Suc qi) needle"
      by (simp add: Cons_nth_drop_Suc)
    with True Cons.IH [of qi] Cons.IH [of "Suc qi"] show ?thesis by simp
  next
    case False
    with Cons.prems Cons.IH [of qi] show ?thesis by simp
  qed
qed simp

lemma boundary_scan_plain:
  "boundary_scan needle orig k bytes qi =
     plain_scan needle (map ((!) bytes) (filter (\<lambda>i. is_boundary orig (k + i)) [0..<length bytes])) qi"
proof (induction needle orig k bytes qi rule: boundary_scan.induct)
  case (2 needle orig k b bs qi)
  have "filter (\<lambda>i. is_boundary orig (k + i)) [0..<length (b # bs)] =
      (if is_boundary orig k then [0] else []) @
      map Suc (filter (\<lambda>i. is_boundary orig (Suc k + i)) [0..<length bs])"
    by (simp add: upt_conv_Cons map_Suc_upt [symmetric] filter_map o_def del: upt_Suc)
  then have "map ((!) (b # bs)) (filter (\<lambda>i. is_boundary orig (k + i)) [0..<length (b # bs)]) =
      (if is_boundary orig k then [b] else []) @
      map ((!) bs) (filter (\<lambda>i. is_boundary orig (Suc k + i)) [0..<length bs])"
    by (simp add: o_def del: upt_Suc)
  with 2 show ?case by (simp del: upt_Suc)
qed simp

lemma plain_scan_full: "plain_scan needle bytes 0 = length needle \<longleftrightarrow> subseq needle bytes"
proof -
  have "plain_scan needle bytes 0 + length (greedy needle bytes) = length needle"
    using plain_scan_greedy [of 0 needle bytes] by simp
  then show ?thesis unfolding greedy_subseq [symmetric] by auto
qed

lemma boundary_scan_full:
  "boundary_scan needle orig 0 lower 0 = length needle \<longleftrightarrow> subseq needle (boundary_bytes orig lower)"
  unfolding boundary_scan_plain boundary_bytes_def by (simp add: plain_scan_full)

lemma boundary_bytes_subseq: "subseq (boundary_bytes orig lower) lower"
proof -
  have "subseq (map ((!) lower) (filter (is_boundary orig) [0..<length lower])) (map ((!) lower) [0..<length lower])"
    by (intro subseq_map subseq_filter_left)
  then show ?thesis unfolding boundary_bytes_def by (simp add: map_nth)
qed

lemma str_find_Some:
  "str_find hay needle = Some at \<Longrightarrow>
     at \<le> length hay \<and> prefix needle (drop at hay) \<and> (\<forall>i < at. \<not> prefix needle (drop i hay))"
proof (induction hay arbitrary: at)
  case (Cons c cs)
  show ?case
  proof (cases "starts_with (c # cs) needle")
    case False
    with Cons.prems obtain k where k: "at = Suc k" "str_find cs needle = Some k" by auto
    have "\<not> prefix needle (drop i (c # cs))" if "i < Suc k" for i
      using that Cons.IH [OF k(2)] False by (cases i) (auto simp: starts_with_def)
    with Cons.IH [OF k(2)] k(1) show ?thesis by auto
  qed (use Cons.prems in \<open>auto simp: starts_with_def\<close>)
qed (auto split: if_splits)

lemma str_find_None: "str_find hay needle = None \<longleftrightarrow> \<not> sublist needle hay"
proof (induction hay)
  case (Cons c cs)
  then show ?case by (auto simp: sublist_Cons_right starts_with_def)
qed auto

lemma score_match_None: "score_match needle orig hay = None \<longleftrightarrow> \<not> subseq needle hay"
proof -
  have "subseq needle hay" if "str_find hay needle = Some at" for at
    using that str_find_None [of hay needle] sublist_imp_subseq by (metis option.distinct(1))
  moreover have "subseq needle hay" if "hay = needle \<or> starts_with hay needle"
    using that by (auto simp: starts_with_def prefix_imp_subseq)
  moreover have "subseq needle hay" if "subseq needle (boundary_bytes orig hay)"
    using that boundary_bytes_subseq subseq_order.order_trans by blast
  ultimately show ?thesis
    by (auto simp: score_match_def subsequence_match_def boundary_scan_full plain_scan_full
        split: option.splits)
qed

text \<open>What lets a longer query be answered from the matches of a shorter one.\<close>

lemma score_match_extend:
  "score_match (needle @ ext) orig hay \<noteq> None \<Longrightarrow> score_match needle orig hay \<noteq> None"
  unfolding score_match_None using prefix_imp_subseq subseq_order.order_trans
  by (metis prefixI)

lemma score_match_range: "score_match needle orig hay = Some v \<Longrightarrow> v \<in> {200, 400, 500, 650, 800, 1000}"
  by (auto simp: score_match_def split: if_splits option.splits)

lemma score_match_prefix: "score_match needle orig hay = Some v \<Longrightarrow> prefix needle hay \<longleftrightarrow> 800 \<le> v"
  by (auto simp: score_match_def starts_with_def split: if_splits option.splits)

end
