(* ===== verification/Bucket_Layout.thy ===== *)
theory Bucket_Layout
  imports Prelude
begin

text \<open>
  The counting layout that the name index uses three times (lexical order, path postings, fuzzy
  postings; \<open>src/crates/fossilsense/src/query.rs\<close>): count the rows of every bucket, lay the buckets
  out one after the other, and write each row at its bucket's cursor. The result is that the slice
  of a bucket holds exactly its rows in their original order.
\<close>

section \<open>The loops\<close>

definition slice :: "nat \<Rightarrow> nat \<Rightarrow> 'a list \<Rightarrow> 'a list" where
  "slice start len xs = take len (drop start xs)"

definition tally :: "nat \<Rightarrow> nat list \<Rightarrow> nat list" where
  "tally n keys = fold (\<lambda>k counts. counts[k := Suc (counts ! k)]) keys (replicate n 0)"

fun scatter :: "(nat \<times> 'v) list \<Rightarrow> nat list \<Rightarrow> 'v list \<Rightarrow> nat list \<times> 'v list" where
  "scatter [] cursors out = (cursors, out)"
| "scatter ((k, v) # ps) cursors out =
     scatter ps (cursors[k := Suc (cursors ! k)]) (out[cursors ! k := v])"

text \<open>Running sums with a checked addition on 32 bits.\<close>

fun checked_sums :: "nat \<Rightarrow> nat list \<Rightarrow> nat list option" where
  "checked_sums acc [] = Some [acc]"
| "checked_sums acc (c # cs) =
     Option.bind (fits_u32 (acc + c)) (\<lambda>acc'. map_option ((#) acc) (checked_sums acc' cs))"

text \<open>Cursors for buckets that are laid out in a given order.\<close>

fun order_cursors :: "nat list \<Rightarrow> nat list \<Rightarrow> nat \<Rightarrow> nat list \<Rightarrow> nat list option" where
  "order_cursors [] counts at cursors = Some cursors"
| "order_cursors (k # ks) counts at cursors =
     Option.bind (fits_u32 (at + counts ! k)) (\<lambda>at'. order_cursors ks counts at' (cursors[k := at]))"

section \<open>What a bucket holds\<close>

definition bucket :: "nat \<Rightarrow> (nat \<times> 'v) list \<Rightarrow> 'v list" where
  "bucket k ps = map snd (filter (\<lambda>p. fst p = k) ps)"

lemma bucket_simps [simp]:
  "bucket k [] = []"
  "bucket k ((k', v) # ps) = (if k' = k then v # bucket k ps else bucket k ps)"
  by (simp_all add: bucket_def)

lemma length_bucket: "length (bucket k ps) = count_list (map fst ps) k"
  by (induction ps) (auto simp: bucket_def)

lemma tally_fold:
  "length counts = n \<Longrightarrow> k < n \<Longrightarrow>
     fold (\<lambda>k counts. counts[k := Suc (counts ! k)]) keys counts ! k = counts ! k + count_list keys k"
  by (induction keys arbitrary: counts) (auto simp: nth_list_update)

lemma length_tally [simp]: "length (tally n keys) = n"
proof -
  have "length (fold (\<lambda>k counts. counts[k := Suc (counts ! k)]) keys cs) = length cs" for cs :: "nat list"
    by (induction keys arbitrary: cs) auto
  then show ?thesis by (simp add: tally_def)
qed

lemma nth_tally [simp]: "k < n \<Longrightarrow> tally n keys ! k = count_list keys k"
  unfolding tally_def by (subst tally_fold [where n = n]) auto

lemma tally_bucket: "k < n \<Longrightarrow> tally n (map fst ps) ! k = length (bucket k ps)"
  by (simp add: length_bucket)

text \<open>Buckets that start at \<open>starts\<close> and have room for their rows do not overlap.\<close>

definition laid_out :: "nat \<Rightarrow> (nat \<times> 'v) list \<Rightarrow> nat list \<Rightarrow> nat \<Rightarrow> bool" where
  "laid_out n ps starts room \<longleftrightarrow>
     length starts = n \<and> (\<forall>p \<in> set ps. fst p < n) \<and>
     (\<forall>k < n. starts ! k + length (bucket k ps) \<le> room) \<and>
     (\<forall>k < n. \<forall>k' < n. k \<noteq> k' \<longrightarrow>
        starts ! k + length (bucket k ps) \<le> starts ! k' \<or>
        starts ! k' + length (bucket k' ps) \<le> starts ! k)"

lemma laid_out_Cons:
  assumes "laid_out n ((k, v) # ps) starts room"
  shows "laid_out n ps (starts[k := Suc (starts ! k)]) room"
proof -
  have k: "k < n" "length starts = n" using assms by (auto simp: laid_out_def)
  have pos: "starts ! j + length (bucket j ((k, v) # ps)) =
      (starts[k := Suc (starts ! k)]) ! j + length (bucket j ps)" if "j < n" for j
    using that k by (auto simp: nth_list_update)
  have ge: "starts ! j \<le> (starts[k := Suc (starts ! k)]) ! j" if "j < n" for j
    using that k by (auto simp: nth_list_update)
  show ?thesis
    unfolding laid_out_def
  proof (intro conjI allI impI)
    fix j j' assume j: "j < n" "j' < n" "j \<noteq> j'"
    then have "starts ! j + length (bucket j ((k, v) # ps)) \<le> starts ! j' \<or>
        starts ! j' + length (bucket j' ((k, v) # ps)) \<le> starts ! j"
      using assms by (auto simp: laid_out_def)
    then show "(starts[k := Suc (starts ! k)]) ! j + length (bucket j ps) \<le> (starts[k := Suc (starts ! k)]) ! j' \<or>
        (starts[k := Suc (starts ! k)]) ! j' + length (bucket j' ps) \<le> (starts[k := Suc (starts ! k)]) ! j"
      unfolding pos [OF j(1)] pos [OF j(2)] using ge [OF j(1)] ge [OF j(2)] by linarith
  next
    fix j assume "j < n"
    then have "starts ! j + length (bucket j ((k, v) # ps)) \<le> room"
      using assms unfolding laid_out_def by blast
    then show "(starts[k := Suc (starts ! k)]) ! j + length (bucket j ps) \<le> room"
      unfolding pos [OF \<open>j < n\<close>] .
  qed (use assms k in \<open>auto simp: laid_out_def\<close>)
qed

lemma length_scatter [simp]: "length (snd (scatter ps starts out)) = length out"
  by (induction ps starts out rule: scatter.induct) auto

lemma scatter_untouched:
  "laid_out n ps starts (length out) \<Longrightarrow>
     (\<And>k. k < n \<Longrightarrow> i < starts ! k \<or> starts ! k + length (bucket k ps) \<le> i) \<Longrightarrow>
     snd (scatter ps starts out) ! i = out ! i"
proof (induction ps starts out rule: scatter.induct)
  case (2 k v ps starts out)
  have k: "k < n" "length starts = n" using "2.prems"(1) by (auto simp: laid_out_def)
  have "i < starts[k := Suc (starts ! k)] ! j \<or> starts[k := Suc (starts ! k)] ! j + length (bucket j ps) \<le> i"
    if "j < n" for j
    using "2.prems"(2) [OF that] k that by (auto simp: nth_list_update split: if_splits)
  then have "snd (scatter ((k, v) # ps) starts out) ! i = out[starts ! k := v] ! i"
    using "2.IH" laid_out_Cons [OF "2.prems"(1)] by simp
  moreover have "starts ! k \<noteq> i" using "2.prems"(2) [OF k(1)] by auto
  ultimately show ?case by simp
qed simp

theorem scatter_bucket:
  "laid_out n ps starts (length out) \<Longrightarrow> k < n \<Longrightarrow>
     slice (starts ! k) (length (bucket k ps)) (snd (scatter ps starts out)) = bucket k ps"
proof (induction ps starts out rule: scatter.induct)
  case (2 k' v ps starts out)
  let ?s = "starts[k' := Suc (starts ! k')]" and ?o = "out[starts ! k' := v]"
  have lay: "laid_out n ps ?s (length ?o)" using laid_out_Cons [OF "2.prems"(1)] by simp
  have k': "k' < n" "length starts = n" using "2.prems"(1) by (auto simp: laid_out_def)
  have IH: "slice (?s ! k) (length (bucket k ps)) (snd (scatter ps ?s ?o)) = bucket k ps"
    using "2.IH" lay "2.prems"(2) by simp
  show ?case
  proof (cases "k' = k")
    case False
    with IH show ?thesis by simp
  next
    case True
    let ?i = "starts ! k"
    have bound: "?i < length out" using "2.prems" True by (fastforce simp: laid_out_def)
    have "snd (scatter ps ?s ?o) ! ?i = ?o ! ?i"
    proof (rule scatter_untouched [OF lay])
      fix j assume j: "j < n"
      show "?i < ?s ! j \<or> ?s ! j + length (bucket j ps) \<le> ?i"
        using "2.prems" j True k' unfolding laid_out_def
        by (cases "j = k") (fastforce simp: nth_list_update)+
    qed
    then have "snd (scatter ps ?s ?o) ! ?i = v" using True bound by simp
    then have "drop ?i (snd (scatter ps ?s ?o)) = v # drop (Suc ?i) (snd (scatter ps ?s ?o))"
      using bound by (metis Cons_nth_drop_Suc length_list_update length_scatter)
    with IH True k' show ?thesis by (simp add: slice_def)
  qed
qed (simp add: slice_def)

section \<open>Layouts\<close>

text \<open>The running sums lay the buckets out in key order.\<close>

lemma checked_sums_Some:
  "checked_sums acc cs = Some os \<Longrightarrow>
     length os = Suc (length cs) \<and> (\<forall>i \<le> length cs. os ! i = acc + sum_list (take i cs))"
proof (induction acc cs arbitrary: os rule: checked_sums.induct)
  case (2 acc c cs)
  then obtain rest where rest: "checked_sums (acc + c) cs = Some rest" "os = acc # rest"
      and fits: "fits_u32 (acc + c) = Some (acc + c)"
    by (auto simp: fits_u32_def split: if_splits)
  from 2(1) [OF fits rest(1)] have
    len: "length rest = Suc (length cs)" and nth: "\<forall>i \<le> length cs. rest ! i = acc + c + sum_list (take i cs)"
    by auto
  have "os ! i = acc + sum_list (take i (c # cs))" if "i \<le> Suc (length cs)" for i
    using that nth rest(2) by (cases i) (auto simp: add.assoc)
  with len rest(2) show ?case by simp
qed simp

lemma checked_sums_total: "acc + sum_list cs < 2 ^ 32 \<Longrightarrow> checked_sums acc cs \<noteq> None"
  by (induction acc cs rule: checked_sums.induct) (auto simp: fits_u32_def add.assoc)

lemma sum_list_take_mono: "i \<le> j \<Longrightarrow> sum_list (take i cs) \<le> sum_list (take j (cs :: nat list))"
  by (metis le_add1 sum_list_append take_add le_Suc_ex)

lemma sum_list_take_Suc: "i < length cs \<Longrightarrow> sum_list (take (Suc i) cs) = sum_list (take i cs) + (cs ! i :: nat)"
  by (simp add: take_Suc_conv_app_nth)

lemma sum_tally:
  "\<forall>p \<in> set ps. fst p < n \<Longrightarrow> sum_list (tally n (map fst ps)) = length ps"
proof -
  assume "\<forall>p \<in> set ps. fst p < n"
  have "sum_list (tally n (map fst ps)) = (\<Sum>k \<in> {0..<n}. count_list (map fst ps) k)"
    by (simp add: sum_list_sum_nth del: upt_Suc)
  also have "\<dots> = length (map fst ps)"
    using \<open>\<forall>p \<in> set ps. fst p < n\<close>
  proof (induction ps)
    case (Cons p ps)
    then have "fst p \<in> {0..<n}" by simp
    then have "(\<Sum>k \<in> {0..<n}. count_list (map fst (p # ps)) k) =
        Suc (\<Sum>k \<in> {0..<n}. count_list (map fst ps) k)"
      by (simp add: sum.remove [where x = "fst p"])
    with Cons show ?case by simp
  qed simp
  finally show ?thesis by simp
qed

lemma key_order_laid_out:
  assumes "\<forall>p \<in> set ps. fst p < n" "checked_sums 0 (tally n (map fst ps)) = Some os"
  shows "laid_out n ps (take n os) (length ps)"
proof -
  let ?cs = "tally n (map fst ps)"
  have os: "length os = Suc n" "\<forall>i \<le> n. os ! i = sum_list (take i ?cs)"
    using checked_sums_Some [OF assms(2)] by auto
  have len: "length (bucket k ps) = ?cs ! k" if "k < n" for k using that by (simp add: length_bucket)
  have upto: "sum_list (take (Suc k) ?cs) = os ! k + length (bucket k ps)" if "k < n" for k
    using that os(2) len [OF that] by (simp add: sum_list_take_Suc)
  have "os ! k + length (bucket k ps) \<le> length ps" if "k < n" for k
    using upto [OF that] sum_list_take_mono [of "Suc k" n ?cs] that sum_tally [OF assms(1)] by simp
  moreover have "os ! k + length (bucket k ps) \<le> os ! k'" if "k < k'" "k' < n" for k k'
    using upto [of k] sum_list_take_mono [of "Suc k" k' ?cs] that os(2) by simp
  ultimately show ?thesis
    using assms(1) os(1) unfolding laid_out_def by (auto simp: nat_neq_iff)
qed

text \<open>Buckets in a given order: the output is their concatenation.\<close>

lemma order_cursors_Some:
  "order_cursors ks counts at cs = Some os \<Longrightarrow> distinct ks \<Longrightarrow> set ks \<subseteq> {..<length cs} \<Longrightarrow>
     length os = length cs \<and> (\<forall>k. k \<notin> set ks \<longrightarrow> os ! k = cs ! k) \<and>
     (\<forall>i < length ks. os ! (ks ! i) = at + sum_list (map ((!) counts) (take i ks)))"
proof (induction ks counts at cs rule: order_cursors.induct)
  case (2 k ks counts at cs)
  then have fits: "fits_u32 (at + counts ! k) = Some (at + counts ! k)"
    and rest: "order_cursors ks counts (at + counts ! k) (cs[k := at]) = Some os"
    by (auto simp: fits_u32_def split: if_splits)
  from "2.IH" [OF fits rest] "2.prems" have
    len: "length os = length cs" and
    other: "\<forall>j. j \<notin> set ks \<longrightarrow> os ! j = cs[k := at] ! j" and
    nth: "\<forall>i < length ks. os ! (ks ! i) = at + counts ! k + sum_list (map ((!) counts) (take i ks))"
    by auto
  have "os ! k = at" using other "2.prems" by simp
  then have "os ! ((k # ks) ! i) = at + sum_list (map ((!) counts) (take i (k # ks)))"
    if "i < length (k # ks)" for i
    using that nth by (cases i) (auto simp: add.assoc)
  with len other show ?case by auto
qed simp

lemma order_cursors_total:
  "at + sum_list (map ((!) counts) ks) < 2 ^ 32 \<Longrightarrow> order_cursors ks counts at cs \<noteq> None"
  by (induction ks counts at cs rule: order_cursors.induct) (auto simp: fits_u32_def add.assoc)

lemma slices_concat:
  "length xs = off + sum_list (map length ys) \<Longrightarrow>
     (\<And>i. i < length ys \<Longrightarrow> slice (off + sum_list (map length (take i ys))) (length (ys ! i)) xs = ys ! i) \<Longrightarrow>
     drop off xs = concat ys"
proof (induction ys arbitrary: off)
  case (Cons y ys)
  have "slice (off + length y + sum_list (map length (take i ys))) (length (ys ! i)) xs = ys ! i"
    if "i < length ys" for i
    using Cons.prems(2) [of "Suc i"] that by (simp add: add.assoc)
  then have "drop (off + length y) xs = concat ys"
    using Cons.IH [of "off + length y"] Cons.prems(1) by (simp add: add.assoc)
  moreover have "take (length y) (drop off xs) = y" using Cons.prems(2) [of 0] by (simp add: slice_def)
  ultimately show ?case by (metis append_take_drop_id concat.simps(2) drop_drop add.commute)
qed simp

definition ordered_layout :: "nat list \<Rightarrow> (nat \<times> 'v) list \<Rightarrow> nat \<Rightarrow> nat list \<Rightarrow> bool" where
  "ordered_layout ks ps n os \<longleftrightarrow>
     (\<forall>p \<in> set ps. fst p < n) \<and> distinct ks \<and> set ks = {..<n} \<and>
     order_cursors ks (tally n (map fst ps)) 0 (replicate n 0) = Some os"

lemma ordered_layout_length:
  assumes "ordered_layout ks ps n os"
  shows "length os = n" "length ks = n"
  using assms order_cursors_Some [of ks "tally n (map fst ps)" 0 "replicate n 0" os] distinct_card [of ks]
  by (simp_all add: ordered_layout_def)

lemma ordered_layout_start:
  assumes "ordered_layout ks ps n os" "i < n"
  shows "os ! (ks ! i) = sum_list (map length (take i (map (\<lambda>k. bucket k ps) ks)))"
proof -
  have "k < n" if "k \<in> set (take i ks)" for k
    using in_set_takeD [OF that] assms(1) by (simp add: ordered_layout_def)
  then have "map ((!) (tally n (map fst ps))) (take i ks) = map length (take i (map (\<lambda>k. bucket k ps) ks))"
    unfolding take_map map_map by (intro map_cong) (simp_all add: length_bucket)
  moreover have "os ! (ks ! i) = 0 + sum_list (map ((!) (tally n (map fst ps))) (take i ks))"
    using order_cursors_Some [of ks "tally n (map fst ps)" 0 "replicate n 0" os] assms
      ordered_layout_length(2) [OF assms(1)] by (simp add: ordered_layout_def)
  ultimately show ?thesis by simp
qed

lemma ordered_layout_size:
  assumes "ordered_layout ks ps n os"
  shows "sum_list (map length (map (\<lambda>k. bucket k ps) ks)) = length ps"
proof -
  have "sum_list (map length (map (\<lambda>k. bucket k ps) ks)) = (\<Sum>k \<in> {..<n}. length (bucket k ps))"
    using assms by (simp add: ordered_layout_def comp_def sum_list_distinct_conv_sum_set)
  also have "\<dots> = sum_list (tally n (map fst ps))"
    unfolding sum_list_sum_nth lessThan_atLeast0 by (intro sum.cong) (simp_all add: length_bucket)
  finally show ?thesis using sum_tally [of ps n] assms by (simp add: ordered_layout_def)
qed

lemma ordered_layout_laid_out:
  assumes "ordered_layout ks ps n os"
  shows "laid_out n ps os (length ps)"
proof -
  let ?ls = "map length (map (\<lambda>k. bucket k ps) ks)"
  note len = ordered_layout_length [OF assms]
  have ends: "os ! (ks ! i) + length (bucket (ks ! i) ps) = sum_list (take (Suc i) ?ls)" if "i < n" for i
    using that ordered_layout_start [OF assms that] len by (simp add: take_Suc_conv_app_nth take_map)
  have pos: "\<exists>i < n. k = ks ! i" if "k < n" for k
    using that assms len(2) unfolding ordered_layout_def by (metis in_set_conv_nth lessThan_iff)
  have fits: "os ! (ks ! i) + length (bucket (ks ! i) ps) \<le> length ps" if "i < n" for i
    using ends [OF that] sum_list_take_mono [of "Suc i" n ?ls] that ordered_layout_size [OF assms] len by simp
  have apart: "os ! (ks ! i) + length (bucket (ks ! i) ps) \<le> os ! (ks ! j)" if "i < j" "j < n" for i j
    using ends [of i] ordered_layout_start [OF assms that(2)] sum_list_take_mono [of "Suc i" j ?ls] that
    by (simp add: take_map)
  have "os ! k + length (bucket k ps) \<le> os ! k' \<or> os ! k' + length (bucket k' ps) \<le> os ! k"
    if "k < n" "k' < n" "k \<noteq> k'" for k k'
    using pos [OF that(1)] pos [OF that(2)] that(3) apart by (metis nat_neq_iff)
  then show ?thesis
    using assms len fits pos unfolding laid_out_def ordered_layout_def by metis
qed

lemma scatter_concat:
  assumes "ordered_layout ks ps n os" "length out = length ps"
  shows "snd (scatter ps os out) = concat (map (\<lambda>k. bucket k ps) ks)"
proof -
  note len = ordered_layout_length [OF assms(1)]
  have "slice (0 + sum_list (map length (take i (map (\<lambda>k. bucket k ps) ks))))
      (length (map (\<lambda>k. bucket k ps) ks ! i)) (snd (scatter ps os out)) = map (\<lambda>k. bucket k ps) ks ! i"
    if "i < length (map (\<lambda>k. bucket k ps) ks)" for i
  proof -
    have i: "i < n" using that len by simp
    then have ki: "ks ! i < n" using nth_mem [of i ks] assms(1) len(2)
      unfolding ordered_layout_def by (metis lessThan_iff)
    from scatter_bucket [OF _ ki, of ps os out] ordered_layout_laid_out [OF assms(1)] assms(2)
      ordered_layout_start [OF assms(1) i] i len
    show ?thesis by simp
  qed
  then have "drop 0 (snd (scatter ps os out)) = concat (map (\<lambda>k. bucket k ps) ks)"
    using slices_concat [of "snd (scatter ps os out)" 0 "map (\<lambda>k. bucket k ps) ks"] assms(2)
      ordered_layout_size [OF assms(1)]
    by (simp only: length_scatter add_0)
  then show ?thesis by simp
qed

end
