(* ===== verification/Project_Context.thy ===== *)
theory Project_Context
  imports Includes
begin

text \<open>
  Build-marker ownership of files, \<open>src/crates/fossilsense/src/project_context.rs\<close>: which file names
  mark a project, and the nearest project above a file. \<open>path_spelling_eq\<close> is modelled for the
  case-sensitive targets, where it is equality. Discovery walks the file system and is not modelled; the
  discovered projects are the argument of \<open>project_context_index_new\<close>.
\<close>

record project_key =
  pk_workspace_root_id :: string
  pk_project_path :: string

record project_context =
  pc_key :: project_key
  pc_workspace_name :: string
  pc_marker_files :: "string list"

record project_context_index =
  pi_workspace_root_id :: string
  pi_workspace_name :: string
  pi_projects :: "project_context list"

definition path_spelling_eq :: "string \<Rightarrow> string \<Rightarrow> bool" where
  "path_spelling_eq l r = (l = r)"

definition project_path_cmp :: "project_context \<Rightarrow> project_context \<Rightarrow> ordering" where
  "project_path_cmp a b =
     then_with
       (cmp_of (to_ascii_lowercase (pk_project_path (pc_key a))) (to_ascii_lowercase (pk_project_path (pc_key b))))
       (cmp_of (pk_project_path (pc_key a)) (pk_project_path (pc_key b)))"

definition project_context_index_new ::
  "string \<Rightarrow> string \<Rightarrow> project_context list \<Rightarrow> project_context_index" where
  "project_context_index_new workspace_root_id workspace_name projects =
     \<lparr> pi_workspace_root_id = workspace_root_id, pi_workspace_name = workspace_name,
       pi_projects = sort_by project_path_cmp projects \<rparr>"

definition canonical_key :: "project_context_index \<Rightarrow> project_key \<Rightarrow> project_key option" where
  "canonical_key index key =
     (if pk_workspace_root_id key \<noteq> pi_workspace_root_id index then None
      else map_option pc_key
        (List.find (\<lambda>p. path_spelling_eq (pk_project_path (pc_key p)) (pk_project_path key)) (pi_projects index)))"

definition normalize_rel_slash :: "string \<Rightarrow> string" where
  "normalize_rel_slash path =
     trim_end_slashes (dropWhile (\<lambda>c. c = CHR ''/'') (replace_backslash path))"

definition path_depth :: "string \<Rightarrow> nat" where
  "path_depth path = (if path = [] then 0 else length (split_on (CHR ''/'') path))"

definition path_is_at_or_under :: "string \<Rightarrow> string \<Rightarrow> bool" where
  "path_is_at_or_under path ancestor =
     (ancestor = [] \<or> path_spelling_eq path ancestor \<or>
      (length ancestor \<le> length path \<and> path_spelling_eq (take (length ancestor) path) ancestor) \<and>
      (length ancestor < length path \<and> path ! length ancestor = CHR ''/''))"

definition nearest_for_file :: "project_context_index \<Rightarrow> string \<Rightarrow> project_key option" where
  "nearest_for_file index rel_file_path =
     (let normalized = normalize_rel_slash rel_file_path
      in map_option pc_key
           (max_by_key (\<lambda>p. path_depth (pk_project_path (pc_key p)))
             (filter (\<lambda>p. path_is_at_or_under normalized (pk_project_path (pc_key p))) (pi_projects index))))"

definition is_supported_marker_file_name :: "string \<Rightarrow> bool" where
  "is_supported_marker_file_name marker =
     (let lower = to_ascii_lowercase marker
      in lower \<in> {''makefile'', ''gnumakefile'', ''cmakelists.txt'', ''build.ninja'', ''meson.build'',
           ''build'', ''build.bazel'', ''workspace'', ''workspace.bazel'', ''go.mod'', ''go.work''} \<or>
         list_ex (ends_with lower) [''.pro'', ''.sln'', ''.vcxproj'', ''.vcproj''])"

section \<open>The nearest project\<close>

interpretation project_order: lawful_cmp project_path_cmp
  unfolding project_path_cmp_def by (intro lawful_cmp_intros)

lemma max_by_key_Some:
  "max_by_key key xs = Some x \<Longrightarrow> x \<in> set xs \<and> (\<forall>y \<in> set xs. key y \<le> key x)"
proof (induction xs arbitrary: x)
  case (Cons y ys)
  show ?case
  proof (cases "max_by_key key ys")
    case None
    then have "ys = []" by (cases ys) (auto split: option.splits if_splits)
    with Cons.prems show ?thesis by simp
  next
    case (Some z)
    with Cons.IH [OF Some] Cons.prems show ?thesis by (fastforce split: if_splits)
  qed
qed simp

lemma max_by_key_None: "max_by_key key xs = None \<longleftrightarrow> xs = []"
  by (cases xs) (auto split: option.splits)

text \<open>\<open>path_is_at_or_under\<close> is being a component prefix.\<close>

lemma split_on_app:
  "split_on c (xs @ c # ys) = split_on c xs @ split_on c ys"
proof (induction xs)
  case (Cons x xs)
  then show ?case by (cases "split_on c xs") (auto split: list.splits)
qed simp

lemma split_on_inject: "split_on c xs = split_on c ys \<Longrightarrow> xs = ys"
proof (induction xs arbitrary: ys)
  case Nil
  then show ?case by (cases ys) (auto split: list.splits if_splits)
next
  case (Cons x xs)
  then show ?case by (cases ys) (auto split: list.splits if_splits)
qed

lemma split_on_prefix:
  "prefix (split_on c anc) (split_on c path) \<longleftrightarrow> path = anc \<or> (\<exists>rest. path = anc @ c # rest)"
proof (induction anc arbitrary: path)
  case Nil
  show ?case by (cases path) (auto split: list.splits)
next
  case (Cons a anc)
  show ?case
  proof (cases path)
    case Nil
    then show ?thesis by (auto split: list.splits)
  next
    case (Cons p path')
    with Cons.IH [of path'] show ?thesis
      by (cases "split_on c anc"; cases "split_on c path'") auto
  qed
qed

lemma at_or_under_components:
  "anc \<noteq> [] \<Longrightarrow>
     path_is_at_or_under path anc \<longleftrightarrow> prefix (split_on (CHR ''/'') anc) (split_on (CHR ''/'') path)"
proof -
  have "(take (length anc) path = anc \<and> length anc < length path \<and> path ! length anc = CHR ''/'') \<longleftrightarrow>
      (\<exists>rest. path = anc @ CHR ''/'' # rest)"
    by (auto simp: nth_append) (metis append_take_drop_id id_take_nth_drop)
  then show "anc \<noteq> [] \<Longrightarrow> ?thesis"
    by (auto simp: path_is_at_or_under_def path_spelling_eq_def split_on_prefix)
qed


definition sample_projects :: "project_context list" where
  "sample_projects =
     [\<lparr> pc_key = \<lparr> pk_workspace_root_id = ''r'', pk_project_path = ''app'' \<rparr>, pc_workspace_name = ''w'', pc_marker_files = [] \<rparr>,
      \<lparr> pc_key = \<lparr> pk_workspace_root_id = ''r'', pk_project_path = ''app/lib'' \<rparr>, pc_workspace_name = ''w'', pc_marker_files = [] \<rparr>]"


end
