(* ===== verification/Name_Segment.thy ===== *)
theory Name_Segment
  imports Name_Match Bucket_Layout Project_Context "HOL-Library.Monad_Syntax"
begin

text \<open>
  One immutable segment of the name index: \<open>NameIndexBuilder\<close> of
  \<open>src/crates/fossilsense/src/query/name_index_builder.rs\<close>, and \<open>CompactNameFlags\<close>, the posting
  structures and \<open>NameSegment\<close> of \<open>query.rs\<close>, with the entry conversions of \<open>query/name_updates.rs\<close>.
  Arena ids are naturals; a conversion to \<open>u32\<close> that would panic, and a counter that would
  overflow, make the construction \<open>None\<close>. A \<open>[T; 2]\<close> indexed by semantic family is a pair. The
  unstable sorts of the code are stable here; where the key does not determine an element the code
  leaves the order open. The cancellable copies of the constructors (\<open>_with_cancellation\<close>) are not
  modelled: apart from returning early they are the same code.
\<close>

type_synonym u8 = "8 word"

section \<open>Entries\<close>

datatype symbol_kind = FunctionSymbol | MacroSymbol | TypeSymbol | EnumConstantSymbol | GlobalVariable | FieldSymbol

datatype symbol_role =
  DefinitionSymbol | DeclarationSymbol | TentativeSymbol | UnknownDeclarationOrDefinition

record name_entry =
  ne_id :: int
  ne_name :: string
  ne_lower :: string
  ne_external :: bool
  ne_directly_included :: bool
  ne_path :: string
  ne_kind :: symbol_kind
  ne_role :: symbol_role
  ne_semantic_family :: semantic_family
  ne_project_key :: "project_key option"

record declaration_name_row =
  dn_id :: int
  dn_name :: string
  dn_declaration_kind :: semantic_declaration_kind
  dn_role :: semantic_declaration_role
  dn_semantic_family :: semantic_family
  dn_path :: string
  dn_external :: bool
  dn_directly_included :: bool

definition parser_kind_from_str :: "string \<Rightarrow> symbol_kind" where
  "parser_kind_from_str kind =
     (if kind = ''function'' then FunctionSymbol
      else if kind = ''macro'' then MacroSymbol
      else if kind = ''type'' then TypeSymbol
      else if kind = ''enum_constant'' then EnumConstantSymbol
      else if kind = ''field'' then FieldSymbol
      else GlobalVariable)"

fun parser_kind_from_declaration_kind :: "semantic_declaration_kind \<Rightarrow> symbol_kind" where
  "parser_kind_from_declaration_kind FunctionDecl = FunctionSymbol"
| "parser_kind_from_declaration_kind MethodDecl = FunctionSymbol"
| "parser_kind_from_declaration_kind ObjectDecl = GlobalVariable"
| "parser_kind_from_declaration_kind TypeDecl = TypeSymbol"
| "parser_kind_from_declaration_kind AliasDecl = TypeSymbol"
| "parser_kind_from_declaration_kind EnumConstant = EnumConstantSymbol"
| "parser_kind_from_declaration_kind MacroDecl = MacroSymbol"

fun symbol_role_from_declaration_role :: "semantic_declaration_role \<Rightarrow> symbol_role" where
  "symbol_role_from_declaration_role DeclarationRole = DeclarationSymbol"
| "symbol_role_from_declaration_role DefinitionRole = DefinitionSymbol"
| "symbol_role_from_declaration_role TentativeDefinition = TentativeSymbol"
| "symbol_role_from_declaration_role UnknownRole = UnknownDeclarationOrDefinition"

definition name_entry_parts ::
  "int \<Rightarrow> string \<Rightarrow> bool \<Rightarrow> string \<Rightarrow> string \<Rightarrow> symbol_role \<Rightarrow> semantic_family \<Rightarrow> bool
   \<Rightarrow> project_key option \<Rightarrow> name_entry" where
  "name_entry_parts i name external path kind role family directly_included project =
     \<lparr> ne_id = i, ne_name = name, ne_lower = to_ascii_lowercase name, ne_external = external,
       ne_directly_included = directly_included, ne_path = path, ne_kind = parser_kind_from_str kind,
       ne_role = role, ne_semantic_family = family, ne_project_key = project \<rparr>"

definition name_entry_of :: "int \<times> string \<times> bool \<times> string \<times> string \<times> bool \<Rightarrow> name_entry" where
  "name_entry_of row =
     (case row of (i, name, external, path, kind, directly_included) \<Rightarrow>
        name_entry_parts i name external path kind DefinitionSymbol CFamily directly_included None)"

definition declaration_entry :: "project_key option \<Rightarrow> declaration_name_row \<Rightarrow> name_entry" where
  "declaration_entry project row =
     \<lparr> ne_id = dn_id row, ne_name = dn_name row, ne_lower = to_ascii_lowercase (dn_name row),
       ne_external = dn_external row, ne_directly_included = dn_directly_included row,
       ne_path = dn_path row, ne_kind = parser_kind_from_declaration_kind (dn_declaration_kind row),
       ne_role = symbol_role_from_declaration_role (dn_role row),
       ne_semantic_family = dn_semantic_family row,
       ne_project_key = project \<rparr>"

text \<open>The rows of one request share a memo of the project of each path.\<close>

fun declaration_name_entries ::
  "project_context_index option \<Rightarrow> (string, project_key option) hmap \<Rightarrow> declaration_name_row list
   \<Rightarrow> name_entry list" where
  "declaration_name_entries ctx memo [] = []"
| "declaration_name_entries ctx memo (row # rows) =
     (let (project, memo) =
        (if dn_external row then (None, memo)
         else case map_of memo (dn_path row) of
           Some project \<Rightarrow> (project, memo)
         | None \<Rightarrow>
             (let project = Option.bind ctx (\<lambda>index. nearest_for_file index (dn_path row))
              in (project, AList.update (dn_path row) project memo)))
      in declaration_entry project row # declaration_name_entries ctx memo rows)"

definition completion_role_recall_priority :: "symbol_role \<Rightarrow> nat" where
  "completion_role_recall_priority role =
     (case role of DeclarationSymbol \<Rightarrow> 4 | TentativeSymbol \<Rightarrow> 3 | DefinitionSymbol \<Rightarrow> 2
      | UnknownDeclarationOrDefinition \<Rightarrow> 1)"

section \<open>Flags and families\<close>

definition FLAG_EXTERNAL :: u8 where "FLAG_EXTERNAL = push_bit 0 1"
definition FLAG_DIRECTLY_INCLUDED :: u8 where "FLAG_DIRECTLY_INCLUDED = push_bit 1 1"
definition FLAG_GO_FAMILY :: u8 where "FLAG_GO_FAMILY = push_bit 2 1"

definition flags_new :: "semantic_family \<Rightarrow> bool \<Rightarrow> bool \<Rightarrow> u8" where
  "flags_new family external directly_included =
     (let bits = (case family of CFamily \<Rightarrow> 0 | GoFamily \<Rightarrow> FLAG_GO_FAMILY);
          bits = (if external then bits OR FLAG_EXTERNAL else bits)
      in if external \<and> directly_included then bits OR FLAG_DIRECTLY_INCLUDED else bits)"

definition flags_family :: "u8 \<Rightarrow> semantic_family" where
  "flags_family flags = (if flags AND FLAG_GO_FAMILY = 0 then CFamily else GoFamily)"

definition flags_external :: "u8 \<Rightarrow> bool" where
  "flags_external flags = (flags AND FLAG_EXTERNAL \<noteq> 0)"

definition flags_directly_included :: "u8 \<Rightarrow> bool" where
  "flags_directly_included flags = (flags AND FLAG_DIRECTLY_INCLUDED \<noteq> 0)"

fun semantic_family_slot :: "semantic_family \<Rightarrow> nat" where
  "semantic_family_slot CFamily = 0"
| "semantic_family_slot GoFamily = 1"

fun semantic_family_slots :: "semantic_family option \<Rightarrow> nat list" where
  "semantic_family_slots None = [0, 1]"
| "semantic_family_slots (Some CFamily) = [0]"
| "semantic_family_slots (Some GoFamily) = [1]"

definition at_slot :: "'a \<times> 'a \<Rightarrow> nat \<Rightarrow> 'a" where
  "at_slot pair slot = (if slot = 0 then fst pair else snd pair)"

definition by_slot :: "(nat \<Rightarrow> 'a) \<Rightarrow> 'a \<times> 'a" where
  "by_slot f = (f 0, f 1)"

definition set_slot :: "nat \<Rightarrow> ('a \<Rightarrow> 'a) \<Rightarrow> 'a \<times> 'a \<Rightarrow> 'a \<times> 'a" where
  "set_slot slot f pair = (if slot = 0 then (f (fst pair), snd pair) else (fst pair, f (snd pair)))"

section \<open>Compact entries\<close>

definition NO_PROJECT_ID :: nat where "NO_PROJECT_ID = 2 ^ 32 - 1"
definition UNSEEN_PATH_ID :: nat where "UNSEEN_PATH_ID = 2 ^ 32 - 2"
definition MULTI_PATH_ID :: nat where "MULTI_PATH_ID = 2 ^ 32 - 1"

record compact_name_entry =
  cn_id :: int
  cn_name_id :: nat
  cn_path_id :: nat
  cn_project_id :: nat
  cn_kind :: symbol_kind
  cn_role :: symbol_role
  cn_flags :: u8

record name_string =
  nm_original :: string
  nm_lower :: string

definition entry_slot :: "compact_name_entry \<Rightarrow> nat" where
  "entry_slot e = semantic_family_slot (flags_family (cn_flags e))"

definition entry_name :: "name_string list \<Rightarrow> compact_name_entry \<Rightarrow> name_string" where
  "entry_name names e = names ! cn_name_id e"

text \<open>The ids of \<open>0..n\<close> as \<open>u32\<close>.\<close>

definition index_ids :: "nat \<Rightarrow> nat list option" where
  "index_ids n = (if n \<le> 2 ^ 32 then Some [0..<n] else None)"

section \<open>Lexical order\<close>

definition name_cmp :: "name_string \<Rightarrow> name_string \<Rightarrow> ordering" where
  "name_cmp a b = then_with (cmp_of (nm_lower a) (nm_lower b)) (cmp_of (nm_original a) (nm_original b))"

definition lexical_rows :: "compact_name_entry list \<Rightarrow> (nat \<times> nat) list" where
  "lexical_rows entries = zip (map cn_name_id entries) [0..<length entries]"

definition sorted_indices :: "compact_name_entry list \<Rightarrow> name_string list \<Rightarrow> nat list option" where
  "sorted_indices entries names = do {
     ids \<leftarrow> index_ids (length names);
     let name_order = sort_by (\<lambda>a b. name_cmp (names ! a) (names ! b)) ids;
     let counts = tally (length names) (map cn_name_id entries);
     cursors \<leftarrow> order_cursors name_order counts 0 (replicate (length names) 0);
     Some (snd (scatter (lexical_rows entries) cursors (replicate (length entries) 0)))
   }"

definition sorted_indices_by_family ::
  "compact_name_entry list \<Rightarrow> name_string list \<Rightarrow> (nat list \<times> nat list) option" where
  "sorted_indices_by_family entries names =
     map_option (\<lambda>sorted. by_slot (\<lambda>slot. filter (\<lambda>i. entry_slot (entries ! i) = slot) sorted))
       (sorted_indices entries names)"

section \<open>Path postings\<close>

record compact_path_postings =
  pp_offsets :: "nat list"
  pp_indices :: "nat list"

definition path_postings_build ::
  "compact_name_entry list \<Rightarrow> nat list \<Rightarrow> nat \<Rightarrow> compact_path_postings option" where
  "path_postings_build entries order path_count = do {
     let rows = map (\<lambda>i. (cn_path_id (entries ! i), i)) order;
     offsets \<leftarrow> checked_sums 0 (tally path_count (map fst rows));
     Some \<lparr> pp_offsets = offsets,
            pp_indices = snd (scatter rows (take path_count offsets) (replicate (length order) 0)) \<rparr>
   }"

definition path_posting :: "compact_path_postings \<Rightarrow> nat \<Rightarrow> nat list" where
  "path_posting p path_id =
     slice (pp_offsets p ! path_id) (pp_offsets p ! Suc path_id - pp_offsets p ! path_id) (pp_indices p)"

section \<open>Fuzzy postings\<close>

definition FUZZY_BOUNDARY_TRIGRAM_TAG :: u32 where "FUZZY_BOUNDARY_TRIGRAM_TAG = push_bit 24 1"
definition MAX_CONTIGUOUS_TRIGRAMS_PER_NAME :: nat where "MAX_CONTIGUOUS_TRIGRAMS_PER_NAME = 64"
definition MAX_BOUNDARY_INITIALS_FOR_TRIGRAMS :: nat where "MAX_BOUNDARY_INITIALS_FOR_TRIGRAMS = 8"

definition u32_of_byte :: "char \<Rightarrow> u32" where
  "u32_of_byte c = of_nat (of_char c)"

definition fuzzy_trigram_token :: "string \<Rightarrow> bool \<Rightarrow> u32" where
  "fuzzy_trigram_token bytes boundary =
     u32_of_byte (bytes ! 0) OR push_bit 8 (u32_of_byte (bytes ! 1)) OR push_bit 16 (u32_of_byte (bytes ! 2)) OR
     (if boundary then FUZZY_BOUNDARY_TRIGRAM_TAG else 0)"

definition windows3 :: "string \<Rightarrow> string list" where
  "windows3 bytes = map (\<lambda>i. take 3 (drop i bytes)) [0..<length bytes - 2]"

definition sampled_trigram_tokens :: "string \<Rightarrow> bool \<Rightarrow> nat \<Rightarrow> u32 list" where
  "sampled_trigram_tokens bytes boundary cap =
     (let window_count = length bytes - 2
      in if window_count \<le> cap then map (\<lambda>w. fuzzy_trigram_token w boundary) (windows3 bytes)
         else map (\<lambda>ordinal.
           let position = (if cap \<le> 1 then 0 else ordinal * (window_count - 1) div (cap - 1))
           in fuzzy_trigram_token (take 3 (drop position bytes)) boundary) [0..<cap])"

definition boundary_triples :: "string \<Rightarrow> u32 list" where
  "boundary_triples initials =
     concat (map (\<lambda>i. concat (map (\<lambda>j. map (\<lambda>k.
       fuzzy_trigram_token [initials ! i, initials ! j, initials ! k] True)
         [Suc j..<length initials]) [Suc i..<length initials])) [0..<length initials])"

definition token_sort :: "u32 list \<Rightarrow> u32 list" where
  "token_sort tokens = dedup (sort_by cmp_of tokens)"

definition fuzzy_tokens_for_name :: "name_string \<Rightarrow> u32 list" where
  "fuzzy_tokens_for_name name =
     (let initials = take MAX_BOUNDARY_INITIALS_FOR_TRIGRAMS
            (map ((!) (nm_lower name)) (filter (is_boundary (nm_original name)) [0..<length (nm_lower name)]))
      in token_sort
           (sampled_trigram_tokens (nm_lower name) False MAX_CONTIGUOUS_TRIGRAMS_PER_NAME @
            boundary_triples initials))"

definition fuzzy_query_tokens :: "string \<Rightarrow> u32 list \<times> u32 list" where
  "fuzzy_query_tokens query =
     (token_sort (map (\<lambda>w. fuzzy_trigram_token w False) (windows3 query)),
      token_sort (boundary_triples (take MAX_BOUNDARY_INITIALS_FOR_TRIGRAMS query)))"

record compact_posting_range =
  pr_start :: nat
  pr_len :: nat

record compact_fuzzy_postings =
  fp_ranges :: "(u32, compact_posting_range) hmap"
  fp_name_ids :: "nat list"

type_synonym token_slots = "(u32, nat) hmap \<times> nat list"

definition count_token :: "u32 \<Rightarrow> token_slots \<Rightarrow> token_slots option" where
  "count_token token st =
     (let (slots, counts) = st
      in case map_of slots token of
           Some slot \<Rightarrow>
             Option.bind (fits_u32 (Suc (counts ! slot))) (\<lambda>n. Some (slots, counts[slot := n]))
         | None \<Rightarrow>
             Option.bind (fits_u32 (length counts)) (\<lambda>slot.
               Some (AList.update token slot slots, counts @ [1])))"

definition token_rows :: "nat list \<Rightarrow> name_string list \<Rightarrow> (u32 \<times> nat) list" where
  "token_rows ordered_name_ids names =
     concat (map (\<lambda>n. map (\<lambda>token. (token, n)) (fuzzy_tokens_for_name (names ! n))) ordered_name_ids)"

definition fuzzy_postings_build :: "nat list \<Rightarrow> name_string list \<Rightarrow> compact_fuzzy_postings option" where
  "fuzzy_postings_build ordered_name_ids names = do {
     let rows = token_rows ordered_name_ids names;
     (slots, counts) \<leftarrow> ofold (\<lambda>(token, _). count_token token) rows ([], []);
     starts \<leftarrow> checked_sums 0 counts;
     let name_ids = snd (scatter (map (\<lambda>(token, n). (the (map_of slots token), n)) rows)
           (take (length counts) starts) (replicate (starts ! length counts) 0));
     Some \<lparr> fp_ranges = map (\<lambda>(token, slot). (token, \<lparr> pr_start = starts ! slot, pr_len = counts ! slot \<rparr>)) slots,
            fp_name_ids = name_ids \<rparr>
   }"

definition fuzzy_posting :: "compact_fuzzy_postings \<Rightarrow> u32 \<Rightarrow> nat list" where
  "fuzzy_posting p token =
     (case map_of (fp_ranges p) token of
        None \<Rightarrow> []
      | Some r \<Rightarrow> slice (pr_start r) (pr_len r) (fp_name_ids p))"

section \<open>Prefix path postings\<close>

definition three_byte_prefix_token :: "string \<Rightarrow> u32 option" where
  "three_byte_prefix_token v =
     (if v = [] then None
      else Some (push_bit 16 (u32_of_byte (v ! 0)) OR
                 push_bit 8 (if 1 < length v then u32_of_byte (v ! 1) else 0) OR
                 (if 2 < length v then u32_of_byte (v ! 2) else 0)))"

definition three_byte_prefix_bounds :: "string \<Rightarrow> (u32 \<times> u32) option" where
  "three_byte_prefix_bounds v =
     (if v = [] then None
      else
        let lower =
              (if length v = 1 then push_bit 16 (u32_of_byte (v ! 0))
               else if length v = 2 then push_bit 16 (u32_of_byte (v ! 0)) OR push_bit 8 (u32_of_byte (v ! 1))
               else push_bit 16 (u32_of_byte (v ! 0)) OR push_bit 8 (u32_of_byte (v ! 1)) OR u32_of_byte (v ! 2));
            width = (if length v = 1 then push_bit 16 1 else if length v = 2 then push_bit 8 1 else 1)
        in Some (lower, lower + width))"

record compact_prefix_path_pair =
  px_token :: u32
  px_path_id :: nat

record compact_prefix_path_postings =
  px_pairs :: "compact_prefix_path_pair list"
  px_project_positions :: "(nat, nat list) hmap"

type_synonym raw_pair = "compact_prefix_path_pair \<times> nat"

definition raw_pair_key :: "raw_pair \<Rightarrow> u32 \<times> nat \<times> nat" where
  "raw_pair_key r = (px_token (fst r), px_path_id (fst r), snd r)"

definition raw_pairs :: "compact_name_entry list \<Rightarrow> name_string list \<Rightarrow> nat \<Rightarrow> raw_pair list" where
  "raw_pairs entries names slot =
     List.map_filter (\<lambda>e. map_option (\<lambda>token. (\<lparr> px_token = token, px_path_id = cn_path_id e \<rparr>, cn_project_id e))
         (three_byte_prefix_token (nm_lower (entry_name names e))))
       (filter (\<lambda>e. entry_slot e = slot) entries)"

definition last_is :: "'a \<Rightarrow> 'a list \<Rightarrow> bool" where
  "last_is x xs = (xs \<noteq> [] \<and> last xs = x)"

definition push_pair ::
  "raw_pair \<Rightarrow> compact_prefix_path_postings \<Rightarrow> compact_prefix_path_postings option" where
  "push_pair r p = do {
     let (pair, project_id) = r;
     let known = last_is pair (px_pairs p);
     position \<leftarrow> fits_u32 (if known then length (px_pairs p) - 1 else length (px_pairs p));
     let pairs = (if known then px_pairs p else px_pairs p @ [pair]);
     Some \<lparr> px_pairs = pairs,
            px_project_positions =
              (if project_id \<noteq> NO_PROJECT_ID then
                 entry_modify project_id [] (\<lambda>ps. if last_is position ps then ps else ps @ [position])
                   (px_project_positions p)
               else px_project_positions p) \<rparr>
   }"

definition prefix_paths_build ::
  "compact_name_entry list \<Rightarrow> name_string list \<Rightarrow> nat \<Rightarrow> compact_prefix_path_postings option" where
  "prefix_paths_build entries names slot =
     ofold push_pair
       (dedup (sort_by (\<lambda>a b. cmp_of (raw_pair_key a) (raw_pair_key b)) (raw_pairs entries names slot)))
       \<lparr> px_pairs = [], px_project_positions = [] \<rparr>"

text \<open>\<open>slice::partition_point\<close> on a partitioned slice: the length of its leading part.\<close>

definition partition_point :: "('a \<Rightarrow> bool) \<Rightarrow> 'a list \<Rightarrow> nat" where
  "partition_point P xs = length (takeWhile P xs)"

definition paths_for_prefix :: "compact_prefix_path_postings \<Rightarrow> string \<Rightarrow> compact_prefix_path_pair list" where
  "paths_for_prefix p v =
     (case three_byte_prefix_bounds v of
        None \<Rightarrow> []
      | Some (lower, upper) \<Rightarrow>
          (let start = partition_point (\<lambda>pair. px_token pair < lower) (px_pairs p);
               stop = partition_point (\<lambda>pair. px_token pair < upper) (px_pairs p)
           in slice start (stop - start) (px_pairs p)))"

definition project_positions_for_prefix :: "compact_prefix_path_postings \<Rightarrow> nat \<Rightarrow> string \<Rightarrow> nat list" where
  "project_positions_for_prefix p project_id v =
     (case three_byte_prefix_bounds v of
        None \<Rightarrow> []
      | Some (lower, upper) \<Rightarrow>
          (case map_of (px_project_positions p) project_id of
             None \<Rightarrow> []
           | Some positions \<Rightarrow>
               (let start = partition_point (\<lambda>i. px_token (px_pairs p ! i) < lower) positions;
                    stop = partition_point (\<lambda>i. px_token (px_pairs p ! i) < upper) positions
                in slice start (stop - start) positions)))"

section \<open>Heads and fuzzy names\<close>

definition static_segment_entry_order ::
  "compact_name_entry list \<Rightarrow> name_string list \<Rightarrow> string list \<Rightarrow> nat \<Rightarrow> nat \<Rightarrow> ordering" where
  "static_segment_entry_order entries names paths l r =
     (let left = entries ! l; right = entries ! r;
          left_name = nm_original (entry_name names left); right_name = nm_original (entry_name names right)
      in then_with (then_with (then_with (then_with
           (cmp_of (length left_name) (length right_name))
           (cmp_of left_name right_name))
           (cmp_of (completion_role_recall_priority (cn_role right)) (completion_role_recall_priority (cn_role left))))
           (cmp_of (paths ! cn_path_id left) (paths ! cn_path_id right)))
           (cmp_of (cn_id left) (cn_id right)))"

definition short_heads ::
  "compact_name_entry list \<Rightarrow> name_string list \<Rightarrow> string list \<Rightarrow> nat list \<Rightarrow> nat \<Rightarrow> (char, nat list) hmap" where
  "short_heads entries names paths ids slot =
     fold (\<lambda>i heads.
         (case nm_lower (entry_name names (entries ! i)) of
            [] \<Rightarrow> heads
          | head # _ \<Rightarrow> entry_modify head [] (\<lambda>is. is @ [i]) heads))
       (sort_by (static_segment_entry_order entries names paths)
          (filter (\<lambda>i. entry_slot (entries ! i) = slot) ids)) []"

definition name_families :: "compact_name_entry list \<Rightarrow> nat \<Rightarrow> u8 list" where
  "name_families entries name_count =
     fold (\<lambda>e masks. masks[cn_name_id e := masks ! cn_name_id e OR push_bit (entry_slot e) 1])
       entries (replicate name_count 0)"

definition fuzzy_name_cmp :: "name_string list \<Rightarrow> nat \<Rightarrow> nat \<Rightarrow> ordering" where
  "fuzzy_name_cmp names l r =
     then_with (then_with
       (cmp_of (length (nm_original (names ! l))) (length (nm_original (names ! r))))
       (cmp_of (nm_original (names ! l)) (nm_original (names ! r))))
       (cmp_of l r)"

definition family_names :: "compact_name_entry list \<Rightarrow> name_string list \<Rightarrow> nat list \<Rightarrow> nat \<Rightarrow> nat list" where
  "family_names entries names ids slot =
     sort_by (fuzzy_name_cmp names)
       (filter (\<lambda>n. name_families entries (length names) ! n AND push_bit slot 1 \<noteq> 0) ids)"

definition candidate_postings_by_family ::
  "compact_name_entry list \<Rightarrow> name_string list \<Rightarrow> string list
   \<Rightarrow> (((char, nat list) hmap \<times> (char, nat list) hmap) \<times> (compact_fuzzy_postings \<times> compact_fuzzy_postings)) option" where
  "candidate_postings_by_family entries names paths = do {
     ids \<leftarrow> index_ids (length entries);
     name_ids \<leftarrow> index_ids (length names);
     c_fuzzy \<leftarrow> fuzzy_postings_build (family_names entries names name_ids 0) names;
     go_fuzzy \<leftarrow> fuzzy_postings_build (family_names entries names name_ids 1) names;
     Some (by_slot (short_heads entries names paths ids), (c_fuzzy, go_fuzzy))
   }"

section \<open>Segments\<close>

record compact_project_postings =
  cp_project_id :: nat
  cp_by_family :: "nat list \<times> nat list"

record name_segment =
  ns_entries :: "compact_name_entry list"
  ns_names :: "name_string list"
  ns_paths :: "string list"
  ns_path_ids :: "(string, nat) hmap"
  ns_path_counts :: "nat list"
  ns_path_is_external :: "bool list"
  ns_projects :: "project_key list"
  ns_sorted_by_family :: "nat list \<times> nat list"
  ns_short_prefix_heads_by_family :: "(char, nat list) hmap \<times> (char, nat list) hmap"
  ns_fuzzy_postings_by_family :: "compact_fuzzy_postings \<times> compact_fuzzy_postings"
  ns_sole_path_by_name :: "nat list"
  ns_prefix_paths_by_family :: "compact_prefix_path_postings \<times> compact_prefix_path_postings"
  ns_path_postings_by_family :: "compact_path_postings \<times> compact_path_postings"
  ns_by_project :: "(project_key, compact_project_postings) hmap"

definition note_path :: "compact_name_entry \<Rightarrow> nat list \<Rightarrow> nat list" where
  "note_path e paths =
     (let known = paths ! cn_name_id e
      in paths[cn_name_id e :=
           if known = UNSEEN_PATH_ID then cn_path_id e
           else if known = cn_path_id e then known
           else MULTI_PATH_ID])"

definition sole_paths :: "compact_name_entry list \<Rightarrow> nat \<Rightarrow> nat list" where
  "sole_paths entries name_count = fold note_path entries (replicate name_count UNSEEN_PATH_ID)"

definition note_project ::
  "compact_name_entry list \<Rightarrow> project_key list \<Rightarrow> nat \<Rightarrow> nat
   \<Rightarrow> (project_key, compact_project_postings) hmap \<Rightarrow> (project_key, compact_project_postings) hmap" where
  "note_project entries projects slot i postings =
     (let e = entries ! i
      in if cn_project_id e = NO_PROJECT_ID then postings
         else entry_modify (projects ! cn_project_id e)
                \<lparr> cp_project_id = cn_project_id e, cp_by_family = ([], []) \<rparr>
                (\<lambda>p. p\<lparr> cp_by_family := set_slot slot (\<lambda>is. is @ [i]) (cp_by_family p) \<rparr>) postings)"

definition project_postings ::
  "compact_name_entry list \<Rightarrow> project_key list \<Rightarrow> nat list \<times> nat list
   \<Rightarrow> (project_key, compact_project_postings) hmap" where
  "project_postings entries projects by_family =
     fold (\<lambda>slot. fold (note_project entries projects slot) (at_slot by_family slot)) [0, 1] []"

definition from_compact_parts ::
  "compact_name_entry list \<Rightarrow> name_string list \<Rightarrow> string list \<Rightarrow> (string, nat) hmap \<Rightarrow> nat list
   \<Rightarrow> bool list \<Rightarrow> project_key list \<Rightarrow> name_segment option" where
  "from_compact_parts entries names paths path_ids path_counts path_is_external projects = do {
     by_family \<leftarrow> sorted_indices_by_family entries names;
     (heads, fuzzy) \<leftarrow> candidate_postings_by_family entries names paths;
     c_prefix \<leftarrow> prefix_paths_build entries names 0;
     go_prefix \<leftarrow> prefix_paths_build entries names 1;
     c_paths \<leftarrow> path_postings_build entries (at_slot by_family 0) (length paths);
     go_paths \<leftarrow> path_postings_build entries (at_slot by_family 1) (length paths);
     Some \<lparr> ns_entries = entries, ns_names = names, ns_paths = paths, ns_path_ids = path_ids,
            ns_path_counts = path_counts, ns_path_is_external = path_is_external, ns_projects = projects,
            ns_sorted_by_family = by_family, ns_short_prefix_heads_by_family = heads,
            ns_fuzzy_postings_by_family = fuzzy, ns_sole_path_by_name = sole_paths entries (length names),
            ns_prefix_paths_by_family = (c_prefix, go_prefix),
            ns_path_postings_by_family = (c_paths, go_paths),
            ns_by_project = project_postings entries projects by_family \<rparr>
   }"

definition segment_entry :: "name_segment \<Rightarrow> nat \<Rightarrow> name_entry" where
  "segment_entry s index =
     (let e = ns_entries s ! index; name = ns_names s ! cn_name_id e
      in \<lparr> ne_id = cn_id e, ne_name = nm_original name, ne_lower = nm_lower name,
           ne_external = flags_external (cn_flags e),
           ne_directly_included = flags_directly_included (cn_flags e),
           ne_path = ns_paths s ! cn_path_id e, ne_kind = cn_kind e, ne_role = cn_role e,
           ne_semantic_family = flags_family (cn_flags e),
           ne_project_key =
             (if cn_project_id e \<noteq> NO_PROJECT_ID then Some (ns_projects s ! cn_project_id e) else None) \<rparr>)"

definition path_count :: "name_segment \<Rightarrow> string \<Rightarrow> nat" where
  "path_count s path =
     (case map_of (ns_path_ids s) path of None \<Rightarrow> 0 | Some i \<Rightarrow> ns_path_counts s ! i)"

definition interned_path :: "name_segment \<Rightarrow> string \<Rightarrow> string option" where
  "interned_path s path = map_option ((!) (ns_paths s)) (map_of (ns_path_ids s) path)"

section \<open>The builder\<close>

record name_index_builder =
  nb_entries :: "compact_name_entry list"
  nb_names :: "name_string list"
  nb_name_ids :: "(string, nat) hmap"
  nb_paths :: "string list"
  nb_path_ids :: "(string, nat) hmap"
  nb_path_counts :: "nat list"
  nb_path_is_external :: "bool list"
  nb_projects :: "project_key list"
  nb_project_ids :: "(project_key, nat) hmap"
  nb_project_by_path :: "(nat, nat) hmap"
  nb_project_context :: "project_context_index option"

definition builder_new :: "project_context_index option \<Rightarrow> name_index_builder" where
  "builder_new ctx =
     \<lparr> nb_entries = [], nb_names = [], nb_name_ids = [], nb_paths = [], nb_path_ids = [],
       nb_path_counts = [], nb_path_is_external = [], nb_projects = [], nb_project_ids = [],
       nb_project_by_path = [], nb_project_context = ctx \<rparr>"

definition intern_name :: "string \<Rightarrow> string option \<Rightarrow> name_index_builder \<Rightarrow> (nat \<times> name_index_builder) option" where
  "intern_name name known_lower b =
     (case map_of (nb_name_ids b) name of
        Some i \<Rightarrow> Some (i, b)
      | None \<Rightarrow> do {
          i \<leftarrow> fits_u32 (length (nb_names b));
          let lower = (case known_lower of
                Some lower \<Rightarrow> lower
              | None \<Rightarrow> if list_ex is_ascii_uppercase name then to_ascii_lowercase name else name);
          Some (i, b\<lparr> nb_name_ids := AList.update name i (nb_name_ids b),
                      nb_names := nb_names b @ [\<lparr> nm_original = name, nm_lower = lower \<rparr>] \<rparr>)
        })"

definition intern_path :: "string \<Rightarrow> bool \<Rightarrow> name_index_builder \<Rightarrow> (nat \<times> name_index_builder) option" where
  "intern_path path external b =
     (case map_of (nb_path_ids b) path of
        Some i \<Rightarrow> Some (i, b)
      | None \<Rightarrow> do {
          i \<leftarrow> fits_u32 (length (nb_paths b));
          Some (i, b\<lparr> nb_path_ids := AList.update path i (nb_path_ids b), nb_paths := nb_paths b @ [path],
                      nb_path_counts := nb_path_counts b @ [0],
                      nb_path_is_external := nb_path_is_external b @ [external] \<rparr>)
        })"

definition intern_project :: "project_key \<Rightarrow> name_index_builder \<Rightarrow> (nat \<times> name_index_builder) option" where
  "intern_project project b =
     (case map_of (nb_project_ids b) project of
        Some i \<Rightarrow> Some (i, b)
      | None \<Rightarrow> do {
          i \<leftarrow> fits_u32 (length (nb_projects b));
          Some (i, b\<lparr> nb_project_ids := AList.update project i (nb_project_ids b),
                      nb_projects := nb_projects b @ [project] \<rparr>)
        })"

definition intern_project_opt :: "project_key option \<Rightarrow> name_index_builder \<Rightarrow> (nat \<times> name_index_builder) option" where
  "intern_project_opt project b =
     (case project of None \<Rightarrow> Some (NO_PROJECT_ID, b) | Some p \<Rightarrow> intern_project p b)"

definition push_compact :: "compact_name_entry \<Rightarrow> name_index_builder \<Rightarrow> name_index_builder" where
  "push_compact e b =
     b\<lparr> nb_path_counts := (nb_path_counts b)[cn_path_id e := Suc (nb_path_counts b ! cn_path_id e)],
        nb_entries := nb_entries b @ [e] \<rparr>"

definition compact_of :: "name_entry \<Rightarrow> nat \<Rightarrow> nat \<Rightarrow> nat \<Rightarrow> compact_name_entry" where
  "compact_of e name_id path_id project_id =
     \<lparr> cn_id = ne_id e, cn_name_id = name_id, cn_path_id = path_id, cn_project_id = project_id,
       cn_kind = ne_kind e, cn_role = ne_role e,
       cn_flags = flags_new (ne_semantic_family e) (ne_external e) (ne_directly_included e) \<rparr>"

text \<open>\<open>push_entry\<close> and \<open>push_ref\<close>: the entry carries its project.\<close>

definition push_entry :: "name_entry \<Rightarrow> name_index_builder \<Rightarrow> name_index_builder option" where
  "push_entry e b = do {
     (name_id, b) \<leftarrow> intern_name (ne_name e) (Some (ne_lower e)) b;
     (path_id, b) \<leftarrow> intern_path (ne_path e) (ne_external e) b;
     (project_id, b) \<leftarrow> intern_project_opt (ne_project_key e) b;
     Some (push_compact (compact_of e name_id path_id project_id) b)
   }"

text \<open>The project of a path, found once per path through the context.\<close>

definition project_for_path :: "string \<Rightarrow> bool \<Rightarrow> nat \<Rightarrow> name_index_builder \<Rightarrow> (nat \<times> name_index_builder) option" where
  "project_for_path path external path_id b =
     (if external then Some (NO_PROJECT_ID, b)
      else case map_of (nb_project_by_path b) path_id of
        Some project_id \<Rightarrow> Some (project_id, b)
      | None \<Rightarrow> do {
          (project_id, b) \<leftarrow>
            intern_project_opt (Option.bind (nb_project_context b) (\<lambda>index. nearest_for_file index path)) b;
          Some (project_id, b\<lparr> nb_project_by_path := AList.update path_id project_id (nb_project_by_path b) \<rparr>)
        })"

definition push_with_context ::
  "string option \<Rightarrow> name_entry \<Rightarrow> name_index_builder \<Rightarrow> name_index_builder option" where
  "push_with_context known_lower e b = do {
     (name_id, b) \<leftarrow> intern_name (ne_name e) known_lower b;
     (path_id, b) \<leftarrow> intern_path (ne_path e) (ne_external e) b;
     (project_id, b) \<leftarrow> project_for_path (ne_path e) (ne_external e) path_id b;
     Some (push_compact (compact_of e name_id path_id project_id) b)
   }"

definition push_declaration :: "declaration_name_row \<Rightarrow> name_index_builder \<Rightarrow> name_index_builder option" where
  "push_declaration row = push_with_context None (declaration_entry None row)"

definition push_ref_with_project_context :: "name_entry \<Rightarrow> name_index_builder \<Rightarrow> name_index_builder option" where
  "push_ref_with_project_context e = push_with_context (Some (ne_lower e)) e"

definition finish_segment :: "name_index_builder \<Rightarrow> name_segment option" where
  "finish_segment b =
     from_compact_parts (nb_entries b) (nb_names b) (nb_paths b) (nb_path_ids b) (nb_path_counts b)
       (nb_path_is_external b) (nb_projects b)"

definition segment_from_entries :: "name_entry list \<Rightarrow> name_segment option" where
  "segment_from_entries entries = do {
     b \<leftarrow> ofold push_entry entries (builder_new None);
     finish_segment b
   }"

end
