(* ===== verification/Name_Build.thy ===== *)
theory Name_Build
  imports Name_Segment
begin

text \<open>
  What a built segment holds. The builder's arenas are inverse to their id tables, every stored id is
  in range, and reading the entries back gives the pushed entries in order, up to the documented
  normalisation of the direct-include bit. The lexical order, computed by counting, is the stable
  sort by name; path and fuzzy postings list exactly the rows of their key.
\<close>

section \<open>Arenas\<close>

definition arena :: "('k, nat) hmap \<Rightarrow> 'k list \<Rightarrow> bool" where
  "arena ids xs \<longleftrightarrow> distinct xs \<and> (\<forall>k i. map_of ids k = Some i \<longleftrightarrow> i < length xs \<and> xs ! i = k)"

lemma arena_Nil [simp]: "arena [] []"
  by (simp add: arena_def)

lemma arena_None: "arena ids xs \<Longrightarrow> map_of ids k = None \<longleftrightarrow> k \<notin> set xs"
  unfolding arena_def by (metis in_set_conv_nth not_None_eq)

lemma arena_push: "arena ids xs \<Longrightarrow> map_of ids k = None \<Longrightarrow> arena (AList.update k (length xs) ids) (xs @ [k])"
proof -
  assume a: "arena ids xs" "map_of ids k = None"
  then have k: "k \<notin> set xs" using arena_None by metis
  with a show ?thesis
    by (auto simp: arena_def nth_append less_Suc_eq)
qed

section \<open>The flags\<close>

lemma flags_round_trip [simp]:
  "flags_family (flags_new f ext direct) = f"
  "flags_external (flags_new f ext direct) = ext"
  "flags_directly_included (flags_new f ext direct) = (ext \<and> direct)"
  by (cases f; cases ext; cases direct; simp add: flags_new_def flags_family_def flags_external_def
      flags_directly_included_def FLAG_EXTERNAL_def FLAG_DIRECTLY_INCLUDED_def FLAG_GO_FAMILY_def)+

lemma entry_slot_compact [simp]: "entry_slot (compact_of e n p q) = semantic_family_slot (ne_semantic_family e)"
  by (simp add: entry_slot_def compact_of_def)

section \<open>The builder\<close>

definition entry_ok :: "name_entry \<Rightarrow> bool" where
  "entry_ok e \<longleftrightarrow> ne_lower e = to_ascii_lowercase (ne_name e)"

definition norm_entry :: "name_entry \<Rightarrow> name_entry" where
  "norm_entry e = e\<lparr> ne_directly_included := ne_external e \<and> ne_directly_included e \<rparr>"

definition decode_entry ::
  "name_string list \<Rightarrow> string list \<Rightarrow> project_key list \<Rightarrow> compact_name_entry \<Rightarrow> name_entry" where
  "decode_entry names paths projects e =
     \<lparr> ne_id = cn_id e, ne_name = nm_original (names ! cn_name_id e), ne_lower = nm_lower (names ! cn_name_id e),
       ne_external = flags_external (cn_flags e),
       ne_directly_included = flags_directly_included (cn_flags e),
       ne_path = paths ! cn_path_id e, ne_kind = cn_kind e, ne_role = cn_role e,
       ne_semantic_family = flags_family (cn_flags e),
       ne_project_key = (if cn_project_id e \<noteq> NO_PROJECT_ID then Some (projects ! cn_project_id e) else None) \<rparr>"

definition compact_ok :: "nat \<Rightarrow> nat \<Rightarrow> nat \<Rightarrow> compact_name_entry \<Rightarrow> bool" where
  "compact_ok names paths projects e \<longleftrightarrow>
     cn_name_id e < names \<and> cn_path_id e < paths \<and> (cn_project_id e = NO_PROJECT_ID \<or> cn_project_id e < projects)"

definition parts_ok ::
  "compact_name_entry list \<Rightarrow> name_string list \<Rightarrow> string list \<Rightarrow> (string, nat) hmap \<Rightarrow> nat list
   \<Rightarrow> bool list \<Rightarrow> project_key list \<Rightarrow> bool" where
  "parts_ok entries names paths path_ids path_counts path_is_external projects \<longleftrightarrow>
     distinct (map nm_original names) \<and>
     (\<forall>n \<in> set names. nm_lower n = to_ascii_lowercase (nm_original n)) \<and>
     arena path_ids paths \<and> length path_counts = length paths \<and> length path_is_external = length paths \<and>
     distinct projects \<and>
     (\<forall>e \<in> set entries. compact_ok (length names) (length paths) (length projects) e) \<and>
     (\<forall>i < length paths. path_counts ! i = count_list (map cn_path_id entries) i)"

definition builder_ok :: "name_index_builder \<Rightarrow> bool" where
  "builder_ok b \<longleftrightarrow>
     arena (nb_name_ids b) (map nm_original (nb_names b)) \<and>
     arena (nb_project_ids b) (nb_projects b) \<and>
     length (nb_projects b) \<le> length (nb_entries b) \<and>
     parts_ok (nb_entries b) (nb_names b) (nb_paths b) (nb_path_ids b) (nb_path_counts b)
       (nb_path_is_external b) (nb_projects b)"

definition builder_view :: "name_index_builder \<Rightarrow> name_entry list" where
  "builder_view b = map (decode_entry (nb_names b) (nb_paths b) (nb_projects b)) (nb_entries b)"

lemma builder_new_ok [simp]: "builder_ok (builder_new ctx)" "builder_view (builder_new ctx) = []"
  by (simp_all add: builder_ok_def builder_new_def parts_ok_def builder_view_def)

lemma compact_ok_mono:
  "compact_ok n p q e \<Longrightarrow> n \<le> n' \<Longrightarrow> p \<le> p' \<Longrightarrow> q \<le> q' \<Longrightarrow> compact_ok n' p' q' e"
  by (auto simp: compact_ok_def)

lemma decode_extend:
  "compact_ok (length ns) (length ps) (length qs) e \<Longrightarrow>
     decode_entry (ns @ ns') (ps @ ps') (qs @ qs') e = decode_entry ns ps qs e"
  by (auto simp: compact_ok_def decode_entry_def nth_append)

text \<open>One interning step: what it keeps, and what it returns.\<close>

definition keeps :: "name_index_builder \<Rightarrow> name_index_builder \<Rightarrow> bool" where
  "keeps b b' \<longleftrightarrow>
     nb_entries b' = nb_entries b \<and> nb_project_context b' = nb_project_context b \<and>
     (\<exists>ns. nb_names b' = nb_names b @ ns) \<and> (\<exists>ps. nb_paths b' = nb_paths b @ ps) \<and>
     (\<exists>qs. nb_projects b' = nb_projects b @ qs)"

lemma keeps_refl [simp]: "keeps b b"
  by (simp add: keeps_def)

lemma keeps_trans: "keeps b b' \<Longrightarrow> keeps b' b'' \<Longrightarrow> keeps b b''"
  by (auto simp: keeps_def)

definition interned :: "name_index_builder \<Rightarrow> name_index_builder \<Rightarrow> bool" where
  "interned b b' \<longleftrightarrow>
     keeps b b' \<and>
     arena (nb_name_ids b') (map nm_original (nb_names b')) \<and> arena (nb_project_ids b') (nb_projects b') \<and>
     length (nb_projects b') \<le> length (nb_projects b) + 1 \<and>
     parts_ok (nb_entries b') (nb_names b') (nb_paths b') (nb_path_ids b') (nb_path_counts b')
       (nb_path_is_external b') (nb_projects b')"

lemma intern_name_ok:
  assumes "intern_name name lower b = Some (i, b')"
    and "arena (nb_name_ids b) (map nm_original (nb_names b))" "arena (nb_project_ids b) (nb_projects b)"
    and ok: "parts_ok (nb_entries b) (nb_names b) (nb_paths b) (nb_path_ids b) (nb_path_counts b)
        (nb_path_is_external b) (nb_projects b)"
    and "\<forall>l. lower = Some l \<longrightarrow> l = to_ascii_lowercase name"
  shows "interned b b' \<and> nb_projects b' = nb_projects b \<and> i < length (nb_names b') \<and>
    nb_names b' ! i = \<lparr> nm_original = name, nm_lower = to_ascii_lowercase name \<rparr>"
proof (cases "map_of (nb_name_ids b) name")
  case (Some j)
  with assms(1) have b': "b' = b" "i = j" by (auto simp: intern_name_def)
  from Some assms(2) have j: "j < length (nb_names b)" "nm_original (nb_names b ! j) = name"
    by (auto simp: arena_def)
  with ok have "nm_lower (nb_names b ! j) = to_ascii_lowercase name" by (auto simp: parts_ok_def)
  with j b' assms show ?thesis by (auto simp: interned_def)
next
  case None
  have low: "to_ascii_lowercase name = name" if "\<not> list_ex is_ascii_uppercase name"
    using that by (induction name) (auto simp: to_ascii_lowercase_def ascii_lower_def is_ascii_uppercase_def)
  define l where "l = (case lower of Some l \<Rightarrow> l
      | None \<Rightarrow> if list_ex is_ascii_uppercase name then to_ascii_lowercase name else name)"
  have l: "l = to_ascii_lowercase name" using assms(5) low by (cases lower) (simp_all add: l_def)
  have b': "b' = b\<lparr> nb_name_ids := AList.update name (length (nb_names b)) (nb_name_ids b),
        nb_names := nb_names b @ [\<lparr> nm_original = name, nm_lower = l \<rparr>] \<rparr>" "i = length (nb_names b)"
    using assms(1) None unfolding l_def by (auto simp: intern_name_def fits_u32_def split: if_splits)
  have new: "name \<notin> set (map nm_original (nb_names b))" using None arena_None assms(2) by metis
  have "arena (nb_name_ids b') (map nm_original (nb_names b'))"
    using arena_push [OF assms(2) None] b' by simp
  moreover have "parts_ok (nb_entries b') (nb_names b') (nb_paths b') (nb_path_ids b') (nb_path_counts b')
      (nb_path_is_external b') (nb_projects b')"
    using ok new b' l unfolding parts_ok_def by (auto intro: compact_ok_mono)
  ultimately show ?thesis using b' assms(3) l by (auto simp: interned_def keeps_def)
qed

lemma intern_path_ok:
  assumes "intern_path path ext b = Some (i, b')"
    and "arena (nb_name_ids b) (map nm_original (nb_names b))" "arena (nb_project_ids b) (nb_projects b)"
    and ok: "parts_ok (nb_entries b) (nb_names b) (nb_paths b) (nb_path_ids b) (nb_path_counts b)
        (nb_path_is_external b) (nb_projects b)"
  shows "interned b b' \<and> nb_projects b' = nb_projects b \<and> i < length (nb_paths b') \<and> nb_paths b' ! i = path"
proof (cases "map_of (nb_path_ids b) path")
  case (Some j)
  with assms show ?thesis by (auto simp: intern_path_def interned_def parts_ok_def arena_def)
next
  case None
  have b': "b' = b\<lparr> nb_path_ids := AList.update path (length (nb_paths b)) (nb_path_ids b),
        nb_paths := nb_paths b @ [path], nb_path_counts := nb_path_counts b @ [0],
        nb_path_is_external := nb_path_is_external b @ [ext] \<rparr>" "i = length (nb_paths b)"
    using assms(1) None by (auto simp: intern_path_def fits_u32_def split: if_splits)
  have "\<forall>e \<in> set (nb_entries b). cn_path_id e < length (nb_paths b)" using ok by (auto simp: parts_ok_def compact_ok_def)
  then have "count_list (map cn_path_id (nb_entries b)) (length (nb_paths b)) = 0"
    by (auto simp: count_list_0_iff)
  then have "parts_ok (nb_entries b') (nb_names b') (nb_paths b') (nb_path_ids b') (nb_path_counts b')
      (nb_path_is_external b') (nb_projects b')"
    using ok b' arena_push [of "nb_path_ids b" "nb_paths b" path] None
    by (auto simp: parts_ok_def nth_append less_Suc_eq intro: compact_ok_mono)
  with b' assms(2,3) show ?thesis by (auto simp: interned_def keeps_def)
qed

lemma intern_project_opt_ok:
  assumes "intern_project_opt project b = Some (i, b')"
    and "arena (nb_name_ids b) (map nm_original (nb_names b))" "arena (nb_project_ids b) (nb_projects b)"
    and ok: "parts_ok (nb_entries b) (nb_names b) (nb_paths b) (nb_path_ids b) (nb_path_counts b)
        (nb_path_is_external b) (nb_projects b)"
  shows "interned b b' \<and> nb_paths b' = nb_paths b \<and> nb_names b' = nb_names b \<and>
    (case project of None \<Rightarrow> i = NO_PROJECT_ID | Some q \<Rightarrow> i < length (nb_projects b') \<and> nb_projects b' ! i = q)"
proof (cases project)
  case None
  with assms show ?thesis by (auto simp: intern_project_opt_def interned_def)
next
  case (Some q)
  show ?thesis
  proof (cases "map_of (nb_project_ids b) q")
    case (Some j)
    with assms \<open>project = Some q\<close> show ?thesis
      by (auto simp: intern_project_opt_def intern_project_def interned_def arena_def)
  next
    case None
    then have b': "b' = b\<lparr> nb_project_ids := AList.update q (length (nb_projects b)) (nb_project_ids b),
          nb_projects := nb_projects b @ [q] \<rparr>" "i = length (nb_projects b)"
      using assms(1) \<open>project = Some q\<close>
      by (auto simp: intern_project_opt_def intern_project_def fits_u32_def split: if_splits)
    have "q \<notin> set (nb_projects b)" using None arena_None assms(3) by metis
    then have "parts_ok (nb_entries b') (nb_names b') (nb_paths b') (nb_path_ids b') (nb_path_counts b')
        (nb_path_is_external b') (nb_projects b')"
      using ok b' by (auto simp: parts_ok_def intro: compact_ok_mono)
    with b' assms(2) arena_push [OF assms(3) None] \<open>project = Some q\<close> show ?thesis
      by (auto simp: interned_def keeps_def)
  qed
qed

lemma push_compact_ok:
  assumes "interned b b'" "builder_ok b" "compact_ok (length (nb_names b')) (length (nb_paths b')) (length (nb_projects b')) e"
  shows "builder_ok (push_compact e b') \<and>
    builder_view (push_compact e b') =
      builder_view b @ [decode_entry (nb_names b') (nb_paths b') (nb_projects b') e]"
proof -
  obtain ns ps qs where ext: "nb_names b' = nb_names b @ ns" "nb_paths b' = nb_paths b @ ps"
      "nb_projects b' = nb_projects b @ qs" "nb_entries b' = nb_entries b"
    using assms(1) by (auto simp: interned_def keeps_def)
  have "decode_entry (nb_names b') (nb_paths b') (nb_projects b') c =
      decode_entry (nb_names b) (nb_paths b) (nb_projects b) c" if "c \<in> set (nb_entries b)" for c
    using that assms(2) unfolding ext by (intro decode_extend) (auto simp: builder_ok_def parts_ok_def)
  then have "builder_view (push_compact e b') =
      builder_view b @ [decode_entry (nb_names b') (nb_paths b') (nb_projects b') e]"
    by (simp add: builder_view_def push_compact_def ext(4))
  moreover have "builder_ok (push_compact e b')"
    using assms unfolding builder_ok_def interned_def keeps_def
    by (auto simp: push_compact_def parts_ok_def nth_list_update)
  ultimately show ?thesis by simp
qed

lemma interned_trans:
  "interned b b' \<Longrightarrow> interned b' b'' \<Longrightarrow> nb_projects b' = nb_projects b \<or> nb_projects b'' = nb_projects b' \<Longrightarrow>
     interned b b''"
  unfolding interned_def using keeps_trans by auto

lemma push_entry_ok:
  assumes "push_entry e b = Some b'" "builder_ok b" "entry_ok e"
  shows "builder_ok b' \<and> length (nb_entries b') = Suc (length (nb_entries b)) \<and>
    (length (nb_entries b) < NO_PROJECT_ID \<longrightarrow> builder_view b' = builder_view b @ [norm_entry e])"
proof -
  obtain n b1 p b2 q b3 where
    n: "intern_name (ne_name e) (Some (ne_lower e)) b = Some (n, b1)" and
    p: "intern_path (ne_path e) (ne_external e) b1 = Some (p, b2)" and
    q: "intern_project_opt (ne_project_key e) b2 = Some (q, b3)" and
    b': "b' = push_compact (compact_of e n p q) b3"
    using assms(1) by (auto simp: push_entry_def split: Option.bind_splits)
  have 1: "interned b b1" "nb_projects b1 = nb_projects b" "n < length (nb_names b1)"
    "nb_names b1 ! n = \<lparr> nm_original = ne_name e, nm_lower = to_ascii_lowercase (ne_name e) \<rparr>"
    using intern_name_ok [OF n] assms(2,3) by (auto simp: builder_ok_def entry_ok_def)
  then have 2: "interned b1 b2" "nb_projects b2 = nb_projects b1" "p < length (nb_paths b2)" "nb_paths b2 ! p = ne_path e"
    using intern_path_ok [OF p] by (auto simp: interned_def)
  then have 3: "interned b2 b3" "nb_paths b3 = nb_paths b2" "nb_names b3 = nb_names b2"
    "case ne_project_key e of None \<Rightarrow> q = NO_PROJECT_ID | Some k \<Rightarrow> q < length (nb_projects b3) \<and> nb_projects b3 ! q = k"
    using intern_project_opt_ok [OF q] by (auto simp: interned_def)
  have i3: "interned b b3" using 1 2 3 by (metis interned_trans)
  have names: "nb_names b3 ! n = nb_names b1 ! n" "n < length (nb_names b3)"
    using 1 2(1) 3(3) by (auto simp: interned_def keeps_def nth_append)
  have ok: "compact_ok (length (nb_names b3)) (length (nb_paths b3)) (length (nb_projects b3)) (compact_of e n p q)"
    using names 2 3 by (auto simp: compact_ok_def compact_of_def split: option.splits)
  have "decode_entry (nb_names b3) (nb_paths b3) (nb_projects b3) (compact_of e n p q) = norm_entry e"
    if "length (nb_entries b) < NO_PROJECT_ID"
  proof -
    have "length (nb_projects b3) \<le> Suc (length (nb_entries b))"
      using i3 assms(2) by (auto simp: interned_def builder_ok_def)
    with that 3(4) have "(if q \<noteq> NO_PROJECT_ID then Some (nb_projects b3 ! q) else None) = ne_project_key e"
      by (auto split: option.splits)
    with names 1 2 3 assms(3) show ?thesis
      by (cases e) (auto simp: decode_entry_def compact_of_def norm_entry_def entry_ok_def split: if_splits)
  qed
  moreover have "nb_entries b3 = nb_entries b" using i3 by (simp add: interned_def keeps_def)
  ultimately show ?thesis
    using push_compact_ok [OF i3 assms(2) ok] b' by (simp add: push_compact_def)
qed

lemma push_entries_ok:
  assumes "ofold push_entry es (builder_new None) = Some b" "\<forall>e \<in> set es. entry_ok e"
  shows "builder_ok b \<and> length (nb_entries b) = length es \<and>
    (length es \<le> NO_PROJECT_ID \<longrightarrow> builder_view b = map norm_entry es)"
proof -
  let ?I = "\<lambda>pre b. builder_ok b \<and> length (nb_entries b) = length pre \<and>
    (length pre \<le> NO_PROJECT_ID \<longrightarrow> builder_view b = map norm_entry pre)"
  show ?thesis
  proof (rule ofold_invariant [OF assms(1), where I = ?I])
    fix pre x s s' assume "?I pre s" "x \<in> set es" "push_entry x s = Some s'"
    with push_entry_ok [of x s s'] assms(2) show "?I (pre @ [x]) s'" by auto
  qed (simp add: builder_new_def [THEN arg_cong [where f = nb_entries]])
qed

text \<open>Every interned path has an entry.\<close>

definition paths_used :: "compact_name_entry list \<Rightarrow> string list \<Rightarrow> bool" where
  "paths_used entries paths \<longleftrightarrow> (\<forall>k < length paths. k \<in> cn_path_id ` set entries)"

lemma intern_paths:
  "intern_name name lower b = Some (n, b1) \<Longrightarrow> nb_paths b1 = nb_paths b \<and> nb_entries b1 = nb_entries b"
  "intern_path path ext b = Some (k, b2) \<Longrightarrow> nb_entries b2 = nb_entries b \<and>
     (nb_paths b2 = nb_paths b \<or> nb_paths b2 = nb_paths b @ [path] \<and> k = length (nb_paths b))"
  "intern_project_opt project b = Some (q, b3) \<Longrightarrow> nb_paths b3 = nb_paths b \<and> nb_entries b3 = nb_entries b"
  by (auto simp: intern_name_def intern_path_def intern_project_opt_def intern_project_def fits_u32_def
      split: option.splits if_splits)

lemma push_entry_used:
  assumes "push_entry e b = Some b'" "paths_used (nb_entries b) (nb_paths b)"
  shows "paths_used (nb_entries b') (nb_paths b')"
proof -
  obtain n b1 p b2 q b3 where
    n: "intern_name (ne_name e) (Some (ne_lower e)) b = Some (n, b1)" and
    p: "intern_path (ne_path e) (ne_external e) b1 = Some (p, b2)" and
    q: "intern_project_opt (ne_project_key e) b2 = Some (q, b3)" and
    b': "b' = push_compact (compact_of e n p q) b3"
    using assms(1) by (auto simp: push_entry_def split: Option.bind_splits)
  show ?thesis
    using intern_paths(1) [OF n] intern_paths(2) [OF p] intern_paths(3) [OF q] assms(2)
    by (auto simp: b' push_compact_def paths_used_def compact_of_def less_Suc_eq)
qed

lemma push_entries_used:
  assumes "ofold push_entry es (builder_new None) = Some b"
  shows "paths_used (nb_entries b) (nb_paths b)"
  using assms
proof (rule ofold_invariant [where I = "\<lambda>_ b. paths_used (nb_entries b) (nb_paths b)"])
  show "paths_used (nb_entries (builder_new None)) (nb_paths (builder_new None))"
    by (simp add: paths_used_def builder_new_def)
qed (rule push_entry_used)

text \<open>Pushing panics only when an arena is full.\<close>

lemma push_entry_total:
  "length (nb_names b) < 2 ^ 32 \<Longrightarrow> length (nb_paths b) < 2 ^ 32 \<Longrightarrow> length (nb_projects b) < 2 ^ 32 \<Longrightarrow>
     \<exists>b'. push_entry e b = Some b' \<and> length (nb_names b') \<le> Suc (length (nb_names b)) \<and>
       length (nb_paths b') \<le> Suc (length (nb_paths b)) \<and> length (nb_projects b') \<le> Suc (length (nb_projects b))"
  by (auto simp: push_entry_def intern_name_def intern_path_def intern_project_opt_def intern_project_def
      fits_u32_def push_compact_def split: option.splits Option.bind_splits if_splits)

section \<open>The lexical order\<close>

interpretation name_order: lawful_cmp name_cmp
  unfolding name_cmp_def by (intro lawful_cmp_intros)

lemma lawful_cmp_on: "lawful_cmp c \<Longrightarrow> lawful_cmp (\<lambda>x y. c (f x) (f y))"
  unfolding lawful_cmp_def by blast

lemma name_cmp_Equal: "name_cmp a b = Equal \<longleftrightarrow> nm_lower a = nm_lower b \<and> nm_original a = nm_original b"
  by (simp add: name_cmp_def)

lemma concat_single:
  "distinct ks \<Longrightarrow> k \<in> set ks \<Longrightarrow> (\<And>j. j \<in> set ks \<Longrightarrow> j \<noteq> k \<Longrightarrow> f j = []) \<Longrightarrow> concat (map f ks) = f k"
proof (induction ks)
  case (Cons a ks)
  show ?case
  proof (cases "a = k")
    case True
    with Cons.prems have "\<forall>j \<in> set ks. f j = []" by auto
    then have "concat (map f ks) = []" by simp
    with True show ?thesis by simp
  qed (use Cons in auto)
qed simp

lemma bucket_zip_upt: "bucket k (zip (map g es) [0..<length es]) = filter (\<lambda>i. g (es ! i) = k) [0..<length es]"
proof -
  have "zip (map g es) [0..<length es] = map (\<lambda>i. (g (es ! i), i)) [0..<length es]"
    by (rule nth_equalityI) auto
  then show ?thesis by (simp add: bucket_def filter_map comp_def)
qed

definition lexical_cmp :: "compact_name_entry list \<Rightarrow> name_string list \<Rightarrow> nat \<Rightarrow> nat \<Rightarrow> ordering" where
  "lexical_cmp entries names i j = name_cmp (entry_name names (entries ! i)) (entry_name names (entries ! j))"

interpretation lexical: lawful_cmp "lexical_cmp entries names" for entries names
  unfolding lexical_cmp_def by (rule lawful_cmp_on) (rule name_order.lawful_cmp_axioms)

lemma order_cursors_fits: "order_cursors ks counts at cs = Some os \<Longrightarrow> at < 2 ^ 32 \<Longrightarrow> at + sum_list (map ((!) counts) ks) < 2 ^ 32"
  by (induction ks counts at cs rule: order_cursors.induct) (auto simp: fits_u32_def add.assoc split: if_splits)

lemma buckets_sorted:
  assumes "sorted_cmp c ks" "\<And>k i. i \<in> set (f k) \<Longrightarrow> g i = k" "\<And>x. c x x \<noteq> Greater"
  shows "sorted_cmp (\<lambda>i j. c (g i) (g j)) (concat (map f ks))"
  using assms(1)
proof (induction ks)
  case (Cons k ks)
  have "sorted_wrt (\<lambda>i j. c (g i) (g j) \<noteq> Greater) (f k)"
    unfolding sorted_wrt_iff_nth_less
  proof (intro allI impI)
    fix i j assume "i < j" "j < length (f k)"
    then have "g (f k ! i) = k" "g (f k ! j) = k" using assms(2) [OF nth_mem] by simp_all
    with assms(3) show "c (g (f k ! i)) (g (f k ! j)) \<noteq> Greater" by simp
  qed
  with Cons show ?case by (fastforce simp: sorted_cmp_def sorted_wrt_append dest: assms(2))
qed (simp add: sorted_cmp_def)

lemma sorted_indices_spec:
  assumes "sorted_indices entries names = Some xs" "distinct (map nm_original names)"
    and ids: "\<forall>e \<in> set entries. cn_name_id e < length names"
  shows "xs = sort_by (lexical_cmp entries names) [0..<length entries] \<and> length entries < 2 ^ 32"
proof -
  let ?n = "length names" and ?rows = "lexical_rows entries"
  define ks where "ks = sort_by (\<lambda>a b. name_cmp (names ! a) (names ! b)) [0..<?n]"
  have fst: "map fst ?rows = map cn_name_id entries" by (simp add: lexical_rows_def)
  obtain os where os: "order_cursors ks (tally ?n (map cn_name_id entries)) 0 (replicate ?n 0) = Some os"
      and xs: "xs = snd (scatter ?rows os (replicate (length entries) 0))"
    using assms(1) by (auto simp: sorted_indices_def index_ids_def ks_def split: if_splits Option.bind_splits)
  have keys: "\<forall>p \<in> set ?rows. fst p < ?n"
    using ids by (auto simp: lexical_rows_def dest!: set_zip_leftD)
  have layout: "ordered_layout ks ?rows ?n os"
    using keys os unfolding ordered_layout_def fst by (auto simp: ks_def)
  have B: "bucket k ?rows = filter (\<lambda>i. cn_name_id (entries ! i) = k) [0..<length entries]" for k
    unfolding lexical_rows_def by (rule bucket_zip_upt)
  have xs': "xs = concat (map (\<lambda>k. filter (\<lambda>i. cn_name_id (entries ! i) = k) [0..<length entries]) ks)"
    using scatter_concat [OF layout, of "replicate (length entries) 0"] unfolding xs B
    by (simp add: lexical_rows_def)
  have size: "length entries < 2 ^ 32"
  proof -
    have "map ((!) (tally ?n (map cn_name_id entries))) ks = map length (map (\<lambda>k. bucket k ?rows) ks)"
      by (auto simp: ks_def length_bucket fst)
    with order_cursors_fits [OF os] ordered_layout_size [OF layout] show ?thesis by (simp add: lexical_rows_def)
  qed
  have sorted: "sorted_cmp (lexical_cmp entries names) xs"
  proof -
    have "sorted_cmp (\<lambda>a b. name_cmp (names ! a) (names ! b)) ks"
      unfolding ks_def by (rule lawful_cmp.sorted_sort_by) (rule lawful_cmp_on [OF name_order.lawful_cmp_axioms])
    then show ?thesis
      unfolding xs' lexical_cmp_def entry_name_def
      by (rule buckets_sorted) (auto simp: name_order.cmp_refl)
  qed
  have "filter (\<lambda>y. lexical_cmp entries names y z = Equal) xs =
      filter (\<lambda>y. lexical_cmp entries names y z = Equal) [0..<length entries]" for z
  proof -
    let ?z = "entry_name names (entries ! z)"
    let ?same = "\<lambda>k. name_cmp (names ! k) ?z = Equal"
    let ?f = "\<lambda>k. if ?same k then filter (\<lambda>i. cn_name_id (entries ! i) = k) [0..<length entries] else []"
    have step: "filter (\<lambda>y. lexical_cmp entries names y z = Equal) xs = concat (map ?f ks)"
      unfolding xs' filter_concat map_map comp_def lexical_cmp_def entry_name_def
      by (intro arg_cong [where f = concat] map_cong refl) (auto intro: filter_cong)
    show ?thesis
    proof (cases "\<exists>k < ?n. ?same k")
      case False
      then have "\<forall>i < length entries. \<not> ?same (cn_name_id (entries ! i))" using ids by auto
      with False show ?thesis unfolding step
        by (auto simp: ks_def lexical_cmp_def entry_name_def filter_empty_conv)
    next
      case True
      then obtain k where k: "k < ?n" "?same k" by blast
      have uniq: "j = k" if "j < ?n" "?same j" for j
        using nth_eq_iff_index_eq [OF assms(2), of j k] that k by (simp add: name_cmp_Equal)
      have ks: "set ks = {..<?n}" "distinct ks" by (auto simp: ks_def)
      have none: "?f j = []" if "j \<in> set ks" "j \<noteq> k" for j
      proof -
        from that(1) have "j < ?n" unfolding ks(1) by simp
        with uniq that(2) have "\<not> ?same j" by blast
        then show ?thesis by (simp only: if_False)
      qed
      have "k \<in> set ks" using k(1) unfolding ks(1) by simp
      then have "concat (map ?f ks) = ?f k" by (rule concat_single [OF ks(2)]) (rule none)
      also have "\<dots> = filter (\<lambda>i. cn_name_id (entries ! i) = k) [0..<length entries]" using k(2) by simp
      also have "\<dots> = filter (\<lambda>y. lexical_cmp entries names y z = Equal) [0..<length entries]"
      proof (rule filter_cong [OF refl])
        fix i assume "i \<in> set [0..<length entries]"
        then have "cn_name_id (entries ! i) < ?n" using ids by simp
        then show "cn_name_id (entries ! i) = k \<longleftrightarrow> lexical_cmp entries names i z = Equal"
          unfolding lexical_cmp_def entry_name_def [of names "entries ! i"] using k(2) uniq by blast
      qed
      finally show ?thesis unfolding step .
    qed
  qed
  with sorted size show ?thesis using lexical.sort_by_unique by metis
qed

section \<open>Postings\<close>

lemma path_posting_spec:
  assumes "path_postings_build entries order n = Some p"
    and "\<forall>i \<in> set order. cn_path_id (entries ! i) < n" "k < n"
  shows "path_posting p k = filter (\<lambda>i. cn_path_id (entries ! i) = k) order"
proof -
  let ?rows = "map (\<lambda>i. (cn_path_id (entries ! i), i)) order"
  obtain os where os: "checked_sums 0 (tally n (map fst ?rows)) = Some os"
      and p: "p = \<lparr> pp_offsets = os, pp_indices = snd (scatter ?rows (take n os) (replicate (length order) 0)) \<rparr>"
    using assms(1) by (auto simp: path_postings_build_def split: Option.bind_splits)
  have keys: "\<forall>r \<in> set ?rows. fst r < n" using assms(2) by auto
  have B: "bucket k ?rows = filter (\<lambda>i. cn_path_id (entries ! i) = k) order"
    by (simp add: bucket_def filter_map comp_def)
  have "os ! Suc k - os ! k = tally n (map fst ?rows) ! k" "length os = Suc n"
    using checked_sums_Some [OF os] assms(3) by (simp_all add: sum_list_take_Suc)
  moreover have "tally n (map fst ?rows) ! k = length (bucket k ?rows)" by (rule tally_bucket [OF assms(3)])
  ultimately have "path_posting p k =
      slice (take n os ! k) (length (bucket k ?rows)) (snd (scatter ?rows (take n os) (replicate (length order) 0)))"
    using assms(3) by (simp add: path_posting_def p)
  also have "\<dots> = bucket k ?rows"
    using key_order_laid_out [OF keys os] assms(3) by (intro scatter_bucket) simp_all
  finally show ?thesis by (simp add: B)
qed

lemma path_postings_total:
  assumes "\<forall>i \<in> set order. cn_path_id (entries ! i) < n" "length order < 2 ^ 32"
  shows "path_postings_build entries order n \<noteq> None"
proof -
  let ?rows = "map (\<lambda>i. (cn_path_id (entries ! i), i)) order"
  have "sum_list (tally n (map fst ?rows)) = length ?rows" using assms(1) by (intro sum_tally) auto
  then have "checked_sums 0 (tally n (map fst ?rows)) \<noteq> None"
    using assms(2) by (intro checked_sums_total) simp
  then show ?thesis by (auto simp: path_postings_build_def)
qed

text \<open>The slots of the fuzzy tokens: one per token, with the number of its rows.\<close>

definition slots_ok :: "u32 list \<Rightarrow> token_slots \<Rightarrow> bool" where
  "slots_ok tokens st \<longleftrightarrow>
     (\<exists>toks. arena (fst st) toks \<and> set toks = set tokens \<and> length (snd st) = length toks \<and>
        (\<forall>i < length toks. snd st ! i = count_list tokens (toks ! i)))"

lemma count_token_ok:
  assumes "slots_ok tokens st" "count_token token st = Some st'"
  shows "slots_ok (tokens @ [token]) st'"
proof -
  obtain slots counts where st: "st = (slots, counts)" by (cases st)
  obtain toks where toks: "arena slots toks" "set toks = set tokens" "length counts = length toks"
      "\<forall>i < length toks. counts ! i = count_list tokens (toks ! i)"
    using assms(1) by (auto simp: slots_ok_def st)
  show ?thesis
  proof (cases "map_of slots token")
    case (Some slot)
    then have slot: "slot < length toks" "toks ! slot = token" using toks(1) by (auto simp: arena_def)
    have st': "st' = (slots, counts[slot := Suc (counts ! slot)])"
      using assms(2) Some by (auto simp: count_token_def st fits_u32_def split: if_splits)
    have "counts[slot := Suc (counts ! slot)] ! i = count_list (tokens @ [token]) (toks ! i)" if "i < length toks" for i
      using that slot toks nth_eq_iff_index_eq [of toks i slot] by (auto simp: nth_list_update arena_def)
    with toks slot show ?thesis unfolding slots_ok_def st' by (intro exI [of _ toks]) (auto intro: nth_mem)
  next
    case None
    have st': "st' = (AList.update token (length toks) slots, counts @ [1])"
      using assms(2) None toks(3) by (auto simp: count_token_def st fits_u32_def split: if_splits)
    have new: "token \<notin> set tokens" using None arena_None [OF toks(1)] toks(2) by metis
    have "(counts @ [1]) ! i = count_list (tokens @ [token]) ((toks @ [token]) ! i)" if "i < Suc (length toks)" for i
      using that toks new nth_mem [of i toks] by (auto simp: nth_append less_Suc_eq)
    with toks show ?thesis unfolding slots_ok_def st'
      by (intro exI [of _ "toks @ [token]"]) (auto intro: arena_push [OF toks(1) None])
  qed
qed

lemma count_tokens_ok:
  fixes rows :: "(u32 \<times> 'a) list"
  assumes "ofold (\<lambda>(token, _). count_token token) rows ([], []) = Some st"
  shows "slots_ok (map fst rows) st"
  using assms
proof (rule ofold_invariant [where I = "\<lambda>pre st. slots_ok (map fst pre) st"])
  fix pre :: "(u32 \<times> 'a) list" and r :: "u32 \<times> 'a" and s s'
  assume "slots_ok (map fst pre) s" "(case r of (token, _) \<Rightarrow> count_token token) s = Some s'"
  then show "slots_ok (map fst (pre @ [r])) s'" using count_token_ok by (cases r) auto
qed (auto simp: slots_ok_def)

lemma distinct_tokens: "distinct (fuzzy_tokens_for_name name)"
  unfolding fuzzy_tokens_for_name_def token_sort_def Let_def
  by (rule distinct_dedup_sort_by) (auto intro: lawful_cmp_key [where f = "\<lambda>x. x"])

lemma token_rows_bucket:
  "map snd (filter (\<lambda>r. fst r = token) (token_rows ordered names)) =
     filter (\<lambda>n. token \<in> set (fuzzy_tokens_for_name (names ! n))) ordered"
proof (induction ordered)
  case (Cons n ordered)
  have "filter (\<lambda>r. fst r = token) (map (\<lambda>t. (t, n)) ts) = (if token \<in> set ts then [(token, n)] else [])"
    if "distinct ts" for ts
    using that by (induction ts) auto
  from this [OF distinct_tokens] Cons show ?case by (simp add: token_rows_def)
qed (simp add: token_rows_def)

lemma length_filter_fst: "length (filter (\<lambda>r. fst r = t) rs) = count_list (map fst rs) t"
  by (induction rs) auto

lemma fuzzy_posting_spec:
  assumes "fuzzy_postings_build ordered names = Some p"
  shows "fuzzy_posting p token = filter (\<lambda>n. token \<in> set (fuzzy_tokens_for_name (names ! n))) ordered"
proof -
  let ?rows = "token_rows ordered names"
  obtain slots counts starts where
    cnt: "ofold (\<lambda>(token, _). count_token token) ?rows ([], []) = Some (slots, counts)" and
    sums: "checked_sums 0 counts = Some starts" and
    p: "p = \<lparr> fp_ranges = map (\<lambda>(token, slot). (token, \<lparr> pr_start = starts ! slot, pr_len = counts ! slot \<rparr>)) slots,
      fp_name_ids = snd (scatter (map (\<lambda>(token, n). (the (map_of slots token), n)) ?rows)
        (take (length counts) starts) (replicate (starts ! length counts) 0)) \<rparr>"
    using assms by (auto simp: fuzzy_postings_build_def Let_def split: Option.bind_splits)
  obtain toks where toks: "arena slots toks" "set toks = fst ` set ?rows" "length counts = length toks"
      "\<forall>i < length toks. counts ! i = count_list (map fst ?rows) (toks ! i)"
    using count_tokens_ok [OF cnt] by (auto simp: slots_ok_def)
  let ?ps = "map (\<lambda>(token, n). (the (map_of slots token), n)) ?rows"
  have slot: "\<exists>k < length toks. map_of slots t = Some k \<and> toks ! k = t" if "t \<in> set toks" for t
    using that toks(1) by (auto simp: arena_def in_set_conv_nth)
  have keys: "\<forall>q \<in> set ?ps. fst q < length toks" using slot toks(2) by fastforce
  have same: "the (map_of slots (fst r)) = k \<longleftrightarrow> fst r = toks ! k" if "r \<in> set ?rows" "k < length toks" for r k
  proof -
    from slot [of "fst r"] that(1) toks(2) obtain j where j: "j < length toks" "map_of slots (fst r) = Some j" "toks ! j = fst r"
      by blast
    have "distinct toks" using toks(1) by (simp add: arena_def)
    from nth_eq_iff_index_eq [OF this j(1) that(2)] show ?thesis by (simp add: j)
  qed
  have B: "bucket k ?ps = map snd (filter (\<lambda>r. fst r = toks ! k) ?rows)" if "k < length toks" for k
    using same [OF _ that]
    by (auto simp: bucket_def filter_map comp_def case_prod_beta intro!: arg_cong [where f = "map snd"] filter_cong)
  have tal: "tally (length toks) (map fst ?ps) = counts"
  proof (rule nth_equalityI)
    fix k assume "k < length (tally (length toks) (map fst ?ps))"
    then have k: "k < length toks" by simp
    have "length (map snd (filter (\<lambda>r. fst r = toks ! k) ?rows)) = count_list (map fst ?rows) (toks ! k)"
      by (simp add: length_filter_fst)
    with k toks(4) B [OF k] show "tally (length toks) (map fst ?ps) ! k = counts ! k" by (simp only: tally_bucket)
  qed (simp add: toks(3))
  have "sum_list counts = length ?ps" using sum_tally [OF keys] tal by simp
  then have len: "starts ! length counts = length ?ps" "length starts = Suc (length counts)"
    using checked_sums_Some [OF sums] by simp_all
  have lay: "laid_out (length toks) ?ps (take (length counts) starts) (length (replicate (starts ! length counts) (0::nat)))"
    using key_order_laid_out [OF keys, of starts] sums tal toks(3) len by simp
  show ?thesis
  proof (cases "map_of slots token")
    case None
    then have "token \<notin> fst ` set ?rows" using arena_None [OF toks(1)] toks(2) by metis
    then have "filter (\<lambda>r. fst r = token) ?rows = []" by (auto simp: filter_empty_conv image_iff)
    then have "filter (\<lambda>n. token \<in> set (fuzzy_tokens_for_name (names ! n))) ordered = []"
      using token_rows_bucket [of token ordered names] by simp
    moreover have "map_of (fp_ranges p) token = None"
      using None by (simp add: p map_of_map [where f = "\<lambda>slot. \<lparr> pr_start = starts ! slot, pr_len = counts ! slot \<rparr>", simplified])
    ultimately show ?thesis by (simp add: fuzzy_posting_def)
  next
    case (Some k)
    then have k: "k < length toks" "toks ! k = token" using toks(1) by (auto simp: arena_def)
    have "map_of (fp_ranges p) token = Some \<lparr> pr_start = starts ! k, pr_len = counts ! k \<rparr>"
      using Some by (simp add: p map_of_map [where f = "\<lambda>slot. \<lparr> pr_start = starts ! slot, pr_len = counts ! slot \<rparr>", simplified])
    moreover have "counts ! k = length (bucket k ?ps)" using tally_bucket [OF k(1), of ?ps] tal by simp
    moreover have "take (length counts) starts ! k = starts ! k" using k toks(3) by simp
    ultimately have "fuzzy_posting p token = bucket k ?ps"
      using scatter_bucket [OF lay k(1)] by (simp add: fuzzy_posting_def p)
    then show ?thesis using B [OF k(1)] k(2) token_rows_bucket by simp
  qed
qed

text \<open>Project postings: the rows of a project, per family, in lexical order.\<close>

definition project_rows :: "(project_key, compact_project_postings) hmap \<Rightarrow> project_key \<Rightarrow> nat \<Rightarrow> nat list" where
  "project_rows postings key slot =
     (case map_of postings key of None \<Rightarrow> [] | Some p \<Rightarrow> at_slot (cp_by_family p) slot)"

definition has_project :: "compact_name_entry list \<Rightarrow> project_key list \<Rightarrow> project_key \<Rightarrow> nat \<Rightarrow> bool" where
  "has_project entries projects key i \<longleftrightarrow>
     cn_project_id (entries ! i) \<noteq> NO_PROJECT_ID \<and> projects ! cn_project_id (entries ! i) = key"

lemma note_project_rows:
  "slot < 2 \<Longrightarrow> slot' < 2 \<Longrightarrow>
     project_rows (note_project entries projects slot i m) key slot' =
       project_rows m key slot' @ (if slot' = slot \<and> has_project entries projects key i then [i] else [])"
  by (auto simp: note_project_def project_rows_def has_project_def at_slot_def set_slot_def get_or_def Let_def
      split: option.splits)

lemma fold_note_project_rows:
  "slot < 2 \<Longrightarrow> slot' < 2 \<Longrightarrow>
     project_rows (fold (note_project entries projects slot) is m) key slot' =
       project_rows m key slot' @ (if slot' = slot then filter (has_project entries projects key) is else [])"
  by (induction "is" arbitrary: m) (auto simp: note_project_rows)

lemma project_postings_rows:
  "slot < 2 \<Longrightarrow>
     project_rows (project_postings entries projects by_family) key slot =
       filter (has_project entries projects key) (at_slot by_family slot)"
  by (auto simp: project_postings_def fold_note_project_rows project_rows_def [of "[]"] less_2_cases_iff)

lemma distinct_note_projects:
  "distinct (map fst m) \<Longrightarrow> distinct (map fst (fold (note_project entries projects slot) is m))"
  by (induction "is" arbitrary: m) (auto simp: note_project_def Let_def)

lemma distinct_project_postings: "distinct (map fst (project_postings entries projects by_family))"
  by (simp add: project_postings_def distinct_note_projects)

section \<open>Segments\<close>

definition segment_view :: "name_segment \<Rightarrow> name_entry list" where
  "segment_view s = map (segment_entry s) [0..<length (ns_entries s)]"

definition segment_order :: "name_segment \<Rightarrow> nat list" where
  "segment_order s = sort_by (lexical_cmp (ns_entries s) (ns_names s)) [0..<length (ns_entries s)]"

definition segment_ok :: "name_segment \<Rightarrow> bool" where
  "segment_ok s \<longleftrightarrow>
     parts_ok (ns_entries s) (ns_names s) (ns_paths s) (ns_path_ids s) (ns_path_counts s)
       (ns_path_is_external s) (ns_projects s) \<and>
     length (ns_entries s) < 2 ^ 32 \<and> distinct (map fst (ns_by_project s)) \<and>
     (\<forall>slot < 2. at_slot (ns_sorted_by_family s) slot = filter (\<lambda>i. entry_slot (ns_entries s ! i) = slot) (segment_order s)) \<and>
     (\<forall>slot < 2. \<forall>k < length (ns_paths s).
        path_posting (at_slot (ns_path_postings_by_family s) slot) k =
          filter (\<lambda>i. cn_path_id (ns_entries s ! i) = k) (at_slot (ns_sorted_by_family s) slot)) \<and>
     (\<forall>slot < 2. \<forall>token.
        fuzzy_posting (at_slot (ns_fuzzy_postings_by_family s) slot) token =
          filter (\<lambda>n. token \<in> set (fuzzy_tokens_for_name (ns_names s ! n)))
            (family_names (ns_entries s) (ns_names s) [0..<length (ns_names s)] slot)) \<and>
     (\<forall>slot < 2. \<forall>key.
        project_rows (ns_by_project s) key slot =
          filter (has_project (ns_entries s) (ns_projects s) key) (at_slot (ns_sorted_by_family s) slot))"

lemma segment_entry_decode:
  "segment_entry s i = decode_entry (ns_names s) (ns_paths s) (ns_projects s) (ns_entries s ! i)"
  by (simp add: segment_entry_def decode_entry_def Let_def)

lemma segment_view_decode:
  "segment_view s = map (decode_entry (ns_names s) (ns_paths s) (ns_projects s)) (ns_entries s)"
  unfolding segment_view_def segment_entry_decode
  by (rule nth_equalityI) simp_all

lemma from_compact_parts_ok:
  assumes "from_compact_parts entries names paths path_ids path_counts path_is_external projects = Some s"
    and ok: "parts_ok entries names paths path_ids path_counts path_is_external projects"
  shows "segment_ok s \<and> ns_entries s = entries \<and> ns_names s = names \<and> ns_paths s = paths \<and>
    ns_projects s = projects"
proof -
  obtain by_family heads c_fuzzy go_fuzzy c_prefix go_prefix c_paths go_paths where
    bf: "sorted_indices_by_family entries names = Some by_family" and
    cp: "candidate_postings_by_family entries names paths = Some (heads, c_fuzzy, go_fuzzy)" and
    pp: "path_postings_build entries (at_slot by_family 0) (length paths) = Some c_paths"
      "path_postings_build entries (at_slot by_family 1) (length paths) = Some go_paths" and
    s: "s = \<lparr> ns_entries = entries, ns_names = names, ns_paths = paths, ns_path_ids = path_ids,
            ns_path_counts = path_counts, ns_path_is_external = path_is_external, ns_projects = projects,
            ns_sorted_by_family = by_family, ns_short_prefix_heads_by_family = heads,
            ns_fuzzy_postings_by_family = (c_fuzzy, go_fuzzy), ns_sole_path_by_name = sole_paths entries (length names),
            ns_prefix_paths_by_family = (c_prefix, go_prefix),
            ns_path_postings_by_family = (c_paths, go_paths),
            ns_by_project = project_postings entries projects by_family \<rparr>"
    using assms(1) by (auto simp: from_compact_parts_def split: Option.bind_splits)
  obtain order where order: "sorted_indices entries names = Some order"
      and bf': "by_family = by_slot (\<lambda>slot. filter (\<lambda>i. entry_slot (entries ! i) = slot) order)"
    using bf by (auto simp: sorted_indices_by_family_def)
  have "order = sort_by (lexical_cmp entries names) [0..<length entries] \<and> length entries < 2 ^ 32"
    using ok by (intro sorted_indices_spec [OF order]) (auto simp: parts_ok_def compact_ok_def)
  then have ord: "order = segment_order s" "length entries < 2 ^ 32" by (simp_all add: segment_order_def s)
  have slots: "at_slot by_family slot = filter (\<lambda>i. entry_slot (entries ! i) = slot) order" if "slot < 2" for slot
    using that by (auto simp: bf' by_slot_def at_slot_def less_2_cases_iff)
  have range: "\<forall>i \<in> set (at_slot by_family slot). cn_path_id (entries ! i) < length paths" if "slot < 2" for slot
  proof -
    have "set order \<subseteq> {..<length entries}" by (auto simp: ord(1) segment_order_def s)
    with slots [OF that] ok show ?thesis by (auto simp: parts_ok_def compact_ok_def)
  qed
  have fz: "fuzzy_postings_build (family_names entries names [0..<length names] 0) names = Some c_fuzzy"
      "fuzzy_postings_build (family_names entries names [0..<length names] 1) names = Some go_fuzzy"
    using cp by (auto simp: candidate_postings_by_family_def index_ids_def split: if_splits Option.bind_splits)
  have paths: "path_posting (at_slot (c_paths, go_paths) slot) k =
      filter (\<lambda>i. cn_path_id (entries ! i) = k) (at_slot by_family slot)" if "slot < 2" "k < length paths" for slot k
    using that path_posting_spec [OF pp(1) range] path_posting_spec [OF pp(2) range]
    by (auto simp: at_slot_def less_2_cases_iff)
  have fuzzy: "fuzzy_posting (at_slot (c_fuzzy, go_fuzzy) slot) token =
      filter (\<lambda>n. token \<in> set (fuzzy_tokens_for_name (names ! n)))
        (family_names entries names [0..<length names] slot)" if "slot < 2" for slot token
    using that fuzzy_posting_spec [OF fz(1)] fuzzy_posting_spec [OF fz(2)]
    by (auto simp: at_slot_def less_2_cases_iff)
  have "segment_ok s"
    unfolding segment_ok_def ord(1) [symmetric] using ok ord(2) slots paths fuzzy project_postings_rows
      distinct_project_postings
    by (simp add: s)
  then show ?thesis by (simp add: s)
qed

lemma segment_from_entries_ok:
  assumes "segment_from_entries es = Some s" "\<forall>e \<in> set es. entry_ok e"
  shows "segment_ok s \<and> segment_view s = map norm_entry es \<and> paths_used (ns_entries s) (ns_paths s)"
proof -
  obtain b where b: "ofold push_entry es (builder_new None) = Some b" "finish_segment b = Some s"
    using assms(1) by (auto simp: segment_from_entries_def split: Option.bind_splits)
  have bo: "builder_ok b" "length (nb_entries b) = length es"
      "length es \<le> NO_PROJECT_ID \<longrightarrow> builder_view b = map norm_entry es"
    using push_entries_ok [OF b(1) assms(2)] by auto
  have s: "segment_ok s" "ns_entries s = nb_entries b" "ns_names s = nb_names b" "ns_paths s = nb_paths b"
      "ns_projects s = nb_projects b"
    using from_compact_parts_ok [of "nb_entries b"] b(2) bo(1) by (auto simp: finish_segment_def builder_ok_def)
  moreover have "length es \<le> NO_PROJECT_ID"
    using s(1,2) bo(2) by (simp add: segment_ok_def NO_PROJECT_ID_def)
  ultimately show ?thesis using bo(3) push_entries_used [OF b(1)]
    by (simp add: segment_view_decode builder_view_def)
qed

end
