(* ===== verification/Name_Table.thy ===== *)
theory Name_Table
  imports Name_Build
begin

text \<open>
  The segmented name table of \<open>src/crates/fossilsense/src/query.rs\<close> and its updates in
  \<open>query/name_updates.rs\<close>: one immutable base segment, delta segments appended by publications, and
  a map that says for every changed path which delta holds it, or that it was deleted. The set of
  changed paths that the code iterates is a list without duplicates. Operations that build a
  segment return \<open>None\<close> where the code panics; \<open>compacted_with_cancellation\<close> and its helper take as an
  argument whether one of their checkpoints observes the cancellation.
\<close>

record name_table =
  nt_base :: name_segment
  nt_deltas :: "name_segment list"
  nt_path_overrides :: "(string, nat option) hmap"
  nt_active_base_paths :: "string list"
  nt_active_delta_paths :: "string list list"
  nt_active_project_family_counts :: "(project_key, nat \<times> nat) hmap"
  nt_delta_offsets :: "nat list"
  nt_active_len :: nat
  nt_slot_len :: nat
  nt_direct_include_overrides :: "(string, bool) hmap"
  nt_all_workspace_reach :: reach_scope

section \<open>Construction\<close>

definition all_workspace_reach :: "name_segment \<Rightarrow> reach_scope" where
  "all_workspace_reach s =
     \<lparr> rs_files = fst ` set (filter (\<lambda>(_, external). \<not> external) (zip (ns_paths s) (ns_path_is_external s))),
       rs_heuristic_files = {}, rs_open = False, rs_reason = None \<rparr>"

definition from_base_segment :: "name_segment \<Rightarrow> name_table" where
  "from_base_segment base =
     \<lparr> nt_base = base, nt_deltas = [], nt_path_overrides = [],
       nt_active_base_paths = sort_by cmp_of (ns_paths base), nt_active_delta_paths = [],
       nt_active_project_family_counts =
         map_values (\<lambda>p. (length (fst (cp_by_family p)), length (snd (cp_by_family p)))) (ns_by_project base),
       nt_delta_offsets = [], nt_active_len = length (ns_entries base), nt_slot_len = length (ns_entries base),
       nt_direct_include_overrides = [], nt_all_workspace_reach = all_workspace_reach base \<rparr>"

definition builder_finish :: "name_index_builder \<Rightarrow> name_table option" where
  "builder_finish b = map_option from_base_segment (finish_segment b)"

definition table_from_entries :: "name_entry list \<Rightarrow> name_table option" where
  "table_from_entries entries = do {
     b \<leftarrow> ofold push_entry entries (builder_new None);
     builder_finish b
   }"

definition build_with_paths :: "(int \<times> string \<times> bool \<times> string \<times> string \<times> bool) list \<Rightarrow> name_table option" where
  "build_with_paths names = table_from_entries (map name_entry_of names)"

definition build_from_declaration_rows ::
  "declaration_name_row list \<Rightarrow> project_context_index option \<Rightarrow> name_table option" where
  "build_from_declaration_rows rows ctx = do {
     b \<leftarrow> ofold push_declaration rows (builder_new ctx);
     builder_finish b
   }"

section \<open>Virtual indices\<close>

definition delta_of :: "name_table \<Rightarrow> nat \<Rightarrow> nat" where
  "delta_of t index = partition_point (\<lambda>offset. offset \<le> index) (nt_delta_offsets t) - 1"

definition table_entry :: "name_table \<Rightarrow> nat \<Rightarrow> name_entry" where
  "table_entry t index =
     (if index < length (ns_entries (nt_base t)) then segment_entry (nt_base t) index
      else let d = delta_of t index
           in segment_entry (nt_deltas t ! d) (index - nt_delta_offsets t ! d))"

definition segment_for_index :: "name_table \<Rightarrow> nat \<Rightarrow> nat option" where
  "segment_for_index t index =
     (if index \<ge> length (ns_entries (nt_base t)) then Some (delta_of t index) else None)"

definition is_active_index :: "name_table \<Rightarrow> nat \<Rightarrow> bool" where
  "is_active_index t index =
     (case map_of (nt_path_overrides t) (ne_path (table_entry t index)) of
        None \<Rightarrow> segment_for_index t index = None
      | Some (Some active_delta) \<Rightarrow> segment_for_index t index = Some active_delta
      | Some None \<Rightarrow> False)"

definition active_indices :: "name_table \<Rightarrow> nat list" where
  "active_indices t = filter (is_active_index t) [0..<nt_slot_len t]"

definition segment_with_offset :: "name_table \<Rightarrow> nat \<Rightarrow> name_segment \<times> nat" where
  "segment_with_offset t segment_slot =
     (if segment_slot = 0 then (nt_base t, 0)
      else (nt_deltas t ! (segment_slot - 1), nt_delta_offsets t ! (segment_slot - 1)))"

section \<open>Updates\<close>

definition count_project ::
  "name_segment \<Rightarrow> nat \<Rightarrow> nat \<Rightarrow> (project_key, nat \<times> nat) hmap \<Rightarrow> (project_key, nat \<times> nat) hmap" where
  "count_project s slot i counts =
     (let e = ns_entries s ! i
      in if cn_project_id e = NO_PROJECT_ID then counts
         else entry_modify (ns_projects s ! cn_project_id e) (0, 0) (set_slot slot Suc) counts)"

definition project_family_counts_for_path :: "name_segment \<Rightarrow> string \<Rightarrow> (project_key, nat \<times> nat) hmap" where
  "project_family_counts_for_path s path =
     (case map_of (ns_path_ids s) path of
        None \<Rightarrow> []
      | Some path_id \<Rightarrow>
          fold (\<lambda>slot. fold (count_project s slot)
            (path_posting (at_slot (ns_path_postings_by_family s) slot) path_id)) [0, 1] [])"

definition adjust_counts :: "bool \<Rightarrow> nat \<times> nat \<Rightarrow> nat \<times> nat \<Rightarrow> (nat \<times> nat) option" where
  "adjust_counts add change counts =
     (if add then Some (fst counts + fst change, snd counts + snd change)
      else if fst change \<le> fst counts \<and> snd change \<le> snd counts
      then Some (fst counts - fst change, snd counts - snd change)
      else None)"

definition adjust_project_family_counts ::
  "name_segment \<Rightarrow> string \<Rightarrow> bool \<Rightarrow> (project_key, nat \<times> nat) hmap \<Rightarrow> (project_key, nat \<times> nat) hmap option" where
  "adjust_project_family_counts s path add active = do {
     active \<leftarrow> ofold (\<lambda>(key, change) active. do {
         counts \<leftarrow> adjust_counts add change (get_or (0, 0) active key);
         Some (AList.update key counts active)
       }) (project_family_counts_for_path s path) active;
     Some (filter (\<lambda>(_, counts). fst counts > 0 \<or> snd counts > 0) active)
   }"

text \<open>The segment that holds a path before the update, if the path is not deleted.\<close>

definition old_segment :: "name_table \<Rightarrow> string \<Rightarrow> name_segment option" where
  "old_segment t path =
     (case map_of (nt_path_overrides t) path of
        Some (Some d) \<Rightarrow> Some (nt_deltas t ! d)
      | Some None \<Rightarrow> None
      | None \<Rightarrow> Some (nt_base t))"

type_synonym update_state = "(project_key, nat \<times> nat) hmap \<times> nat \<times> (string, nat option) hmap"

definition update_path :: "name_table \<Rightarrow> name_segment \<Rightarrow> string \<Rightarrow> update_state \<Rightarrow> update_state option" where
  "update_path t fresh path st = do {
     let (counts, active_len, overrides) = st;
     counts \<leftarrow> (case old_segment t path of
          Some old \<Rightarrow> adjust_project_family_counts old path False counts
        | None \<Rightarrow> Some counts);
     counts \<leftarrow> adjust_project_family_counts fresh path True counts;
     let old_count = (case old_segment t path of Some old \<Rightarrow> path_count old path | None \<Rightarrow> 0);
     let fresh_count = path_count fresh path;
     let key = (case interned_path fresh path of Some p \<Rightarrow> p | None \<Rightarrow> path);
     Some (counts, active_len - old_count + fresh_count,
           AList.update key (if fresh_count > 0 then Some (length (nt_deltas t)) else None) overrides)
   }"

definition touched_deltas :: "name_table \<Rightarrow> string list \<Rightarrow> nat list" where
  "touched_deltas t paths =
     remdups (List.map_filter (\<lambda>path. case map_of (nt_path_overrides t) path of Some (Some d) \<Rightarrow> Some d | _ \<Rightarrow> None) paths)"

definition with_updated_entries :: "name_table \<Rightarrow> string list \<Rightarrow> name_entry list \<Rightarrow> name_table option" where
  "with_updated_entries t paths fresh_entries = do {
     fresh \<leftarrow> segment_from_entries fresh_entries;
     let retained = fold (\<lambda>d active. active[d := filter (\<lambda>p. p \<notin> set paths) (active ! d)])
           (touched_deltas t paths) (nt_active_delta_paths t);
     (counts, active_len, overrides) \<leftarrow>
       ofold (update_path t fresh) paths
         (nt_active_project_family_counts t, nt_active_len t, nt_path_overrides t);
     let fresh_active_paths = sort_by cmp_of (filter (\<lambda>p. path_count fresh p > 0) paths);
     let workspace = rs_files (all_workspace_reach fresh);
     Some \<lparr> nt_base = nt_base t, nt_deltas = nt_deltas t @ [fresh], nt_path_overrides = overrides,
            nt_active_base_paths = filter (\<lambda>p. p \<notin> set paths) (nt_active_base_paths t),
            nt_active_delta_paths = retained @ [fresh_active_paths],
            nt_active_project_family_counts = counts,
            nt_delta_offsets = nt_delta_offsets t @ [nt_slot_len t],
            nt_active_len = active_len, nt_slot_len = nt_slot_len t + length (ns_entries fresh),
            nt_direct_include_overrides = nt_direct_include_overrides t,
            nt_all_workspace_reach = (nt_all_workspace_reach t)
              \<lparr> rs_files := rs_files (nt_all_workspace_reach t) - set paths \<union> workspace \<rparr> \<rparr>
   }"

definition with_updated_paths ::
  "name_table \<Rightarrow> string list \<Rightarrow> (int \<times> string \<times> bool \<times> string \<times> string \<times> bool) list \<Rightarrow> name_table option" where
  "with_updated_paths t paths names = with_updated_entries t paths (map name_entry_of names)"

definition with_updated_family_paths ::
  "name_table \<Rightarrow> string list \<Rightarrow> (int \<times> string \<times> bool \<times> string \<times> string \<times> bool \<times> semantic_family) list
   \<Rightarrow> name_table option" where
  "with_updated_family_paths t paths names =
     with_updated_entries t paths
       (map (\<lambda>(i, name, external, path, kind, directly_included, family).
          (name_entry_of (i, name, external, path, kind, directly_included))\<lparr> ne_semantic_family := family \<rparr>) names)"

definition with_updated_declaration_rows ::
  "name_table \<Rightarrow> string list \<Rightarrow> declaration_name_row list \<Rightarrow> project_context_index option \<Rightarrow> name_table option" where
  "with_updated_declaration_rows t paths rows ctx =
     with_updated_entries t paths (declaration_name_entries ctx [] rows)"

definition with_project_context :: "name_table \<Rightarrow> project_context_index option \<Rightarrow> name_table option" where
  "with_project_context t ctx = do {
     b \<leftarrow> ofold (\<lambda>i. push_ref_with_project_context (table_entry t i)) (active_indices t) (builder_new ctx);
     rebuilt \<leftarrow> builder_finish b;
     Some (rebuilt\<lparr> nt_direct_include_overrides := nt_direct_include_overrides t \<rparr>)
   }"

definition with_direct_include_overrides :: "name_table \<Rightarrow> (string, bool) hmap \<Rightarrow> name_table" where
  "with_direct_include_overrides t overrides =
     t\<lparr> nt_direct_include_overrides :=
          fold (\<lambda>(path, included). AList.update path included) overrides (nt_direct_include_overrides t) \<rparr>"

definition directly_included_for :: "name_table \<Rightarrow> name_entry \<Rightarrow> bool" where
  "directly_included_for t e =
     (ne_external e \<and>
      (case map_of (nt_direct_include_overrides t) (ne_path e) of
         Some included \<Rightarrow> included
       | None \<Rightarrow> ne_directly_included e))"

definition has_project_for_family :: "name_table \<Rightarrow> project_key \<Rightarrow> semantic_family \<Rightarrow> bool" where
  "has_project_for_family t key family =
     (case map_of (nt_active_project_family_counts t) key of
        None \<Rightarrow> False
      | Some counts \<Rightarrow> at_slot counts (semantic_family_slot family) > 0)"

section \<open>Compaction\<close>

definition needs_compaction :: "name_table \<Rightarrow> bool" where
  "needs_compaction t =
     (length (nt_deltas t) \<ge> 64 \<or>
      nt_slot_len t - length (ns_entries (nt_base t)) > length (ns_entries (nt_base t)) div 4)"

definition can_compact_deltas_only :: "name_table \<Rightarrow> bool" where
  "can_compact_deltas_only t =
     (let limit = length (ns_entries (nt_base t)) div 4
      in nt_deltas t \<noteq> [] \<and> nt_slot_len t - length (ns_entries (nt_base t)) \<le> limit \<and>
         sum_list (map (\<lambda>(path, _). path_count (nt_base t) path) (nt_path_overrides t)) \<le> limit)"

definition compact_deltas :: "name_table \<Rightarrow> name_table option" where
  "compact_deltas t = do {
     b \<leftarrow> ofold (\<lambda>i. push_entry (table_entry t i))
           (filter (is_active_index t) [length (ns_entries (nt_base t))..<nt_slot_len t]) (builder_new None);
     merged \<leftarrow> builder_finish b;
     let segment = nt_base merged;
     let overrides = List.map_filter (\<lambda>(path, target).
           if target \<noteq> None \<or> map_of (ns_path_ids (nt_base t)) path \<noteq> None
           then Some (path, map_option (\<lambda>_. 0) target) else None) (nt_path_overrides t);
     Some \<lparr> nt_base = nt_base t, nt_deltas = [segment], nt_path_overrides = overrides,
            nt_active_base_paths = nt_active_base_paths t,
            nt_active_delta_paths = [nt_active_base_paths merged],
            nt_active_project_family_counts = nt_active_project_family_counts t,
            nt_delta_offsets = [length (ns_entries (nt_base t))],
            nt_active_len = nt_active_len t,
            nt_slot_len = length (ns_entries (nt_base t)) + length (ns_entries segment),
            nt_direct_include_overrides = nt_direct_include_overrides t,
            nt_all_workspace_reach = nt_all_workspace_reach t \<rparr>
   }"

definition compacted :: "name_table \<Rightarrow> name_table option" where
  "compacted t = do {
     b \<leftarrow> ofold (\<lambda>i. push_entry (table_entry t i)) (active_indices t) (builder_new None);
     rebuilt \<leftarrow> builder_finish b;
     Some (rebuilt\<lparr> nt_direct_include_overrides := nt_direct_include_overrides t \<rparr>)
   }"

definition compacted_with_cancellation :: "bool \<Rightarrow> name_table \<Rightarrow> name_table option option" where
  "compacted_with_cancellation observed t =
     (if observed then Some None
      else map_option Some (if can_compact_deltas_only t then compact_deltas t else compacted t))"

end
