(* ===== verification/Name_Updates.thy ===== *)
theory Name_Updates
  imports Name_Table
begin

text \<open>
  What a name table holds, and what its updates do. The abstraction is the list of active
  declarations; an update replaces the declarations of its paths, compaction changes nothing, and
  the counters that requests consult are exact.
\<close>

section \<open>The rows of a table\<close>

type_synonym row = "nat option \<times> name_entry"

definition table_rows :: "name_table \<Rightarrow> row list" where
  "table_rows t =
     map (Pair None) (segment_view (nt_base t)) @
     concat (map (\<lambda>d. map (Pair (Some d)) (segment_view (nt_deltas t ! d))) [0..<length (nt_deltas t)])"

definition row_active :: "(string, nat option) hmap \<Rightarrow> row \<Rightarrow> bool" where
  "row_active overrides r =
     (case map_of overrides (ne_path (snd r)) of
        None \<Rightarrow> fst r = None
      | Some (Some d) \<Rightarrow> fst r = Some d
      | Some None \<Rightarrow> False)"

definition active_entries :: "name_table \<Rightarrow> name_entry list" where
  "active_entries t = map snd (filter (row_active (nt_path_overrides t)) (table_rows t))"

definition delta_sizes :: "name_table \<Rightarrow> nat list" where
  "delta_sizes t = map (\<lambda>s. length (ns_entries s)) (nt_deltas t)"

definition layout_ok :: "name_table \<Rightarrow> bool" where
  "layout_ok t \<longleftrightarrow>
     nt_delta_offsets t =
       map (\<lambda>d. length (ns_entries (nt_base t)) + sum_list (take d (delta_sizes t))) [0..<length (nt_deltas t)] \<and>
     nt_slot_len t = length (ns_entries (nt_base t)) + sum_list (delta_sizes t)"

lemma length_segment_view [simp]: "length (segment_view s) = length (ns_entries s)"
  by (simp add: segment_view_def)

lemma nth_segment_view [simp]: "i < length (ns_entries s) \<Longrightarrow> segment_view s ! i = segment_entry s i"
  by (simp add: segment_view_def)

lemma nth_concat:
  "d < length xss \<Longrightarrow> j < length (xss ! d) \<Longrightarrow>
     concat xss ! (sum_list (map length (take d xss)) + j) = xss ! d ! j"
proof (induction xss arbitrary: d)
  case (Cons xs xss)
  then show ?case by (cases d) (auto simp: nth_append add.assoc)
qed simp

lemma takeWhile_snoc: "\<not> P y \<Longrightarrow> takeWhile P (xs @ [y]) = takeWhile P xs"
  by (induction xs) auto

text \<open>\<open>partition_point\<close> finds the delta of an index.\<close>

lemma partition_point_sums:
  fixes i base :: nat and ls :: "nat list"
  assumes "i < base + sum_list ls" "base \<le> i"
  defines "os \<equiv> map (\<lambda>d. base + sum_list (take d ls)) [0..<length ls]"
  shows "let d = partition_point (\<lambda>o'. o' \<le> i) os - 1
    in d < length ls \<and> os ! d \<le> i \<and> i - os ! d < ls ! d"
  using assms(1) unfolding os_def
proof (induction ls rule: rev_induct)
  case (snoc l ls)
  let ?os = "map (\<lambda>d. base + sum_list (take d ls)) [0..<length ls]"
  have os: "map (\<lambda>d. base + sum_list (take d (ls @ [l]))) [0..<length (ls @ [l])] = ?os @ [base + sum_list ls]"
    by simp
  show ?case
  proof (cases "i < base + sum_list ls")
    case True
    have "takeWhile (\<lambda>o'. o' \<le> i) (?os @ [base + sum_list ls]) = takeWhile (\<lambda>o'. o' \<le> i) ?os"
      by (rule takeWhile_snoc) (use True in linarith)
    then have pp: "partition_point (\<lambda>o'. o' \<le> i) (?os @ [base + sum_list ls]) = partition_point (\<lambda>o'. o' \<le> i) ?os"
      by (simp add: partition_point_def)
    from snoc.IH [OF True] show ?thesis
      unfolding os pp Let_def by (auto simp: nth_append)
  next
    case False
    have "x \<le> i" if "x \<in> set ?os" for x
    proof -
      from that obtain d where "x = base + sum_list (take d ls)" by auto
      with sum_list_take_mono [of d "max d (length ls)" ls] False show ?thesis by simp
    qed
    then have "partition_point (\<lambda>o'. o' \<le> i) (?os @ [base + sum_list ls]) = Suc (length ls)"
      using False by (simp add: partition_point_def takeWhile_eq_all_conv [THEN iffD2])
    with snoc.prems False show ?thesis unfolding os by (simp add: nth_append)
  qed
qed (use assms(2) in simp)

lemma length_table_rows: "layout_ok t \<Longrightarrow> length (table_rows t) = nt_slot_len t"
  by (simp add: table_rows_def layout_ok_def length_concat delta_sizes_def comp_def)
    (metis (no_types, lifting) map_nth map_map comp_def map_cong)

lemma table_rows_nth:
  assumes "layout_ok t" "i < nt_slot_len t"
  shows "table_rows t ! i = (segment_for_index t i, table_entry t i)"
proof (cases "i < length (ns_entries (nt_base t))")
  case True
  then show ?thesis by (simp add: table_rows_def segment_for_index_def table_entry_def nth_append)
next
  case False
  let ?b = "length (ns_entries (nt_base t))" and ?d = "delta_of t i" and ?os = "nt_delta_offsets t"
  let ?f = "\<lambda>d. map (Pair (Some d)) (segment_view (nt_deltas t ! d))"
  have os: "?os = map (\<lambda>d. ?b + sum_list (take d (delta_sizes t))) [0..<length (delta_sizes t)]"
    using assms(1) by (simp add: layout_ok_def delta_sizes_def)
  have d: "?d < length (delta_sizes t)" "?os ! ?d \<le> i" "i - ?os ! ?d < delta_sizes t ! ?d"
    using partition_point_sums [of i ?b "delta_sizes t"] False assms unfolding delta_of_def Let_def os
    by (auto simp: layout_ok_def)
  have d': "?d < length (nt_deltas t)" "i - ?os ! ?d < length (ns_entries (nt_deltas t ! ?d))"
    using d by (simp_all add: delta_sizes_def)
  have sizes: "map length (take ?d (map ?f [0..<length (nt_deltas t)])) = take ?d (delta_sizes t)"
    by (rule nth_equalityI) (auto simp: delta_sizes_def)
  have pos: "i - ?b = sum_list (map length (take ?d (map ?f [0..<length (nt_deltas t)]))) + (i - ?os ! ?d)"
    using d(1,2) unfolding sizes by (simp add: os)
  have "concat (map ?f [0..<length (nt_deltas t)]) ! (i - ?b) =
      map ?f [0..<length (nt_deltas t)] ! ?d ! (i - ?os ! ?d)"
    unfolding pos by (rule nth_concat) (use d' in simp_all)
  also have "\<dots> = (Some ?d, segment_entry (nt_deltas t ! ?d) (i - ?os ! ?d))" using d' by simp
  finally show ?thesis using False
    by (simp add: table_rows_def nth_append segment_for_index_def table_entry_def Let_def)
qed

lemma is_active_row:
  "layout_ok t \<Longrightarrow> i < nt_slot_len t \<Longrightarrow>
     is_active_index t i \<longleftrightarrow> row_active (nt_path_overrides t) (table_rows t ! i)"
  by (simp add: table_rows_nth is_active_index_def row_active_def cong: option.case_cong)

lemma active_entries_indices:
  assumes "layout_ok t"
  shows "active_entries t = map (table_entry t) (active_indices t)"
proof -
  have "table_rows t = map ((!) (table_rows t)) [0..<nt_slot_len t]"
    using length_table_rows [OF assms] by (metis map_nth)
  then have "active_entries t =
      map snd (filter (row_active (nt_path_overrides t)) (map ((!) (table_rows t)) [0..<nt_slot_len t]))"
    by (simp add: active_entries_def)
  also have "\<dots> = map (snd \<circ> (!) (table_rows t)) (filter (row_active (nt_path_overrides t) \<circ> (!) (table_rows t)) [0..<nt_slot_len t])"
    by (simp add: filter_map)
  also have "\<dots> = map (table_entry t) (active_indices t)"
    using is_active_row [OF assms] table_rows_nth [OF assms]
    by (auto simp: active_indices_def intro!: map_cong filter_cong)
  finally show ?thesis .
qed

section \<open>Counting the declarations of a path\<close>

definition on_path :: "string \<Rightarrow> name_entry list \<Rightarrow> name_entry list" where
  "on_path path es = filter (\<lambda>e. ne_path e = path) es"

definition in_project :: "project_key \<Rightarrow> nat \<Rightarrow> name_entry \<Rightarrow> bool" where
  "in_project key slot e \<longleftrightarrow> ne_project_key e = Some key \<and> semantic_family_slot (ne_semantic_family e) = slot"

definition pcount :: "project_key \<Rightarrow> name_entry list \<Rightarrow> nat \<times> nat" where
  "pcount key es = (length (filter (in_project key 0) es), length (filter (in_project key 1) es))"

definition pair_add :: "nat \<times> nat \<Rightarrow> nat \<times> nat \<Rightarrow> nat \<times> nat" where
  "pair_add a b = (fst a + fst b, snd a + snd b)"

lemma pcount_append: "pcount key (xs @ ys) = pair_add (pcount key xs) (pcount key ys)"
  by (simp add: pcount_def pair_add_def)

lemma segment_arena: "segment_ok s \<Longrightarrow> arena (ns_path_ids s) (ns_paths s)"
  by (simp add: segment_ok_def parts_ok_def)

lemma segment_entry_path:
  assumes "segment_ok s" "i < length (ns_entries s)" "k < length (ns_paths s)"
  shows "ne_path (segment_entry s i) = ns_paths s ! k \<longleftrightarrow> cn_path_id (ns_entries s ! i) = k"
proof -
  have "distinct (ns_paths s)" "cn_path_id (ns_entries s ! i) < length (ns_paths s)"
    using assms(1,2) by (auto simp: segment_ok_def parts_ok_def arena_def compact_ok_def)
  with assms(3) show ?thesis by (simp add: segment_entry_def Let_def nth_eq_iff_index_eq)
qed

lemma on_path_indices:
  "on_path path (segment_view s) =
     map (segment_entry s) (filter (\<lambda>i. ne_path (segment_entry s i) = path) [0..<length (ns_entries s)])"
  by (simp add: on_path_def segment_view_def filter_map comp_def)

lemma on_path_unknown:
  assumes "segment_ok s" "map_of (ns_path_ids s) path = None"
  shows "on_path path (segment_view s) = []"
proof -
  have "path \<notin> set (ns_paths s)"
    using assms(2) arena_None [OF segment_arena [OF assms(1)]] by simp
  moreover have "ne_path (segment_entry s i) \<in> set (ns_paths s)" if "i < length (ns_entries s)" for i
    using that assms(1) by (auto simp: segment_entry_def Let_def segment_ok_def parts_ok_def compact_ok_def)
  ultimately show ?thesis by (auto simp: on_path_indices filter_empty_conv)
qed

lemma on_path_known:
  assumes "segment_ok s" "map_of (ns_path_ids s) path = Some k"
  shows "k < length (ns_paths s) \<and> ns_paths s ! k = path \<and>
    on_path path (segment_view s) =
      map (segment_entry s) (filter (\<lambda>i. cn_path_id (ns_entries s ! i) = k) [0..<length (ns_entries s)])"
proof -
  have k: "k < length (ns_paths s)" "ns_paths s ! k = path"
    using assms by (auto simp: segment_ok_def parts_ok_def arena_def)
  have "filter (\<lambda>i. ne_path (segment_entry s i) = path) [0..<length (ns_entries s)] =
      filter (\<lambda>i. cn_path_id (ns_entries s ! i) = k) [0..<length (ns_entries s)]"
    using segment_entry_path [OF assms(1) _ k(1)] k(2) by (intro filter_cong) auto
  with k show ?thesis by (simp add: on_path_indices)
qed

lemma length_filter_upt: fixes k :: nat shows "length (filter (\<lambda>i. f (xs ! i) = k) [0..<length xs]) = count_list (map f xs) k"
proof -
  have "length (filter (\<lambda>i. f (xs ! i) = k) [0..<length xs]) = length (bucket k (zip (map f xs) [0..<length xs]))"
    by (simp add: bucket_zip_upt)
  then show ?thesis by (simp add: length_bucket)
qed

lemma path_count_spec: "segment_ok s \<Longrightarrow> path_count s path = length (on_path path (segment_view s))"
proof (cases "map_of (ns_path_ids s) path")
  case None
  then show "segment_ok s \<Longrightarrow> ?thesis" by (simp add: path_count_def on_path_unknown)
next
  case (Some k)
  assume ok: "segment_ok s"
  from on_path_known [OF ok Some] ok Some show ?thesis
    by (auto simp: path_count_def length_filter_upt segment_ok_def parts_ok_def)
qed

lemma interned_path_spec: "segment_ok s \<Longrightarrow> interned_path s path = Some p \<Longrightarrow> p = path"
  by (auto simp: interned_path_def segment_ok_def parts_ok_def arena_def)

lemma mset_segment_order: "mset (segment_order s) = mset [0..<length (ns_entries s)]"
  by (simp add: segment_order_def)

lemma length_filter_mset: "mset xs = mset ys \<Longrightarrow> length (filter P xs) = length (filter P ys)"
  by (metis mset_filter size_mset)

lemma posting_project_count:
  assumes "segment_ok s" "map_of (ns_path_ids s) path = Some k" "slot < 2"
  shows "length (filter (\<lambda>i. has_project (ns_entries s) (ns_projects s) key i)
      (path_posting (at_slot (ns_path_postings_by_family s) slot) k)) =
    length (filter (in_project key slot) (on_path path (segment_view s)))"
proof -
  note known = on_path_known [OF assms(1,2)]
  let ?n = "[0..<length (ns_entries s)]"
  have "path_posting (at_slot (ns_path_postings_by_family s) slot) k =
      filter (\<lambda>i. cn_path_id (ns_entries s ! i) = k) (filter (\<lambda>i. entry_slot (ns_entries s ! i) = slot) (segment_order s))"
    using assms(1,3) known by (simp add: segment_ok_def)
  then have "length (filter (\<lambda>i. has_project (ns_entries s) (ns_projects s) key i)
      (path_posting (at_slot (ns_path_postings_by_family s) slot) k)) =
    length (filter (\<lambda>i. has_project (ns_entries s) (ns_projects s) key i)
      (filter (\<lambda>i. cn_path_id (ns_entries s ! i) = k) (filter (\<lambda>i. entry_slot (ns_entries s ! i) = slot) ?n)))"
    unfolding filter_filter by (simp add: length_filter_mset [OF mset_segment_order])
  also have "\<dots> = length (filter (in_project key slot) (on_path path (segment_view s)))"
    unfolding conjunct2 [OF conjunct2 [OF known]] filter_map length_map filter_filter
    by (intro arg_cong [where f = length] filter_cong)
      (auto simp: has_project_def in_project_def segment_entry_def Let_def entry_slot_def)
  finally show ?thesis .
qed

lemma count_project_get:
  "get_or (0, 0) (count_project s slot i m) key =
     set_slot slot (\<lambda>n. if has_project (ns_entries s) (ns_projects s) key i then Suc n else n) (get_or (0, 0) m key)"
  by (auto simp: count_project_def has_project_def Let_def set_slot_def)

lemma fold_project_counts:
  "get_or (0, 0) (fold (count_project s slot) is m) key =
     set_slot slot (\<lambda>n. n + length (filter (has_project (ns_entries s) (ns_projects s) key) is)) (get_or (0, 0) m key)"
proof (induction "is" arbitrary: m)
  case (Cons i "is")
  then show ?case by (simp add: count_project_get) (simp add: set_slot_def)
qed (simp add: set_slot_def)

lemma distinct_fold_counts:
  "distinct (map fst m) \<Longrightarrow> distinct (map fst (fold (count_project s slot) is m))"
  by (induction "is" arbitrary: m) (auto simp: count_project_def Let_def)

lemma project_counts_spec:
  assumes "segment_ok s"
  shows "get_or (0, 0) (project_family_counts_for_path s path) key = pcount key (on_path path (segment_view s))"
    and "distinct (map fst (project_family_counts_for_path s path))"
proof -
  show "get_or (0, 0) (project_family_counts_for_path s path) key = pcount key (on_path path (segment_view s))"
  proof (cases "map_of (ns_path_ids s) path")
    case None
    then show ?thesis by (simp add: project_family_counts_for_path_def on_path_unknown [OF assms] pcount_def)
  next
    case (Some k)
    from posting_project_count [OF assms Some, of _ key] show ?thesis
      by (simp add: project_family_counts_for_path_def Some fold_project_counts pcount_def set_slot_def)
  qed
  show "distinct (map fst (project_family_counts_for_path s path))"
    by (auto simp: project_family_counts_for_path_def distinct_fold_counts split: option.split)
qed

section \<open>Adjusting the project counts\<close>

definition pair_le :: "nat \<times> nat \<Rightarrow> nat \<times> nat \<Rightarrow> bool" where
  "pair_le a b \<longleftrightarrow> fst a \<le> fst b \<and> snd a \<le> snd b"

definition pair_sub :: "nat \<times> nat \<Rightarrow> nat \<times> nat \<Rightarrow> nat \<times> nat" where
  "pair_sub a b = (fst a - fst b, snd a - snd b)"

lemma pair_simps [simp]:
  "pair_add a (0, 0) = a" "pair_add (0, 0) a = a" "pair_sub a (0, 0) = a" "pair_le (0, 0) a"
  "pair_sub (pair_add a b) b = a" "pair_sub (pair_add b a) b = a" "pair_le b (pair_add a b)" "pair_le b (pair_add b a)"
  by (cases a; cases b; simp add: pair_add_def pair_sub_def pair_le_def)+

lemma adjust_counts_cases:
  "adjust_counts True c n = Some (pair_add n c)"
  "pair_le c n \<Longrightarrow> adjust_counts False c n = Some (pair_sub n c)"
  by (simp_all add: adjust_counts_def pair_add_def pair_sub_def pair_le_def)

lemma get_or_filter_nonzero:
  fixes m :: "('k, nat \<times> nat) hmap"
  shows "distinct (map fst m) \<Longrightarrow>
     get_or (0, 0) (filter (\<lambda>(_, counts). fst counts > 0 \<or> snd counts > 0) m) key = get_or (0, 0) m key"
proof (induction m)
  case (Cons kv m)
  obtain k a b where kv: "kv = (k, a, b)" by (cases kv)
  have "map_of (filter (\<lambda>(_, counts). 0 < fst counts \<or> 0 < snd counts) m) k = None"
    using Cons.prems kv by (auto simp: map_of_eq_None_iff)
  with Cons kv show ?case by (auto simp: get_or_def split: option.splits)
qed simp

lemma adjust_fold:
  fixes changes :: "(project_key, nat \<times> nat) hmap"
  assumes "distinct (map fst changes)"
    and "\<And>k. adjust_counts add (get_or (0, 0) changes k) (get_or (0, 0) m k) \<noteq> None"
  shows "\<exists>m'. ofold (\<lambda>(key, change) active. do {
         counts \<leftarrow> adjust_counts add change (get_or (0, 0) active key);
         Some (AList.update key counts active)
       }) changes m = Some m' \<and>
     (\<forall>k. adjust_counts add (get_or (0, 0) changes k) (get_or (0, 0) m k) = Some (get_or (0, 0) m' k)) \<and>
     (distinct (map fst m) \<longrightarrow> distinct (map fst m'))"
  using assms
proof (induction changes arbitrary: m)
  case Nil
  then show ?case by (simp add: adjust_counts_def)
next
  case (Cons kc changes)
  obtain k c where kc: "kc = (k, c)" by (cases kc)
  have fresh: "k \<notin> fst ` set changes" using Cons.prems(1) kc by simp
  then have none: "map_of changes k = None" by (simp add: map_of_eq_None_iff)
  have "adjust_counts add c (get_or (0, 0) m k) \<noteq> None"
    using Cons.prems(2) [of k] kc by (simp add: get_or_def)
  then obtain n where n: "adjust_counts add c (get_or (0, 0) m k) = Some n" by blast
  let ?m = "AList.update k n m"
  have same: "get_or (0, 0) changes j = get_or (0, 0) (kc # changes) j" if "j \<noteq> k" for j
    using that kc by (simp add: get_or_def)
  have zero: "get_or (0, 0) changes k = (0, 0)" using none by (simp add: get_or_def)
  have id: "adjust_counts add (0, 0) x = Some x" for x by (simp add: adjust_counts_def)
  have "adjust_counts add (get_or (0, 0) changes j) (get_or (0, 0) ?m j) \<noteq> None" for j
    using Cons.prems(2) [of j] same [of j] zero id by (cases "j = k") auto
  from Cons.IH [OF _ this] Cons.prems(1) obtain m' where m':
    "ofold (\<lambda>(key, change) active. do {
         counts \<leftarrow> adjust_counts add change (get_or (0, 0) active key);
         Some (AList.update key counts active)
       }) changes ?m = Some m'"
    "\<forall>k. adjust_counts add (get_or (0, 0) changes k) (get_or (0, 0) ?m k) = Some (get_or (0, 0) m' k)"
    "distinct (map fst ?m) \<longrightarrow> distinct (map fst m')"
    by auto
  have "adjust_counts add (get_or (0, 0) (kc # changes) j) (get_or (0, 0) m j) = Some (get_or (0, 0) m' j)" for j
    using m'(2) [THEN spec, of j] same [of j] zero id n kc by (cases "j = k") (auto simp: get_or_def)
  with m' n kc show ?case by (auto simp: distinct_update)
qed

lemma adjust_project_family_counts_ok:
  assumes "segment_ok s" "distinct (map fst m)"
    and "add \<or> (\<forall>k. pair_le (pcount k (on_path path (segment_view s))) (get_or (0, 0) m k))"
  shows "\<exists>m'. adjust_project_family_counts s path add m = Some m' \<and> distinct (map fst m') \<and>
    (\<forall>k. get_or (0, 0) m' k =
       (if add then pair_add (get_or (0, 0) m k) (pcount k (on_path path (segment_view s)))
        else pair_sub (get_or (0, 0) m k) (pcount k (on_path path (segment_view s)))))"
proof -
  let ?changes = "project_family_counts_for_path s path"
  note spec = project_counts_spec [OF assms(1), of path]
  have "adjust_counts add (get_or (0, 0) ?changes k) (get_or (0, 0) m k) \<noteq> None" for k
    using assms(3) adjust_counts_cases by (cases add) (simp_all add: spec)
  from adjust_fold [OF spec(2) this] obtain m' where m':
    "ofold (\<lambda>(key, change) active. do {
         counts \<leftarrow> adjust_counts add change (get_or (0, 0) active key);
         Some (AList.update key counts active)
       }) ?changes m = Some m'"
    "\<And>k. adjust_counts add (pcount k (on_path path (segment_view s))) (get_or (0, 0) m k) = Some (get_or (0, 0) m' k)"
    "distinct (map fst m')"
    using assms(2) spec(1) by auto
  let ?m = "filter (\<lambda>(_, counts). fst counts > 0 \<or> snd counts > 0) m'"
  have "adjust_project_family_counts s path add m = Some ?m"
    using m'(1) by (simp add: adjust_project_family_counts_def)
  moreover have "distinct (map fst ?m)" using m'(3) by (simp add: distinct_map_filter)
  moreover have "get_or (0, 0) ?m k = (if add then pair_add (get_or (0, 0) m k) (pcount k (on_path path (segment_view s)))
        else pair_sub (get_or (0, 0) m k) (pcount k (on_path path (segment_view s))))" for k
    using m'(2) [of k] assms(3) adjust_counts_cases get_or_filter_nonzero [OF m'(3)] by (cases add) auto
  ultimately show ?thesis by blast
qed

section \<open>The invariant of a table\<close>

definition view_ok :: "name_segment \<Rightarrow> bool" where
  "view_ok s \<longleftrightarrow> segment_ok s \<and> set (ns_paths s) = ne_path ` set (segment_view s) \<and> (\<forall>e \<in> set (segment_view s). entry_ok e \<and> norm_entry e = e)"

definition table_ok :: "name_table \<Rightarrow> bool" where
  "table_ok t \<longleftrightarrow>
     view_ok (nt_base t) \<and> (\<forall>s \<in> set (nt_deltas t). view_ok s) \<and> layout_ok t \<and>
     distinct (map fst (nt_path_overrides t)) \<and>
     (\<forall>p d. map_of (nt_path_overrides t) p = Some (Some d) \<longrightarrow>
        d < length (nt_deltas t) \<and> on_path p (segment_view (nt_deltas t ! d)) \<noteq> []) \<and>
     nt_active_len t = length (active_entries t) \<and>
     distinct (map fst (nt_active_project_family_counts t)) \<and>
     (\<forall>k. get_or (0, 0) (nt_active_project_family_counts t) k = pcount k (active_entries t)) \<and>
     set (nt_active_base_paths t) = {p \<in> set (ns_paths (nt_base t)). map_of (nt_path_overrides t) p = None} \<and>
     length (nt_active_delta_paths t) = length (nt_deltas t) \<and>
     (\<forall>d < length (nt_deltas t).
        set (nt_active_delta_paths t ! d) = {p. map_of (nt_path_overrides t) p = Some (Some d)})"

lemma on_path_active:
  assumes "table_ok t"
  shows "on_path p (active_entries t) =
    (case old_segment t p of None \<Rightarrow> [] | Some s \<Rightarrow> on_path p (segment_view s))"
proof -
  let ?A = "\<lambda>r. row_active (nt_path_overrides t) r \<and> ne_path (snd r) = p"
  let ?f = "\<lambda>d. map (Pair (Some d)) (segment_view (nt_deltas t ! d))"
  have split: "on_path p (active_entries t) =
      map snd (filter ?A (map (Pair None) (segment_view (nt_base t)))) @
      concat (map (\<lambda>d. map snd (filter ?A (?f d))) [0..<length (nt_deltas t)])"
    by (simp add: on_path_def active_entries_def table_rows_def filter_map comp_def filter_concat map_concat conj_commute)
  let ?c = "\<lambda>k. case map_of (nt_path_overrides t) p of None \<Rightarrow> k = None | Some (Some d) \<Rightarrow> k = Some d | Some None \<Rightarrow> False"
  have "?A (k, e) = (?c k \<and> ne_path e = p)" for k e
    by (auto simp: row_active_def cong: option.case_cong)
  then have part: "map snd (filter ?A (map (Pair k) es)) = (if ?c k then on_path p es else [])" for k es
    by (simp add: filter_map comp_def on_path_def)
  show ?thesis
  proof (cases "map_of (nt_path_overrides t) p")
    case None
    then show ?thesis unfolding split part by (simp add: old_segment_def)
  next
    case (Some o')
    show ?thesis
    proof (cases o')
      case None
      with Some show ?thesis unfolding split part by (simp add: old_segment_def)
    next
      fix d assume o': "o' = Some d"
      then have d: "d < length (nt_deltas t)" using Some assms by (auto simp: table_ok_def)
      let ?g = "\<lambda>j. if j = d then on_path p (segment_view (nt_deltas t ! j)) else []"
      have "concat (map ?g [0..<length (nt_deltas t)]) = ?g d"
        using d by (intro concat_single) auto
      with Some o' show ?thesis unfolding split part by (simp add: old_segment_def eq_commute [of _ d])
    qed
  qed
qed

section \<open>Replacing the declarations of some paths\<close>

definition replaced :: "name_entry list \<Rightarrow> name_entry list \<Rightarrow> string set \<Rightarrow> name_entry list" where
  "replaced old new paths = filter (\<lambda>e. ne_path e \<notin> paths) old @ filter (\<lambda>e. ne_path e \<in> paths) new"

lemma pcount_mset: "mset xs = mset ys \<Longrightarrow> pcount k xs = pcount k ys"
  unfolding pcount_def by (metis length_filter_mset)

lemma replaced_insert:
  assumes "p \<notin> S"
  obtains rest where
    "\<And>k. pcount k (replaced A F S) = pair_add (pcount k rest) (pcount k (on_path p A))"
    "\<And>k. pcount k (replaced A F (insert p S)) = pair_add (pcount k rest) (pcount k (on_path p F))"
    "length (replaced A F S) = length rest + length (on_path p A)"
    "length (replaced A F (insert p S)) = length rest + length (on_path p F)"
proof
  let ?rest = "filter (\<lambda>e. ne_path e \<notin> insert p S) A @ filter (\<lambda>e. ne_path e \<in> S) F"
  have A: "mset (filter (\<lambda>e. ne_path e \<notin> S) A) = mset (filter (\<lambda>e. ne_path e \<notin> insert p S) A) + mset (on_path p A)"
    using assms by (induction A) (auto simp: on_path_def)
  have F: "mset (filter (\<lambda>e. ne_path e \<in> insert p S) F) = mset (filter (\<lambda>e. ne_path e \<in> S) F) + mset (on_path p F)"
    using assms by (induction F) (auto simp: on_path_def)
  have 1: "mset (replaced A F S) = mset (?rest @ on_path p A)" using A by (simp add: replaced_def)
  have 2: "mset (replaced A F (insert p S)) = mset (?rest @ on_path p F)" using F by (simp add: replaced_def)
  show "pcount k (replaced A F S) = pair_add (pcount k ?rest) (pcount k (on_path p A))" for k
    using pcount_mset [OF 1] pcount_append by metis
  show "pcount k (replaced A F (insert p S)) = pair_add (pcount k ?rest) (pcount k (on_path p F))" for k
    using pcount_mset [OF 2] pcount_append by metis
  show "length (replaced A F S) = length ?rest + length (on_path p A)"
    using mset_eq_length [OF 1] by simp
  show "length (replaced A F (insert p S)) = length ?rest + length (on_path p F)"
    using mset_eq_length [OF 2] by simp
qed

definition update_ok :: "name_table \<Rightarrow> name_segment \<Rightarrow> string set \<Rightarrow> update_state \<Rightarrow> bool" where
  "update_ok t fresh S st \<longleftrightarrow>
     (case st of (counts, len, ov) \<Rightarrow>
        distinct (map fst counts) \<and> distinct (map fst ov) \<and>
        (\<forall>k. get_or (0, 0) counts k = pcount k (replaced (active_entries t) (segment_view fresh) S)) \<and>
        len = length (replaced (active_entries t) (segment_view fresh) S) \<and>
        (\<forall>p. map_of ov p =
           (if p \<in> S then Some (if on_path p (segment_view fresh) \<noteq> [] then Some (length (nt_deltas t)) else None)
            else map_of (nt_path_overrides t) p)))"

lemma update_path_ok:
  assumes "table_ok t" "segment_ok fresh" "p \<notin> S" "update_ok t fresh S st"
  shows "\<exists>st'. update_path t fresh p st = Some st' \<and> update_ok t fresh (insert p S) st'"
proof -
  obtain counts len ov where st: "st = (counts, len, ov)" by (cases st)
  let ?A = "active_entries t" and ?F = "segment_view fresh"
  obtain rest where rest:
    "\<And>k. pcount k (replaced ?A ?F S) = pair_add (pcount k rest) (pcount k (on_path p ?A))"
    "\<And>k. pcount k (replaced ?A ?F (insert p S)) = pair_add (pcount k rest) (pcount k (on_path p ?F))"
    "length (replaced ?A ?F S) = length rest + length (on_path p ?A)"
    "length (replaced ?A ?F (insert p S)) = length rest + length (on_path p ?F)"
    using replaced_insert [OF assms(3)] by metis
  have inv: "distinct (map fst counts)" "distinct (map fst ov)"
      "\<And>k. get_or (0, 0) counts k = pcount k (replaced ?A ?F S)"
      "len = length (replaced ?A ?F S)"
    using assms(4) by (auto simp: update_ok_def st)
  have old: "old_segment t p = Some s \<Longrightarrow> segment_ok s \<and> on_path p (segment_view s) = on_path p ?A" for s
  proof -
    assume s: "old_segment t p = Some s"
    then have "s = nt_base t \<or> s \<in> set (nt_deltas t)"
      using assms(1) by (auto simp: old_segment_def table_ok_def split: option.splits)
    with assms(1) have "segment_ok s" by (auto simp: table_ok_def view_ok_def)
    with on_path_active [OF assms(1), of p] s show ?thesis by simp
  qed
  have none: "old_segment t p = None \<Longrightarrow> on_path p ?A = []" using on_path_active [OF assms(1), of p] by simp
  obtain counts1 where c1:
    "(case old_segment t p of Some old \<Rightarrow> adjust_project_family_counts old p False counts | None \<Rightarrow> Some counts) = Some counts1"
    "distinct (map fst counts1)" "\<And>k. get_or (0, 0) counts1 k = pcount k rest"
  proof (cases "old_segment t p")
    case None
    have "pcount k [] = (0, 0)" for k by (simp add: pcount_def)
    with None none rest(1) inv that show ?thesis by simp
  next
    case (Some s)
    note s = old [OF Some]
    then have "\<forall>k. pair_le (pcount k (on_path p (segment_view s))) (get_or (0, 0) counts k)"
      by (simp add: inv(3) rest(1))
    with adjust_project_family_counts_ok [of s counts False p] s inv(1) obtain m' where
      "adjust_project_family_counts s p False counts = Some m'" "distinct (map fst m')"
      "\<forall>k. get_or (0, 0) m' k = pair_sub (get_or (0, 0) counts k) (pcount k (on_path p (segment_view s)))"
      by auto
    with Some s that inv(3) rest(1) show ?thesis by simp
  qed
  obtain counts2 where c2: "adjust_project_family_counts fresh p True counts1 = Some counts2"
      "distinct (map fst counts2)" "\<And>k. get_or (0, 0) counts2 k = pcount k (replaced ?A ?F (insert p S))"
    using adjust_project_family_counts_ok [OF assms(2) c1(2), of True p] c1(3) rest(2) by auto
  have oldc: "(case old_segment t p of Some old \<Rightarrow> path_count old p | None \<Rightarrow> 0) = length (on_path p ?A)"
    using old none path_count_spec by (auto split: option.split)
  have freshc: "path_count fresh p = length (on_path p ?F)" by (rule path_count_spec [OF assms(2)])
  have key: "(case interned_path fresh p of Some q \<Rightarrow> q | None \<Rightarrow> p) = p"
    using interned_path_spec [OF assms(2)] by (auto split: option.split)
  let ?st = "(counts2, length rest + length (on_path p ?F),
     AList.update p (if on_path p ?F \<noteq> [] then Some (length (nt_deltas t)) else None) ov)"
  have "update_path t fresh p st = Some ?st"
    using c1(1) c2(1) unfolding update_path_def st oldc freshc key
    by (simp add: inv(4) rest(3))
  moreover have "update_ok t fresh (insert p S) ?st"
    using c2 rest(4) inv(2) assms(4) by (auto simp: update_ok_def st distinct_update)
  ultimately show ?thesis by blast
qed

lemma update_paths_ok:
  assumes "table_ok t" "segment_ok fresh" "distinct paths"
  shows "\<exists>st. ofold (update_path t fresh) paths
      (nt_active_project_family_counts t, nt_active_len t, nt_path_overrides t) = Some st \<and>
    update_ok t fresh (set paths) st"
proof -
  have "update_ok t fresh (set []) (nt_active_project_family_counts t, nt_active_len t, nt_path_overrides t)"
    using assms(1) by (auto simp: update_ok_def table_ok_def replaced_def)
  then show ?thesis
    using ofold_total [where I = "\<lambda>pre st. update_ok t fresh (set pre) st" and xs = paths and f = "update_path t fresh"]
      update_path_ok [OF assms(1,2)] assms(3)
    by (metis (no_types, lifting) distinct_append distinct.simps(2) list.set(2) disjoint_iff_not_equal
        list.set_intros(1) set_append Un_insert_right append_Nil2 empty_set sup_bot.right_neutral)
qed

lemma set_map_filter_eq: "set (List.map_filter f xs) = {y. \<exists>x \<in> set xs. f x = Some y}"
  by (induction xs) (auto simp: List.map_filter_simps split: option.splits)

lemma set_retained:
  "\<forall>d \<in> set ds. d < length xs \<Longrightarrow>
     length (fold (\<lambda>d active. active[d := filter P (active ! d)]) ds xs) = length xs \<and>
     (\<forall>j < length xs. set (fold (\<lambda>d active. active[d := filter P (active ! d)]) ds xs ! j) =
        (if j \<in> set ds then Set.filter P (set (xs ! j)) else set (xs ! j)))"
proof (induction ds arbitrary: xs)
  case (Cons d ds)
  let ?xs = "xs[d := filter P (xs ! d)]"
  have "length (fold (\<lambda>d active. active[d := filter P (active ! d)]) ds ?xs) = length ?xs \<and>
     (\<forall>j < length ?xs. set (fold (\<lambda>d active. active[d := filter P (active ! d)]) ds ?xs ! j) =
        (if j \<in> set ds then Set.filter P (set (?xs ! j)) else set (?xs ! j)))"
    using Cons.prems by (intro Cons.IH) auto
  moreover have "?xs ! j = (if j = d then filter P (xs ! d) else xs ! j)" if "j < length xs" for j
    using that by simp
  ultimately show ?case by (auto split: if_splits)
qed simp

lemma segment_paths_view:
  assumes "segment_ok s" "paths_used (ns_entries s) (ns_paths s)"
  shows "set (ns_paths s) = ne_path ` set (segment_view s)"
proof -
  have ids: "\<And>e. e \<in> set (ns_entries s) \<Longrightarrow> cn_path_id e < length (ns_paths s)"
    using assms(1) by (auto simp: segment_ok_def parts_ok_def compact_ok_def)
  have "ne_path ` set (segment_view s) = (!) (ns_paths s) ` cn_path_id ` set (ns_entries s)"
    by (auto simp: segment_view_decode decode_entry_def image_image)
  also have "cn_path_id ` set (ns_entries s) = {..<length (ns_paths s)}"
    using assms(2) ids by (auto simp: paths_used_def)
  also have "(!) (ns_paths s) ` {..<length (ns_paths s)} = set (ns_paths s)"
    by (simp add: nth_image [of "length (ns_paths s)" "ns_paths s", simplified] lessThan_atLeast0)
  finally show ?thesis by simp
qed

lemma segment_from_entries_view:
  assumes "segment_from_entries es = Some s" "\<forall>e \<in> set es. entry_ok e"
  shows "view_ok s"
  using segment_from_entries_ok [OF assms] segment_paths_view assms(2)
  by (auto simp: view_ok_def norm_entry_def entry_ok_def)

lemma with_updated_entries_ok:
  assumes "table_ok t" "distinct paths" "\<forall>e \<in> set es. entry_ok e" "segment_from_entries es = Some fresh"
  shows "\<exists>t'. with_updated_entries t paths es = Some t' \<and> table_ok t' \<and>
    active_entries t' = replaced (active_entries t) (map norm_entry es) (set paths) \<and>
    nt_direct_include_overrides t' = nt_direct_include_overrides t"
proof -
  have fresh: "segment_ok fresh" "segment_view fresh = map norm_entry es"
    using segment_from_entries_ok [OF assms(4,3)] by auto
  have vf: "view_ok fresh" by (rule segment_from_entries_view [OF assms(4,3)])
  obtain counts len ov where upd: "ofold (update_path t fresh) paths
      (nt_active_project_family_counts t, nt_active_len t, nt_path_overrides t) = Some (counts, len, ov)"
    and ok: "update_ok t fresh (set paths) (counts, len, ov)"
    using update_paths_ok [OF assms(1) fresh(1) assms(2)] by (metis prod_cases3)
  obtain t' where t': "with_updated_entries t paths es = Some t'" using upd by (simp add: with_updated_entries_def assms(4))
  then have f: "nt_base t' = nt_base t" "nt_deltas t' = nt_deltas t @ [fresh]" "nt_path_overrides t' = ov"
    "nt_active_base_paths t' = filter (\<lambda>p. p \<notin> set paths) (nt_active_base_paths t)"
    "nt_active_delta_paths t' = fold (\<lambda>d active. active[d := filter (\<lambda>p. p \<notin> set paths) (active ! d)])
           (touched_deltas t paths) (nt_active_delta_paths t) @ [sort_by cmp_of (filter (\<lambda>p. path_count fresh p > 0) paths)]"
    "nt_active_project_family_counts t' = counts" "nt_delta_offsets t' = nt_delta_offsets t @ [nt_slot_len t]"
    "nt_active_len t' = len" "nt_slot_len t' = nt_slot_len t + length (ns_entries fresh)"
    "nt_direct_include_overrides t' = nt_direct_include_overrides t"
    using upd by (auto simp: with_updated_entries_def assms(4))
  let ?n = "length (nt_deltas t)" and ?A = "active_entries t" and ?F = "segment_view fresh" and ?P = "set paths"
  have ovp: "\<And>p. map_of ov p = (if p \<in> ?P then Some (if on_path p ?F \<noteq> [] then Some ?n else None)
      else map_of (nt_path_overrides t) p)"
    using ok by (auto simp: update_ok_def)
  have low: "\<And>p d. map_of (nt_path_overrides t) p = Some (Some d) \<Longrightarrow> d < ?n" using assms(1) by (simp add: table_ok_def)
  have rows: "table_rows t' = table_rows t @ map (Pair (Some ?n)) ?F"
    unfolding table_rows_def f(1,2) by (auto simp: nth_append intro!: arg_cong [where f = concat])
  have lowrow: "fst r \<noteq> Some ?n" if "r \<in> set (table_rows t)" for r using that by (auto simp: table_rows_def)
  have oldact: "row_active ov r = (row_active (nt_path_overrides t) r \<and> ne_path (snd r) \<notin> ?P)" if "r \<in> set (table_rows t)" for r
    using lowrow [OF that] by (auto simp: row_active_def ovp)
  have newact: "row_active ov (Some ?n, e) = (ne_path e \<in> ?P)" if "e \<in> set ?F" for e
  proof -
    have "on_path (ne_path e) ?F \<noteq> []" using that by (auto simp: on_path_def filter_empty_conv)
    then show ?thesis using low [of "ne_path e"]
      by (cases "ne_path e \<in> ?P") (auto simp: row_active_def ovp split: option.splits)
  qed
  have act: "active_entries t' = replaced ?A ?F ?P"
  proof -
    have "filter (row_active ov) (table_rows t) =
        filter (\<lambda>r. ne_path (snd r) \<notin> ?P) (filter (row_active (nt_path_overrides t)) (table_rows t))"
      using oldact by (auto simp: filter_filter intro: filter_cong)
    moreover have "map snd (filter (row_active ov) (map (Pair (Some ?n)) ?F)) = filter (\<lambda>e. ne_path e \<in> ?P) ?F"
      using newact by (auto simp: filter_map comp_def intro: filter_cong)
    ultimately show ?thesis by (simp add: active_entries_def rows f(3) replaced_def filter_map comp_def)
  qed
  have lay: "layout_ok t'" using assms(1) by (simp add: layout_ok_def f table_ok_def delta_sizes_def)
  have touched: "set (touched_deltas t paths) = {d. \<exists>p \<in> ?P. map_of (nt_path_overrides t) p = Some (Some d)}"
  proof -
    have "(case o' of Some (Some d) \<Rightarrow> Some d | _ \<Rightarrow> None) = Some d \<longleftrightarrow> o' = Some (Some d)" for o' :: "nat option option" and d
      by (auto split: option.splits)
    then show ?thesis by (simp add: touched_deltas_def set_map_filter_eq)
  qed
  have "length (nt_active_delta_paths t) = ?n" using assms(1) by (simp add: table_ok_def)
  then have ret: "length (nt_active_delta_paths t') = Suc ?n"
    "\<And>d. d < ?n \<Longrightarrow> set (nt_active_delta_paths t' ! d) = {p. map_of ov p = Some (Some d)}"
  proof -
    assume len: "length (nt_active_delta_paths t) = ?n"
    have td: "\<forall>d \<in> set (touched_deltas t paths). d < length (nt_active_delta_paths t)" using low touched len by auto
    note r = set_retained [OF td, of "\<lambda>p. p \<notin> ?P"]
    show "length (nt_active_delta_paths t') = Suc ?n" using r len by (simp add: f)
    fix d assume d: "d < ?n"
    have "set (nt_active_delta_paths t ! d) = {p. map_of (nt_path_overrides t) p = Some (Some d)}"
      using assms(1) d by (simp add: table_ok_def)
    moreover have "d \<notin> set (touched_deltas t paths) \<Longrightarrow> p \<in> ?P \<Longrightarrow> map_of (nt_path_overrides t) p \<noteq> Some (Some d)" for p
      using touched by auto
    ultimately show "set (nt_active_delta_paths t' ! d) = {p. map_of ov p = Some (Some d)}"
      using r len d by (auto simp: f nth_append ovp split: if_splits)
  qed
  have last: "set (nt_active_delta_paths t' ! ?n) = {p. map_of ov p = Some (Some ?n)}"
  proof -
    have "nt_active_delta_paths t' ! ?n = sort_by cmp_of (filter (\<lambda>p. path_count fresh p > 0) paths)"
      using ret(1) by (simp add: f nth_append)
    moreover have "map_of ov p = Some (Some ?n) \<longleftrightarrow> p \<in> ?P \<and> on_path p ?F \<noteq> []" for p
      using low [of p ?n] by (auto simp: ovp)
    ultimately show ?thesis by (auto simp: path_count_spec [OF fresh(1)])
  qed
  have "table_ok t'"
    unfolding table_ok_def
  proof (intro conjI)
    show "\<forall>d < length (nt_deltas t'). set (nt_active_delta_paths t' ! d) = {p. map_of (nt_path_overrides t') p = Some (Some d)}"
      using ret(2) last by (auto simp: f less_Suc_eq)
    show "set (nt_active_base_paths t') = {p \<in> set (ns_paths (nt_base t')). map_of (nt_path_overrides t') p = None}"
      using assms(1) by (auto simp: f table_ok_def ovp)
    show "\<forall>p d. map_of (nt_path_overrides t') p = Some (Some d) \<longrightarrow>
        d < length (nt_deltas t') \<and> on_path p (segment_view (nt_deltas t' ! d)) \<noteq> []"
    proof (intro allI impI)
      fix p d assume pd: "map_of (nt_path_overrides t') p = Some (Some d)"
      show "d < length (nt_deltas t') \<and> on_path p (segment_view (nt_deltas t' ! d)) \<noteq> []"
      proof (cases "p \<in> ?P")
        case True
        with pd show ?thesis by (auto simp: f ovp split: if_splits)
      next
        case False
        with pd have "map_of (nt_path_overrides t) p = Some (Some d)" by (simp add: f ovp)
        with assms(1) have "d < ?n" "on_path p (segment_view (nt_deltas t ! d)) \<noteq> []" by (auto simp: table_ok_def)
        then show ?thesis by (simp add: f nth_append)
      qed
    qed
    show "nt_active_len t' = length (active_entries t')" "distinct (map fst (nt_path_overrides t'))"
      "distinct (map fst (nt_active_project_family_counts t'))"
      "\<forall>k. get_or (0, 0) (nt_active_project_family_counts t') k = pcount k (active_entries t')"
      using ok act by (auto simp: update_ok_def f)
    show "length (nt_active_delta_paths t') = length (nt_deltas t')" using ret(1) by (simp add: f)
    show "layout_ok t'" by (rule lay)
    show "view_ok (nt_base t')" "\<forall>s \<in> set (nt_deltas t'). view_ok s" using assms(1) vf by (auto simp: f table_ok_def)
  qed
  with t' act fresh(2) f(10) show ?thesis by simp
qed

end
