(* ===== verification/Name_History.thy ===== *)
theory Name_History
  imports Name_Updates
begin

text \<open>
  Whole histories of a name table: cold builds, updates, compactions, changes of the project
  context and of the direct-include evidence. Every table of such a history satisfies its
  invariant, and its active declarations are those that a replay of the history on plain lists
  gives, so no history can leave a stale or a missing declaration behind.
\<close>

section \<open>A table made of one segment\<close>

lemma table_from_entries_segment:
  "table_from_entries es = map_option from_base_segment (segment_from_entries es)"
  by (cases "ofold push_entry es (builder_new None)")
    (simp_all add: table_from_entries_def segment_from_entries_def builder_finish_def)

lemma project_rows_count:
  assumes "segment_ok s" "slot < 2"
  shows "length (project_rows (ns_by_project s) key slot) = length (filter (in_project key slot) (segment_view s))"
proof -
  have "length (project_rows (ns_by_project s) key slot) =
      length (filter (has_project (ns_entries s) (ns_projects s) key)
        (filter (\<lambda>i. entry_slot (ns_entries s ! i) = slot) (segment_order s)))"
    using assms by (simp add: segment_ok_def)
  also have "\<dots> = length (filter (has_project (ns_entries s) (ns_projects s) key)
        (filter (\<lambda>i. entry_slot (ns_entries s ! i) = slot) [0..<length (ns_entries s)]))"
    unfolding filter_filter by (rule length_filter_mset [OF mset_segment_order])
  also have "\<dots> = length (filter (in_project key slot) (segment_view s))"
    unfolding segment_view_def filter_map length_map filter_filter
    by (intro arg_cong [where f = length] filter_cong)
      (auto simp: has_project_def in_project_def segment_entry_def Let_def entry_slot_def)
  finally show ?thesis .
qed

lemma from_base_segment_ok:
  assumes "view_ok s"
  shows "table_ok (from_base_segment s) \<and> active_entries (from_base_segment s) = segment_view s"
proof -
  have so: "segment_ok s" using assms by (simp add: view_ok_def)
  have act: "active_entries (from_base_segment s) = segment_view s"
    by (simp add: active_entries_def table_rows_def from_base_segment_def row_active_def filter_map comp_def)
  have "get_or (0, 0) (nt_active_project_family_counts (from_base_segment s)) k = pcount k (segment_view s)" for k
  proof -
    have "get_or (0, 0) (nt_active_project_family_counts (from_base_segment s)) k =
        (length (project_rows (ns_by_project s) k 0), length (project_rows (ns_by_project s) k 1))"
      by (simp add: from_base_segment_def get_or_def project_rows_def at_slot_def split: option.split)
    then show ?thesis by (simp add: project_rows_count [OF so] pcount_def)
  qed
  moreover have "distinct (map fst (ns_by_project s))" using so by (simp add: segment_ok_def)
  ultimately show ?thesis
    using assms act unfolding table_ok_def
    by (simp add: from_base_segment_def layout_ok_def delta_sizes_def)
qed

lemma table_from_entries_ok:
  assumes "table_from_entries es = Some t" "\<forall>e \<in> set es. entry_ok e"
  shows "table_ok t \<and> active_entries t = map norm_entry es \<and> nt_direct_include_overrides t = []"
proof -
  obtain s where s: "segment_from_entries es = Some s" "t = from_base_segment s"
    using assms(1) by (auto simp: table_from_entries_segment)
  with segment_from_entries_view [OF s(1) assms(2)] segment_from_entries_ok [OF s(1) assms(2)]
  show ?thesis using from_base_segment_ok by (simp add: from_base_segment_def)
qed

lemma table_ok_overrides [simp]:
  "table_ok (t\<lparr> nt_direct_include_overrides := m \<rparr>) = table_ok t"
  "active_entries (t\<lparr> nt_direct_include_overrides := m \<rparr>) = active_entries t"
  by (simp_all add: table_ok_def active_entries_def table_rows_def layout_ok_def delta_sizes_def)

section \<open>Compaction\<close>

lemma rows_view: "table_ok t \<Longrightarrow> r \<in> set (table_rows t) \<Longrightarrow> entry_ok (snd r) \<and> norm_entry (snd r) = snd r"
proof -
  assume ok: "table_ok t" and r: "r \<in> set (table_rows t)"
  have view: "view_ok s" if "s = nt_base t \<or> s \<in> set (nt_deltas t)" for s
    using that ok by (auto simp: table_ok_def)
  from r have "snd r \<in> set (segment_view (nt_base t)) \<or>
      (\<exists>d < length (nt_deltas t). snd r \<in> set (segment_view (nt_deltas t ! d)))"
    by (auto simp: table_rows_def)
  then obtain s where "s = nt_base t \<or> s \<in> set (nt_deltas t)" "snd r \<in> set (segment_view s)"
    using nth_mem by blast
  with view show ?thesis unfolding view_ok_def by blast
qed

lemma active_view:
  assumes "table_ok t"
  shows "\<forall>e \<in> set (active_entries t). entry_ok e" "map norm_entry (active_entries t) = active_entries t"
  using rows_view [OF assms] by (auto simp: active_entries_def intro!: map_idI)

lemma compacted_entries:
  assumes "table_ok t"
  shows "compacted t =
    map_option (\<lambda>r. r\<lparr> nt_direct_include_overrides := nt_direct_include_overrides t \<rparr>) (table_from_entries (active_entries t))"
proof -
  have "ofold (\<lambda>i. push_entry (table_entry t i)) (active_indices t) b = ofold push_entry (active_entries t) b" for b
    using active_entries_indices [of t] assms by (simp add: ofold_map comp_def table_ok_def)
  then show ?thesis
    by (cases "ofold push_entry (active_entries t) (builder_new None)")
      (simp_all add: compacted_def table_from_entries_def map_conv_bind_option comp_def)
qed

lemma compacted_ok:
  assumes "table_ok t" "compacted t = Some t'"
  shows "table_ok t' \<and> active_entries t' = active_entries t \<and>
    nt_direct_include_overrides t' = nt_direct_include_overrides t"
proof -
  obtain r where r: "table_from_entries (active_entries t) = Some r"
      "t' = r\<lparr> nt_direct_include_overrides := nt_direct_include_overrides t \<rparr>"
    using assms by (auto simp: compacted_entries)
  from table_from_entries_ok [OF r(1) active_view(1) [OF assms(1)]] r(2) active_view(2) [OF assms(1)]
  show ?thesis by simp
qed

text \<open>The entries that a compaction of the deltas keeps.\<close>

definition delta_entries :: "name_table \<Rightarrow> name_entry list" where
  "delta_entries t = map snd (filter (row_active (nt_path_overrides t))
     (concat (map (\<lambda>d. map (Pair (Some d)) (segment_view (nt_deltas t ! d))) [0..<length (nt_deltas t)])))"

definition base_entries :: "name_table \<Rightarrow> name_entry list" where
  "base_entries t = filter (\<lambda>e. map_of (nt_path_overrides t) (ne_path e) = None) (segment_view (nt_base t))"

lemma active_split: "active_entries t = base_entries t @ delta_entries t"
proof -
  have "row_active ov (None, e) = (map_of ov (ne_path e) = None)" for ov e
    by (auto simp: row_active_def split: option.splits)
  then show ?thesis
    by (simp add: active_entries_def table_rows_def delta_entries_def base_entries_def filter_map comp_def)
qed

lemma delta_indices:
  assumes "layout_ok t"
  shows "map (table_entry t) (filter (is_active_index t) [length (ns_entries (nt_base t))..<nt_slot_len t]) = delta_entries t"
proof -
  let ?b = "length (ns_entries (nt_base t))"
  let ?rows = "concat (map (\<lambda>d. map (Pair (Some d)) (segment_view (nt_deltas t ! d))) [0..<length (nt_deltas t)])"
  have rows: "table_rows t = map (Pair None) (segment_view (nt_base t)) @ ?rows" by (simp add: table_rows_def)
  have "?rows = drop ?b (table_rows t)" by (simp add: rows)
  also have "\<dots> = map ((!) (table_rows t)) [?b..<nt_slot_len t]"
    using length_table_rows [OF assms] by (metis drop_map drop_upt add_0 map_nth)
  finally have "delta_entries t =
      map snd (filter (row_active (nt_path_overrides t)) (map ((!) (table_rows t)) [?b..<nt_slot_len t]))"
    by (simp add: delta_entries_def)
  also have "\<dots> = map (snd \<circ> (!) (table_rows t)) (filter (row_active (nt_path_overrides t) \<circ> (!) (table_rows t)) [?b..<nt_slot_len t])"
    by (simp add: filter_map)
  also have "\<dots> = map (table_entry t) (filter (is_active_index t) [?b..<nt_slot_len t])"
    using is_active_row [OF assms] table_rows_nth [OF assms] by (auto intro!: map_cong filter_cong)
  finally show ?thesis by simp
qed

lemma push_delta_indices:
  assumes "layout_ok t"
  shows "ofold (\<lambda>i. push_entry (table_entry t i))
      (filter (is_active_index t) [length (ns_entries (nt_base t))..<nt_slot_len t]) b =
    ofold push_entry (delta_entries t) b"
  unfolding delta_indices [OF assms, symmetric] ofold_map comp_def ..

lemma map_of_map_filter_values:
  "distinct (map fst m) \<Longrightarrow>
     map_of (List.map_filter (\<lambda>(k, v). if P k v then Some (k, f v) else None) m) k =
       (case map_of m k of None \<Rightarrow> None | Some v \<Rightarrow> if P k v then Some (f v) else None)"
proof (induction m)
  case (Cons kv m)
  obtain j v where kv: "kv = (j, v)" by (cases kv)
  have "map_of m j = None" using Cons.prems kv by (simp add: map_of_eq_None_iff)
  with Cons kv show ?case by (auto simp: List.map_filter_simps)
qed (simp add: List.map_filter_simps)

lemma distinct_map_filter_values:
  "distinct (map fst m) \<Longrightarrow>
     distinct (map fst (List.map_filter (\<lambda>(k, v). if P k v then Some (k, f v) else None) m))"
proof (induction m)
  case (Cons kv m)
  obtain j v where kv: "kv = (j, v)" by (cases kv)
  have "j \<notin> fst ` set (List.map_filter (\<lambda>(k, v). if P k v then Some (k, f v) else None) m)"
    using Cons.prems kv by (force simp: set_map_filter_eq split: if_splits)
  with Cons kv show ?case by (simp add: List.map_filter_simps)
qed (simp add: List.map_filter_simps)

lemma compact_deltas_ok:
  assumes ok: "table_ok t" and t': "compact_deltas t = Some t'"
  shows "table_ok t' \<and> active_entries t' = active_entries t \<and>
    nt_direct_include_overrides t' = nt_direct_include_overrides t"
proof -
  let ?D = "delta_entries t"
  have lay: "layout_ok t" using ok by (simp add: table_ok_def)
  obtain merged where merged: "table_from_entries ?D = Some merged" and
    f: "nt_base t' = nt_base t" "nt_deltas t' = [nt_base merged]"
      "nt_path_overrides t' = List.map_filter (\<lambda>(path, target).
           if target \<noteq> None \<or> map_of (ns_path_ids (nt_base t)) path \<noteq> None
           then Some (path, map_option (\<lambda>_. 0) target) else None) (nt_path_overrides t)"
      "nt_active_base_paths t' = nt_active_base_paths t"
      "nt_active_delta_paths t' = [nt_active_base_paths merged]"
      "nt_active_project_family_counts t' = nt_active_project_family_counts t"
      "nt_delta_offsets t' = [length (ns_entries (nt_base t))]" "nt_active_len t' = nt_active_len t"
      "nt_slot_len t' = length (ns_entries (nt_base t)) + length (ns_entries (nt_base merged))"
      "nt_direct_include_overrides t' = nt_direct_include_overrides t"
    using t' by (auto simp: compact_deltas_def push_delta_indices [OF lay] table_from_entries_def Let_def
        split: Option.bind_splits)
  have sub: "\<forall>e \<in> set ?D. entry_ok e" "map norm_entry ?D = ?D"
    using active_view [OF ok] by (auto simp: active_split)
  obtain s where s: "segment_from_entries ?D = Some s" "merged = from_base_segment s"
    using merged by (auto simp: table_from_entries_segment)
  have seg: "view_ok s" "segment_view s = ?D"
    using segment_from_entries_view [OF s(1) sub(1)] segment_from_entries_ok [OF s(1) sub(1)] sub(2) by auto
  have b: "nt_base merged = s" "set (nt_active_base_paths merged) = set (ns_paths s)"
    by (simp_all add: s(2) from_base_segment_def)
  have base_none: "map_of (ns_path_ids (nt_base t)) p = None \<longleftrightarrow> p \<notin> set (ns_paths (nt_base t))" for p
    using ok by (intro arena_None segment_arena) (simp add: table_ok_def view_ok_def)
  have keys: "distinct (map fst (nt_path_overrides t))" using ok by (simp add: table_ok_def)
  have ov: "map_of (nt_path_overrides t') p =
      (case map_of (nt_path_overrides t) p of None \<Rightarrow> None
       | Some None \<Rightarrow> if p \<in> set (ns_paths (nt_base t)) then Some None else None
       | Some (Some d) \<Rightarrow> Some (Some 0))" for p
  proof -
    have "map_of (nt_path_overrides t') p =
        (case map_of (nt_path_overrides t) p of None \<Rightarrow> None
         | Some v \<Rightarrow> if v \<noteq> None \<or> map_of (ns_path_ids (nt_base t)) p \<noteq> None
             then Some (map_option (\<lambda>_. 0) v) else None)"
      unfolding f(3) by (rule map_of_map_filter_values [OF keys])
    then show ?thesis using base_none by (auto split: option.split)
  qed
  have dpath: "\<exists>d. map_of (nt_path_overrides t) (ne_path e) = Some (Some d)" if "e \<in> set ?D" for e
    using that by (auto simp: delta_entries_def row_active_def split: option.splits)
  have base: "base_entries t' = base_entries t"
  proof -
    have "ne_path e \<in> set (ns_paths (nt_base t))" if "e \<in> set (segment_view (nt_base t))" for e
      using that ok by (auto simp: table_ok_def view_ok_def)
    then show ?thesis unfolding base_entries_def f(1)
      by (intro filter_cong) (auto simp: ov split: option.splits)
  qed
  have delta: "delta_entries t' = ?D"
  proof -
    have "row_active (nt_path_overrides t') (Some 0, e)" if "e \<in> set ?D" for e
      using dpath [OF that] by (auto simp: row_active_def ov)
    then show ?thesis by (simp add: delta_entries_def [of t'] f(2) b(1) seg(2) filter_map comp_def)
  qed
  have act: "active_entries t' = active_entries t" by (simp add: active_split base delta)
  have paths: "p \<in> set (ns_paths s) \<longleftrightarrow> (\<exists>d. map_of (nt_path_overrides t) p = Some (Some d))" for p
  proof
    assume "p \<in> set (ns_paths s)"
    then obtain e where "e \<in> set ?D" "ne_path e = p" using seg by (auto simp: view_ok_def)
    with dpath show "\<exists>d. map_of (nt_path_overrides t) p = Some (Some d)" by blast
  next
    assume "\<exists>d. map_of (nt_path_overrides t) p = Some (Some d)"
    then obtain d where d: "map_of (nt_path_overrides t) p = Some (Some d)" by blast
    then have dn: "d < length (nt_deltas t)" "on_path p (segment_view (nt_deltas t ! d)) \<noteq> []"
      using ok by (auto simp: table_ok_def)
    then obtain e where e: "e \<in> set (segment_view (nt_deltas t ! d))" "ne_path e = p"
      by (auto simp: on_path_def filter_empty_conv)
    with d dn(1) have "e \<in> set ?D" by (force simp: delta_entries_def row_active_def)
    with e(2) seg show "p \<in> set (ns_paths s)" by (auto simp: view_ok_def)
  qed
  have "table_ok t'"
    unfolding table_ok_def
  proof (intro conjI)
    show "view_ok (nt_base t')" "\<forall>s \<in> set (nt_deltas t'). view_ok s" using ok seg(1) by (auto simp: f b table_ok_def)
    show "layout_ok t'" by (simp add: layout_ok_def f delta_sizes_def)
    show "distinct (map fst (nt_path_overrides t'))" unfolding f(3)
      using ok by (intro distinct_map_filter_values) (simp add: table_ok_def)
    show "\<forall>p d. map_of (nt_path_overrides t') p = Some (Some d) \<longrightarrow>
        d < length (nt_deltas t') \<and> on_path p (segment_view (nt_deltas t' ! d)) \<noteq> []"
    proof (intro allI impI)
      fix p d assume "map_of (nt_path_overrides t') p = Some (Some d)"
      then have d: "d = 0" "\<exists>d. map_of (nt_path_overrides t) p = Some (Some d)"
        by (auto simp: ov split: option.splits if_splits)
      then obtain e where "e \<in> set ?D" "ne_path e = p" using paths [of p] seg by (auto simp: view_ok_def)
      with d(1) show "d < length (nt_deltas t') \<and> on_path p (segment_view (nt_deltas t' ! d)) \<noteq> []"
        by (auto simp: f(2) b(1) seg(2) on_path_def filter_empty_conv)
    qed
    have "map_of (nt_path_overrides t') p = None \<longleftrightarrow> map_of (nt_path_overrides t) p = None"
      if "p \<in> set (ns_paths (nt_base t))" for p
      using that by (simp add: ov split: option.split)
    moreover have "set (nt_active_base_paths t) = {p \<in> set (ns_paths (nt_base t)). map_of (nt_path_overrides t) p = None}"
      using ok by (simp add: table_ok_def)
    ultimately show "set (nt_active_base_paths t') = {p \<in> set (ns_paths (nt_base t')). map_of (nt_path_overrides t') p = None}"
      unfolding f(1,4) by auto
    show "\<forall>d < length (nt_deltas t'). set (nt_active_delta_paths t' ! d) = {p. map_of (nt_path_overrides t') p = Some (Some d)}"
      by (auto simp: f(2,5) b(2) paths ov split: option.splits if_splits)
  qed (use ok act f in \<open>auto simp: table_ok_def\<close>)
  with act f(10) show ?thesis by simp
qed

end
