(* ===== verification/Name_Context.thy ===== *)
theory Name_Context
  imports Name_History
begin

text \<open>
  The builder with a project context. It looks the project of a path up once and remembers it by
  path id; a builder without a context that is given each entry with its project builds the same
  arenas, so a cold build, a rebuild for a new context and the incremental conversion of rows agree.
\<close>

definition assigned_project :: "project_context_index option \<Rightarrow> bool \<Rightarrow> string \<Rightarrow> project_key option" where
  "assigned_project ctx external path =
     (if external then None else Option.bind ctx (\<lambda>index. nearest_for_file index path))"

definition with_project :: "project_context_index option \<Rightarrow> name_entry \<Rightarrow> name_entry" where
  "with_project ctx e = e\<lparr> ne_project_key := assigned_project ctx (ne_external e) (ne_path e) \<rparr>"

definition erase :: "name_index_builder \<Rightarrow> name_index_builder" where
  "erase b = b\<lparr> nb_project_by_path := [], nb_project_context := None \<rparr>"

definition recalled :: "name_index_builder \<Rightarrow> project_key option \<Rightarrow> nat \<Rightarrow> bool" where
  "recalled b project q \<longleftrightarrow>
     (case project of None \<Rightarrow> q = NO_PROJECT_ID | Some key \<Rightarrow> map_of (nb_project_ids b) key = Some q)"

text \<open>The memo holds, by path id, the project that the context gives a workspace path.\<close>

definition memo_ok :: "project_context_index option \<Rightarrow> name_index_builder \<Rightarrow> bool" where
  "memo_ok ctx b \<longleftrightarrow>
     nb_project_context b = ctx \<and> arena (nb_path_ids b) (nb_paths b) \<and>
     (\<forall>k q. map_of (nb_project_by_path b) k = Some q \<longrightarrow>
        k < length (nb_paths b) \<and> recalled b (assigned_project ctx False (nb_paths b ! k)) q)"

lemma recalled_ids: "nb_project_ids b' = nb_project_ids b \<Longrightarrow> recalled b' = recalled b"
  by (simp add: recalled_def fun_eq_iff cong: option.case_cong)

lemma recalled_memo [simp]: "recalled (b\<lparr> nb_project_by_path := m \<rparr>) = recalled b"
  by (rule recalled_ids) simp

lemma intern_project_recalled:
  assumes "intern_project_opt project b = Some (q, b')"
  shows "recalled b' project q" "recalled b p r \<Longrightarrow> recalled b' p r" "nb_paths b' = nb_paths b"
    "nb_path_ids b' = nb_path_ids b" "nb_project_by_path b' = nb_project_by_path b"
    "nb_project_context b' = nb_project_context b"
  using assms
  by (auto simp: recalled_def intern_project_opt_def intern_project_def fits_u32_def update_conv'
      split: option.splits if_splits)

lemma to_ascii_lowercase_none: "\<not> list_ex is_ascii_uppercase name \<Longrightarrow> to_ascii_lowercase name = name"
  by (auto simp: list_ex_iff to_ascii_lowercase_def is_ascii_uppercase_def ascii_lower_def intro!: map_idI)

lemma intern_name_lower:
  "known = None \<or> known = Some (to_ascii_lowercase name) \<Longrightarrow>
     intern_name name known b = intern_name name (Some (to_ascii_lowercase name)) b"
  by (auto simp: intern_name_def to_ascii_lowercase_none split: option.split)

lemma intern_name_erase:
  "intern_name name known (erase b) = map_option (map_prod (\<lambda>i. i) erase) (intern_name name known b)"
  by (auto simp: intern_name_def erase_def fits_u32_def split: option.split)

lemma intern_path_erase:
  "intern_path path external (erase b) = map_option (map_prod (\<lambda>i. i) erase) (intern_path path external b)"
  by (auto simp: intern_path_def erase_def fits_u32_def split: option.split)

lemma intern_project_opt_erase:
  "intern_project_opt project (erase b) = map_option (map_prod (\<lambda>i. i) erase) (intern_project_opt project b)"
  by (auto simp: intern_project_opt_def intern_project_def erase_def fits_u32_def split: option.split)

lemma intern_name_memo:
  assumes "intern_name name known b = Some (n, b')" "memo_ok ctx b"
  shows "memo_ok ctx b'"
proof -
  have "nb_project_ids b' = nb_project_ids b" "nb_paths b' = nb_paths b" "nb_path_ids b' = nb_path_ids b"
    "nb_project_by_path b' = nb_project_by_path b" "nb_project_context b' = nb_project_context b"
    using assms(1) by (auto simp: intern_name_def fits_u32_def split: option.splits if_splits)
  with assms(2) recalled_ids [OF this(1)] show ?thesis by (simp add: memo_ok_def)
qed

lemma intern_path_memo:
  assumes "intern_path path external b = Some (k, b')" "memo_ok ctx b"
  shows "memo_ok ctx b' \<and> k < length (nb_paths b') \<and> nb_paths b' ! k = path"
proof (cases "map_of (nb_path_ids b) path")
  case None
  then have b': "k = length (nb_paths b)" "nb_paths b' = nb_paths b @ [path]"
      "nb_path_ids b' = AList.update path (length (nb_paths b)) (nb_path_ids b)"
      "nb_project_by_path b' = nb_project_by_path b" "nb_project_ids b' = nb_project_ids b"
      "nb_project_context b' = nb_project_context b"
    using assms(1) by (auto simp: intern_path_def fits_u32_def split: if_splits)
  have "arena (nb_path_ids b') (nb_paths b')"
    unfolding b' using assms(2) None by (intro arena_push) (simp_all add: memo_ok_def)
  with assms(2) b' show ?thesis
    by (auto simp: memo_ok_def nth_append recalled_ids [OF b'(5)] less_Suc_eq)
next
  case (Some i)
  with assms show ?thesis by (auto simp: intern_path_def memo_ok_def arena_def)
qed

lemma project_for_path_erase:
  assumes "memo_ok ctx b" "k < length (nb_paths b)" "nb_paths b ! k = path"
  shows "map_option (map_prod (\<lambda>i. i) erase) (project_for_path path external k b) =
      intern_project_opt (assigned_project ctx external path) (erase b) \<and>
    (\<forall>q b'. project_for_path path external k b = Some (q, b') \<longrightarrow> memo_ok ctx b')"
proof (cases "external \<or> map_of (nb_project_by_path b) k \<noteq> None")
  case True
  then consider "external" | q where "\<not> external" "map_of (nb_project_by_path b) k = Some q" by auto
  then show ?thesis
  proof cases
    case 1
    with assms(1) show ?thesis by (simp add: project_for_path_def assigned_project_def intern_project_opt_def)
  next
    case (2 q)
    then have "recalled b (assigned_project ctx False path) q" using assms unfolding memo_ok_def by blast
    with 2 assms(1) show ?thesis
      by (auto simp: recalled_def project_for_path_def assigned_project_def intern_project_opt_def
          intern_project_def erase_def split: option.splits)
  qed
next
  case False
  let ?p = "assigned_project ctx False path"
  have eq: "project_for_path path external k b = Option.bind (intern_project_opt ?p b)
      (\<lambda>(q, b). Some (q, b\<lparr> nb_project_by_path := AList.update k q (nb_project_by_path b) \<rparr>))"
    using False assms(1) by (auto simp: project_for_path_def assigned_project_def memo_ok_def)
  have ext: "\<not> external" using False by simp
  show ?thesis
  proof (cases "intern_project_opt ?p b")
    case None
    then show ?thesis using ext eq by (simp add: intern_project_opt_erase assigned_project_def)
  next
    case (Some r)
    obtain q b' where r: "r = (q, b')" by (cases r)
    have "memo_ok ctx (b'\<lparr> nb_project_by_path := AList.update k q (nb_project_by_path b') \<rparr>)"
      using intern_project_recalled [OF Some [unfolded r]] assms
      by (auto simp: memo_ok_def update_conv' split: if_splits)
    with Some r ext eq show ?thesis
      by (simp add: intern_project_opt_erase assigned_project_def) (simp add: erase_def)
  qed
qed

lemma push_compact_erase [simp]: "erase (push_compact e b) = push_compact e (erase b)"
  by (simp add: erase_def push_compact_def)

lemma push_compact_memo [simp]: "memo_ok ctx (push_compact e b) = memo_ok ctx b"
  by (simp add: memo_ok_def push_compact_def recalled_def cong: option.case_cong)

lemma compact_of_project [simp]: "compact_of (with_project ctx e) = compact_of e"
  by (simp add: compact_of_def with_project_def fun_eq_iff)

lemma push_with_context_erase:
  assumes "memo_ok ctx b" "entry_ok e" "known = None \<or> known = Some (ne_lower e)"
  shows "map_option erase (push_with_context known e b) = push_entry (with_project ctx e) (erase b) \<and>
    (\<forall>b'. push_with_context known e b = Some b' \<longrightarrow> memo_ok ctx b')"
proof (cases "intern_name (ne_name e) (Some (ne_lower e)) b")
  case None
  then show ?thesis
    using assms(2,3) intern_name_lower [of known "ne_name e" b]
    by (auto simp: push_with_context_def push_entry_def with_project_def intern_name_erase entry_ok_def)
next
  case (Some r)
  obtain n b1 where r: "r = (n, b1)" by (cases r)
  have n: "intern_name (ne_name e) known b = Some (n, b1)"
    using Some r assms(2,3) intern_name_lower [of known "ne_name e" b] by (auto simp: entry_ok_def)
  have m1: "memo_ok ctx b1" by (rule intern_name_memo [OF n assms(1)])
  show ?thesis
  proof (cases "intern_path (ne_path e) (ne_external e) b1")
    case None
    with n Some r show ?thesis
      by (simp add: push_with_context_def push_entry_def with_project_def intern_name_erase intern_path_erase)
  next
    case (Some s)
    obtain k b2 where s: "s = (k, b2)" by (cases s)
    note p = Some [unfolded s]
    have "memo_ok ctx b2" "k < length (nb_paths b2)" "nb_paths b2 ! k = ne_path e"
      using intern_path_memo [OF p m1] by auto
    note proj = project_for_path_erase [OF this, of "ne_external e"]
    have "map_option erase (push_with_context known e b) =
        map_option (\<lambda>(q, b3). push_compact (compact_of e n k q) b3)
          (map_option (map_prod (\<lambda>i. i) erase) (project_for_path (ne_path e) (ne_external e) k b2))"
      by (cases "project_for_path (ne_path e) (ne_external e) k b2")
        (auto simp: push_with_context_def n p)
    moreover have "push_entry (with_project ctx e) (erase b) =
        map_option (\<lambda>(q, b3). push_compact (compact_of e n k q) b3)
          (intern_project_opt (assigned_project ctx (ne_external e) (ne_path e)) (erase b2))"
      using \<open>intern_name _ (Some _) b = Some r\<close> r p unfolding push_entry_def compact_of_project
      by (cases "intern_project_opt (assigned_project ctx (ne_external e) (ne_path e)) (erase b2)")
        (auto simp: with_project_def intern_name_erase intern_path_erase)
    ultimately show ?thesis using proj n p
      by (auto simp: push_with_context_def split: Option.bind_splits)
  qed
qed

lemma ofold_with_context:
  assumes "\<And>x. x \<in> set xs \<Longrightarrow> entry_ok (f x) \<and> (g x = None \<or> g x = Some (ne_lower (f x)))" "memo_ok ctx b"
  shows "map_option erase (ofold (\<lambda>x. push_with_context (g x) (f x)) xs b) =
    ofold push_entry (map (\<lambda>x. with_project ctx (f x)) xs) (erase b)"
  using assms
proof (induction xs arbitrary: b)
  case (Cons x xs)
  note step = push_with_context_erase [OF Cons.prems(2), of "f x" "g x"]
  show ?case
  proof (cases "push_with_context (g x) (f x) b")
    case None
    with step Cons.prems(1) show ?thesis by fastforce
  next
    case (Some b')
    with step Cons.prems(1) have "push_entry (with_project ctx (f x)) (erase b) = Some (erase b')" "memo_ok ctx b'"
      by fastforce+
    with Some Cons.IH [OF Cons.prems(1)] show ?thesis by simp
  qed
qed simp

lemma builder_finish_erase [simp]: "builder_finish (erase b) = builder_finish b"
  by (simp add: builder_finish_def finish_segment_def erase_def)

lemma context_build:
  assumes "\<And>x. x \<in> set xs \<Longrightarrow> entry_ok (f x) \<and> (g x = None \<or> g x = Some (ne_lower (f x)))"
  shows "Option.bind (ofold (\<lambda>x. push_with_context (g x) (f x)) xs (builder_new ctx)) builder_finish =
    table_from_entries (map (\<lambda>x. with_project ctx (f x)) xs)"
proof -
  have "memo_ok ctx (builder_new ctx)" "erase (builder_new ctx) = builder_new None"
    by (simp_all add: memo_ok_def builder_new_def erase_def)
  with ofold_with_context [where f = f and g = g, OF assms, where b = "builder_new ctx" and ctx = ctx]
  have e: "ofold push_entry (map (\<lambda>x. with_project ctx (f x)) xs) (builder_new None) =
      map_option erase (ofold (\<lambda>x. push_with_context (g x) (f x)) xs (builder_new ctx))" by simp
  show ?thesis unfolding table_from_entries_def e
    by (cases "ofold (\<lambda>x. push_with_context (g x) (f x)) xs (builder_new ctx)") simp_all
qed

section \<open>Rows\<close>

definition row_entry :: "project_context_index option \<Rightarrow> declaration_name_row \<Rightarrow> name_entry" where
  "row_entry ctx row = declaration_entry (assigned_project ctx (dn_external row) (dn_path row)) row"

lemma row_entry_ok [simp]: "entry_ok (row_entry ctx row)" "entry_ok (declaration_entry p row)"
  by (simp_all add: entry_ok_def row_entry_def declaration_entry_def)

lemma declaration_name_entries_rows:
  "\<forall>path project. map_of memo path = Some project \<longrightarrow> project = assigned_project ctx False path \<Longrightarrow>
     declaration_name_entries ctx memo rows = map (row_entry ctx) rows"
proof (induction rows arbitrary: memo)
  case (Cons row rows)
  show ?case
  proof (cases "dn_external row \<or> map_of memo (dn_path row) \<noteq> None")
    case True
    with Cons show ?thesis by (auto simp: row_entry_def assigned_project_def split: option.splits)
  next
    case False
    let ?p = "Option.bind ctx (\<lambda>index. nearest_for_file index (dn_path row))"
    have "declaration_name_entries ctx (AList.update (dn_path row) ?p memo) rows = map (row_entry ctx) rows"
      using Cons.prems by (intro Cons.IH) (auto simp: update_conv' assigned_project_def)
    with False show ?thesis by (simp add: row_entry_def assigned_project_def Let_def)
  qed
qed simp

lemma cold_build_table:
  "build_from_declaration_rows rows ctx = table_from_entries (map (row_entry ctx) rows)"
proof -
  have "with_project ctx (declaration_entry None row) = row_entry ctx row" for row
    by (simp add: with_project_def declaration_entry_def row_entry_def)
  then show ?thesis
    using context_build [where xs = rows and f = "declaration_entry None" and g = "\<lambda>_. None" and ctx = ctx]
    by (simp add: build_from_declaration_rows_def push_declaration_def [abs_def])
qed

text \<open>A cold build from the store's declaration rows is the table of the entries that an incremental
  update converts the same rows to: the builder that finds each path's project once, by path id, and
  the conversion that memoizes it by path give every declaration the same project.\<close>

theorem cold_build_entries:
  "build_from_declaration_rows rows ctx = table_from_entries (declaration_name_entries ctx [] rows)"
  by (simp add: cold_build_table declaration_name_entries_rows)

lemma with_project_context_entries:
  assumes "table_ok t"
  shows "with_project_context t ctx =
    map_option (\<lambda>r. r\<lparr> nt_direct_include_overrides := nt_direct_include_overrides t \<rparr>)
      (table_from_entries (map (with_project ctx) (active_entries t)))"
proof -
  have act: "active_entries t = map (table_entry t) (active_indices t)"
    using assms by (intro active_entries_indices) (simp add: table_ok_def)
  then have "entry_ok (table_entry t i)" if "i \<in> set (active_indices t)" for i
    using active_view(1) [OF assms] that by simp
  then have "Option.bind (ofold (\<lambda>i. push_with_context (Some (ne_lower (table_entry t i))) (table_entry t i))
        (active_indices t) (builder_new ctx)) builder_finish =
      table_from_entries (map (with_project ctx) (active_entries t))"
    using context_build [where xs = "active_indices t" and f = "table_entry t" and ctx = ctx and
        g = "\<lambda>i. Some (ne_lower (table_entry t i))"] by (simp add: act comp_def)
  then show ?thesis
    by (simp add: with_project_context_def push_ref_with_project_context_def [abs_def] map_conv_bind_option
        comp_def flip: bind_assoc)
qed

end
