(* ===== verification/Name_Total.thy ===== *)
theory Name_Total
  imports Name_Context
begin

text \<open>
  Building a segment does not panic: the counters and ids of a segment are \<open>u32\<close>, and the largest of
  them counts the fuzzy tokens, of which a name has at most 120 (64 sampled windows and the triples
  of eight initials). A batch of fewer than \<open>2 ^ 32 div 120\<close> entries, some 35 million, always fits.
\<close>

definition TOKENS_PER_NAME :: nat where "TOKENS_PER_NAME = 120"

definition entries_fit :: "nat \<Rightarrow> bool" where
  "entries_fit n \<longleftrightarrow> TOKENS_PER_NAME * n < 2 ^ 32"

lemma length_dedup: "length (dedup xs) \<le> length xs"
proof -
  have "length (dedup_from same k ys) \<le> length ys" for same :: "'a \<Rightarrow> 'a \<Rightarrow> bool" and k ys
    by (induction same k ys rule: dedup_from.induct) auto
  then show ?thesis by (cases xs) (auto simp: dedup_def)
qed

lemma length_sampled: "length (sampled_trigram_tokens bytes boundary cap) \<le> cap"
  by (simp add: sampled_trigram_tokens_def windows3_def Let_def)

definition triple_count :: "nat \<Rightarrow> nat" where
  "triple_count n = sum_list (map (\<lambda>i. sum_list (map (\<lambda>j. n - Suc j) [Suc i..<n])) [0..<n])"

lemma length_boundary_triples: "length (boundary_triples initials) = triple_count (length initials)"
  by (simp add: boundary_triples_def triple_count_def length_concat comp_def)

lemma triple_count_8: "n \<le> 8 \<Longrightarrow> triple_count n \<le> 56"
proof -
  have "list_all (\<lambda>n. triple_count n \<le> 56) [0..<9]" by code_simp
  then show "n \<le> 8 \<Longrightarrow> ?thesis" by (auto simp: list_all_iff)
qed

lemma tokens_per_name: "length (fuzzy_tokens_for_name name) \<le> TOKENS_PER_NAME"
proof -
  have "length (token_sort (sampled_trigram_tokens lo False MAX_CONTIGUOUS_TRIGRAMS_PER_NAME @
      boundary_triples (take MAX_BOUNDARY_INITIALS_FOR_TRIGRAMS is))) \<le> TOKENS_PER_NAME" for lo "is"
  proof -
    have "triple_count (length (take MAX_BOUNDARY_INITIALS_FOR_TRIGRAMS is)) \<le> 56"
      by (rule triple_count_8) (simp add: MAX_BOUNDARY_INITIALS_FOR_TRIGRAMS_def)
    then show ?thesis
      using length_sampled [of lo False MAX_CONTIGUOUS_TRIGRAMS_PER_NAME]
      unfolding token_sort_def
      by (intro order_trans [OF length_dedup])
        (simp add: length_boundary_triples TOKENS_PER_NAME_def MAX_CONTIGUOUS_TRIGRAMS_PER_NAME_def)
  qed
  then show ?thesis by (simp add: fuzzy_tokens_for_name_def Let_def)
qed

lemma length_token_rows: "length (token_rows ordered names) \<le> TOKENS_PER_NAME * length ordered"
proof (induction ordered)
  case (Cons n ordered)
  then show ?case using tokens_per_name [of "names ! n"] by (simp add: token_rows_def)
qed (simp add: token_rows_def)

lemma count_list_le: "count_list xs x \<le> length xs"
  by (induction xs) auto

lemma count_tokens_total:
  fixes rows :: "(u32 \<times> 'a) list"
  assumes "length rows < 2 ^ 32"
  shows "\<exists>st. ofold (\<lambda>(token, _). count_token token) rows ([], []) = Some st \<and>
    length (snd st) \<le> length rows \<and> sum_list (snd st) = length rows"
proof -
  let ?I = "\<lambda>pre st. slots_ok (map fst pre) st \<and> length (snd st) \<le> length pre \<and> sum_list (snd st) = length pre"
  show ?thesis
  proof (rule exE [OF ofold_total [where I = ?I and xs = rows and s = "([], [])"]])
    fix pre and r :: "u32 \<times> 'a" and rest st
    assume rows: "rows = pre @ r # rest" and I: "?I pre st"
    obtain token x where r: "r = (token, x)" by (cases r)
    obtain slots counts where st: "st = (slots, counts)" by (cases st)
    have "\<exists>st'. count_token token st = Some st' \<and> length (snd st') \<le> Suc (length pre) \<and> sum_list (snd st') = Suc (length pre)"
    proof (cases "map_of slots token")
      case None
      with I assms rows show ?thesis by (auto simp: st count_token_def fits_u32_def)
    next
      case (Some k)
      then have k: "k < length counts" "counts ! k \<le> length pre"
        using I st count_list_le [of "map fst pre"] by (auto simp: slots_ok_def arena_def)
      with Some I assms rows show ?thesis by (auto simp: st count_token_def fits_u32_def sum_list_update)
    qed
    then show "\<exists>st'. (case r of (token, _) \<Rightarrow> count_token token) st = Some st' \<and> ?I (pre @ [r]) st'"
      using count_token_ok [of "map fst pre" st token] I by (auto simp: r simp del: split_paired_Ex)
  qed (auto simp: slots_ok_def)
qed

lemma fuzzy_postings_total:
  assumes "entries_fit (length ordered)"
  shows "fuzzy_postings_build ordered names \<noteq> None"
proof -
  have "length (token_rows ordered names) < 2 ^ 32"
    using assms length_token_rows [of ordered names] by (simp add: entries_fit_def)
  from count_tokens_total [OF this] obtain slots counts where
    "ofold (\<lambda>(token, _). count_token token) (token_rows ordered names) ([], []) = Some (slots, counts)"
    "sum_list counts < 2 ^ 32" using \<open>length _ < 2 ^ 32\<close> by auto
  moreover from this(2) have "checked_sums 0 counts \<noteq> None" by (intro checked_sums_total) simp
  ultimately show ?thesis by (auto simp: fuzzy_postings_build_def Let_def)
qed

lemma prefix_paths_total:
  assumes "length entries < 2 ^ 32"
  shows "prefix_paths_build entries names slot \<noteq> None"
proof -
  let ?rows = "dedup (sort_by (\<lambda>a b. cmp_of (raw_pair_key a) (raw_pair_key b)) (raw_pairs entries names slot))"
  have "length (List.map_filter f (filter P xs)) \<le> length xs"
    for f :: "compact_name_entry \<Rightarrow> raw_pair option" and P xs
    by (induction xs) (auto simp: List.map_filter_simps split: option.split)
  then have "length (raw_pairs entries names slot) \<le> length entries" by (simp add: raw_pairs_def)
  then have rows: "length ?rows < 2 ^ 32"
    using length_dedup [of "sort_by (\<lambda>a b. cmp_of (raw_pair_key a) (raw_pair_key b)) (raw_pairs entries names slot)"]
      assms by simp
  have "\<exists>p. ofold push_pair ?rows \<lparr> px_pairs = [], px_project_positions = [] \<rparr> = Some p \<and> length (px_pairs p) \<le> length ?rows"
  proof (rule ofold_total [where I = "\<lambda>pre p. length (px_pairs p) \<le> length pre"])
    fix pre x rest and p :: compact_prefix_path_postings
    assume "?rows = pre @ x # rest" "length (px_pairs p) \<le> length pre"
    with rows show "\<exists>p'. push_pair x p = Some p' \<and> length (px_pairs p') \<le> length (pre @ [x])"
      by (cases x) (auto simp: push_pair_def fits_u32_def Let_def)
  qed simp
  then show ?thesis by (auto simp: prefix_paths_build_def)
qed

lemma from_compact_parts_total:
  assumes "parts_ok entries names paths path_ids path_counts path_is_external projects"
    "entries_fit (length entries)" "entries_fit (length names)"
  shows "from_compact_parts entries names paths path_ids path_counts path_is_external projects \<noteq> None"
proof -
  have le: "length entries < 2 ^ 32" "length names < 2 ^ 32" using assms(2,3) by (simp_all add: entries_fit_def TOKENS_PER_NAME_def)
  have ids: "\<forall>e \<in> set entries. cn_name_id e < length names" "\<forall>e \<in> set entries. cn_path_id e < length paths"
    using assms(1) by (auto simp: parts_ok_def compact_ok_def)
  let ?order = "sort_by (\<lambda>a b. name_cmp (names ! a) (names ! b)) [0..<length names]"
  let ?counts = "tally (length names) (map cn_name_id entries)"
  have "sum_list (map ((!) ?counts) ?order) = sum_list (map ((!) ?counts) [0..<length names])"
    using mset_sort_by [of "\<lambda>a b. name_cmp (names ! a) (names ! b)" "[0..<length names]"]
    by (subst sum_mset_sum_list [symmetric])+ (simp only: mset_map)
  also have "\<dots> = sum_list ?counts" by (metis length_tally map_nth)
  also have "\<dots> = length entries"
    using sum_tally [of "map (\<lambda>e. (cn_name_id e, ())) entries" "length names"] ids(1) by (simp add: comp_def)
  finally have "order_cursors ?order ?counts 0 (replicate (length names) 0) \<noteq> None"
    using le(1) by (intro order_cursors_total) simp
  then obtain order where order: "sorted_indices entries names = Some order"
    using le(2) by (auto simp: sorted_indices_def index_ids_def)
  have ord: "order = sort_by (lexical_cmp entries names) [0..<length entries]"
    using sorted_indices_spec [OF order _ ids(1)] assms(1) by (simp add: parts_ok_def)
  have fuzzy: "fuzzy_postings_build (family_names entries names [0..<length names] slot) names \<noteq> None" for slot
  proof (rule fuzzy_postings_total)
    have "length (family_names entries names [0..<length names] slot) \<le> length names"
      using length_filter_le [of _ "[0..<length names]"] by (simp add: family_names_def)
    with assms(3) show "entries_fit (length (family_names entries names [0..<length names] slot))"
      by (simp add: entries_fit_def TOKENS_PER_NAME_def)
  qed
  have paths: "path_postings_build entries (filter P order) (length paths) \<noteq> None" for P
  proof (rule path_postings_total)
    show "length (filter P order) < 2 ^ 32"
      using le(1) length_filter_le [of P order] by (simp add: ord)
    show "\<forall>i \<in> set (filter P order). cn_path_id (entries ! i) < length paths" using ids(2) by (auto simp: ord)
  qed
  show ?thesis
    using order fuzzy [of 0] fuzzy [of 1] paths [of "\<lambda>i. entry_slot (entries ! i) = 0"]
      paths [of "\<lambda>i. entry_slot (entries ! i) = 1"] prefix_paths_total [OF le(1), of names 0]
      prefix_paths_total [OF le(1), of names 1] le
    by (auto simp: from_compact_parts_def sorted_indices_by_family_def candidate_postings_by_family_def
        index_ids_def by_slot_def at_slot_def)
qed

lemma segment_from_entries_total:
  assumes "entries_fit (length es)" "\<forall>e \<in> set es. entry_ok e"
  shows "\<exists>s. segment_from_entries es = Some s"
proof -
  let ?I = "\<lambda>pre b. length (nb_names b) \<le> length pre \<and> length (nb_paths b) \<le> length pre \<and> length (nb_projects b) \<le> length pre"
  have le: "length es < 2 ^ 32" using assms(1) by (simp add: entries_fit_def TOKENS_PER_NAME_def)
  have "\<exists>b. ofold push_entry es (builder_new None) = Some b \<and> ?I es b"
  proof (rule ofold_total [where I = ?I])
    fix pre x rest and b :: name_index_builder assume "es = pre @ x # rest" "?I pre b"
    with le push_entry_total [of b x] show "\<exists>b'. push_entry x b = Some b' \<and> ?I (pre @ [x]) b'" by fastforce
  qed (simp add: builder_new_def)
  then obtain b where b: "ofold push_entry es (builder_new None) = Some b" "length (nb_names b) \<le> length es" by blast
  have ok: "builder_ok b" "length (nb_entries b) = length es" using push_entries_ok [OF b(1) assms(2)] by auto
  have "entries_fit (length (nb_names b))" using assms(1) b(2) by (simp add: entries_fit_def TOKENS_PER_NAME_def)
  then have "finish_segment b \<noteq> None" unfolding finish_segment_def
    using ok assms(1) by (intro from_compact_parts_total) (simp_all add: builder_ok_def)
  with b(1) show ?thesis by (auto simp: segment_from_entries_def)
qed

end
