(* ===== verification/Name_Replay.thy ===== *)
theory Name_Replay
  imports Name_Total
begin

text \<open>
  Histories of a name table as the server publishes it: a cold build from the store's declaration
  rows, then row updates of changed paths, compactions that may be cancelled, rebuilds for a new
  project context, and new direct-include evidence. The specification replays the same operations
  on a plain list of declarations; the locale \<open>option_simulation\<close> carries the argument that a partial
  step function with an invariant implements such a specification.
\<close>

section \<open>Simulation by a partial step function\<close>

locale option_simulation =
  fixes ok :: "'s \<Rightarrow> bool"
    and abs_of :: "'s \<Rightarrow> 'a"
    and step_of :: "'op \<Rightarrow> 's \<Rightarrow> 's option"
    and spec_of :: "'op \<Rightarrow> 'a \<Rightarrow> 'a"
    and allowed :: "'op \<Rightarrow> 'a \<Rightarrow> bool"
  assumes simulates:
    "ok s \<Longrightarrow> allowed op (abs_of s) \<Longrightarrow>
       \<exists>s'. step_of op s = Some s' \<and> ok s' \<and> abs_of s' = spec_of op (abs_of s)"
begin

fun all_allowed :: "'op list \<Rightarrow> 'a \<Rightarrow> bool" where
  "all_allowed [] a = True"
| "all_allowed (op # ops) a = (allowed op a \<and> all_allowed ops (spec_of op a))"

lemma run_simulates:
  "ok s \<Longrightarrow> all_allowed ops (abs_of s) \<Longrightarrow>
     \<exists>s'. ofold step_of ops s = Some s' \<and> ok s' \<and> abs_of s' = fold spec_of ops (abs_of s)"
proof (induction ops arbitrary: s)
  case (Cons op ops)
  then obtain s1 where "step_of op s = Some s1" "ok s1" "abs_of s1 = spec_of op (abs_of s)"
    using simulates [of s op] by auto
  with Cons.IH [of s1] Cons.prems show ?case by simp
qed simp

end

section \<open>Operations\<close>

datatype table_op =
    UpdateRows "string list" "declaration_name_row list" "project_context_index option"
  | Compact bool
  | ChangeContext "project_context_index option"
  | OverrideIncludes "(string, bool) hmap"

text \<open>A cancelled compaction leaves the published table in place.\<close>

fun table_step :: "table_op \<Rightarrow> name_table \<Rightarrow> name_table option" where
  "table_step (UpdateRows paths rows ctx) t = with_updated_declaration_rows t paths rows ctx"
| "table_step (Compact observed) t =
     map_option (\<lambda>r. case r of None \<Rightarrow> t | Some t' \<Rightarrow> t') (compacted_with_cancellation observed t)"
| "table_step (ChangeContext ctx) t = with_project_context t ctx"
| "table_step (OverrideIncludes m) t = Some (with_direct_include_overrides t m)"

section \<open>Specification\<close>

type_synonym table_spec = "name_entry list \<times> (string, bool) hmap"

definition row_view :: "project_context_index option \<Rightarrow> declaration_name_row \<Rightarrow> name_entry" where
  "row_view ctx row = norm_entry (row_entry ctx row)"

fun spec_step :: "table_op \<Rightarrow> table_spec \<Rightarrow> table_spec" where
  "spec_step (UpdateRows paths rows ctx) (es, ov) = (replaced es (map (row_view ctx) rows) (set paths), ov)"
| "spec_step (Compact observed) (es, ov) = (es, ov)"
| "spec_step (ChangeContext ctx) (es, ov) = (map (with_project ctx) es, ov)"
| "spec_step (OverrideIncludes m) (es, ov) =
     (es, fold (\<lambda>(path, included). AList.update path included) m ov)"

fun step_allowed :: "table_op \<Rightarrow> table_spec \<Rightarrow> bool" where
  "step_allowed (UpdateRows paths rows ctx) a = (distinct paths \<and> entries_fit (length rows))"
| "step_allowed (Compact observed) a = entries_fit (length (fst a))"
| "step_allowed (ChangeContext ctx) a = entries_fit (length (fst a))"
| "step_allowed (OverrideIncludes m) a = True"

definition table_abs :: "name_table \<Rightarrow> table_spec" where
  "table_abs t = (active_entries t, nt_direct_include_overrides t)"

lemma table_from_entries_total:
  assumes "entries_fit (length es)" "\<forall>e \<in> set es. entry_ok e"
  shows "\<exists>t. table_from_entries es = Some t \<and> table_ok t \<and> table_abs t = (map norm_entry es, [])"
  using segment_from_entries_total [OF assms] table_from_entries_ok [OF _ assms(2)]
  by (fastforce simp: table_from_entries_segment table_abs_def)

lemma norm_with_project: "norm_entry (with_project ctx e) = with_project ctx (norm_entry e)"
  by (simp add: norm_entry_def with_project_def)

lemma entry_ok_with_project [simp]: "entry_ok (with_project ctx e) = entry_ok e"
  by (simp add: entry_ok_def with_project_def)

lemma rows_entries: "declaration_name_entries ctx [] rows = map (row_entry ctx) rows"
  by (rule declaration_name_entries_rows) simp

lemma update_step:
  assumes "table_ok t" "distinct paths" "entries_fit (length rows)"
  shows "\<exists>t'. table_step (UpdateRows paths rows ctx) t = Some t' \<and> table_ok t' \<and>
    table_abs t' = spec_step (UpdateRows paths rows ctx) (table_abs t)"
proof -
  let ?es = "map (row_entry ctx) rows"
  have es: "\<forall>e \<in> set ?es. entry_ok e" by simp
  obtain s where "segment_from_entries ?es = Some s"
    using segment_from_entries_total [OF _ es] assms(3) by auto
  from with_updated_entries_ok [OF assms(1,2) es this] show ?thesis
    by (simp add: with_updated_declaration_rows_def rows_entries table_abs_def row_view_def [abs_def] comp_def)
qed

lemma compact_step:
  assumes "table_ok t" "entries_fit (length (active_entries t))"
  shows "\<exists>t'. table_step (Compact observed) t = Some t' \<and> table_ok t' \<and> table_abs t' = table_abs t"
proof (cases observed)
  case False
  obtain t' where t': "(if can_compact_deltas_only t then compact_deltas t else compacted t) = Some t'"
  proof (cases "can_compact_deltas_only t")
    case True
    have sub: "\<forall>e \<in> set (delta_entries t). entry_ok e" "length (delta_entries t) \<le> length (active_entries t)"
      using active_view(1) [OF assms(1)] by (auto simp: active_split)
    then have "entries_fit (length (delta_entries t))"
      using assms(2) by (simp add: entries_fit_def TOKENS_PER_NAME_def)
    then obtain m where m: "table_from_entries (delta_entries t) = Some m"
      using table_from_entries_total [OF _ sub(1)] by blast
    have "layout_ok t" using assms(1) by (simp add: table_ok_def)
    with m have "\<exists>t'. compact_deltas t = Some t'"
      by (auto simp: compact_deltas_def push_delta_indices table_from_entries_def Let_def split: Option.bind_splits)
    with True that show ?thesis by auto
  next
    case False
    with that compacted_entries [OF assms(1)] table_from_entries_total [OF assms(2) active_view(1) [OF assms(1)]]
    show ?thesis by auto
  qed
  with compact_deltas_ok [OF assms(1)] compacted_ok [OF assms(1)] False show ?thesis
    by (auto simp: compacted_with_cancellation_def table_abs_def split: if_splits)
qed (use assms(1) in \<open>simp add: compacted_with_cancellation_def\<close>)

lemma context_step:
  assumes "table_ok t" "entries_fit (length (active_entries t))"
  shows "\<exists>t'. table_step (ChangeContext ctx) t = Some t' \<and> table_ok t' \<and>
    table_abs t' = spec_step (ChangeContext ctx) (table_abs t)"
proof -
  let ?es = "map (with_project ctx) (active_entries t)"
  have es: "\<forall>e \<in> set ?es. entry_ok e" "map norm_entry ?es = ?es"
    using active_view [OF assms(1)] rows_view [OF assms(1)]
    by (auto simp: norm_with_project active_entries_def)
  then obtain r where "table_from_entries ?es = Some r" "table_ok r" "table_abs r = (?es, [])"
    using table_from_entries_total [of ?es] assms(2) by auto
  then show ?thesis by (simp add: with_project_context_entries [OF assms(1)] table_abs_def)
qed

interpretation name_tables: option_simulation table_ok table_abs table_step spec_step step_allowed
proof
  fix t op assume "table_ok t" "step_allowed op (table_abs t)"
  then show "\<exists>t'. table_step op t = Some t' \<and> table_ok t' \<and> table_abs t' = spec_step op (table_abs t)"
    using update_step [of t] compact_step [of t] context_step [of t]
    by (cases op) (auto simp: table_abs_def with_direct_include_overrides_def)
qed

section \<open>The replay theorem\<close>

fun history_allowed :: "table_op list \<Rightarrow> table_spec \<Rightarrow> bool" where
  "history_allowed [] a = True"
| "history_allowed (op # ops) a = (step_allowed op a \<and> history_allowed ops (spec_step op a))"

definition run_history ::
  "declaration_name_row list \<Rightarrow> project_context_index option \<Rightarrow> table_op list \<Rightarrow> name_table option" where
  "run_history rows ctx ops = Option.bind (build_from_declaration_rows rows ctx) (ofold table_step ops)"

definition replay ::
  "declaration_name_row list \<Rightarrow> project_context_index option \<Rightarrow> table_op list \<Rightarrow> table_spec" where
  "replay rows ctx ops = fold spec_step ops (map (row_view ctx) rows, [])"

lemma history_allowed_all: "history_allowed ops a = name_tables.all_allowed ops a"
  by (induction ops arbitrary: a) simp_all

lemma history_refines:
  assumes "entries_fit (length rows)" "history_allowed ops (map (row_view ctx) rows, [])"
  shows "\<exists>t. run_history rows ctx ops = Some t \<and> table_ok t \<and> table_abs t = replay rows ctx ops"
proof -
  obtain t where t: "build_from_declaration_rows rows ctx = Some t" "table_ok t"
      "table_abs t = (map (row_view ctx) rows, [])"
    using table_from_entries_total [of "map (row_entry ctx) rows"] assms(1)
    by (auto simp: cold_build_table row_view_def [abs_def] comp_def)
  from name_tables.run_simulates [OF t(2), of ops] assms(2) t show ?thesis
    by (simp add: run_history_def replay_def history_allowed_all)
qed

lemma has_project_counts:
  assumes "table_ok t"
  shows "has_project_for_family t key family \<longleftrightarrow>
    (\<exists>e \<in> set (active_entries t). ne_project_key e = Some key \<and> ne_semantic_family e = family)"
proof -
  have get: "get_or (0, 0) (nt_active_project_family_counts t) key = pcount key (active_entries t)"
    using assms by (simp add: table_ok_def)
  have "has_project_for_family t key family \<longleftrightarrow>
      at_slot (get_or (0, 0) (nt_active_project_family_counts t) key) (semantic_family_slot family) > 0"
    by (simp add: has_project_for_family_def get_or_def at_slot_def split: option.split)
  also have "\<dots> \<longleftrightarrow> filter (in_project key (semantic_family_slot family)) (active_entries t) \<noteq> []"
    unfolding get by (cases family) (simp_all add: pcount_def at_slot_def)
  also have "\<dots> \<longleftrightarrow> (\<exists>e \<in> set (active_entries t). ne_project_key e = Some key \<and> ne_semantic_family e = family)"
  proof -
    have "semantic_family_slot f = semantic_family_slot g \<longleftrightarrow> f = g" for f g by (cases f; cases g) simp_all
    then show ?thesis by (auto simp: filter_empty_conv in_project_def)
  qed
  finally show ?thesis .
qed

text \<open>C5. Whatever sequence of row updates, compactions (cancelled or not), project-context rebuilds
  and include-evidence changes follows a cold build, the table operations do not panic while the
  batches and the active declarations fit, the invariant of the table holds, its active declarations
  and include evidence are those of replaying the sequence on a plain list, \<open>len\<close> is the number of
  those declarations, and \<open>has_project_for_family\<close> tells exactly whether one of them has the project
  and the family.\<close>

theorem name_table_history:
  assumes "entries_fit (length rows)" "history_allowed ops (map (row_view ctx) rows, [])"
  shows "\<exists>t. run_history rows ctx ops = Some t \<and> table_ok t \<and> table_abs t = replay rows ctx ops \<and>
    nt_active_len t = length (fst (replay rows ctx ops)) \<and>
    (\<forall>key family. has_project_for_family t key family =
       (\<exists>e \<in> set (fst (replay rows ctx ops)). ne_project_key e = Some key \<and> ne_semantic_family e = family))"
proof -
  obtain t where t: "run_history rows ctx ops = Some t" "table_ok t" "table_abs t = replay rows ctx ops"
    using history_refines [OF assms] by blast
  have act: "active_entries t = fst (replay rows ctx ops)" using t(3) by (metis table_abs_def fst_conv)
  have "nt_active_len t = length (active_entries t)" using t(2) by (simp add: table_ok_def)
  with t has_project_counts [OF t(2)] show ?thesis unfolding act by blast
qed

section \<open>A sample\<close>

definition sample_row :: "int \<Rightarrow> string \<Rightarrow> string \<Rightarrow> bool \<Rightarrow> declaration_name_row" where
  "sample_row i name path external =
     \<lparr> dn_id = i, dn_name = name, dn_declaration_kind = MacroDecl, dn_role = DefinitionRole,
       dn_semantic_family = CFamily, dn_path = path, dn_external = external, dn_directly_included = external \<rparr>"

definition sample_rows :: "declaration_name_row list" where
  "sample_rows = [sample_row 1 ''fooBar'' ''a.c'' False, sample_row 2 ''bar'' ''b.c'' False]"

definition sample_ops :: "table_op list" where
  "sample_ops = [UpdateRows [''a.c''] [sample_row 3 ''fooBaz'' ''a.c'' False] None, Compact False, Compact True]"

theorem name_table_history_witness:
  "entries_fit (length sample_rows) \<and> history_allowed sample_ops (map (row_view None) sample_rows, []) \<and>
   (\<exists>t. run_history sample_rows None sample_ops = Some t \<and>
      map ne_name (active_entries t) = [''bar'', ''fooBaz''] \<and> nt_active_len t = 2)"
proof -
  have fit: "entries_fit (length sample_rows)"
    by (simp add: entries_fit_def sample_rows_def TOKENS_PER_NAME_def)
  have ok: "history_allowed sample_ops (map (row_view None) sample_rows, [])"
    by (simp add: sample_ops_def sample_rows_def entries_fit_def TOKENS_PER_NAME_def replaced_def row_view_def
        row_entry_def declaration_entry_def norm_entry_def sample_row_def assigned_project_def)
  have rep: "map ne_name (fst (replay sample_rows None sample_ops)) = [''bar'', ''fooBaz'']"
    by (simp add: replay_def sample_ops_def sample_rows_def replaced_def row_view_def row_entry_def
        declaration_entry_def norm_entry_def sample_row_def assigned_project_def)
  obtain t where "run_history sample_rows None sample_ops = Some t" "table_abs t = replay sample_rows None sample_ops"
      "nt_active_len t = length (fst (replay sample_rows None sample_ops))"
    using name_table_history [OF fit ok] by blast
  moreover have "length (fst (replay sample_rows None sample_ops)) = 2" using rep by (metis length_map length_Cons list.size(3) numeral_2_eq_2)
  moreover have "active_entries t = fst (table_abs t)" by (simp add: table_abs_def)
  ultimately show ?thesis using fit ok rep by auto
qed

text \<open>A built table for the examples of the search theories.\<close>

lemma sample_table:
  assumes "length rows \<le> 100"
  obtains t where "build_from_declaration_rows rows None = Some t" "table_ok t"
    "table_abs t = (map (row_view None) rows, [])"
  using history_refines [of rows "[]" None] assms
  by (auto simp: run_history_def replay_def entries_fit_def TOKENS_PER_NAME_def split: Option.bind_splits)

end
