(* ===== verification/Name_Search.thy ===== *)
theory Name_Search
  imports Name_Replay
begin

text \<open>
  Searching the name table: the prefix range and the ranked, scoped, pooled and exact searches of
  \<open>src/crates/fossilsense/src/query/name_search.rs\<close>, with \<open>RankedNameHit\<close>, \<open>ScoredCandidate\<close> and
  \<open>CompletionScope\<close> of \<open>query.rs\<close>. \<open>select_nth_unstable_by\<close> followed by a stable sort is modelled by
  the stable sort and a cut: which of several candidates that compare equal survive the cut is left
  open by the code.
\<close>

section \<open>Vocabulary\<close>

record ranked_name_hit =
  rh_id :: int
  rh_score :: int
  rh_tier :: scope_tier
  rh_base_match :: int
  rh_name_len :: nat
  rh_name :: string
  rh_kind :: symbol_kind
  rh_role :: symbol_role
  rh_semantic_family :: semantic_family
  rh_project_key :: "project_key option"

record scored_candidate =
  sd_score :: int
  sd_name_len :: nat
  sd_index :: nat
  sd_tier :: scope_tier
  sd_base_match :: int

record completion_scope =
  cs_current_path :: "string option"
  cs_reach :: reach_scope
  cs_direct_external_files :: "string set"

definition completion_resolve_context :: "completion_scope \<Rightarrow> resolve_context" where
  "completion_resolve_context s =
     \<lparr> rx_current_path = cs_current_path s, rx_reach = Some (cs_reach s),
       rx_direct_external_files = Some (cs_direct_external_files s) \<rparr>"

definition SHORT_PREFIX_MIN_LEN :: nat where "SHORT_PREFIX_MIN_LEN = 3"
definition SHORT_PREFIX_MIN_SCORE :: int where "SHORT_PREFIX_MIN_SCORE = 650"

definition min_score_for :: "string \<Rightarrow> int" where
  "min_score_for needle = (if length needle < SHORT_PREFIX_MIN_LEN then SHORT_PREFIX_MIN_SCORE else 0)"

section \<open>Prefix candidates\<close>

definition extend_prefix_matches ::
  "name_table \<Rightarrow> name_segment \<Rightarrow> nat \<Rightarrow> string \<Rightarrow> semantic_family option \<Rightarrow> nat list" where
  "extend_prefix_matches t s offset needle family =
     concat (map (\<lambda>slot.
       let order = at_slot (ns_sorted_by_family s) slot;
           start = partition_point (\<lambda>i. ne_lower (segment_entry s i) < needle) order
       in filter (is_active_index t) (map ((+) offset)
            (takeWhile (\<lambda>i. starts_with (ne_lower (segment_entry s i)) needle) (drop start order))))
       (semantic_family_slots family))"

definition prefix_order :: "name_table \<Rightarrow> nat \<Rightarrow> nat \<Rightarrow> ordering" where
  "prefix_order t l r =
     then_with (cmp_of (ne_lower (table_entry t l)) (ne_lower (table_entry t r)))
       (cmp_of (ne_name (table_entry t l)) (ne_name (table_entry t r)))"

definition prefix_candidates_filtered :: "name_table \<Rightarrow> string \<Rightarrow> semantic_family option \<Rightarrow> nat list" where
  "prefix_candidates_filtered t needle family =
     (if needle = [] then []
      else sort_by (prefix_order t)
        (extend_prefix_matches t (nt_base t) 0 needle family @
         concat (map (\<lambda>d. extend_prefix_matches t (nt_deltas t ! d) (nt_delta_offsets t ! d) needle family)
           [0..<length (nt_deltas t)])))"

definition prefix_candidates :: "name_table \<Rightarrow> string \<Rightarrow> nat list" where
  "prefix_candidates t needle = prefix_candidates_filtered t needle None"

section \<open>Scoring and ranking\<close>

definition scored_of :: "name_table \<Rightarrow> resolve_context option \<Rightarrow> nat \<Rightarrow> int \<Rightarrow> scored_candidate" where
  "scored_of t ctx i base =
     (let e = table_entry t i;
          tier = scope_tier_of (ne_path e) (ne_external e) (directly_included_for t e) ctx;
          loc = locality (ne_path e) (Option.bind ctx rx_current_path)
      in \<lparr> sd_score = pack_score tier base loc, sd_name_len = length (ne_name e), sd_index = i,
           sd_tier = tier, sd_base_match = base \<rparr>)"

type_synonym scan = "scored_candidate list \<times> nat list"

definition consider_entry :: "name_table \<Rightarrow> string \<Rightarrow> int \<Rightarrow> resolve_context option \<Rightarrow> nat \<Rightarrow> scan \<Rightarrow> scan" where
  "consider_entry t needle min_score ctx i st =
     (let (scored, pool) = st; e = table_entry t i
      in if \<not> is_active_index t i then (scored, pool)
         else case score_match needle (ne_name e) (ne_lower e) of
           None \<Rightarrow> (scored, pool)
         | Some base \<Rightarrow>
             if base < min_score then (scored, pool @ [i])
             else (scored @ [scored_of t ctx i base], pool @ [i]))"

definition scored_order :: "name_table \<Rightarrow> scored_candidate \<Rightarrow> scored_candidate \<Rightarrow> ordering" where
  "scored_order t a b =
     (let x = table_entry t (sd_index a); y = table_entry t (sd_index b)
      in then_with (then_with (then_with (then_with (then_with
           (cmp_of (sd_score b) (sd_score a))
           (cmp_of (sd_name_len a) (sd_name_len b)))
           (cmp_of (ne_name x) (ne_name y)))
           (cmp_of (completion_role_recall_priority (ne_role y)) (completion_role_recall_priority (ne_role x))))
           (cmp_of (ne_path x) (ne_path y)))
           (cmp_of (ne_id x) (ne_id y)))"

definition sort_scored :: "name_table \<Rightarrow> scored_candidate list \<Rightarrow> scored_candidate list" where
  "sort_scored t scored = sort_by (scored_order t) scored"

definition top_scored :: "scored_candidate list \<Rightarrow> nat \<Rightarrow> name_table \<Rightarrow> scored_candidate list" where
  "top_scored scored limit t =
     (if limit = 0 then []
      else if length scored > limit then take limit (sort_scored t scored)
      else sort_scored t scored)"

definition hit_of :: "name_table \<Rightarrow> scored_candidate \<Rightarrow> ranked_name_hit" where
  "hit_of t c =
     (let e = table_entry t (sd_index c)
      in \<lparr> rh_id = ne_id e, rh_score = sd_score c, rh_tier = sd_tier c, rh_base_match = sd_base_match c,
           rh_name_len = sd_name_len c, rh_name = ne_name e, rh_kind = ne_kind e, rh_role = ne_role e,
           rh_semantic_family = ne_semantic_family e, rh_project_key = ne_project_key e \<rparr>)"

definition scored_to_hits :: "name_table \<Rightarrow> scored_candidate list \<Rightarrow> ranked_name_hit list" where
  "scored_to_hits t scored = map (hit_of t) scored"

definition rank_scored :: "name_table \<Rightarrow> scored_candidate list \<Rightarrow> nat \<Rightarrow> ranked_name_hit list" where
  "rank_scored t scored limit = scored_to_hits t (top_scored scored limit t)"

definition rank_indices ::
  "name_table \<Rightarrow> string \<Rightarrow> nat \<Rightarrow> resolve_context option \<Rightarrow> nat list \<Rightarrow> ranked_name_hit list" where
  "rank_indices t needle limit ctx candidates =
     rank_scored t (fst (fold (consider_entry t needle 0 ctx) candidates ([], []))) limit"

section \<open>Searches\<close>

definition search_ranked_scoped_pooled ::
  "name_table \<Rightarrow> string \<Rightarrow> nat \<Rightarrow> completion_scope option \<Rightarrow> nat list option
   \<Rightarrow> ranked_name_hit list \<times> nat list" where
  "search_ranked_scoped_pooled t query limit scope prior_pool =
     (let ctx = map_option completion_resolve_context scope; query = str_trim query
      in if query = [] then
           (scored_to_hits t (top_scored (map (\<lambda>i. scored_of t ctx i 0) (active_indices t)) limit t), [])
         else
           (let needle = to_ascii_lowercase query;
                indices = (case prior_pool of Some indices \<Rightarrow> indices | None \<Rightarrow> active_indices t);
                (scored, pool) = fold (consider_entry t needle (min_score_for needle) ctx) indices ([], [])
            in (rank_scored t scored limit, pool)))"

definition search_ranked_scoped ::
  "name_table \<Rightarrow> string \<Rightarrow> nat \<Rightarrow> completion_scope option \<Rightarrow> ranked_name_hit list" where
  "search_ranked_scoped t query limit scope = fst (search_ranked_scoped_pooled t query limit scope None)"

definition search_ranked :: "name_table \<Rightarrow> string \<Rightarrow> nat \<Rightarrow> ranked_name_hit list" where
  "search_ranked t query limit =
     (let trimmed = str_trim query;
          needle = to_ascii_lowercase trimmed;
          candidates = prefix_candidates t needle
      in if trimmed \<noteq> [] \<and> limit > 0 \<and> length candidates \<ge> limit
         then rank_indices t needle limit None candidates
         else search_ranked_scoped t query limit None)"

definition search_ids :: "name_table \<Rightarrow> string \<Rightarrow> nat \<Rightarrow> int list" where
  "search_ids t query limit = map rh_id (search_ranked t query limit)"

definition exact_name_hits_scoped_filtered ::
  "name_table \<Rightarrow> string \<Rightarrow> nat \<Rightarrow> completion_scope option \<Rightarrow> semantic_family option \<Rightarrow> ranked_name_hit list" where
  "exact_name_hits_scoped_filtered t name limit scope family =
     (if name = [] \<or> limit = 0 then []
      else
        let needle = to_ascii_lowercase name;
            indices = filter (\<lambda>i. ne_lower (table_entry t i) = needle \<and>
                (family = None \<or> family = Some (ne_semantic_family (table_entry t i))))
              (prefix_candidates_filtered t needle family)
        in rank_indices t needle limit (map_option completion_resolve_context scope) indices)"

definition table_len :: "name_table \<Rightarrow> nat" where
  "table_len t = nt_active_len t"

section \<open>Coloring counts\<close>

definition colorable_kind :: "symbol_kind \<Rightarrow> string option" where
  "colorable_kind kind =
     (case kind of MacroSymbol \<Rightarrow> Some ''macro'' | TypeSymbol \<Rightarrow> Some ''type''
      | EnumConstantSymbol \<Rightarrow> Some ''enum_constant'' | _ \<Rightarrow> None)"

definition coloring_context :: "name_table \<Rightarrow> completion_scope option \<Rightarrow> resolve_context" where
  "coloring_context t scope =
     (case scope of
        Some s \<Rightarrow> completion_resolve_context s
      | None \<Rightarrow> \<lparr> rx_current_path = None, rx_reach = Some (nt_all_workspace_reach t),
                   rx_direct_external_files = None \<rparr>)"

type_synonym kind_counts = "(string, (string, nat) hmap) hmap"

definition count_kind ::
  "name_table \<Rightarrow> string set \<Rightarrow> resolve_context \<Rightarrow> semantic_family option \<Rightarrow> nat \<Rightarrow> kind_counts \<Rightarrow> kind_counts" where
  "count_kind t names ctx family i counts =
     (let e = table_entry t i
      in if family \<noteq> None \<and> family \<noteq> Some (ne_semantic_family e) then counts
         else case colorable_kind (ne_kind e) of
           None \<Rightarrow> counts
         | Some kind \<Rightarrow>
             if ne_name e \<notin> names then counts
             else if \<not> coloring_scope_allows (ne_path e) (ne_external e) (directly_included_for t e) (Some ctx)
             then counts
             else entry_modify (ne_name e) [] (entry_modify kind 0 Suc) counts)"

definition colorable_kind_counts_filtered ::
  "name_table \<Rightarrow> string set \<Rightarrow> completion_scope option \<Rightarrow> semantic_family option \<Rightarrow> kind_counts" where
  "colorable_kind_counts_filtered t names scope family =
     (if names = {} then []
      else fold (count_kind t names (coloring_context t scope) family) (active_indices t) [])"

end
