(* ===== verification/Name_Prefix.thy ===== *)
theory Name_Prefix
  imports Name_Search
begin

text \<open>
  The prefix range: a binary search and a scan that stops at the first name without the prefix
  find, in every segment, exactly the active entries a full scan would classify as exact or prefix
  matches.
\<close>

section \<open>Prefixes in lexical order\<close>

lemma prefix_not_less: "prefix needle x \<Longrightarrow> \<not> x < (needle :: string)"
proof (induction needle arbitrary: x)
  case (Cons c cs)
  then show ?case by (cases x) auto
qed simp

lemma prefix_block:
  "(needle :: string) \<le> x \<Longrightarrow> x \<le> y \<Longrightarrow> prefix needle y \<Longrightarrow> prefix needle x"
proof (induction needle arbitrary: x y)
  case (Cons c cs)
  then show ?case by (cases x; cases y) auto
qed simp

lemma prefix_range:
  fixes f :: "'a \<Rightarrow> string"
  assumes "sorted_wrt (\<lambda>a b. f a \<le> f b) xs"
  shows "takeWhile (\<lambda>i. prefix needle (f i)) (drop (partition_point (\<lambda>i. f i < needle) xs) xs) =
    filter (\<lambda>i. prefix needle (f i)) xs"
proof -
  have after: "takeWhile (\<lambda>i. prefix needle (f i)) ys = filter (\<lambda>i. prefix needle (f i)) ys"
    if "sorted_wrt (\<lambda>a b. f a \<le> f b) ys" "\<forall>y \<in> set ys. needle \<le> f y" for ys
    using that
  proof (induction ys)
    case (Cons y ys)
    have "filter (\<lambda>i. prefix needle (f i)) ys = []" if "\<not> prefix needle (f y)"
      using that Cons.prems prefix_block [of needle "f y"] by (auto simp: filter_empty_conv)
    with Cons show ?case by auto
  qed simp
  have drop: "drop (partition_point P xs) xs = dropWhile P xs" for P
    by (simp add: partition_point_def dropWhile_eq_drop)
  have "needle \<le> f y" if "y \<in> set (dropWhile (\<lambda>i. f i < needle) xs)" for y
  proof (cases "dropWhile (\<lambda>i. f i < needle) xs")
    case (Cons z zs)
    then have z: "\<not> f z < needle" by (metis hd_dropWhile list.distinct(1) list.sel(1))
    have "sorted_wrt (\<lambda>a b. f a \<le> f b) (z # zs)"
      using assms Cons by (metis drop sorted_wrt_drop)
    with that Cons z show ?thesis by auto
  qed (use that in \<open>metis empty_iff list.set(1)\<close>)
  moreover have "sorted_wrt (\<lambda>a b. f a \<le> f b) (dropWhile (\<lambda>i. f i < needle) xs)"
    using assms by (metis drop sorted_wrt_drop)
  ultimately have "takeWhile (\<lambda>i. prefix needle (f i)) (dropWhile (\<lambda>i. f i < needle) xs) =
      filter (\<lambda>i. prefix needle (f i)) (dropWhile (\<lambda>i. f i < needle) xs)"
    by (intro after) blast+
  also have "\<dots> = filter (\<lambda>i. prefix needle (f i)) xs"
  proof -
    have "filter (\<lambda>i. prefix needle (f i)) (takeWhile (\<lambda>i. f i < needle) xs) = []"
      by (auto simp: filter_empty_conv dest!: set_takeWhileD prefix_not_less)
    then show ?thesis by (metis append_Nil filter_append takeWhile_dropWhile_id)
  qed
  finally show ?thesis by (simp add: drop)
qed

section \<open>Segments inside a table\<close>

lemma delta_entry:
  assumes "layout_ok t" "d < length (nt_deltas t)" "i < length (ns_entries (nt_deltas t ! d))"
  shows "nt_delta_offsets t ! d + i < nt_slot_len t \<and>
    table_entry t (nt_delta_offsets t ! d + i) = segment_entry (nt_deltas t ! d) i"
proof -
  let ?b = "length (ns_entries (nt_base t))"
  let ?f = "\<lambda>d. map (Pair (Some d)) (segment_view (nt_deltas t ! d))"
  let ?fs = "map ?f [0..<length (nt_deltas t)]"
  have off: "nt_delta_offsets t ! d = ?b + sum_list (take d (delta_sizes t))"
    using assms(1,2) by (simp add: layout_ok_def)
  have sizes: "map length (take d ?fs) = take d (delta_sizes t)"
    using assms(2) by (intro nth_equalityI) (auto simp: delta_sizes_def)
  have "sum_list (take d (delta_sizes t)) + delta_sizes t ! d \<le> sum_list (delta_sizes t)"
    using sum_list_take_mono [of "Suc d" "length (delta_sizes t)" "delta_sizes t"] assms(2)
    by (simp add: sum_list_take_Suc delta_sizes_def)
  then have lt: "nt_delta_offsets t ! d + i < nt_slot_len t"
    using assms by (simp add: off layout_ok_def delta_sizes_def)
  have "concat ?fs ! (sum_list (map length (take d ?fs)) + i) = ?fs ! d ! i"
    by (rule nth_concat) (use assms in simp_all)
  then have "table_rows t ! (nt_delta_offsets t ! d + i) = (Some d, segment_entry (nt_deltas t ! d) i)"
    using assms(2,3) by (simp add: table_rows_def nth_append off sizes)
  with lt table_rows_nth [OF assms(1) lt] show ?thesis by simp
qed

lemma slots_concat:
  assumes "layout_ok t"
  shows "[0..<nt_slot_len t] = [0..<length (ns_entries (nt_base t))] @
    concat (map (\<lambda>d. map ((+) (nt_delta_offsets t ! d)) [0..<length (ns_entries (nt_deltas t ! d))]) [0..<length (nt_deltas t)])"
proof -
  let ?b = "length (ns_entries (nt_base t))"
  have "concat (map (\<lambda>d. map ((+) (b + sum_list (take d ls))) [0..<ls ! d]) [0..<length ls]) = [b..<b + sum_list ls]"
    for b and ls :: "nat list"
  proof (induction ls rule: rev_induct)
    case (snoc l ls)
    let ?F = "\<lambda>ls d. map ((+) (b + sum_list (take d ls))) [0..<ls ! d]"
    have 1: "map (?F (ls @ [l])) [0..<length ls] = map (?F ls) [0..<length ls]"
      by (rule map_cong) (simp_all add: nth_append)
    have 2: "?F (ls @ [l]) (length ls) = [b + sum_list ls..<b + sum_list ls + l]"
      by (rule nth_equalityI) simp_all
    have "concat (map (?F (ls @ [l])) [0..<length (ls @ [l])]) =
        concat (map (?F (ls @ [l])) [0..<length ls]) @ ?F (ls @ [l]) (length ls)"
      by (simp only: length_append_singleton upt_Suc_append le0 map_append concat_append) simp
    also have "\<dots> = [b..<b + sum_list ls] @ [b + sum_list ls..<b + sum_list ls + l]"
      unfolding 1 2 snoc ..
    also have "\<dots> = [b..<b + sum_list (ls @ [l])]"
      using upt_add_eq_append [of b "b + sum_list ls" l] by (simp add: add.assoc)
    finally show ?case .
  qed simp
  note cat = this [of ?b "delta_sizes t"]
  have n: "length (delta_sizes t) = length (nt_deltas t)" by (simp add: delta_sizes_def)
  have "concat (map (\<lambda>d. map ((+) (nt_delta_offsets t ! d)) [0..<length (ns_entries (nt_deltas t ! d))]) [0..<length (nt_deltas t)]) =
      concat (map (\<lambda>d. map ((+) (?b + sum_list (take d (delta_sizes t)))) [0..<delta_sizes t ! d]) [0..<length (nt_deltas t)])"
    using assms by (intro arg_cong [where f = concat] map_cong refl) (auto simp: layout_ok_def delta_sizes_def)
  also have "\<dots> = [?b..<nt_slot_len t]" using cat assms unfolding n by (simp add: layout_ok_def)
  finally have "concat (map (\<lambda>d. map ((+) (nt_delta_offsets t ! d)) [0..<length (ns_entries (nt_deltas t ! d))]) [0..<length (nt_deltas t)]) =
      [?b..<nt_slot_len t]" .
  then show ?thesis
    using assms upt_add_eq_append [of 0 ?b "sum_list (delta_sizes t)"] by (simp add: layout_ok_def)
qed

section \<open>The candidates\<close>

definition family_ok :: "semantic_family option \<Rightarrow> name_entry \<Rightarrow> bool" where
  "family_ok family e \<longleftrightarrow> (case family of None \<Rightarrow> True | Some f \<Rightarrow> ne_semantic_family e = f)"

definition prefix_match :: "string \<Rightarrow> semantic_family option \<Rightarrow> name_entry \<Rightarrow> bool" where
  "prefix_match needle family e \<longleftrightarrow> prefix needle (ne_lower e) \<and> family_ok family e"

lemma segment_order_sorted:
  "sorted_wrt (\<lambda>a b. ne_lower (segment_entry s a) \<le> ne_lower (segment_entry s b)) (segment_order s)"
proof -
  have "sorted_cmp (lexical_cmp (ns_entries s) (ns_names s)) (segment_order s)"
    unfolding segment_order_def by (rule lexical.sorted_sort_by)
  then show ?thesis unfolding sorted_cmp_def
    by (rule sorted_wrt_mono_rel [rotated])
      (auto simp: lexical_cmp_def name_cmp_def entry_name_def segment_entry_def Let_def not_less [symmetric])
qed

lemma segment_prefix_slot:
  assumes "segment_ok s" "slot < 2"
  shows "takeWhile (\<lambda>i. starts_with (ne_lower (segment_entry s i)) needle)
      (drop (partition_point (\<lambda>i. ne_lower (segment_entry s i) < needle) (at_slot (ns_sorted_by_family s) slot))
        (at_slot (ns_sorted_by_family s) slot)) =
    filter (\<lambda>i. prefix needle (ne_lower (segment_entry s i)) \<and>
        semantic_family_slot (ne_semantic_family (segment_entry s i)) = slot) (segment_order s)"
proof -
  have eq: "at_slot (ns_sorted_by_family s) slot = filter (\<lambda>i. entry_slot (ns_entries s ! i) = slot) (segment_order s)"
    using assms by (simp add: segment_ok_def)
  have "sorted_wrt (\<lambda>a b. ne_lower (segment_entry s a) \<le> ne_lower (segment_entry s b)) (at_slot (ns_sorted_by_family s) slot)"
    unfolding eq by (rule sorted_wrt_filter [OF segment_order_sorted])
  from prefix_range [OF this, of needle] show ?thesis
    by (simp add: starts_with_def eq conj_commute entry_slot_def segment_entry_def Let_def)
qed

lemma extend_prefix_mset:
  assumes "segment_ok s" "\<And>i. i < length (ns_entries s) \<Longrightarrow> table_entry t (offset + i) = segment_entry s i"
  shows "mset (extend_prefix_matches t s offset needle family) =
    mset (filter (\<lambda>i. is_active_index t i \<and> prefix_match needle family (table_entry t i))
      (map ((+) offset) [0..<length (ns_entries s)]))"
proof -
  let ?P = "\<lambda>slot i. prefix needle (ne_lower (segment_entry s i)) \<and>
      semantic_family_slot (ne_semantic_family (segment_entry s i)) = slot"
  let ?act = "\<lambda>i. is_active_index t (offset + i)"
  have slot: "mset (filter (is_active_index t) (map ((+) offset) (filter (?P slot) (segment_order s)))) =
      image_mset ((+) offset) (filter_mset (\<lambda>i. ?act i \<and> ?P slot i) (mset [0..<length (ns_entries s)]))" for slot
  proof -
    have "filter (is_active_index t) (map ((+) offset) (filter (?P slot) (segment_order s))) =
        map ((+) offset) (filter (\<lambda>i. ?act i \<and> ?P slot i) (segment_order s))"
      by (simp add: filter_map comp_def conj_commute)
    then show ?thesis using mset_segment_order [of s] by simp
  qed
  have slots: "slot < 2" if "slot \<in> set (semantic_family_slots family)" for slot
    using that by (cases family rule: semantic_family_slots.cases) auto
  have ext: "extend_prefix_matches t s offset needle family =
      concat (map (\<lambda>slot. filter (is_active_index t) (map ((+) offset) (filter (?P slot) (segment_order s))))
        (semantic_family_slots family))"
    unfolding extend_prefix_matches_def Let_def
    by (intro arg_cong [where f = concat] map_cong refl) (simp add: segment_prefix_slot [OF assms(1) slots])
  have all: "filter_mset (\<lambda>i. ?act i \<and> prefix_match needle family (segment_entry s i)) M =
      (case family of None \<Rightarrow> filter_mset (\<lambda>i. ?act i \<and> ?P 0 i) M + filter_mset (\<lambda>i. ?act i \<and> ?P 1 i) M
       | Some f \<Rightarrow> filter_mset (\<lambda>i. ?act i \<and> ?P (semantic_family_slot f) i) M)" for M
  proof -
    have sl: "semantic_family_slot f = semantic_family_slot g \<longleftrightarrow> f = g" for f g by (cases f; cases g) simp_all
    have two: "semantic_family_slot f = 0 \<or> semantic_family_slot f = 1" for f by (cases f) simp_all
    show ?thesis
    proof (cases family)
      case None
      have "filter_mset (\<lambda>i. A i \<and> B i \<and> f i = 0) M + filter_mset (\<lambda>i. A i \<and> B i \<and> f i = 1) M = filter_mset (\<lambda>i. A i \<and> B i) M"
        if "\<And>i. f i = 0 \<or> f i = (1::nat)" for f A B
      proof -
        have "f i = 1 \<longleftrightarrow> f i \<noteq> 0" for i using that [of i] by auto
        then show ?thesis by (induction M) auto
      qed
      from this [of "\<lambda>i. semantic_family_slot (ne_semantic_family (segment_entry s i))" ?act] two
      show ?thesis by (simp add: None prefix_match_def family_ok_def)
    qed (auto simp: prefix_match_def family_ok_def sl intro!: filter_mset_cong)
  qed
  have "mset (filter (\<lambda>i. is_active_index t i \<and> prefix_match needle family (table_entry t i))
      (map ((+) offset) [0..<length (ns_entries s)])) =
      image_mset ((+) offset) (filter_mset (\<lambda>i. ?act i \<and> prefix_match needle family (segment_entry s i))
        (mset [0..<length (ns_entries s)]))"
  proof -
    have "filter (\<lambda>i. is_active_index t i \<and> prefix_match needle family (table_entry t i))
        (map ((+) offset) [0..<length (ns_entries s)]) =
        map ((+) offset) (filter (\<lambda>i. ?act i \<and> prefix_match needle family (segment_entry s i)) [0..<length (ns_entries s)])"
      unfolding filter_map using assms(2) by (intro arg_cong [where f = "map _"] filter_cong) auto
    then show ?thesis by (simp only: mset_map mset_filter)
  qed
  also have "\<dots> = mset (extend_prefix_matches t s offset needle family)"
    unfolding ext all using slot by (cases family rule: semantic_family_slots.cases) simp_all
  finally show ?thesis by simp
qed

lemma prefix_candidates_perm:
  assumes "table_ok t" "needle \<noteq> []"
  shows "mset (prefix_candidates_filtered t needle family) =
    mset (filter (\<lambda>i. prefix_match needle family (table_entry t i)) (active_indices t))"
proof -
  let ?P = "\<lambda>i. is_active_index t i \<and> prefix_match needle family (table_entry t i)"
  let ?n = "length (nt_deltas t)"
  have lay: "layout_ok t" using assms(1) by (simp add: table_ok_def)
  have base: "mset (extend_prefix_matches t (nt_base t) 0 needle family) =
      mset (filter ?P [0..<length (ns_entries (nt_base t))])"
    using extend_prefix_mset [of "nt_base t" t 0 needle family] assms(1)
    by (simp add: table_ok_def view_ok_def table_entry_def map_idI)
  have delta: "mset (extend_prefix_matches t (nt_deltas t ! d) (nt_delta_offsets t ! d) needle family) =
      mset (filter ?P (map ((+) (nt_delta_offsets t ! d)) [0..<length (ns_entries (nt_deltas t ! d))]))" if "d < ?n" for d
    by (rule extend_prefix_mset) (use assms(1) that delta_entry [OF lay that] in \<open>auto simp: table_ok_def view_ok_def\<close>)
  have cat: "mset (concat (map f ds)) = mset (concat (map g ds))" if "\<And>d. d \<in> set ds \<Longrightarrow> mset (f d) = mset (g d)"
    for f g :: "nat \<Rightarrow> nat list" and ds using that by (induction ds) auto
  have "mset (prefix_candidates_filtered t needle family) = mset (filter ?P [0..<nt_slot_len t])"
    unfolding slots_concat [OF lay] filter_append mset_append filter_concat map_map
    using assms(2) base cat [OF delta, of "[0..<?n]"]
    by (simp add: prefix_candidates_filtered_def comp_def)
  then show ?thesis by (simp add: active_indices_def conj_commute)
qed

interpretation prefix_sort: lawful_cmp "prefix_order t" for t
  unfolding prefix_order_def by (intro lawful_cmp_intros)

lemma prefix_candidates_sorted: "sorted_cmp (prefix_order t) (prefix_candidates_filtered t needle family)"
  using prefix_sort.sorted_sort_by by (simp add: prefix_candidates_filtered_def sorted_cmp_def)

end
