(* ===== verification/Name_Ranking.thy ===== *)
theory Name_Ranking
  imports Name_Prefix
begin

text \<open>
  What a search returns. The specification ranks a plain list of declarations; a search of a name
  table is that specification on the table's active declarations, so the history of the table, its
  segments and its compactions do not show in the result. The searches that avoid a full scan, the
  pool of an earlier query and the prefix range, are compared with the full scan.
\<close>

section \<open>Sorting facts\<close>

lemma insert_by_map: "map f (insert_by (\<lambda>x y. c (f x) (f y)) x xs) = insert_by c (f x) (map f xs)"
  by (induction xs) auto

lemma sort_by_map: "map f (sort_by (\<lambda>x y. c (f x) (f y)) xs) = sort_by c (map f xs)"
  by (induction xs) (simp_all add: insert_by_map)

context lawful_cmp begin

text \<open>A list sorts into the sorted parts of a split that the order respects.\<close>

lemma sort_by_split:
  assumes "\<And>x y. x \<in> set xs \<Longrightarrow> y \<in> set xs \<Longrightarrow> P x \<Longrightarrow> \<not> P y \<Longrightarrow> c x y = Less"
  shows "sort_by c xs = sort_by c (filter P xs) @ sort_by c (filter (\<lambda>x. \<not> P x) xs)"
proof (rule sort_by_unique)
  show "sorted_cmp c (sort_by c (filter P xs) @ sort_by c (filter (\<lambda>x. \<not> P x) xs))"
    using sorted_sort_by [of "filter P xs"] sorted_sort_by [of "filter (\<lambda>x. \<not> P x) xs"] assms
    by (auto simp: sorted_cmp_def sorted_wrt_append)
  fix z
  let ?E = "\<lambda>y. c y z = Equal"
  have "\<not> (\<exists>x \<in> set xs. \<exists>y \<in> set xs. P x \<and> \<not> P y \<and> ?E x \<and> ?E y)"
  proof
    assume "\<exists>x \<in> set xs. \<exists>y \<in> set xs. P x \<and> \<not> P y \<and> ?E x \<and> ?E y"
    then obtain x y where "c x y = Less" "c x z = Equal" "c y z = Equal" using assms by blast
    then have "c y z \<noteq> Greater" "c z x \<noteq> Greater" "c y x = Greater"
      using cmp_equal_sym [of x z] cmp_flip [of x y] by simp_all
    with cmp_trans [of y z x] show False by blast
  qed
  then have "filter ?E (filter P xs) = [] \<or> filter ?E (filter (\<lambda>x. \<not> P x) xs) = []"
    unfolding filter_filter filter_empty_conv by blast
  moreover have "filter ?E (filter P xs) = filter ?E xs" if "filter ?E (filter (\<lambda>x. \<not> P x) xs) = []"
    using that unfolding filter_filter by (intro filter_cong) (auto simp: filter_empty_conv)
  moreover have "filter ?E (filter (\<lambda>x. \<not> P x) xs) = filter ?E xs" if "filter ?E (filter P xs) = []"
    using that unfolding filter_filter by (intro filter_cong) (auto simp: filter_empty_conv)
  ultimately show "filter ?E (sort_by c (filter P xs) @ sort_by c (filter (\<lambda>x. \<not> P x) xs)) = filter ?E xs"
    unfolding filter_append stable_sort_by by (elim disjE) (simp_all only: append_Nil append_Nil2 simp_thms)
qed

text \<open>Where the order tells the elements apart, the order of the input does not matter.\<close>

lemma sort_by_perm:
  assumes "mset xs = mset ys" "\<And>x y. x \<in> set xs \<Longrightarrow> y \<in> set xs \<Longrightarrow> c x y = Equal \<Longrightarrow> x = y"
  shows "sort_by c xs = sort_by c ys"
proof (rule stable_unique [OF sorted_sort_by sorted_sort_by])
  fix z
  have set: "set xs = set ys" using assms(1) by (metis set_mset_mset)
  have const: "filter (\<lambda>y. c y z = Equal) zs = replicate (count_list zs x) x"
    if "x \<in> set xs" "c x z = Equal" "set zs \<subseteq> set xs" for x zs
    using that(3)
  proof (induction zs)
    case (Cons w ws)
    have "c w z = Equal \<longleftrightarrow> w = x"
    proof
      assume "c w z = Equal"
      then have "c w x = Equal" using that(2) cmp_equal_sym cmp_trans cmp_flip by (metis ordering.exhaust)
      with assms(2) Cons.prems that(1) show "w = x" by simp
    qed (use that(2) in simp)
    with Cons show ?case by simp
  qed simp
  show "filter (\<lambda>y. c y z = Equal) (sort_by c xs) = filter (\<lambda>y. c y z = Equal) (sort_by c ys)"
    unfolding stable_sort_by
  proof (cases "\<exists>x \<in> set xs. c x z = Equal")
    case True
    then obtain x where "x \<in> set xs" "c x z = Equal" by blast
    with const [of x xs] const [of x ys] set assms(1) show "filter (\<lambda>y. c y z = Equal) xs = filter (\<lambda>y. c y z = Equal) ys"
      by (metis count_mset subset_refl)
  next
    case False
    with set show "filter (\<lambda>y. c y z = Equal) xs = filter (\<lambda>y. c y z = Equal) ys"
      by (metis (mono_tags, lifting) filter_False)
  qed
qed

end

section \<open>Specification of a search\<close>

type_synonym item = "name_entry \<times> int"

definition included :: "(string, bool) hmap \<Rightarrow> name_entry \<Rightarrow> bool" where
  "included ov e =
     (ne_external e \<and> (case map_of ov (ne_path e) of Some b \<Rightarrow> b | None \<Rightarrow> ne_directly_included e))"

definition item_tier :: "(string, bool) hmap \<Rightarrow> resolve_context option \<Rightarrow> item \<Rightarrow> scope_tier" where
  "item_tier ov ctx x = scope_tier_of (ne_path (fst x)) (ne_external (fst x)) (included ov (fst x)) ctx"

definition item_score :: "(string, bool) hmap \<Rightarrow> resolve_context option \<Rightarrow> item \<Rightarrow> int" where
  "item_score ov ctx x =
     pack_score (item_tier ov ctx x) (snd x) (locality (ne_path (fst x)) (Option.bind ctx rx_current_path))"

definition item_order :: "(string, bool) hmap \<Rightarrow> resolve_context option \<Rightarrow> item \<Rightarrow> item \<Rightarrow> ordering" where
  "item_order ov ctx x y =
     then_with (then_with (then_with (then_with (then_with
       (cmp_of (item_score ov ctx y) (item_score ov ctx x))
       (cmp_of (length (ne_name (fst x))) (length (ne_name (fst y)))))
       (cmp_of (ne_name (fst x)) (ne_name (fst y))))
       (cmp_of (completion_role_recall_priority (ne_role (fst y))) (completion_role_recall_priority (ne_role (fst x)))))
       (cmp_of (ne_path (fst x)) (ne_path (fst y))))
       (cmp_of (ne_id (fst x)) (ne_id (fst y)))"

definition item_hit :: "(string, bool) hmap \<Rightarrow> resolve_context option \<Rightarrow> item \<Rightarrow> ranked_name_hit" where
  "item_hit ov ctx x =
     \<lparr> rh_id = ne_id (fst x), rh_score = item_score ov ctx x, rh_tier = item_tier ov ctx x,
       rh_base_match = snd x, rh_name_len = length (ne_name (fst x)), rh_name = ne_name (fst x),
       rh_kind = ne_kind (fst x), rh_role = ne_role (fst x), rh_semantic_family = ne_semantic_family (fst x),
       rh_project_key = ne_project_key (fst x) \<rparr>"

definition match_item :: "string \<Rightarrow> int \<Rightarrow> name_entry \<Rightarrow> item option" where
  "match_item needle min_score e =
     (case score_match needle (ne_name e) (ne_lower e) of
        Some base \<Rightarrow> if base < min_score then None else Some (e, base)
      | None \<Rightarrow> None)"

definition rank_items ::
  "(string, bool) hmap \<Rightarrow> resolve_context option \<Rightarrow> nat \<Rightarrow> item list \<Rightarrow> ranked_name_hit list" where
  "rank_items ov ctx limit items = map (item_hit ov ctx) (take limit (sort_by (item_order ov ctx) items))"

definition search_spec :: "table_spec \<Rightarrow> string \<Rightarrow> nat \<Rightarrow> completion_scope option \<Rightarrow> ranked_name_hit list" where
  "search_spec a query limit scope =
     (let ctx = map_option completion_resolve_context scope; query = str_trim query;
          needle = to_ascii_lowercase query
      in rank_items (snd a) ctx limit
           (if query = [] then map (\<lambda>e. (e, 0)) (fst a)
            else List.map_filter (match_item needle (min_score_for needle)) (fst a)))"

interpretation item_sort: lawful_cmp "item_order ov ctx" for ov ctx
  unfolding item_order_def by (intro lawful_cmp_intros)

section \<open>The searches of a table\<close>

definition item_of :: "name_table \<Rightarrow> scored_candidate \<Rightarrow> item" where
  "item_of t c = (table_entry t (sd_index c), sd_base_match c)"

lemma included_for: "directly_included_for t e = included (nt_direct_include_overrides t) e"
  by (simp add: directly_included_for_def included_def)

text \<open>Candidates that carry the score, tier and length of their entry.\<close>

definition honest :: "name_table \<Rightarrow> resolve_context option \<Rightarrow> scored_candidate \<Rightarrow> bool" where
  "honest t ctx c \<longleftrightarrow> c = scored_of t ctx (sd_index c) (sd_base_match c)"

lemma honest_scored_of [simp]: "honest t ctx (scored_of t ctx i b)"
  by (simp add: honest_def scored_of_def Let_def)

lemma honest_fields:
  assumes "honest t ctx c"
  shows "sd_score c = item_score (nt_direct_include_overrides t) ctx (item_of t c)"
    "sd_tier c = item_tier (nt_direct_include_overrides t) ctx (item_of t c)"
    "sd_name_len c = length (ne_name (table_entry t (sd_index c)))"
proof -
  obtain s n i tr b where c: "c = \<lparr> sd_score = s, sd_name_len = n, sd_index = i, sd_tier = tr, sd_base_match = b \<rparr>"
    by (cases c)
  from assms show "sd_score c = item_score (nt_direct_include_overrides t) ctx (item_of t c)"
    "sd_tier c = item_tier (nt_direct_include_overrides t) ctx (item_of t c)"
    "sd_name_len c = length (ne_name (table_entry t (sd_index c)))"
    by (auto simp: c honest_def scored_of_def item_of_def item_score_def item_tier_def included_for Let_def)
qed

lemma scored_order_item:
  "honest t ctx a \<Longrightarrow> honest t ctx b \<Longrightarrow>
     scored_order t a b = item_order (nt_direct_include_overrides t) ctx (item_of t a) (item_of t b)"
  by (simp add: scored_order_def item_order_def Let_def honest_fields) (simp add: item_of_def)

lemma hit_of_item: "honest t ctx c \<Longrightarrow> hit_of t c = item_hit (nt_direct_include_overrides t) ctx (item_of t c)"
  by (simp add: hit_of_def item_hit_def Let_def honest_fields) (simp add: item_of_def)

lemma insert_by_cong:
  "(\<And>y. y \<in> set ys \<Longrightarrow> c x y = d x y) \<Longrightarrow> insert_by c x ys = insert_by d x ys"
  by (induction ys) auto

lemma sort_by_cong: "(\<And>x y. x \<in> set xs \<Longrightarrow> y \<in> set xs \<Longrightarrow> c x y = d x y) \<Longrightarrow> sort_by c xs = sort_by d xs"
proof (induction xs)
  case (Cons x xs)
  then have "sort_by c xs = sort_by d xs" by simp
  with Cons.prems insert_by_cong [of "sort_by d xs" c x d] show ?case by simp
qed simp

lemma top_scored_take: "top_scored scored limit t = take limit (sort_scored t scored)"
  by (simp add: top_scored_def sort_scored_def)

lemma rank_scored_items:
  assumes "\<forall>c \<in> set scored. honest t ctx c"
  shows "rank_scored t scored limit = rank_items (nt_direct_include_overrides t) ctx limit (map (item_of t) scored)"
proof -
  let ?ov = "nt_direct_include_overrides t"
  have "sort_scored t scored = sort_by (\<lambda>a b. item_order ?ov ctx (item_of t a) (item_of t b)) scored"
    unfolding sort_scored_def using assms scored_order_item by (intro sort_by_cong) blast
  then have "map (item_of t) (sort_scored t scored) = sort_by (item_order ?ov ctx) (map (item_of t) scored)"
    by (simp add: sort_by_map)
  moreover have "map (hit_of t) (take limit (sort_scored t scored)) =
      map (item_hit ?ov ctx) (take limit (map (item_of t) (sort_scored t scored)))"
    using assms hit_of_item by (auto simp: take_map sort_scored_def dest!: in_set_takeD intro!: map_cong)
  ultimately show ?thesis
    by (simp add: rank_scored_def scored_to_hits_def rank_items_def top_scored_take)
qed

definition scored_for :: "name_table \<Rightarrow> string \<Rightarrow> int \<Rightarrow> resolve_context option \<Rightarrow> nat \<Rightarrow> scored_candidate option" where
  "scored_for t needle min_score ctx i =
     map_option (\<lambda>(_, base). scored_of t ctx i base) (match_item needle min_score (table_entry t i))"

definition matches :: "name_table \<Rightarrow> string \<Rightarrow> nat \<Rightarrow> bool" where
  "matches t needle i \<longleftrightarrow> score_match needle (ne_name (table_entry t i)) (ne_lower (table_entry t i)) \<noteq> None"

lemma fold_consider:
  "fold (consider_entry t needle m ctx) is (scored, pool) =
     (scored @ List.map_filter (scored_for t needle m ctx) (filter (is_active_index t) is),
      pool @ filter (\<lambda>i. is_active_index t i \<and> matches t needle i) is)"
proof (induction "is" arbitrary: scored pool)
  case (Cons i "is")
  then show ?case
    by (auto simp: consider_entry_def scored_for_def match_item_def matches_def Let_def List.map_filter_simps
        split: option.splits)
qed (simp add: List.map_filter_simps)

lemma map_filter_map: "List.map_filter f (map g xs) = List.map_filter (f \<circ> g) xs"
  by (simp add: List.map_filter_def filter_map comp_def)

lemma scored_for_items:
  "\<forall>c \<in> set (List.map_filter (scored_for t needle m ctx) is). honest t ctx c"
  "map (item_of t) (List.map_filter (scored_for t needle m ctx) is) =
     List.map_filter (match_item needle m) (map (table_entry t) is)"
proof -
  show "\<forall>c \<in> set (List.map_filter (scored_for t needle m ctx) is). honest t ctx c"
    by (auto simp: set_map_filter_eq scored_for_def)
  show "map (item_of t) (List.map_filter (scored_for t needle m ctx) is) =
     List.map_filter (match_item needle m) (map (table_entry t) is)"
    by (induction "is")
      (auto simp: List.map_filter_simps scored_for_def match_item_def item_of_def scored_of_def Let_def
        split: option.splits)
qed

lemma filter_active_active [simp]: "filter (is_active_index t) (active_indices t) = active_indices t"
  by (simp add: active_indices_def)

lemma search_refines:
  assumes "table_ok t"
  shows "search_ranked_scoped t query limit scope = search_spec (table_abs t) query limit scope"
proof -
  let ?ctx = "map_option completion_resolve_context scope"
  have act: "active_entries t = map (table_entry t) (active_indices t)"
    using assms by (intro active_entries_indices) (simp add: table_ok_def)
  show ?thesis
  proof (cases "str_trim query = []")
    case True
    have "map (item_of t) (map (\<lambda>i. scored_of t ?ctx i 0) (active_indices t)) = map (\<lambda>e. (e, 0)) (active_entries t)"
      by (simp add: act item_of_def scored_of_def Let_def)
    with rank_scored_items [of "map (\<lambda>i. scored_of t ?ctx i 0) (active_indices t)" t ?ctx limit] True show ?thesis
      by (simp add: search_ranked_scoped_def search_ranked_scoped_pooled_def search_spec_def rank_scored_def table_abs_def)
  next
    case False
    with rank_scored_items [OF scored_for_items(1), of t "to_ascii_lowercase (str_trim query)" _ ?ctx "active_indices t" limit]
    show ?thesis
      by (simp add: search_ranked_scoped_def search_ranked_scoped_pooled_def search_spec_def fold_consider
          scored_for_items(2) act table_abs_def Let_def)
  qed
qed

end
