(* ===== verification/Name_Shortcuts.thy ===== *)
theory Name_Shortcuts
  imports Name_Ranking
begin

text \<open>
  The shortcuts of the name search against the full scan: the candidate pool of a shorter query,
  the prefix range of \<open>search_ranked\<close>, and the exact-name range.
\<close>

section \<open>Narrowing\<close>

lemma pool_spec:
  "str_trim query \<noteq> [] \<Longrightarrow>
     snd (search_ranked_scoped_pooled t query limit scope None) =
       filter (matches t (to_ascii_lowercase (str_trim query))) (active_indices t)"
proof -
  have "filter (\<lambda>i. is_active_index t i \<and> P i) (active_indices t) = filter P (active_indices t)" for P
    by (simp add: active_indices_def)
  then show "str_trim query \<noteq> [] \<Longrightarrow> ?thesis"
    by (simp add: search_ranked_scoped_pooled_def fold_consider Let_def)
qed

lemma matches_extend: "prefix needle needle' \<Longrightarrow> matches t needle' i \<Longrightarrow> matches t needle i"
  by (metis matches_def prefixE score_match_extend)

lemma scored_for_matches: "scored_for t needle m ctx i \<noteq> None \<Longrightarrow> matches t needle i"
  by (auto simp: scored_for_def match_item_def matches_def split: option.splits)

lemma map_filter_filter: "(\<And>x. f x \<noteq> None \<Longrightarrow> P x) \<Longrightarrow> List.map_filter f (filter P xs) = List.map_filter f xs"
  by (induction xs) (auto simp: List.map_filter_simps split: option.splits)

lemma narrowed_scan:
  assumes "prefix needle needle'"
  shows "fold (consider_entry t needle' m ctx) (filter (matches t needle) (active_indices t)) ([], []) =
    fold (consider_entry t needle' m ctx) (active_indices t) ([], [])"
proof -
  have ext: "matches t needle i" if "matches t needle' i" for i using matches_extend [OF assms that] .
  have "List.map_filter (scored_for t needle' m ctx) (filter (matches t needle) xs) =
      List.map_filter (scored_for t needle' m ctx) xs" for xs
    using ext scored_for_matches by (intro map_filter_filter) blast
  moreover have "filter (\<lambda>i. is_active_index t i \<and> matches t needle' i) (filter (matches t needle) xs) =
      filter (\<lambda>i. is_active_index t i \<and> matches t needle' i) xs" for xs
    using ext by (induction xs) auto
  moreover have "filter (is_active_index t) (filter (matches t needle) xs) = filter (matches t needle) (filter (is_active_index t) xs)" for xs
    by (simp add: conj_commute)
  ultimately show ?thesis unfolding fold_consider by (simp only: filter_active_active append_Nil)
qed

text \<open>C7. Completion may narrow: when the new query extends the query of an earlier search (after
  trimming and lowering), searching only the pool that search returned gives the hits and the pool of
  a search of the whole table, whatever limit and scope either request has; so a chain of keystrokes
  may keep narrowing.\<close>

theorem narrowed_search:
  assumes "str_trim query \<noteq> []"
    "prefix (to_ascii_lowercase (str_trim query)) (to_ascii_lowercase (str_trim query'))"
    "(hits, pool) = search_ranked_scoped_pooled t query limit scope None"
  shows "search_ranked_scoped_pooled t query' limit' scope' (Some pool) =
    search_ranked_scoped_pooled t query' limit' scope' None"
proof -
  have pool: "pool = filter (matches t (to_ascii_lowercase (str_trim query))) (active_indices t)"
    using pool_spec [OF assms(1), of t limit scope] assms(3) by (metis snd_conv)
  have "str_trim query' \<noteq> []" using assms(1,2) by (auto simp: to_ascii_lowercase_def)
  then show ?thesis
    by (simp add: search_ranked_scoped_pooled_def pool narrowed_scan [OF assms(2)])
qed

section \<open>The fast path of an unscoped search\<close>

definition unique_ids :: "name_entry list \<Rightarrow> bool" where
  "unique_ids es \<longleftrightarrow> distinct (map ne_id es)"

lemma item_order_unique:
  assumes "unique_ids es" "fst x \<in> set es" "fst y \<in> set es" "item_order ov ctx x y = Equal"
    "x = (fst x, f (fst x))" "y = (fst y, f (fst y))"
  shows "x = y"
proof -
  have "ne_id (fst x) = ne_id (fst y)" using assms(4) by (simp add: item_order_def)
  with assms(1-3) have "fst x = fst y" by (auto simp: unique_ids_def distinct_map dest: inj_onD)
  with assms(5,6) show ?thesis by metis
qed

lemma set_match_items:
  "x \<in> set (List.map_filter (match_item needle m) es) \<Longrightarrow>
     fst x \<in> set es \<and> score_match needle (ne_name (fst x)) (ne_lower (fst x)) = Some (snd x) \<and> m \<le> snd x"
  by (auto simp: set_map_filter_eq match_item_def split: option.splits if_splits)

lemma rank_items_perm:
  assumes "unique_ids es" "mset xs = mset ys" "\<And>x. x \<in> set xs \<Longrightarrow> fst x \<in> set es \<and> snd x = f (fst x)"
  shows "rank_items ov ctx limit xs = rank_items ov ctx limit ys"
proof -
  have "sort_by (item_order ov ctx) xs = sort_by (item_order ov ctx) ys"
    using assms(2)
  proof (rule item_sort.sort_by_perm)
    fix x y assume "x \<in> set xs" "y \<in> set xs" "item_order ov ctx x y = Equal"
    with assms(3) [of x] assms(3) [of y] show "x = y"
      by (intro item_order_unique [OF assms(1), of x y ov ctx f]) (simp_all add: prod_eq_iff)
  qed
  then show ?thesis by (simp add: rank_items_def)
qed

lemma rank_indices_items:
  assumes "\<forall>i \<in> set is. is_active_index t i"
  shows "rank_indices t needle limit ctx is =
    rank_items (nt_direct_include_overrides t) ctx limit
      (List.map_filter (match_item needle 0) (map (table_entry t) is))"
  using rank_scored_items [OF scored_for_items(1), of t needle 0 ctx "is" limit] assms
  by (simp add: rank_indices_def fold_consider scored_for_items(2))

lemma mset_map_filter: "mset xs = mset ys \<Longrightarrow> mset (List.map_filter f xs) = mset (List.map_filter f ys)"
  by (simp add: List.map_filter_def)

lemma prefix_entries_perm:
  assumes "table_ok t" "needle \<noteq> []"
  shows "mset (map (table_entry t) (prefix_candidates_filtered t needle family)) =
    mset (filter (prefix_match needle family) (active_entries t))"
proof -
  have "active_entries t = map (table_entry t) (active_indices t)"
    using assms(1) by (intro active_entries_indices) (simp add: table_ok_def)
  then have "filter (prefix_match needle family) (active_entries t) =
      map (table_entry t) (filter (\<lambda>i. prefix_match needle family (table_entry t i)) (active_indices t))"
    by (simp add: filter_map comp_def)
  then show ?thesis using prefix_candidates_perm [OF assms] by simp
qed

lemma prefix_candidates_active:
  assumes "table_ok t" "needle \<noteq> []" "i \<in> set (prefix_candidates_filtered t needle family)"
  shows "is_active_index t i"
proof -
  have "set (prefix_candidates_filtered t needle family) =
      set (filter (\<lambda>i. prefix_match needle family (table_entry t i)) (active_indices t))"
    using prefix_candidates_perm [OF assms(1,2)] by (rule mset_eq_setD)
  with assms(3) show ?thesis by (auto simp: active_indices_def)
qed

text \<open>Among workspace files no tier separates the matches, so a prefix match outranks every other.\<close>

lemma unscoped_score:
  "\<not> included ov (fst x) \<Longrightarrow> snd x \<in> {200, 400, 500, 650, 800, 1000} \<Longrightarrow> item_score ov None x = snd x"
  by (auto simp: item_score_def item_tier_def scope_tier_of_def included_def pack_score_def locality_def wrap_i32_def
      TIER_STRIDE_def)

lemma unscoped_split:
  assumes "\<forall>e \<in> set es. \<not> included ov e"
  shows "sort_by (item_order ov None) (List.map_filter (match_item needle m) es) =
    sort_by (item_order ov None) (filter (\<lambda>x. 800 \<le> snd x) (List.map_filter (match_item needle m) es)) @
    sort_by (item_order ov None) (filter (\<lambda>x. \<not> 800 \<le> snd x) (List.map_filter (match_item needle m) es))"
proof (rule item_sort.sort_by_split)
  fix x y
  assume "x \<in> set (List.map_filter (match_item needle m) es)" "y \<in> set (List.map_filter (match_item needle m) es)"
    and "800 \<le> snd x" "\<not> 800 \<le> snd y"
  moreover from this(1,2) have "item_score ov None x = snd x" "item_score ov None y = snd y"
    using assms set_match_items score_match_range unscoped_score by metis+
  ultimately show "item_order ov None x y = Less" by (simp add: item_order_def)
qed

lemma prefix_items:
  assumes "m \<le> 800"
  shows "filter (\<lambda>x. 800 \<le> snd x) (List.map_filter (match_item needle m) es) =
    List.map_filter (match_item needle 0) (filter (\<lambda>e. prefix needle (ne_lower e)) es)"
proof (induction es)
  case (Cons e es)
  show ?case
  proof (cases "score_match needle (ne_name e) (ne_lower e)")
    case None
    with Cons show ?thesis by (simp add: List.map_filter_simps match_item_def)
  next
    case (Some v)
    with Cons score_match_prefix [OF Some] score_match_range [OF Some] assms show ?thesis
      by (auto simp: List.map_filter_simps match_item_def)
  qed
qed (simp add: List.map_filter_simps)

lemma min_score_le: "min_score_for needle \<le> 800"
  by (simp add: min_score_for_def SHORT_PREFIX_MIN_SCORE_def)

lemma length_prefix_items:
  "length (List.map_filter (match_item needle 0) (filter (\<lambda>e. prefix needle (ne_lower e)) es)) =
     length (filter (\<lambda>e. prefix needle (ne_lower e)) es)"
proof -
  have some: "match_item needle 0 e \<noteq> None" if "prefix needle (ne_lower e)" for e
    using that score_match_None [of needle "ne_name e" "ne_lower e"] score_match_range [of needle "ne_name e" "ne_lower e"]
    by (auto simp: match_item_def prefix_imp_subseq split: option.splits)
  show ?thesis
  proof (induction es)
    case (Cons e es)
    then show ?case using some [of e] by (auto simp: List.map_filter_simps)
  qed (simp add: List.map_filter_simps)
qed

lemma lower_Nil [simp]: "to_ascii_lowercase s = [] \<longleftrightarrow> s = []"
  by (simp add: to_ascii_lowercase_def)

lemma fast_path_items:
  assumes "table_ok t" "unique_ids (active_entries t)" "needle \<noteq> []"
  shows "rank_indices t needle limit ctx (prefix_candidates t needle) =
    rank_items (nt_direct_include_overrides t) ctx limit
      (List.map_filter (match_item needle 0) (filter (\<lambda>e. prefix needle (ne_lower e)) (active_entries t)))"
proof -
  let ?f = "\<lambda>e. the (score_match needle (ne_name e) (ne_lower e))"
  have fam: "prefix_match needle None = (\<lambda>e. prefix needle (ne_lower e))"
    by (simp add: fun_eq_iff prefix_match_def family_ok_def)
  note perm = prefix_entries_perm [OF assms(1,3), of None, unfolded fam]
  have "rank_indices t needle limit ctx (prefix_candidates t needle) =
      rank_items (nt_direct_include_overrides t) ctx limit
        (List.map_filter (match_item needle 0) (map (table_entry t) (prefix_candidates t needle)))"
    using prefix_candidates_active [OF assms(1,3)]
    by (intro rank_indices_items) (auto simp: prefix_candidates_def)
  also have "\<dots> = rank_items (nt_direct_include_overrides t) ctx limit
      (List.map_filter (match_item needle 0) (filter (\<lambda>e. prefix needle (ne_lower e)) (active_entries t)))"
  proof (rule rank_items_perm [OF assms(2), where f = ?f])
    show "mset (List.map_filter (match_item needle 0) (map (table_entry t) (prefix_candidates t needle))) =
        mset (List.map_filter (match_item needle 0) (filter (\<lambda>e. prefix needle (ne_lower e)) (active_entries t)))"
      unfolding prefix_candidates_def by (rule mset_map_filter [OF perm])
    fix x assume "x \<in> set (List.map_filter (match_item needle 0) (map (table_entry t) (prefix_candidates t needle)))"
    then have x: "fst x \<in> set (map (table_entry t) (prefix_candidates t needle))"
        "score_match needle (ne_name (fst x)) (ne_lower (fst x)) = Some (snd x)"
      using set_match_items by blast+
    from x(1) mset_eq_setD [OF perm] have "fst x \<in> set (active_entries t)" by (auto simp: prefix_candidates_def)
    with x(2) show "fst x \<in> set (active_entries t) \<and> snd x = ?f (fst x)" by simp
  qed
  finally show ?thesis .
qed

text \<open>C9. The fast path of an unscoped search is exact when it matters only among equals: if the
  declarations have distinct ids and none of them is a first-layer external one, then answering from
  the prefix range once it fills the limit returns what the full scan returns.\<close>

theorem fast_path_exact:
  assumes "table_ok t" "unique_ids (active_entries t)"
    "\<forall>e \<in> set (active_entries t). \<not> directly_included_for t e"
  shows "search_ranked t query limit = search_ranked_scoped t query limit None"
proof (cases "str_trim query \<noteq> [] \<and> limit > 0 \<and>
    length (prefix_candidates t (to_ascii_lowercase (str_trim query))) \<ge> limit")
  case True
  let ?needle = "to_ascii_lowercase (str_trim query)" and ?ov = "nt_direct_include_overrides t"
  let ?prefix = "List.map_filter (match_item ?needle 0) (filter (\<lambda>e. prefix ?needle (ne_lower e)) (active_entries t))"
  let ?all = "List.map_filter (match_item ?needle (min_score_for ?needle)) (active_entries t)"
  have ne: "?needle \<noteq> []" using True by simp
  have fam: "prefix_match ?needle None = (\<lambda>e. prefix ?needle (ne_lower e))"
    by (simp add: fun_eq_iff prefix_match_def family_ok_def)
  have "length (prefix_candidates t ?needle) = length (filter (\<lambda>e. prefix ?needle (ne_lower e)) (active_entries t))"
    using prefix_entries_perm [OF assms(1) ne, of None] unfolding fam prefix_candidates_def
    by (metis length_map size_mset)
  then have long: "limit \<le> length (sort_by (item_order ?ov None) ?prefix)"
    using True by (simp add: length_prefix_items)
  have "sort_by (item_order ?ov None) ?all = sort_by (item_order ?ov None) ?prefix @
      sort_by (item_order ?ov None) (filter (\<lambda>x. \<not> 800 \<le> snd x) ?all)"
    using unscoped_split [of "active_entries t" ?ov ?needle "min_score_for ?needle"] assms(3)
    by (simp only: prefix_items [OF min_score_le] included_for)
  then have "rank_items ?ov None limit ?all = rank_items ?ov None limit ?prefix"
    using long by (simp add: rank_items_def)
  then show ?thesis
    using True fast_path_items [OF assms(1,2) ne, of limit None] search_refines [OF assms(1), of query limit None]
    by (simp add: search_ranked_def search_spec_def table_abs_def Let_def)
qed (simp only: search_ranked_def Let_def if_False)

section \<open>Exact names\<close>

definition exact_entry :: "string \<Rightarrow> semantic_family option \<Rightarrow> name_entry \<Rightarrow> bool" where
  "exact_entry needle family e \<longleftrightarrow> ne_lower e = needle \<and> family_ok family e"

lemma exact_items:
  "List.map_filter (match_item needle 0) (filter (exact_entry needle family) es) =
     map (\<lambda>e. (e, 1000)) (filter (exact_entry needle family) es)"
  by (induction es)
    (auto simp: List.map_filter_simps match_item_def exact_entry_def score_match_def)

lemma exact_hits_spec:
  assumes "table_ok t" "unique_ids (active_entries t)" "name \<noteq> []"
  shows "exact_name_hits_scoped_filtered t name limit scope family =
    rank_items (nt_direct_include_overrides t) (map_option completion_resolve_context scope) limit
      (map (\<lambda>e. (e, 1000)) (filter (exact_entry (to_ascii_lowercase name) family) (active_entries t)))"
proof (cases "limit = 0")
  case False
  let ?n = "to_ascii_lowercase name" and ?ov = "nt_direct_include_overrides t"
  let ?ctx = "map_option completion_resolve_context scope"
  let ?is = "filter (\<lambda>i. exact_entry ?n family (table_entry t i)) (prefix_candidates_filtered t ?n family)"
  have ne: "?n \<noteq> []" using assms(3) by simp
  have fam: "(ne_lower e = ?n \<and> (family = None \<or> family = Some (ne_semantic_family e))) = exact_entry ?n family e" for e
    by (auto simp: exact_entry_def family_ok_def split: option.split)
  have "filter (exact_entry ?n family) (filter (prefix_match ?n family) es) = filter (exact_entry ?n family) es" for es
    unfolding filter_filter by (rule filter_cong) (auto simp: exact_entry_def prefix_match_def)
  with prefix_entries_perm [OF assms(1) ne, of family]
  have perm: "mset (map (table_entry t) ?is) = mset (filter (exact_entry ?n family) (active_entries t))"
    by (metis (no_types, lifting) comp_apply filter_cong filter_map mset_filter)
  have same: "map (table_entry t) ?is = filter (exact_entry ?n family) (map (table_entry t) (prefix_candidates_filtered t ?n family))"
    by (simp add: filter_map comp_def)
  have "rank_indices t ?n limit ?ctx ?is = rank_items ?ov ?ctx limit (map (\<lambda>e. (e, 1000)) (map (table_entry t) ?is))"
  proof -
    have "\<forall>i \<in> set ?is. is_active_index t i" using prefix_candidates_active [OF assms(1) ne] by auto
    from rank_indices_items [OF this, of ?n limit ?ctx] show ?thesis unfolding same exact_items .
  qed
  also have "\<dots> = rank_items ?ov ?ctx limit (map (\<lambda>e. (e, 1000)) (filter (exact_entry ?n family) (active_entries t)))"
  proof (rule rank_items_perm [OF assms(2), where f = "\<lambda>_. 1000"])
    show "mset (map (\<lambda>e. (e, 1000 :: int)) (map (table_entry t) ?is)) =
        mset (map (\<lambda>e. (e, 1000)) (filter (exact_entry ?n family) (active_entries t)))"
      using perm by (metis mset_map)
    fix x assume "x \<in> set (map (\<lambda>e. (e, 1000 :: int)) (map (table_entry t) ?is))"
    then have "snd x = 1000" "fst x \<in> set (map (table_entry t) ?is)" by auto
    with mset_eq_setD [OF perm] show "fst x \<in> set (active_entries t) \<and> snd x = 1000" by simp
  qed
  finally show ?thesis using False assms(3) by (simp add: exact_name_hits_scoped_filtered_def fam Let_def)
qed (simp add: exact_name_hits_scoped_filtered_def rank_items_def)

section \<open>Coloring counts\<close>

definition colors_as ::
  "name_table \<Rightarrow> resolve_context \<Rightarrow> semantic_family option \<Rightarrow> string \<Rightarrow> string \<Rightarrow> name_entry \<Rightarrow> bool" where
  "colors_as t ctx family name kind e \<longleftrightarrow>
     ne_name e = name \<and> colorable_kind (ne_kind e) = Some kind \<and> family_ok family e \<and>
     coloring_scope_allows (ne_path e) (ne_external e) (directly_included_for t e) (Some ctx)"

lemma count_kind_get:
  "get_or 0 (get_or [] (count_kind t names ctx family i counts) name) kind =
     get_or 0 (get_or [] counts name) kind +
       (if name \<in> names \<and> colors_as t ctx family name kind (table_entry t i) then 1 else 0)"
  by (auto simp: count_kind_def colors_as_def family_ok_def Let_def split: option.splits if_splits)

lemma fold_count_kind:
  "get_or 0 (get_or [] (fold (count_kind t names ctx family) is counts) name) kind =
     get_or 0 (get_or [] counts name) kind +
       (if name \<in> names then length (filter (colors_as t ctx family name kind) (map (table_entry t) is)) else 0)"
  by (induction "is" arbitrary: counts) (simp_all add: count_kind_get)

end
