(* ===== verification/Name_Results.thy ===== *)
theory Name_Results
  imports Name_Shortcuts
begin

text \<open>
  The properties of the name search: what a search returns after any history of the table, the
  prefix range, the exact-name range, the coloring counts, and where the shortcut of an unscoped
  search departs from the full scan.
\<close>

section \<open>Search over histories\<close>

text \<open>C6. A scoped search of the table that any history of updates, compactions, context rebuilds and
  include-evidence changes leaves is the search of the replayed list of declarations: the segments,
  tombstones and compactions of the table do not show in the hits or in their order.\<close>

theorem search_after_history:
  assumes "entries_fit (length rows)" "history_allowed ops (map (row_view ctx) rows, [])"
  shows "\<exists>t. run_history rows ctx ops = Some t \<and>
    (\<forall>query limit scope. search_ranked_scoped t query limit scope = search_spec (replay rows ctx ops) query limit scope)"
  using history_refines [OF assms] search_refines by metis

lemmas sample_defs = sample_rows_def sample_row_def row_view_def norm_entry_def row_entry_def declaration_entry_def
  assigned_project_def

lemma sample_lower:
  "to_ascii_lowercase ''fooBar'' = ''foobar''" "to_ascii_lowercase ''bar'' = ''bar''" "to_ascii_lowercase ''BAR'' = ''bar''"
  by code_simp+

lemma sample_history:
  "entries_fit (length sample_rows)" "history_allowed sample_ops (map (row_view None) sample_rows, [])"
  by (simp_all add: sample_ops_def sample_rows_def entries_fit_def TOKENS_PER_NAME_def replaced_def row_view_def
      row_entry_def declaration_entry_def norm_entry_def sample_row_def assigned_project_def)

theorem search_after_history_witness:
  "entries_fit (length sample_rows) \<and> history_allowed sample_ops (map (row_view None) sample_rows, []) \<and>
   (\<exists>t. run_history sample_rows None sample_ops = Some t \<and>
      map rh_name (search_ranked_scoped t ''foo'' 5 None) = [''fooBaz''])"
proof -
  obtain t where t: "run_history sample_rows None sample_ops = Some t"
      "\<forall>query limit scope. search_ranked_scoped t query limit scope =
         search_spec (replay sample_rows None sample_ops) query limit scope"
    using search_after_history [OF sample_history] by blast
  moreover have "map rh_name (search_spec (replay sample_rows None sample_ops) ''foo'' 5 None) = [''fooBaz'']"
    by code_simp
  ultimately show ?thesis using sample_history by auto
qed

section \<open>The prefix range\<close>

text \<open>C8. The prefix range is exact: it lists, in lexical order, the active declarations whose lower-case
  name starts with the needle, each exactly once, restricted to the requested semantic family.\<close>

theorem prefix_range_exact:
  assumes "table_ok t" "needle \<noteq> []"
  shows "mset (map (table_entry t) (prefix_candidates_filtered t needle family)) =
      mset (filter (\<lambda>e. prefix needle (ne_lower e) \<and> (\<forall>f. family = Some f \<longrightarrow> ne_semantic_family e = f)) (active_entries t)) \<and>
    distinct (prefix_candidates_filtered t needle family) \<and>
    sorted_wrt (\<lambda>i j. ne_lower (table_entry t i) \<le> ne_lower (table_entry t j)) (prefix_candidates_filtered t needle family)"
proof -
  have fam: "prefix_match needle family = (\<lambda>e. prefix needle (ne_lower e) \<and> (\<forall>f. family = Some f \<longrightarrow> ne_semantic_family e = f))"
    by (auto simp: prefix_match_def family_ok_def split: option.split)
  have "distinct (prefix_candidates_filtered t needle family)"
    using mset_eq_imp_distinct_iff [OF prefix_candidates_perm [OF assms, of family]] by (simp add: active_indices_def)
  moreover have "sorted_wrt (\<lambda>i j. ne_lower (table_entry t i) \<le> ne_lower (table_entry t j)) (prefix_candidates_filtered t needle family)"
    by (rule sorted_wrt_mono_rel [OF _ prefix_candidates_sorted [unfolded sorted_cmp_def]])
      (auto simp: prefix_order_def not_less [symmetric])
  ultimately show ?thesis using prefix_entries_perm [OF assms, of family] unfolding fam by blast
qed

theorem prefix_range_exact_witness:
  "\<exists>t. build_from_declaration_rows sample_rows None = Some t \<and> table_ok t \<and>
     mset (map (table_entry t) (prefix_candidates_filtered t ''ba'' None)) = {# row_view None (sample_row 2 ''bar'' ''b.c'' False) #}"
proof -
  obtain t where t: "build_from_declaration_rows sample_rows None = Some t" "table_ok t"
      "table_abs t = (map (row_view None) sample_rows, [])"
    by (rule sample_table [of sample_rows]) (simp add: sample_rows_def)
  have "active_entries t = map (row_view None) sample_rows" using t(3) by (simp add: table_abs_def)
  moreover have "filter (\<lambda>e. prefix ''ba'' (ne_lower e)) (map (row_view None) sample_rows) =
      [row_view None (sample_row 2 ''bar'' ''b.c'' False)]" by (simp add: sample_defs sample_lower)
  ultimately have "mset (map (table_entry t) (prefix_candidates_filtered t ''ba'' None)) =
      {# row_view None (sample_row 2 ''bar'' ''b.c'' False) #}"
    using prefix_range_exact [OF t(2), of "''ba''" None] by simp
  with t(1,2) show ?thesis by (intro exI [of _ t] conjI)
qed

section \<open>Exact names\<close>

text \<open>C10. The exact-name search ranks precisely the active declarations whose lower-case name is the
  lower-case query and whose family is the requested one, best first and cut at the limit.\<close>

theorem exact_name_hits:
  assumes "table_ok t" "unique_ids (active_entries t)" "name \<noteq> []"
  shows "exact_name_hits_scoped_filtered t name limit scope family =
    rank_items (nt_direct_include_overrides t) (map_option completion_resolve_context scope) limit
      (map (\<lambda>e. (e, 1000)) (filter (\<lambda>e. ne_lower e = to_ascii_lowercase name \<and>
        (\<forall>f. family = Some f \<longrightarrow> ne_semantic_family e = f)) (active_entries t)))"
proof -
  have "exact_entry n family = (\<lambda>e. ne_lower e = n \<and> (\<forall>f. family = Some f \<longrightarrow> ne_semantic_family e = f))" for n
    by (auto simp: exact_entry_def family_ok_def split: option.split)
  with exact_hits_spec [OF assms, of limit scope family] show ?thesis by simp
qed

theorem exact_name_hits_witness:
  "\<exists>t. build_from_declaration_rows sample_rows None = Some t \<and> table_ok t \<and> unique_ids (active_entries t) \<and>
     map rh_id (exact_name_hits_scoped_filtered t ''BAR'' 5 None None) = [2]"
proof -
  obtain t where t: "build_from_declaration_rows sample_rows None = Some t" "table_ok t"
      "table_abs t = (map (row_view None) sample_rows, [])"
    by (rule sample_table [of sample_rows]) (simp add: sample_rows_def)
  have act: "active_entries t = map (row_view None) sample_rows" "nt_direct_include_overrides t = []"
    using t(3) by (simp_all add: table_abs_def)
  have u: "unique_ids (active_entries t)" unfolding act unique_ids_def by code_simp
  have "filter (\<lambda>e. ne_lower e = to_ascii_lowercase ''BAR'') (map (row_view None) sample_rows) =
      [row_view None (sample_row 2 ''bar'' ''b.c'' False)]" by (simp add: sample_defs sample_lower)
  with exact_name_hits [OF t(2) u, of "''BAR''" 5 None None] act
  have "map rh_id (exact_name_hits_scoped_filtered t ''BAR'' 5 None None) = [2]"
    by (simp add: rank_items_def item_hit_def row_view_def norm_entry_def row_entry_def declaration_entry_def sample_row_def)
  with t(1,2) u show ?thesis by (intro exI [of _ t] conjI)
qed

section \<open>Coloring counts\<close>

text \<open>C15. The coloring counts are exact: for every requested name and every color, the count is the number
  of active declarations of that name and kind, in the requested family, that the scope admits; names
  that were not requested have no count.\<close>

theorem coloring_counts_exact:
  assumes "table_ok t"
  shows "get_or 0 (get_or [] (colorable_kind_counts_filtered t names scope family) name) kind =
    (if name \<in> names then
       length (filter (\<lambda>e. ne_name e = name \<and> colorable_kind (ne_kind e) = Some kind \<and>
           (\<forall>f. family = Some f \<longrightarrow> ne_semantic_family e = f) \<and>
           coloring_scope_allows (ne_path e) (ne_external e) (directly_included_for t e) (Some (coloring_context t scope)))
         (active_entries t))
     else 0)"
proof -
  have act: "active_entries t = map (table_entry t) (active_indices t)"
    using assms by (intro active_entries_indices) (simp add: table_ok_def)
  have "colors_as t (coloring_context t scope) family name kind = (\<lambda>e. ne_name e = name \<and>
      colorable_kind (ne_kind e) = Some kind \<and> (\<forall>f. family = Some f \<longrightarrow> ne_semantic_family e = f) \<and>
      coloring_scope_allows (ne_path e) (ne_external e) (directly_included_for t e) (Some (coloring_context t scope)))"
    by (auto simp: colors_as_def family_ok_def fun_eq_iff split: option.split)
  with fold_count_kind [of t names "coloring_context t scope" family "active_indices t" "[]" name kind]
  show ?thesis by (auto simp: colorable_kind_counts_filtered_def act)
qed

definition coloring_sample_scope :: completion_scope where
  "coloring_sample_scope =
     \<lparr> cs_current_path = Some ''b.c'',
       cs_reach = \<lparr> rs_files = {}, rs_heuristic_files = {}, rs_open = False, rs_reason = None \<rparr>,
       cs_direct_external_files = {} \<rparr>"

theorem coloring_counts_exact_witness:
  "\<exists>t. build_from_declaration_rows sample_rows None = Some t \<and> table_ok t \<and>
     get_or 0 (get_or [] (colorable_kind_counts_filtered t {''bar''} (Some coloring_sample_scope) None) ''bar'') ''macro'' = 1"
proof -
  obtain t where t: "build_from_declaration_rows sample_rows None = Some t" "table_ok t"
      "table_abs t = (map (row_view None) sample_rows, [])"
    by (rule sample_table [of sample_rows]) (simp add: sample_rows_def)
  have act: "active_entries t = map (row_view None) sample_rows" using t(3) by (simp add: table_abs_def)
  have "get_or 0 (get_or [] (colorable_kind_counts_filtered t {''bar''} (Some coloring_sample_scope) None) ''bar'') ''macro'' = 1"
    unfolding coloring_counts_exact [OF t(2)] act
    by (simp add: sample_rows_def row_view_def norm_entry_def row_entry_def declaration_entry_def sample_row_def
        colorable_kind_def coloring_scope_allows_def scope_tier_of_def coloring_context_def coloring_sample_scope_def
        completion_resolve_context_def)
  with t(1,2) show ?thesis by (intro exI [of _ t] conjI)
qed

section \<open>Witnesses of the shortcuts\<close>

theorem narrowed_search_witness:
  "\<exists>t hits pool. build_from_declaration_rows sample_rows None = Some t \<and>
     (hits, pool) = search_ranked_scoped_pooled t ''fo'' 5 None None \<and>
     search_ranked_scoped_pooled t ''fooB'' 3 None (Some pool) = search_ranked_scoped_pooled t ''fooB'' 3 None None"
proof -
  obtain t where t: "build_from_declaration_rows sample_rows None = Some t"
    by (rule sample_table [of sample_rows]) (simp_all add: sample_rows_def)
  obtain hits pool where hp: "(hits, pool) = search_ranked_scoped_pooled t ''fo'' 5 None None"
    by (metis surj_pair)
  have "str_trim ''fo'' \<noteq> []" "prefix (to_ascii_lowercase (str_trim ''fo'')) (to_ascii_lowercase (str_trim ''fooB''))"
    by code_simp+
  from narrowed_search [OF this hp, of 3 None] t hp show ?thesis by blast
qed

theorem fast_path_exact_witness:
  "\<exists>t. build_from_declaration_rows sample_rows None = Some t \<and> table_ok t \<and> unique_ids (active_entries t) \<and>
     list_all (\<lambda>e. \<not> directly_included_for t e) (active_entries t) \<and>
     search_ranked t ''ba'' 1 = search_ranked_scoped t ''ba'' 1 None"
proof -
  obtain t where t: "build_from_declaration_rows sample_rows None = Some t" "table_ok t"
      "table_abs t = (map (row_view None) sample_rows, [])"
    by (rule sample_table [of sample_rows]) (simp add: sample_rows_def)
  have act: "active_entries t = map (row_view None) sample_rows" using t(3) by (simp add: table_abs_def)
  have u: "unique_ids (active_entries t)" unfolding act unique_ids_def by code_simp
  have n: "\<forall>e \<in> set (active_entries t). \<not> directly_included_for t e"
    unfolding act by (simp add: sample_rows_def directly_included_for_def row_view_def norm_entry_def row_entry_def
        declaration_entry_def sample_row_def)
  from fast_path_exact [OF t(2) u n, of "''ba''" 1] t u n show ?thesis
    by (intro exI [of _ t]) (simp add: list_all_iff)
qed

section \<open>Where the shortcut departs\<close>

text \<open>The comment on \<open>search_ranked\<close> says that no fuzzy match can enter the unscoped top once the prefix
  matches fill the limit. A first-layer external declaration has the tier External even without a
  scope, and the tier dominates the match quality: with one workspace prefix match \<open>foobar\<close> and one
  external substring match \<open>xfoo\<close>, the full scan returns \<open>xfoo\<close> and the fast path \<open>foobar\<close>.\<close>

definition external_rows :: "declaration_name_row list" where
  "external_rows = [sample_row 1 ''foobar'' ''a.c'' False, sample_row 2 ''xfoo'' ''/usr/x.h'' True]"

theorem fast_path_drops_external:
  "\<exists>t. build_from_declaration_rows external_rows None = Some t \<and>
     map rh_name (search_ranked t ''foo'' 1) = [''foobar''] \<and>
     map rh_name (search_ranked_scoped t ''foo'' 1 None) = [''xfoo'']"
proof -
  obtain t where t: "build_from_declaration_rows external_rows None = Some t" "table_ok t"
      "table_abs t = (map (row_view None) external_rows, [])"
    by (rule sample_table [of external_rows]) (simp add: external_rows_def)
  have act: "active_entries t = map (row_view None) external_rows" "nt_direct_include_overrides t = []"
    using t(3) by (simp_all add: table_abs_def)
  have u: "unique_ids (active_entries t)" unfolding act unique_ids_def by code_simp
  have pre: "filter (\<lambda>e. prefix ''foo'' (ne_lower e)) (map (row_view None) external_rows) = [row_view None (sample_row 1 ''foobar'' ''a.c'' False)]"
    by code_simp
  have fam: "prefix_match ''foo'' None = (\<lambda>e. prefix ''foo'' (ne_lower e))"
    by (simp add: fun_eq_iff prefix_match_def family_ok_def)
  have "length (prefix_candidates t ''foo'') = 1"
    using prefix_entries_perm [OF t(2), of "''foo''" None] pre unfolding fam prefix_candidates_def act
    by (metis length_map list.distinct(1) list.size(3) length_Cons One_nat_def size_mset)
  moreover have "str_trim ''foo'' = ''foo''" "to_ascii_lowercase ''foo'' = ''foo''" by code_simp+
  ultimately have "search_ranked t ''foo'' 1 = rank_items [] None 1
      (List.map_filter (match_item ''foo'' 0) [row_view None (sample_row 1 ''foobar'' ''a.c'' False)])"
    using fast_path_items [OF t(2) u, of "''foo''" 1 None] unfolding search_ranked_def Let_def act pre by simp
  moreover have "map rh_name (rank_items [] None 1
      (List.map_filter (match_item ''foo'' 0) [row_view None (sample_row 1 ''foobar'' ''a.c'' False)])) = [''foobar'']"
    by code_simp
  moreover have "search_ranked_scoped t ''foo'' 1 None = search_spec (map (row_view None) external_rows, []) ''foo'' 1 None"
    using search_refines [OF t(2)] t(3) by simp
  moreover have "map rh_name (search_spec (map (row_view None) external_rows, []) ''foo'' 1 None) = [''xfoo'']"
    by code_simp
  ultimately show ?thesis using t(1) by metis
qed

text \<open>The word-boundary grade is judged at the first occurrence of the query only: \<open>ar\<close> starts a word in
  \<open>bar_arm\<close>, yet the name gets the grade of a plain substring and a two-letter query drops it.\<close>

theorem later_boundary_is_missed:
  "is_boundary ''bar_arm'' 4 \<and> starts_with (drop 4 ''bar_arm'') ''ar'' \<and>
   score_match ''ar'' ''bar_arm'' ''bar_arm'' = Some 500 \<and> min_score_for ''ar'' = 650"
  by code_simp

end
