(* ===== verification/Recall_Cursors.thy ===== *)
theory Recall_Cursors
  imports Name_Results
begin

text \<open>
  The bounded candidate sources of completion recall in \<open>src/crates/fossilsense/src/query/name_search.rs\<close>:
  the scan metrics, the cursors over the sorted prefix ranges, over the one-letter heads and over the
  fuzzy postings. A \<open>BinaryHeap\<close> is the list of its elements; \<open>pop\<close> takes a greatest one. The
  cancellation handle is a function that gives the answer of the n-th check, so any behaviour over
  time, also one that is withdrawn, is covered.
\<close>

section \<open>Heaps and early exit\<close>

fun best_by :: "('a \<Rightarrow> 'a \<Rightarrow> ordering) \<Rightarrow> 'a \<Rightarrow> 'a list \<Rightarrow> 'a" where
  "best_by c x [] = x"
| "best_by c x (y # ys) = best_by c (if c y x = Greater then y else x) ys"

fun heap_pop :: "('a \<Rightarrow> 'a \<Rightarrow> ordering) \<Rightarrow> 'a list \<Rightarrow> ('a \<times> 'a list) option" where
  "heap_pop c [] = None"
| "heap_pop c (x # xs) = (let b = best_by c x xs in Some (b, remove1 b (x # xs)))"

text \<open>A loop whose body says whether it breaks.\<close>

primrec for_break :: "('a \<Rightarrow> 's \<Rightarrow> 's \<times> bool) \<Rightarrow> 'a list \<Rightarrow> 's \<Rightarrow> 's \<times> bool" where
  "for_break f [] s = (s, False)"
| "for_break f (x # xs) s = (let (s, stop) = f x s in if stop then (s, True) else for_break f xs s)"

section \<open>Metrics and cancellation\<close>

type_synonym cancellation = "(nat \<Rightarrow> bool) option"

definition COMPLETION_CANCELLATION_CHECK_INTERVAL :: nat where
  "COMPLETION_CANCELLATION_CHECK_INTERVAL = 256"

definition COMPLETION_PRIORITY_METADATA_PROBE_LIMIT :: nat where
  "COMPLETION_PRIORITY_METADATA_PROBE_LIMIT = 4096"

record recall_scan_metrics =
  sc_entries_inspected :: nat
  sc_prefix_entries_inspected :: nat
  sc_fuzzy_entries_inspected :: nat
  sc_fuzzy_posting_entries_inspected :: nat
  sc_fuzzy_sample_entries_inspected :: nat
  sc_priority_source_probes :: nat
  sc_priority_source_attempts :: nat
  sc_priority_sources_initialized :: nat
  sc_priority_fuzzy_name_probes :: nat
  sc_priority_fuzzy_declaration_probes :: nat
  sc_selection_entries_inspected :: nat
  sc_active_entries_total :: nat
  sc_candidate_budget :: nat
  sc_cancellation_checks :: nat
  sc_cancelled :: bool
  sc_truncated :: bool

definition default_scan_metrics :: recall_scan_metrics where
  "default_scan_metrics =
     \<lparr> sc_entries_inspected = 0, sc_prefix_entries_inspected = 0, sc_fuzzy_entries_inspected = 0,
       sc_fuzzy_posting_entries_inspected = 0, sc_fuzzy_sample_entries_inspected = 0,
       sc_priority_source_probes = 0, sc_priority_source_attempts = 0, sc_priority_sources_initialized = 0,
       sc_priority_fuzzy_name_probes = 0, sc_priority_fuzzy_declaration_probes = 0,
       sc_selection_entries_inspected = 0, sc_active_entries_total = 0, sc_candidate_budget = 0,
       sc_cancellation_checks = 0, sc_cancelled = False, sc_truncated = False \<rparr>"

definition check :: "cancellation \<Rightarrow> recall_scan_metrics \<Rightarrow> bool \<times> recall_scan_metrics" where
  "check cancellation m =
     (case cancellation of
        None \<Rightarrow> (False, m)
      | Some answer \<Rightarrow>
          (let cancelled = answer (sc_cancellation_checks m)
           in (cancelled, m\<lparr> sc_cancellation_checks := Suc (sc_cancellation_checks m), sc_cancelled := cancelled \<rparr>)))"

definition should_cancel :: "cancellation \<Rightarrow> recall_scan_metrics \<Rightarrow> bool \<times> recall_scan_metrics" where
  "should_cancel cancellation m =
     (if sc_entries_inspected m mod COMPLETION_CANCELLATION_CHECK_INTERVAL \<noteq> 0 then (False, m)
      else check cancellation m)"

definition cancel_after_scan :: "cancellation \<Rightarrow> recall_scan_metrics \<Rightarrow> bool \<times> recall_scan_metrics" where
  "cancel_after_scan cancellation m = check cancellation m"

definition count_prefix_entry :: "recall_scan_metrics \<Rightarrow> recall_scan_metrics" where
  "count_prefix_entry m =
     m\<lparr> sc_entries_inspected := Suc (sc_entries_inspected m),
        sc_prefix_entries_inspected := Suc (sc_prefix_entries_inspected m) \<rparr>"

definition count_posting_entries :: "nat \<Rightarrow> recall_scan_metrics \<Rightarrow> recall_scan_metrics" where
  "count_posting_entries n m =
     m\<lparr> sc_entries_inspected := sc_entries_inspected m + n,
        sc_fuzzy_entries_inspected := sc_fuzzy_entries_inspected m + n,
        sc_fuzzy_posting_entries_inspected := sc_fuzzy_posting_entries_inspected m + n \<rparr>"

definition count_sample_entry :: "recall_scan_metrics \<Rightarrow> recall_scan_metrics" where
  "count_sample_entry m =
     m\<lparr> sc_entries_inspected := Suc (sc_entries_inspected m),
        sc_fuzzy_entries_inspected := Suc (sc_fuzzy_entries_inspected m),
        sc_fuzzy_sample_entries_inspected := Suc (sc_fuzzy_sample_entries_inspected m) \<rparr>"

section \<open>Draining cursors\<close>

text \<open>The loop that the prefix channels share: while the budget lasts, check for cancellation, pop the
  best cursor, count its entry, keep it when it is active and advance the cursor. The outcome is the
  output, the heap, the budget that is left and whether the scan was cancelled.\<close>

type_synonym 'e drained = "nat list \<times> 'e list \<times> nat \<times> bool \<times> recall_scan_metrics"

primrec drain_cursors ::
  "name_table \<Rightarrow> ('e \<Rightarrow> 'e \<Rightarrow> ordering) \<Rightarrow> ('e \<Rightarrow> nat) \<Rightarrow> ('e \<Rightarrow> 'e list) \<Rightarrow> cancellation \<Rightarrow> nat
   \<Rightarrow> 'e list \<Rightarrow> nat list \<Rightarrow> recall_scan_metrics \<Rightarrow> 'e drained" where
  "drain_cursors t c idx advance cancellation 0 heap out m = (out, heap, 0, False, m)"
| "drain_cursors t c idx advance cancellation (Suc n) heap out m =
     (let (stop, m) = should_cancel cancellation m
      in if stop then ([], heap, Suc n, True, m)
         else case heap_pop c heap of
           None \<Rightarrow> (out, heap, Suc n, False, m)
         | Some (e, heap) \<Rightarrow>
             drain_cursors t c idx advance cancellation n (advance e @ heap)
               (if is_active_index t (idx e) then out @ [idx e] else out) (count_prefix_entry m))"

type_synonym channel_result = "(nat list \<times> bool) \<times> recall_scan_metrics"

definition drained_result :: "'e drained \<Rightarrow> channel_result" where
  "drained_result d = (case d of (out, heap, _, _, m) \<Rightarrow> ((out, heap \<noteq> []), m))"

section \<open>Sorted prefix ranges\<close>

record prefix_heap_entry =
  ph_segment_slot :: nat
  ph_family_slot :: nat
  ph_sorted_position :: nat
  ph_index :: nat

definition prefix_heap_cmp :: "name_table \<Rightarrow> prefix_heap_entry \<Rightarrow> prefix_heap_entry \<Rightarrow> ordering" where
  "prefix_heap_cmp t a b =
     (let l = table_entry t (ph_index a); r = table_entry t (ph_index b)
      in then_with (then_with (then_with
           (cmp_of (is_active_index t (ph_index a)) (is_active_index t (ph_index b)))
           (cmp_of (ne_lower r) (ne_lower l)))
           (cmp_of (ne_name r) (ne_name l)))
           (cmp_of (ph_index b) (ph_index a)))"

definition push_prefix_cursor :: "name_table \<Rightarrow> nat \<Rightarrow> nat \<Rightarrow> nat \<Rightarrow> string \<Rightarrow> prefix_heap_entry list" where
  "push_prefix_cursor t segment_slot family_slot sorted_position needle =
     (let (s, offset) = segment_with_offset t segment_slot;
          order = at_slot (ns_sorted_by_family s) family_slot
      in if sorted_position < length order then
           (let local = order ! sorted_position
            in if starts_with (ne_lower (segment_entry s local)) needle
               then [\<lparr> ph_segment_slot = segment_slot, ph_family_slot = family_slot,
                      ph_sorted_position = sorted_position, ph_index = offset + local \<rparr>]
               else [])
         else [])"

definition segment_families :: "name_table \<Rightarrow> semantic_family option \<Rightarrow> (nat \<times> nat) list" where
  "segment_families t family =
     concat (map (\<lambda>segment_slot. map (Pair segment_slot) (semantic_family_slots family)) [0..<Suc (length (nt_deltas t))])"

definition prefix_cursors :: "name_table \<Rightarrow> string \<Rightarrow> semantic_family option \<Rightarrow> prefix_heap_entry list" where
  "prefix_cursors t needle family =
     concat (map (\<lambda>(segment_slot, family_slot).
       let s = fst (segment_with_offset t segment_slot);
           start = partition_point (\<lambda>i. ne_lower (segment_entry s i) < needle) (at_slot (ns_sorted_by_family s) family_slot)
       in push_prefix_cursor t segment_slot family_slot start needle) (segment_families t family))"

definition advance_prefix :: "name_table \<Rightarrow> string \<Rightarrow> prefix_heap_entry \<Rightarrow> prefix_heap_entry list" where
  "advance_prefix t needle e =
     push_prefix_cursor t (ph_segment_slot e) (ph_family_slot e) (Suc (ph_sorted_position e)) needle"

definition bounded_prefix_candidates ::
  "name_table \<Rightarrow> string \<Rightarrow> nat \<Rightarrow> semantic_family option \<Rightarrow> cancellation \<Rightarrow> recall_scan_metrics \<Rightarrow> channel_result" where
  "bounded_prefix_candidates t needle budget family cancellation m =
     (if needle = [] then (([], False), m)
      else drained_result (drain_cursors t (prefix_heap_cmp t) ph_index (advance_prefix t needle) cancellation budget
        (prefix_cursors t needle family) [] m))"

section \<open>One-letter heads\<close>

record short_prefix_heap_entry =
  sh_segment_slot :: nat
  sh_family_slot :: nat
  sh_position :: nat
  sh_index :: nat

definition static_head_order :: "name_entry \<Rightarrow> name_entry \<Rightarrow> ordering" where
  "static_head_order l r =
     then_with (then_with (then_with (then_with
       (cmp_of (length (ne_name l)) (length (ne_name r)))
       (cmp_of (ne_name l) (ne_name r)))
       (cmp_of (completion_role_recall_priority (ne_role r)) (completion_role_recall_priority (ne_role l))))
       (cmp_of (ne_path l) (ne_path r)))
       (cmp_of (ne_id l) (ne_id r))"

definition short_prefix_heap_cmp :: "name_table \<Rightarrow> short_prefix_heap_entry \<Rightarrow> short_prefix_heap_entry \<Rightarrow> ordering" where
  "short_prefix_heap_cmp t a b =
     then_with (then_with
       (cmp_of (is_active_index t (sh_index a)) (is_active_index t (sh_index b)))
       (static_head_order (table_entry t (sh_index b)) (table_entry t (sh_index a))))
       (cmp_of (sh_index b) (sh_index a))"

definition push_short_prefix_cursor :: "name_table \<Rightarrow> nat \<Rightarrow> nat \<Rightarrow> char \<Rightarrow> nat \<Rightarrow> short_prefix_heap_entry list" where
  "push_short_prefix_cursor t segment_slot family_slot head position =
     (let (s, offset) = segment_with_offset t segment_slot
      in case map_of (at_slot (ns_short_prefix_heads_by_family s) family_slot) head of
           None \<Rightarrow> []
         | Some indices \<Rightarrow>
             if position < length indices
             then [\<lparr> sh_segment_slot = segment_slot, sh_family_slot = family_slot, sh_position = position,
                    sh_index = offset + indices ! position \<rparr>]
             else [])"

definition advance_short :: "name_table \<Rightarrow> char \<Rightarrow> short_prefix_heap_entry \<Rightarrow> short_prefix_heap_entry list" where
  "advance_short t head e =
     push_short_prefix_cursor t (sh_segment_slot e) (sh_family_slot e) head (Suc (sh_position e))"

definition bounded_short_prefix_candidates ::
  "name_table \<Rightarrow> char \<Rightarrow> nat \<Rightarrow> semantic_family option \<Rightarrow> cancellation \<Rightarrow> recall_scan_metrics \<Rightarrow> channel_result" where
  "bounded_short_prefix_candidates t head budget family cancellation m =
     drained_result (drain_cursors t (short_prefix_heap_cmp t) sh_index (advance_short t head) cancellation budget
       (concat (map (\<lambda>(segment_slot, family_slot). push_short_prefix_cursor t segment_slot family_slot head 0)
         (segment_families t family))) [] m)"

section \<open>Fuzzy postings\<close>

definition fuzzy_posting_of :: "name_table \<Rightarrow> nat \<Rightarrow> nat \<Rightarrow> u32 \<Rightarrow> nat list" where
  "fuzzy_posting_of t segment_slot family_slot token =
     fuzzy_posting (at_slot (ns_fuzzy_postings_by_family (fst (segment_with_offset t segment_slot))) family_slot) token"

definition fuzzy_posting_len :: "name_table \<Rightarrow> u32 \<Rightarrow> semantic_family option \<Rightarrow> nat" where
  "fuzzy_posting_len t token family =
     sum_list (map (\<lambda>(segment_slot, family_slot). length (fuzzy_posting_of t segment_slot family_slot token))
       (segment_families t family))"

text \<open>The smallest pair of posting length and token, over the tokens that occur at all.\<close>

definition rarest_fuzzy_posting :: "name_table \<Rightarrow> u32 list \<Rightarrow> semantic_family option \<Rightarrow> u32 option" where
  "rarest_fuzzy_posting t tokens family =
     (let pairs = List.map_filter (\<lambda>token.
            let len = fuzzy_posting_len t token family in if len > 0 then Some (len, token) else None) tokens
      in case pairs of [] \<Rightarrow> None | p # ps \<Rightarrow> Some (snd (fold min ps p)))"

record fuzzy_posting_heap_entry =
  fh_segment_slot :: nat
  fh_family_slot :: nat
  fh_token :: u32
  fh_position :: nat
  fh_name_id :: nat

definition fuzzy_heap_cmp :: "name_table \<Rightarrow> fuzzy_posting_heap_entry \<Rightarrow> fuzzy_posting_heap_entry \<Rightarrow> ordering" where
  "fuzzy_heap_cmp t a b =
     (let l = nm_original (ns_names (fst (segment_with_offset t (fh_segment_slot a))) ! fh_name_id a);
          r = nm_original (ns_names (fst (segment_with_offset t (fh_segment_slot b))) ! fh_name_id b)
      in then_with (then_with (then_with (then_with (then_with (then_with
           (cmp_of (fh_segment_slot a) (fh_segment_slot b))
           (cmp_of (length r) (length l)))
           (cmp_of r l))
           (cmp_of (fh_token b) (fh_token a)))
           (cmp_of (fh_family_slot b) (fh_family_slot a)))
           (cmp_of (fh_name_id b) (fh_name_id a)))
           (cmp_of (fh_position b) (fh_position a)))"

definition push_fuzzy_posting_cursor :: "name_table \<Rightarrow> nat \<Rightarrow> nat \<Rightarrow> u32 \<Rightarrow> nat \<Rightarrow> fuzzy_posting_heap_entry list" where
  "push_fuzzy_posting_cursor t segment_slot family_slot token position =
     (let posting = fuzzy_posting_of t segment_slot family_slot token
      in if position < length posting
         then [\<lparr> fh_segment_slot = segment_slot, fh_family_slot = family_slot, fh_token = token,
                fh_position = position, fh_name_id = posting ! position \<rparr>]
         else [])"

definition advance_fuzzy :: "name_table \<Rightarrow> fuzzy_posting_heap_entry \<Rightarrow> fuzzy_posting_heap_entry list" where
  "advance_fuzzy t e =
     push_fuzzy_posting_cursor t (fh_segment_slot e) (fh_family_slot e) (fh_token e) (Suc (fh_position e))"

definition segment_entries_for_name :: "name_table \<Rightarrow> nat \<Rightarrow> nat \<Rightarrow> nat \<Rightarrow> nat list" where
  "segment_entries_for_name t segment_slot family_slot name_id =
     (let s = fst (segment_with_offset t segment_slot);
          target = ns_names s ! name_id;
          order = at_slot (ns_sorted_by_family s) family_slot;
          compare = (\<lambda>local. name_cmp (entry_name (ns_names s) (ns_entries s ! local)) target);
          start = partition_point (\<lambda>local. compare local = Less) order;
          stop = partition_point (\<lambda>local. compare local \<noteq> Greater) order
      in slice start (stop - start) order)"

type_synonym name_key = "nat \<times> nat \<times> nat"

text \<open>One source: pop names while its budget lasts and expand a name the first time it is met.\<close>

record fuzzy_scan =
  fz_output :: "nat list"
  fz_expanded :: "name_key list"
  fz_truncated :: bool

function fuzzy_source_loop ::
  "name_table \<Rightarrow> cancellation \<Rightarrow> nat \<Rightarrow> fuzzy_posting_heap_entry list \<Rightarrow> fuzzy_scan \<Rightarrow> recall_scan_metrics
   \<Rightarrow> (fuzzy_posting_heap_entry list \<times> nat \<times> bool) \<times> fuzzy_scan \<times> recall_scan_metrics" where
  "fuzzy_source_loop t cancellation n heap z m =
     (if n = 0 then ((heap, n, False), z, m)
      else let (stop, m) = should_cancel cancellation m
      in if stop then ((heap, n, True), z, m)
         else case heap_pop (fuzzy_heap_cmp t) heap of
           None \<Rightarrow> ((heap, n, False), z, m)
         | Some (e, heap) \<Rightarrow>
             let n = n - 1; m = count_posting_entries 1 m; heap = advance_fuzzy t e @ heap;
                 key = (fh_segment_slot e, fh_family_slot e, fh_name_id e)
             in if key \<in> set (fz_expanded z) then fuzzy_source_loop t cancellation n heap z m
                else
                  let locals = segment_entries_for_name t (fh_segment_slot e) (fh_family_slot e) (fh_name_id e);
                      offset = snd (segment_with_offset t (fh_segment_slot e));
                      seen = take n locals
                  in fuzzy_source_loop t cancellation (n - length seen) heap
                       \<lparr> fz_output = fz_output z @ filter (is_active_index t) (map ((+) offset) seen),
                         fz_expanded = key # fz_expanded z,
                         fz_truncated = (fz_truncated z \<or> n < length locals) \<rparr>
                       (count_posting_entries (length seen) m))"
  by pat_completeness auto
termination
  by (relation "measure (\<lambda>(t, cancellation, n, heap, z, m). n)") auto

declare fuzzy_source_loop.simps [simp del]

fun fuzzy_sources ::
  "name_table \<Rightarrow> semantic_family option \<Rightarrow> cancellation \<Rightarrow> u32 list \<Rightarrow> nat \<Rightarrow> fuzzy_scan \<Rightarrow> recall_scan_metrics
   \<Rightarrow> channel_result" where
  "fuzzy_sources t family cancellation [] remaining z m = ((fz_output z, fz_truncated z), m)"
| "fuzzy_sources t family cancellation (token # tokens) remaining z m =
     (let source_budget = remaining div length (token # tokens);
          heap = concat (map (\<lambda>(segment_slot, family_slot). push_fuzzy_posting_cursor t segment_slot family_slot token 0)
            (segment_families t family));
          ((heap, unused, stop), z, m) = fuzzy_source_loop t cancellation source_budget heap z m
      in if stop then (([], fz_truncated z \<or> heap \<noteq> []), m)
         else fuzzy_sources t family cancellation tokens (remaining - (source_budget - unused))
           (z\<lparr> fz_truncated := fz_truncated z \<or> heap \<noteq> [] \<rparr>) m)"

definition selected_tokens :: "name_table \<Rightarrow> string \<Rightarrow> semantic_family option \<Rightarrow> u32 list" where
  "selected_tokens t needle family =
     (let (continuous, boundary) = fuzzy_query_tokens needle
      in (case rarest_fuzzy_posting t continuous family of Some token \<Rightarrow> [token] | None \<Rightarrow> []) @
         (case rarest_fuzzy_posting t boundary family of Some token \<Rightarrow> [token] | None \<Rightarrow> []))"

definition bounded_fuzzy_posting_candidates ::
  "name_table \<Rightarrow> string \<Rightarrow> nat \<Rightarrow> semantic_family option \<Rightarrow> cancellation \<Rightarrow> recall_scan_metrics \<Rightarrow> channel_result" where
  "bounded_fuzzy_posting_candidates t needle budget family cancellation m =
     fuzzy_sources t family cancellation (selected_tokens t needle family) budget
       \<lparr> fz_output = [], fz_expanded = [], fz_truncated = False \<rparr> m"

end
