(* ===== verification/Recall_Priority.thy ===== *)
theory Recall_Priority
  imports Recall_Cursors
begin

text \<open>
  The priority channel of completion recall in \<open>src/crates/fossilsense/src/query/name_search.rs\<close>: a
  part of the budget is kept for declarations of reachable files and of the active project, and for
  segments in which some paths have been replaced. An array indexed by the source channel is a
  function of the channel; a sorted, deduplicated list of paths is the sorted list of their set.
\<close>

section \<open>Sources\<close>

definition PRIORITY_SOURCE_PROBE_MULTIPLIER :: nat where "PRIORITY_SOURCE_PROBE_MULTIPLIER = 8"
definition PRIORITY_SOURCE_RECOVERY :: nat where "PRIORITY_SOURCE_RECOVERY = 1"
definition PRIORITY_SOURCE_PROJECT :: nat where "PRIORITY_SOURCE_PROJECT = 2"
definition PRIORITY_SOURCE_SCOPE :: nat where "PRIORITY_SOURCE_SCOPE = 3"

datatype priority_source_channel = ScopeSource | ProjectSource | RecoverySource

fun channel_slot :: "priority_source_channel \<Rightarrow> nat" where
  "channel_slot ScopeSource = 0"
| "channel_slot ProjectSource = 1"
| "channel_slot RecoverySource = 2"

definition channels_ordered :: "priority_source_channel list" where
  "channels_ordered = [ScopeSource, ProjectSource, RecoverySource]"

type_synonym 'a by_channel = "priority_source_channel \<Rightarrow> 'a"

record priority_source_rank =
  rk_order :: nat
  rk_priority :: nat
  rk_channel :: priority_source_channel

record priority_heap_entry =
  pe_segment_slot :: nat
  pe_posting :: "nat list"
  pe_position :: nat
  pe_source_rank :: priority_source_rank
  pe_prefix_only :: bool
  pe_index :: nat

definition priority_heap_cmp :: "name_table \<Rightarrow> priority_heap_entry \<Rightarrow> priority_heap_entry \<Rightarrow> ordering" where
  "priority_heap_cmp t a b =
     (let l = table_entry t (pe_index a); r = table_entry t (pe_index b);
          x = pe_source_rank a; y = pe_source_rank b
      in then_with (then_with (then_with (then_with (then_with (then_with (then_with
           (cmp_of (is_active_index t (pe_index a)) (is_active_index t (pe_index b)))
           (cmp_of (rk_priority x) (rk_priority y)))
           (cmp_of (channel_slot (rk_channel x)) (channel_slot (rk_channel y))))
           (cmp_of (ne_lower r) (ne_lower l)))
           (cmp_of (ne_name r) (ne_name l)))
           (cmp_of (pe_index b) (pe_index a)))
           (cmp_of (rk_order y) (rk_order x)))
           (cmp_of (pe_position b) (pe_position a)))"

section \<open>Partition of the capacity\<close>

text \<open>One round gives a unit to every enabled channel; the state is the limits, what remains and
  whether a channel was served.\<close>

type_synonym partition_state = "nat by_channel \<times> nat \<times> bool"

definition assign_unit ::
  "bool by_channel \<Rightarrow> priority_source_channel \<Rightarrow> partition_state \<Rightarrow> partition_state \<times> bool" where
  "assign_unit enabled channel st =
     (let (limits, remaining, assigned) = st
      in if \<not> enabled channel then (st, False)
         else ((limits(channel := Suc (limits channel)), remaining - 1, True), remaining - 1 = 0))"

definition assign_round :: "bool by_channel \<Rightarrow> nat by_channel \<Rightarrow> nat \<Rightarrow> partition_state" where
  "assign_round enabled limits remaining =
     fst (for_break (assign_unit enabled) channels_ordered (limits, remaining, False))"

lemma assign_round_progress:
  assumes "assign_round enabled limits remaining = (limits', remaining', True)" "remaining > 0"
  shows "remaining' < remaining"
  using assms by (auto simp: assign_round_def channels_ordered_def assign_unit_def Let_def split: if_splits)

function partition_loop :: "bool by_channel \<Rightarrow> nat by_channel \<Rightarrow> nat \<Rightarrow> nat by_channel" where
  "partition_loop enabled limits remaining =
     (if remaining = 0 then limits
      else case assign_round enabled limits remaining of
        (limits', remaining', assigned) \<Rightarrow>
          if assigned then partition_loop enabled limits' remaining' else limits')"
  by pat_completeness auto
termination
  by (relation "measure (\<lambda>(enabled, limits, remaining). remaining)") (auto dest!: sym [of _ "assign_round _ _ _"] assign_round_progress)

declare partition_loop.simps [simp del]

definition partition_priority_capacity :: "nat \<Rightarrow> bool by_channel \<Rightarrow> nat by_channel" where
  "partition_priority_capacity capacity enabled = partition_loop enabled (\<lambda>_. 0) capacity"

section \<open>Setting up the sources\<close>

datatype priority_source_kind = PathPrefix | ProjectPrefix

record priority_source_key =
  sk_segment_slot :: nat
  sk_family_slot :: nat
  sk_source_id :: nat
  sk_kind :: priority_source_kind

record priority_source_setup =
  su_heap :: "priority_heap_entry list"
  su_seen :: "priority_source_key list"
  su_attempt_limits :: "nat by_channel"
  su_probe_limits :: "nat by_channel"
  su_attempts_by_channel :: "nat by_channel"
  su_probes_by_channel :: "nat by_channel"
  su_attempts :: nat
  su_probes :: nat
  su_metrics :: recall_scan_metrics
  su_cancelled :: bool

definition setup_new :: "nat \<Rightarrow> bool by_channel \<Rightarrow> recall_scan_metrics \<Rightarrow> priority_source_setup" where
  "setup_new limit enabled m =
     (let probe_limit = min (limit * PRIORITY_SOURCE_PROBE_MULTIPLIER) COMPLETION_PRIORITY_METADATA_PROBE_LIMIT
      in \<lparr> su_heap = [], su_seen = [], su_attempt_limits = partition_priority_capacity limit enabled,
           su_probe_limits = partition_priority_capacity probe_limit enabled,
           su_attempts_by_channel = (\<lambda>_. 0), su_probes_by_channel = (\<lambda>_. 0), su_attempts = 0, su_probes = 0,
           su_metrics = m, su_cancelled = False \<rparr>)"

definition channel_attempts_are_full :: "priority_source_setup \<Rightarrow> priority_source_channel \<Rightarrow> bool" where
  "channel_attempts_are_full s c = (su_attempts_by_channel s c \<ge> su_attempt_limits s c)"

definition channel_probes_are_full :: "priority_source_setup \<Rightarrow> priority_source_channel \<Rightarrow> bool" where
  "channel_probes_are_full s c = (su_probes_by_channel s c \<ge> su_probe_limits s c)"

definition channel_is_full :: "priority_source_setup \<Rightarrow> priority_source_channel \<Rightarrow> bool" where
  "channel_is_full s c = (channel_attempts_are_full s c \<or> channel_probes_are_full s c)"

definition any_channel_is_full :: "priority_source_setup \<Rightarrow> bool" where
  "any_channel_is_full s =
     list_ex (\<lambda>c. (su_attempt_limits s c > 0 \<or> su_probe_limits s c > 0) \<and> channel_is_full s c) channels_ordered"

definition push_priority_prefix_cursor ::
  "name_table \<Rightarrow> nat \<Rightarrow> nat list \<Rightarrow> nat \<Rightarrow> priority_source_rank \<Rightarrow> string option \<Rightarrow> priority_heap_entry list" where
  "push_priority_prefix_cursor t segment_slot posting position rank required =
     (if position < length posting then
        (let index = snd (segment_with_offset t segment_slot) + posting ! position
         in case required of
              Some needle \<Rightarrow>
                if starts_with (ne_lower (table_entry t index)) needle
                then [\<lparr> pe_segment_slot = segment_slot, pe_posting = posting, pe_position = position,
                       pe_source_rank = rank, pe_prefix_only = True, pe_index = index \<rparr>]
                else []
            | None \<Rightarrow>
                [\<lparr> pe_segment_slot = segment_slot, pe_posting = posting, pe_position = position,
                   pe_source_rank = rank, pe_prefix_only = False, pe_index = index \<rparr>])
      else [])"

definition consume_probe ::
  "cancellation \<Rightarrow> priority_source_channel \<Rightarrow> priority_source_setup \<Rightarrow> bool \<times> priority_source_setup" where
  "consume_probe cancellation channel s =
     (if channel_is_full s channel then (False, s)
      else
        let (stop, m) = (if su_probes s mod COMPLETION_CANCELLATION_CHECK_INTERVAL = 0
                         then check cancellation (su_metrics s) else (False, su_metrics s))
        in if stop then (False, s\<lparr> su_metrics := m, su_cancelled := True \<rparr>)
           else (True, s\<lparr> su_probes := Suc (su_probes s),
                         su_probes_by_channel :=
                           (su_probes_by_channel s)(channel := Suc (su_probes_by_channel s channel)),
                         su_metrics := m\<lparr> sc_priority_source_probes := Suc (sc_priority_source_probes m) \<rparr> \<rparr>))"

definition register_source :: "priority_source_key \<Rightarrow> priority_source_setup \<Rightarrow> bool \<times> priority_source_setup" where
  "register_source key s =
     (if key \<in> set (su_seen s) then (False, s) else (True, s\<lparr> su_seen := key # su_seen s \<rparr>))"

definition push_registered ::
  "name_table \<Rightarrow> priority_source_channel \<Rightarrow> nat \<Rightarrow> nat list \<Rightarrow> nat \<Rightarrow> nat \<Rightarrow> string option
   \<Rightarrow> priority_source_setup \<Rightarrow> bool \<times> priority_source_setup" where
  "push_registered t channel segment_slot posting position priority required s =
     (if channel_attempts_are_full s channel then (False, s)
      else
        let rank = \<lparr> rk_order = su_attempts s, rk_priority = priority, rk_channel = channel \<rparr>;
            cursor = push_priority_prefix_cursor t segment_slot posting position rank required;
            m = su_metrics s
        in (True,
            if cursor = [] then s
            else s\<lparr> su_heap := cursor @ su_heap s, su_attempts := Suc (su_attempts s),
                   su_attempts_by_channel :=
                     (su_attempts_by_channel s)(channel := Suc (su_attempts_by_channel s channel)),
                   su_metrics := m\<lparr> sc_priority_source_attempts := Suc (sc_priority_source_attempts m),
                                   sc_priority_sources_initialized := Suc (sc_priority_sources_initialized m) \<rparr> \<rparr>))"

definition try_push ::
  "name_table \<Rightarrow> cancellation \<Rightarrow> priority_source_channel \<Rightarrow> priority_source_key \<Rightarrow> nat list \<Rightarrow> nat \<Rightarrow> nat
   \<Rightarrow> string option \<Rightarrow> priority_source_setup \<Rightarrow> bool \<times> priority_source_setup" where
  "try_push t cancellation channel key posting position priority required s =
     (if key \<in> set (su_seen s) then (True, s)
      else let (ok, s) = consume_probe cancellation channel s
           in if \<not> ok then (False, s)
              else let (fresh, s) = register_source key s
                   in if \<not> fresh then (True, s)
                      else push_registered t channel (sk_segment_slot key) posting position priority required s)"

section \<open>Paths and segments\<close>

definition active_segment_slot_for_path :: "name_table \<Rightarrow> string \<Rightarrow> nat option" where
  "active_segment_slot_for_path t path =
     (case map_of (nt_path_overrides t) path of
        None \<Rightarrow> if map_of (ns_path_ids (nt_base t)) path \<noteq> None then Some 0 else None
      | Some (Some delta) \<Rightarrow> Some (Suc delta)
      | Some None \<Rightarrow> None)"

definition segment_is_mixed :: "name_table \<Rightarrow> nat \<Rightarrow> bool" where
  "segment_is_mixed t segment_slot =
     (let s = fst (segment_with_offset t segment_slot);
          active_paths = (if segment_slot = 0 then nt_active_base_paths t
                          else nt_active_delta_paths t ! (segment_slot - 1))
      in active_paths \<noteq> [] \<and> length active_paths \<noteq> length (ns_paths s))"

definition segment_slots :: "name_table \<Rightarrow> nat list" where
  "segment_slots t = [0..<Suc (length (nt_deltas t))]"

definition posting_start :: "name_segment \<Rightarrow> string \<Rightarrow> nat list \<Rightarrow> nat" where
  "posting_start s needle posting = partition_point (\<lambda>i. ne_lower (segment_entry s i) < needle) posting"

definition path_source_key :: "nat \<Rightarrow> nat \<Rightarrow> nat \<Rightarrow> priority_source_key" where
  "path_source_key segment_slot family_slot path_id =
     \<lparr> sk_segment_slot = segment_slot, sk_family_slot = family_slot, sk_source_id = path_id, sk_kind = PathPrefix \<rparr>"

text \<open>Registers the cursor of a path for a channel; the flag says that the enclosing loops end.\<close>

definition open_path_source ::
  "name_table \<Rightarrow> string \<Rightarrow> priority_source_channel \<Rightarrow> nat \<Rightarrow> nat \<Rightarrow> nat \<Rightarrow> nat
   \<Rightarrow> priority_source_setup \<Rightarrow> priority_source_setup \<times> bool" where
  "open_path_source t needle channel priority segment_slot family_slot path_id s =
     (let segment = fst (segment_with_offset t segment_slot);
          posting = path_posting (at_slot (ns_path_postings_by_family segment) family_slot) path_id;
          (fresh, s) = register_source (path_source_key segment_slot family_slot path_id) s
      in if \<not> fresh then (s, False)
         else let (ok, s) = push_registered t channel segment_slot posting (posting_start segment needle posting)
                    priority (Some needle) s
              in (s, \<not> ok))"

section \<open>Scope sources\<close>

definition scope_paths :: "completion_scope option \<Rightarrow> string list" where
  "scope_paths scope =
     (case scope of
        None \<Rightarrow> []
      | Some s \<Rightarrow> sorted_list_of_set
          (set_option (cs_current_path s) \<union> rs_files (cs_reach s) \<union> rs_heuristic_files (cs_reach s) \<union>
           cs_direct_external_files s))"

definition scope_family ::
  "name_table \<Rightarrow> string \<Rightarrow> cancellation \<Rightarrow> nat \<Rightarrow> nat \<Rightarrow> nat \<times> nat
   \<Rightarrow> priority_source_setup \<Rightarrow> priority_source_setup \<times> bool" where
  "scope_family t needle cancellation segment_slot path_id ordinal_slot s =
     (let (family_ordinal, family_slot) = ordinal_slot;
          (ok, s) = (if family_ordinal > 0 then consume_probe cancellation ScopeSource s else (True, s))
      in if \<not> ok then (s, True)
         else open_path_source t needle ScopeSource PRIORITY_SOURCE_SCOPE segment_slot family_slot path_id s)"

definition scope_path ::
  "name_table \<Rightarrow> string \<Rightarrow> semantic_family option \<Rightarrow> cancellation \<Rightarrow> string
   \<Rightarrow> priority_source_setup \<Rightarrow> priority_source_setup \<times> bool" where
  "scope_path t needle family cancellation path s =
     (if channel_is_full s ScopeSource \<or> su_cancelled s then (s, True)
      else let (ok, s) = consume_probe cancellation ScopeSource s
           in if \<not> ok then (s, True)
              else case active_segment_slot_for_path t path of
                None \<Rightarrow> (s, False)
              | Some segment_slot \<Rightarrow>
                  (case map_of (ns_path_ids (fst (segment_with_offset t segment_slot))) path of
                     None \<Rightarrow> (s, False)
                   | Some path_id \<Rightarrow>
                       for_break (scope_family t needle cancellation segment_slot path_id)
                         (enumerate 0 (semantic_family_slots family)) s))"

section \<open>Project sources\<close>

definition project_pair ::
  "name_table \<Rightarrow> string \<Rightarrow> cancellation \<Rightarrow> nat \<Rightarrow> nat \<times> nat
   \<Rightarrow> priority_source_setup \<Rightarrow> priority_source_setup \<times> bool" where
  "project_pair t needle cancellation segment_slot slot_position s =
     (let (family_slot, pair_position) = slot_position;
          segment = fst (segment_with_offset t segment_slot);
          (ok, s) = consume_probe cancellation ProjectSource s
      in if \<not> ok then (s, True)
         else
           let path_id = px_path_id (px_pairs (at_slot (ns_prefix_paths_by_family segment) family_slot) ! pair_position)
           in if active_segment_slot_for_path t (ns_paths segment ! path_id) \<noteq> Some segment_slot then (s, False)
              else open_path_source t needle ProjectSource PRIORITY_SOURCE_PROJECT segment_slot family_slot path_id s)"

definition project_paths_segment ::
  "name_table \<Rightarrow> string \<Rightarrow> project_key \<Rightarrow> semantic_family option \<Rightarrow> cancellation \<Rightarrow> nat
   \<Rightarrow> priority_source_setup \<Rightarrow> priority_source_setup \<times> bool" where
  "project_paths_segment t needle project family cancellation segment_slot s =
     (if channel_is_full s ProjectSource \<or> su_cancelled s then (s, True)
      else if \<not> segment_is_mixed t segment_slot then (s, False)
      else
        let segment = fst (segment_with_offset t segment_slot)
        in case map_of (ns_by_project segment) project of
             None \<Rightarrow> (s, False)
           | Some postings \<Rightarrow>
               for_break (project_pair t needle cancellation segment_slot)
                 (concat (map (\<lambda>family_slot. map (Pair family_slot)
                   (project_positions_for_prefix (at_slot (ns_prefix_paths_by_family segment) family_slot)
                      (cp_project_id postings) needle)) (semantic_family_slots family))) s)"

definition project_family ::
  "name_table \<Rightarrow> string \<Rightarrow> cancellation \<Rightarrow> nat \<Rightarrow> compact_project_postings \<Rightarrow> nat
   \<Rightarrow> priority_source_setup \<Rightarrow> priority_source_setup \<times> bool" where
  "project_family t needle cancellation segment_slot postings family_slot s =
     (let posting = at_slot (cp_by_family postings) family_slot;
          start = posting_start (fst (segment_with_offset t segment_slot)) needle posting;
          (ok, s) = try_push t cancellation ProjectSource
            \<lparr> sk_segment_slot = segment_slot, sk_family_slot = family_slot, sk_source_id = 0, sk_kind = ProjectPrefix \<rparr>
            posting start PRIORITY_SOURCE_PROJECT (Some needle) s
      in (s, \<not> ok))"

definition project_postings_segment ::
  "name_table \<Rightarrow> string \<Rightarrow> project_key \<Rightarrow> semantic_family option \<Rightarrow> cancellation \<Rightarrow> nat
   \<Rightarrow> priority_source_setup \<Rightarrow> priority_source_setup \<times> bool" where
  "project_postings_segment t needle project family cancellation segment_slot s =
     (if channel_is_full s ProjectSource \<or> su_cancelled s then (s, True)
      else case map_of (ns_by_project (fst (segment_with_offset t segment_slot))) project of
        None \<Rightarrow> (s, False)
      | Some postings \<Rightarrow>
          for_break (project_family t needle cancellation segment_slot postings) (semantic_family_slots family) s)"

definition project_enabled :: "name_table \<Rightarrow> project_key option \<Rightarrow> semantic_family option \<Rightarrow> bool" where
  "project_enabled t active_project family =
     (case active_project of
        None \<Rightarrow> False
      | Some project \<Rightarrow>
          (case family of
             Some family \<Rightarrow> has_project_for_family t project family
           | None \<Rightarrow>
               (case map_of (nt_active_project_family_counts t) project of
                  None \<Rightarrow> False
                | Some counts \<Rightarrow> fst counts > 0 \<or> snd counts > 0)))"

definition project_sources ::
  "name_table \<Rightarrow> string \<Rightarrow> project_key option \<Rightarrow> semantic_family option \<Rightarrow> cancellation
   \<Rightarrow> priority_source_setup \<Rightarrow> priority_source_setup" where
  "project_sources t needle active_project family cancellation s =
     (case active_project of
        Some project \<Rightarrow>
          if project_enabled t active_project family then
            fst (for_break (project_postings_segment t needle project family cancellation) (segment_slots t)
              (fst (for_break (project_paths_segment t needle project family cancellation) (segment_slots t) s)))
          else s
      | None \<Rightarrow> s)"

section \<open>Recovery sources\<close>

record pending_priority_source =
  pd_segment_slot :: nat
  pd_posting :: "nat list"
  pd_position :: nat
  pd_source_priority :: nat

type_synonym recovery_state =
  "priority_source_setup \<times> pending_priority_source list \<times> pending_priority_source list"

definition recovery_pair ::
  "name_table \<Rightarrow> string \<Rightarrow> project_key option \<Rightarrow> cancellation \<Rightarrow> nat \<Rightarrow> nat \<Rightarrow> nat \<times> compact_prefix_path_pair
   \<Rightarrow> recovery_state \<Rightarrow> recovery_state \<times> bool" where
  "recovery_pair t needle active_project cancellation limit segment_slot slot_pair st =
     (let (s, projects, generics) = st; (family_slot, pair) = slot_pair;
          segment = fst (segment_with_offset t segment_slot);
          (ok, s) = consume_probe cancellation RecoverySource s
      in if \<not> ok then ((s, projects, generics), True)
         else
           let path_id = px_path_id pair;
               posting = path_posting (at_slot (ns_path_postings_by_family segment) family_slot) path_id;
               start = posting_start segment needle posting
           in if active_segment_slot_for_path t (ns_paths segment ! path_id) \<noteq> Some segment_slot
                 \<or> start \<ge> length posting
                 \<or> \<not> starts_with (ne_lower (segment_entry segment (posting ! start))) needle
              then ((s, projects, generics), False)
              else
                let (fresh, s) = register_source (path_source_key segment_slot family_slot path_id) s
                in if \<not> fresh then ((s, projects, generics), False)
                   else
                     let project_id = cn_project_id (ns_entries segment ! (posting ! start));
                         is_active_project = (project_id \<noteq> NO_PROJECT_ID \<and>
                           active_project = Some (ns_projects segment ! project_id));
                         pending = \<lparr> pd_segment_slot = segment_slot, pd_posting = posting, pd_position = start,
                           pd_source_priority =
                             (if is_active_project then PRIORITY_SOURCE_PROJECT else PRIORITY_SOURCE_RECOVERY) \<rparr>;
                         projects = (if is_active_project \<and> length projects < limit
                           then projects @ [pending] else projects);
                         generics = (if \<not> is_active_project \<and> length generics < limit
                           then generics @ [pending] else generics)
                     in ((s, projects, generics), length projects \<ge> limit \<and> length generics \<ge> limit))"

definition recovery_segment ::
  "name_table \<Rightarrow> string \<Rightarrow> project_key option \<Rightarrow> semantic_family option \<Rightarrow> cancellation \<Rightarrow> nat \<Rightarrow> nat
   \<Rightarrow> recovery_state \<Rightarrow> recovery_state \<times> bool" where
  "recovery_segment t needle active_project family cancellation limit segment_slot st =
     (if channel_is_full (fst st) RecoverySource \<or> su_cancelled (fst st) then (st, True)
      else if \<not> segment_is_mixed t segment_slot then (st, False)
      else for_break (recovery_pair t needle active_project cancellation limit segment_slot)
        (concat (map (\<lambda>family_slot. map (Pair family_slot)
          (paths_for_prefix (at_slot (ns_prefix_paths_by_family (fst (segment_with_offset t segment_slot))) family_slot)
             needle)) (semantic_family_slots family))) st)"

definition push_pending ::
  "name_table \<Rightarrow> string \<Rightarrow> pending_priority_source \<Rightarrow> priority_source_setup \<Rightarrow> priority_source_setup \<times> bool" where
  "push_pending t needle pending s =
     (let (ok, s) = push_registered t RecoverySource (pd_segment_slot pending) (pd_posting pending)
            (pd_position pending) (pd_source_priority pending) (Some needle) s
      in (s, \<not> ok))"

definition recovery_sources ::
  "name_table \<Rightarrow> string \<Rightarrow> project_key option \<Rightarrow> semantic_family option \<Rightarrow> cancellation
   \<Rightarrow> priority_source_setup \<Rightarrow> priority_source_setup" where
  "recovery_sources t needle active_project family cancellation s =
     (let (s, projects, generics) = fst (for_break
            (recovery_segment t needle active_project family cancellation (su_attempt_limits s RecoverySource))
            (segment_slots t) (s, [], []))
      in fst (for_break (push_pending t needle) (projects @ generics) s))"

definition recovery_enabled :: "name_table \<Rightarrow> string \<Rightarrow> semantic_family option \<Rightarrow> bool" where
  "recovery_enabled t needle family =
     list_ex (\<lambda>segment_slot. segment_is_mixed t segment_slot \<and>
       list_ex (\<lambda>family_slot. paths_for_prefix
           (at_slot (ns_prefix_paths_by_family (fst (segment_with_offset t segment_slot))) family_slot) needle \<noteq> [])
         (semantic_family_slots family)) (segment_slots t)"


section \<open>Draining the sources\<close>

definition advance_priority :: "name_table \<Rightarrow> string \<Rightarrow> priority_heap_entry \<Rightarrow> priority_heap_entry list" where
  "advance_priority t needle e =
     push_priority_prefix_cursor t (pe_segment_slot e) (pe_posting e) (Suc (pe_position e)) (pe_source_rank e)
       (if pe_prefix_only e then Some needle else None)"

lemma best_by_in: "best_by c x xs \<in> insert x (set xs)"
  by (induction xs arbitrary: x) (auto split: if_splits)

lemma heap_pop_length: "heap_pop c heap = Some (e, heap') \<Longrightarrow> length heap = Suc (length heap')"
proof (cases heap)
  case (Cons x xs)
  assume "heap_pop c heap = Some (e, heap')"
  with Cons have "e = best_by c x xs" "heap' = remove1 e (x # xs)" by (auto simp: Let_def)
  moreover have "best_by c x xs \<in> set (x # xs)" using best_by_in by fastforce
  ultimately show ?thesis using Cons by (auto simp: length_remove1 dest: length_pos_if_in_set)
qed simp

text \<open>The first pass keeps every channel within its share and holds back the cursors of a channel that
  has used it. It ends with a result (on cancellation) or with the output, the heap, the held back
  cursors and the budget that is left.\<close>

type_synonym reserved_state =
  "(nat list \<times> bool) + (nat list \<times> priority_heap_entry list \<times> priority_heap_entry list \<times> nat)"

function reserved_loop ::
  "name_table \<Rightarrow> string \<Rightarrow> cancellation \<Rightarrow> nat by_channel \<Rightarrow> bool \<Rightarrow> nat by_channel
   \<Rightarrow> nat \<Rightarrow> priority_heap_entry list \<Rightarrow> priority_heap_entry list \<Rightarrow> nat \<Rightarrow> nat list
   \<Rightarrow> recall_scan_metrics \<Rightarrow> reserved_state \<times> recall_scan_metrics" where
  "reserved_loop t needle cancellation limits sources_truncated taken n heap deferred deferred_probes out m =
     (if n = 0 then (Inr (out, heap, deferred, n), m)
      else case heap_pop (priority_heap_cmp t) heap of
        None \<Rightarrow> (Inr (out, heap, deferred, n), m)
      | Some (e, heap) \<Rightarrow>
          let channel = rk_channel (pe_source_rank e)
          in if taken channel \<ge> limits channel then
               let (stop, m) = (if deferred_probes mod COMPLETION_CANCELLATION_CHECK_INTERVAL = 0
                                then check cancellation m else (False, m))
               in if stop then (Inl ([], True), m)
                  else reserved_loop t needle cancellation limits sources_truncated taken n heap (deferred @ [e])
                    (Suc deferred_probes) out m
             else
               let (stop, m) = should_cancel cancellation m
               in if stop then (Inl ([], sources_truncated \<or> heap \<noteq> [] \<or> deferred \<noteq> []), m)
                  else reserved_loop t needle cancellation limits sources_truncated
                    (taken(channel := Suc (taken channel))) (n - 1) (advance_priority t needle e @ heap) deferred
                    deferred_probes (if is_active_index t (pe_index e) then out @ [pe_index e] else out)
                    (count_prefix_entry m))"
  by pat_completeness auto
termination
  by (relation "measures [\<lambda>(t, needle, cancellation, limits, tr, taken, n, heap, deferred, dp, out, m). n,
        \<lambda>(t, needle, cancellation, limits, tr, taken, n, heap, deferred, dp, out, m). length heap]")
     (auto dest: heap_pop_length)

declare reserved_loop.simps [simp del]

section \<open>Priority names from fuzzy postings\<close>

record fuzzy_probe_state =
  fs_probes :: nat
  fs_declaration_probes :: nat
  fs_inspected :: nat
  fs_output :: "nat list"
  fs_expanded :: "name_key list"
  fs_metrics :: recall_scan_metrics
  fs_result :: "(nat list \<times> bool) option"

definition finish_probe :: "nat list \<times> bool \<Rightarrow> fuzzy_probe_state \<Rightarrow> fuzzy_probe_state \<times> bool" where
  "finish_probe result f = (f\<lparr> fs_result := Some result \<rparr>, True)"

text \<open>The early returns leave the loops with the result that the function returns.\<close>

definition probe_declaration ::
  "name_table \<Rightarrow> cancellation \<Rightarrow> nat \<Rightarrow> nat \<Rightarrow> nat \<Rightarrow> nat \<Rightarrow> fuzzy_probe_state \<Rightarrow> fuzzy_probe_state \<times> bool" where
  "probe_declaration t cancellation probe_limit budget sole_path index f =
     (let several = (sole_path = MULTI_PATH_ID)
      in if several \<and> fs_declaration_probes f \<ge> probe_limit then finish_probe (fs_output f, True) f
         else
           let (stop, m) = (if several \<and> fs_declaration_probes f mod COMPLETION_CANCELLATION_CHECK_INTERVAL = 0
                            then check cancellation (fs_metrics f) else (False, fs_metrics f))
           in if stop then finish_probe ([], True) (f\<lparr> fs_metrics := m \<rparr>)
              else
                let f = (if several then
                           f\<lparr> fs_declaration_probes := Suc (fs_declaration_probes f),
                              fs_metrics := m\<lparr> sc_priority_fuzzy_declaration_probes :=
                                Suc (sc_priority_fuzzy_declaration_probes m) \<rparr> \<rparr>
                         else f)
                in if several \<and> \<not> is_active_index t index then (f, False)
                   else if fs_inspected f \<ge> budget then finish_probe (fs_output f, True) f
                   else (f\<lparr> fs_inspected := Suc (fs_inspected f), fs_output := fs_output f @ [index],
                            fs_metrics := count_posting_entries 1 (fs_metrics f) \<rparr>, False))"

definition probe_name ::
  "name_table \<Rightarrow> cancellation \<Rightarrow> nat \<Rightarrow> nat \<Rightarrow> name_key \<Rightarrow> fuzzy_probe_state \<Rightarrow> fuzzy_probe_state \<times> bool" where
  "probe_name t cancellation probe_limit budget key f =
     (if fs_probes f \<ge> probe_limit then finish_probe (fs_output f, True) f
      else
        let (stop, m) = (if fs_probes f mod COMPLETION_CANCELLATION_CHECK_INTERVAL = 0
                         then check cancellation (fs_metrics f) else (False, fs_metrics f))
        in if stop then finish_probe ([], True) (f\<lparr> fs_metrics := m \<rparr>)
           else
             let f = f\<lparr> fs_probes := Suc (fs_probes f),
                        fs_metrics := m\<lparr> sc_priority_fuzzy_name_probes := Suc (sc_priority_fuzzy_name_probes m) \<rparr> \<rparr>
             in if key \<in> set (fs_expanded f) then (f, False)
                else
                  let f = f\<lparr> fs_expanded := key # fs_expanded f \<rparr>;
                      (segment_slot, family_slot, name_id) = key;
                      (segment, offset) = segment_with_offset t segment_slot;
                      sole_path = ns_sole_path_by_name segment ! name_id
                  in if sole_path \<noteq> MULTI_PATH_ID \<and>
                        active_segment_slot_for_path t (ns_paths segment ! sole_path) \<noteq> Some segment_slot
                     then (f, False)
                     else for_break (probe_declaration t cancellation probe_limit budget sole_path)
                       (map ((+) offset) (segment_entries_for_name t segment_slot family_slot name_id)) f)"

definition priority_name_keys :: "name_table \<Rightarrow> u32 list \<Rightarrow> semantic_family option \<Rightarrow> name_key list" where
  "priority_name_keys t tokens family =
     concat (map (\<lambda>token. concat (map (\<lambda>segment_slot. concat (map (\<lambda>family_slot.
         map (\<lambda>name_id. (segment_slot, family_slot, name_id)) (fuzzy_posting_of t segment_slot family_slot token))
       (semantic_family_slots family))) (filter (segment_is_mixed t) (segment_slots t)))) tokens)"

definition bounded_priority_fuzzy_candidates ::
  "name_table \<Rightarrow> u32 list \<Rightarrow> nat \<Rightarrow> semantic_family option \<Rightarrow> cancellation \<Rightarrow> recall_scan_metrics \<Rightarrow> channel_result" where
  "bounded_priority_fuzzy_candidates t tokens budget family cancellation m =
     (if tokens = [] \<or> budget = 0 then (([], False), m)
      else
        let probe_limit = min (budget * COMPLETION_CANCELLATION_CHECK_INTERVAL) COMPLETION_PRIORITY_METADATA_PROBE_LIMIT;
            f = fst (for_break (probe_name t cancellation probe_limit budget) (priority_name_keys t tokens family)
              \<lparr> fs_probes = 0, fs_declaration_probes = 0, fs_inspected = 0, fs_output = [], fs_expanded = [],
                fs_metrics = m, fs_result = None \<rparr>)
        in (case fs_result f of Some result \<Rightarrow> result | None \<Rightarrow> (fs_output f, False), fs_metrics f))"

section \<open>The channel\<close>

definition priority_tokens :: "name_table \<Rightarrow> string \<Rightarrow> semantic_family option \<Rightarrow> u32 list" where
  "priority_tokens t needle family = remdups (selected_tokens t needle family)"

definition priority_setup ::
  "name_table \<Rightarrow> string \<Rightarrow> nat \<Rightarrow> completion_scope option \<Rightarrow> project_key option \<Rightarrow> semantic_family option
   \<Rightarrow> cancellation \<Rightarrow> recall_scan_metrics \<Rightarrow> priority_source_setup" where
  "priority_setup t needle budget scope active_project family cancellation m =
     (let paths = scope_paths scope;
          enabled = case_priority_source_channel (paths \<noteq> []) (project_enabled t active_project family)
            (recovery_enabled t needle family);
          s = setup_new (min budget COMPLETION_PRIORITY_METADATA_PROBE_LIMIT) enabled m;
          s = fst (for_break (scope_path t needle family cancellation) paths s);
          s = project_sources t needle active_project family cancellation s
      in recovery_sources t needle active_project family cancellation s)"

definition finish_priority ::
  "name_table \<Rightarrow> string \<Rightarrow> semantic_family option \<Rightarrow> cancellation \<Rightarrow> bool \<Rightarrow> priority_heap_entry drained \<Rightarrow> channel_result" where
  "finish_priority t needle family cancellation sources_truncated d =
     (let (out, heap, remaining, stop, m) = d
      in if stop then (([], sources_truncated \<or> heap \<noteq> []), m)
         else
           let ((fuzzy_output, fuzzy_truncated), m) =
                 bounded_priority_fuzzy_candidates t (priority_tokens t needle family) remaining family cancellation m
           in if sc_cancelled m then (([], True), m)
              else ((out @ fuzzy_output, (sources_truncated \<or> heap \<noteq> []) \<or> fuzzy_truncated), m))"

definition bounded_priority_prefix_candidates ::
  "name_table \<Rightarrow> string \<Rightarrow> nat \<Rightarrow> completion_scope option \<Rightarrow> project_key option \<Rightarrow> semantic_family option
   \<Rightarrow> cancellation \<Rightarrow> recall_scan_metrics \<Rightarrow> channel_result" where
  "bounded_priority_prefix_candidates t needle budget scope active_project family cancellation m =
     (if needle = [] \<or> budget = 0 then (([], False), m)
      else
        let s = priority_setup t needle budget scope active_project family cancellation m;
            truncated = any_channel_is_full s
        in if su_cancelled s then (([], True), su_metrics s)
           else case reserved_loop t needle cancellation (su_attempt_limits s) truncated (\<lambda>_. 0) budget (su_heap s)
                  [] 0 [] (su_metrics s) of
             (Inl result, m) \<Rightarrow> (result, m)
           | (Inr (out, heap, deferred, remaining), m) \<Rightarrow>
               finish_priority t needle family cancellation truncated
                 (drain_cursors t (priority_heap_cmp t) pe_index (advance_priority t needle) cancellation remaining
                   (deferred @ heap) out m))"

end
