(* ===== verification/Name_Recall.thy ===== *)
theory Name_Recall
  imports Recall_Priority
begin

text \<open>
  Completion recall: \<open>scored_pool_for_query\<close> and \<open>search_completion_recall_pooled_with_project_filtered\<close> of
  \<open>src/crates/fossilsense/src/query/name_search.rs\<close> with the query, quota and metric types of \<open>query.rs\<close>.
  A recall reads at most a budget of index rows, scores them, and selects from the scored rows a
  quota for every scope channel before it fills up by rank. \<open>None\<close> is the panic of an index
  position out of range. Counts and sizes are naturals, so the saturating operations on limits and
  budgets are the plain ones. The heap that keeps the best candidates lists its newest element first;
  which of several that compare equal survive is left open by the code.
\<close>

section \<open>Queries, quotas and metrics\<close>

record completion_recall_quotas =
  qt_total_indexed :: nat
  qt_reachable :: nat
  qt_external :: nat
  qt_unknown :: nat
  qt_global :: nat
  qt_same_project :: nat

definition default_for_completion_limit :: "nat \<Rightarrow> completion_recall_quotas" where
  "default_for_completion_limit limit =
     \<lparr> qt_total_indexed = limit * 3, qt_reachable = limit, qt_external = limit div 2, qt_unknown = limit div 2,
       qt_global = limit, qt_same_project = 0 \<rparr>"

definition quotas_with_project_context :: "nat \<Rightarrow> completion_recall_quotas" where
  "quotas_with_project_context limit =
     (let quotas = default_for_completion_limit limit
      in quotas\<lparr> qt_same_project := limit div 2, qt_total_indexed := qt_total_indexed quotas + limit div 2 \<rparr>)"

record completion_recall_query =
  rq_query :: string
  rq_quotas :: completion_recall_quotas
  rq_scope :: "completion_scope option"
  rq_active_project :: "project_key option"
  rq_prior_pool :: "nat list option"
  rq_semantic_family :: "semantic_family option"
  rq_cancellation :: cancellation
  rq_candidate_budget :: nat

text \<open>The counters that the code copies one by one from the scan are kept as a part.\<close>

record completion_recall_metrics =
  rm_reachable :: nat
  rm_external :: nat
  rm_unknown :: nat
  rm_global :: nat
  rm_same_project :: nat
  rm_pool_total :: nat
  rm_indexed_returned :: nat
  rm_scan :: recall_scan_metrics

definition add_scan_metrics :: "recall_scan_metrics \<Rightarrow> recall_scan_metrics \<Rightarrow> recall_scan_metrics" where
  "add_scan_metrics a b =
     \<lparr> sc_entries_inspected = sc_entries_inspected a + sc_entries_inspected b,
       sc_prefix_entries_inspected = sc_prefix_entries_inspected a + sc_prefix_entries_inspected b,
       sc_fuzzy_entries_inspected = sc_fuzzy_entries_inspected a + sc_fuzzy_entries_inspected b,
       sc_fuzzy_posting_entries_inspected =
         sc_fuzzy_posting_entries_inspected a + sc_fuzzy_posting_entries_inspected b,
       sc_fuzzy_sample_entries_inspected = sc_fuzzy_sample_entries_inspected a + sc_fuzzy_sample_entries_inspected b,
       sc_priority_source_probes = sc_priority_source_probes a + sc_priority_source_probes b,
       sc_priority_source_attempts = sc_priority_source_attempts a + sc_priority_source_attempts b,
       sc_priority_sources_initialized = sc_priority_sources_initialized a + sc_priority_sources_initialized b,
       sc_priority_fuzzy_name_probes = sc_priority_fuzzy_name_probes a + sc_priority_fuzzy_name_probes b,
       sc_priority_fuzzy_declaration_probes =
         sc_priority_fuzzy_declaration_probes a + sc_priority_fuzzy_declaration_probes b,
       sc_selection_entries_inspected = sc_selection_entries_inspected a + sc_selection_entries_inspected b,
       sc_active_entries_total = sc_active_entries_total a + sc_active_entries_total b,
       sc_candidate_budget = sc_candidate_budget a + sc_candidate_budget b,
       sc_cancellation_checks = sc_cancellation_checks a + sc_cancellation_checks b,
       sc_cancelled = (sc_cancelled a \<or> sc_cancelled b), sc_truncated = (sc_truncated a \<or> sc_truncated b) \<rparr>"

definition merge_from :: "completion_recall_metrics \<Rightarrow> completion_recall_metrics \<Rightarrow> completion_recall_metrics" where
  "merge_from a b =
     \<lparr> rm_reachable = rm_reachable a + rm_reachable b, rm_external = rm_external a + rm_external b,
       rm_unknown = rm_unknown a + rm_unknown b, rm_global = rm_global a + rm_global b,
       rm_same_project = rm_same_project a + rm_same_project b, rm_pool_total = rm_pool_total a + rm_pool_total b,
       rm_indexed_returned = rm_indexed_returned a + rm_indexed_returned b,
       rm_scan = add_scan_metrics (rm_scan a) (rm_scan b) \<rparr>"

section \<open>The candidate source\<close>

definition candidate_slot_len :: "name_table \<Rightarrow> semantic_family option \<Rightarrow> nat" where
  "candidate_slot_len t family =
     (case family of
        None \<Rightarrow> nt_slot_len t
      | Some f \<Rightarrow> sum_list (map (\<lambda>segment_slot.
          length (at_slot (ns_sorted_by_family (fst (segment_with_offset t segment_slot))) (semantic_family_slot f)))
          (segment_slots t)))"

primrec nth_of_segments :: "name_table \<Rightarrow> nat \<Rightarrow> nat list \<Rightarrow> nat \<Rightarrow> nat option" where
  "nth_of_segments t family_slot [] ordinal = None"
| "nth_of_segments t family_slot (segment_slot # slots) ordinal =
     (let (segment, offset) = segment_with_offset t segment_slot;
          indices = at_slot (ns_sorted_by_family segment) family_slot
      in if ordinal < length indices then Some (offset + indices ! ordinal)
         else nth_of_segments t family_slot slots (ordinal - length indices))"

definition candidate_index_at :: "name_table \<Rightarrow> semantic_family option \<Rightarrow> nat \<Rightarrow> nat option" where
  "candidate_index_at t family ordinal =
     (case family of
        None \<Rightarrow> if ordinal < nt_slot_len t then Some ordinal else None
      | Some f \<Rightarrow> nth_of_segments t (semantic_family_slot f) (segment_slots t) ordinal)"

text \<open>The loops over the source: check for cancellation (the result is then \<open>None\<close>), consider one row, count it.\<close>

primrec scan_rows ::
  "cancellation \<Rightarrow> ('a \<Rightarrow> 's \<Rightarrow> 's option) \<Rightarrow> 'a list \<Rightarrow> 's \<Rightarrow> recall_scan_metrics
   \<Rightarrow> ('s option \<times> recall_scan_metrics) option" where
  "scan_rows cancellation f [] st m = Some (Some st, m)"
| "scan_rows cancellation f (x # xs) st m =
     (let (stop, m) = should_cancel cancellation m
      in if stop then Some (None, m)
         else case f x st of
           None \<Rightarrow> None
         | Some st \<Rightarrow> scan_rows cancellation f xs st (count_sample_entry m))"

definition sample_ordinal :: "nat \<Rightarrow> nat \<Rightarrow> nat \<Rightarrow> nat" where
  "sample_ordinal slot_len samples ordinal = ordinal * slot_len div samples"

section \<open>Scoring\<close>

type_synonym scored_pool = "scored_candidate list \<times> nat list \<times> recall_scan_metrics"

definition finish_scan :: "cancellation \<Rightarrow> bool \<Rightarrow> scan option \<times> recall_scan_metrics \<Rightarrow> scored_pool" where
  "finish_scan cancellation truncated r =
     (case r of
        (None, m) \<Rightarrow> ([], [], m)
      | (Some (scored, pool), m) \<Rightarrow>
          (let (stop, m) = cancel_after_scan cancellation (m\<lparr> sc_truncated := truncated \<rparr>)
           in if stop then ([], [], m) else (scored, pool, m)))"

definition push_unmatched :: "name_table \<Rightarrow> resolve_context option \<Rightarrow> nat \<Rightarrow> scan \<Rightarrow> scan" where
  "push_unmatched t ctx i st =
     (if is_active_index t i then (fst st @ [scored_of t ctx i 0], snd st) else st)"

definition recall_without_query ::
  "name_table \<Rightarrow> semantic_family option \<Rightarrow> resolve_context option \<Rightarrow> cancellation \<Rightarrow> nat
   \<Rightarrow> recall_scan_metrics \<Rightarrow> scored_pool option" where
  "recall_without_query t family ctx cancellation budget m =
     (let slot_len = candidate_slot_len t family; inspected = min slot_len budget
      in map_option (finish_scan cancellation (inspected < slot_len))
           (scan_rows cancellation
             (\<lambda>ordinal st. map_option (\<lambda>i. push_unmatched t ctx i st)
               (candidate_index_at t family
                 (if inspected = slot_len then ordinal else sample_ordinal slot_len inspected ordinal)))
             [0..<inspected] ([], []) m))"

type_synonym seen_scan = "nat list \<times> scan"

definition consider_new ::
  "name_table \<Rightarrow> string \<Rightarrow> int \<Rightarrow> resolve_context option \<Rightarrow> nat \<Rightarrow> seen_scan \<Rightarrow> seen_scan" where
  "consider_new t needle min_score ctx i st =
     (let (seen, scan) = st
      in if i \<in> set seen then st else (i # seen, consider_entry t needle min_score ctx i scan))"

definition prefix_channel ::
  "name_table \<Rightarrow> string \<Rightarrow> nat \<Rightarrow> semantic_family option \<Rightarrow> cancellation \<Rightarrow> recall_scan_metrics \<Rightarrow> channel_result" where
  "prefix_channel t needle budget family cancellation m =
     (if length needle = 1 then bounded_short_prefix_candidates t (needle ! 0) budget family cancellation m
      else bounded_prefix_candidates t needle budget family cancellation m)"

definition three_quarters :: "nat \<Rightarrow> nat" where
  "three_quarters n = n * 3 div 4"

definition recall_sampled ::
  "name_table \<Rightarrow> completion_recall_query \<Rightarrow> string \<Rightarrow> int \<Rightarrow> resolve_context option
   \<Rightarrow> recall_scan_metrics \<Rightarrow> scored_pool option" where
  "recall_sampled t q needle min_score ctx m =
     (let family = rq_semantic_family q; cancellation = rq_cancellation q; budget = rq_candidate_budget q;
          slot_len = candidate_slot_len t family; consider = consider_new t needle min_score ctx;
          ((priority, priority_truncated), m) = bounded_priority_prefix_candidates t needle (budget div 8)
            (rq_scope q) (rq_active_project q) family cancellation m
      in if sc_cancelled m then Some ([], [], m)
         else
           let st = fold consider priority ([], [], []);
               ((prefixes, prefix_truncated), m) = prefix_channel t needle
                 (three_quarters (budget - sc_entries_inspected m)) family cancellation m
           in if sc_cancelled m then Some ([], [], m)
              else
                let st = fold consider prefixes st;
                    ((postings, posting_truncated), m) = bounded_fuzzy_posting_candidates t needle
                      (three_quarters (budget - sc_entries_inspected m)) family cancellation m
                in if sc_cancelled m then Some ([], [], m)
                   else
                     let st = fold consider postings st;
                         samples = min (budget - sc_entries_inspected m) slot_len
                     in map_option (\<lambda>(st, m). finish_scan cancellation
                            (priority_truncated \<or> prefix_truncated \<or> posting_truncated \<or> samples < slot_len)
                            (map_option snd st, m))
                          (scan_rows cancellation
                            (\<lambda>ordinal st. map_option (\<lambda>i. consider i st)
                              (candidate_index_at t family (sample_ordinal slot_len samples ordinal)))
                            [0..<samples] st m))"

definition scored_pool_for_query :: "name_table \<Rightarrow> completion_recall_query \<Rightarrow> scored_pool option" where
  "scored_pool_for_query t q =
     (let family = rq_semantic_family q; cancellation = rq_cancellation q; budget = rq_candidate_budget q;
          ctx = map_option completion_resolve_context (rq_scope q);
          query = str_trim (rq_query q); needle = to_ascii_lowercase query; min_score = min_score_for needle;
          slot_len = candidate_slot_len t family;
          m = default_scan_metrics\<lparr> sc_active_entries_total := nt_active_len t, sc_candidate_budget := budget \<rparr>
      in if query = [] then recall_without_query t family ctx cancellation budget m
         else case rq_prior_pool q of
           Some indices \<Rightarrow>
             map_option (finish_scan cancellation (budget < length indices))
               (scan_rows cancellation (\<lambda>i st. Some (consider_entry t needle min_score ctx i st))
                 (take budget indices) ([], []) m)
         | None \<Rightarrow>
             if slot_len \<le> budget then
               map_option (finish_scan cancellation False)
                 (scan_rows cancellation
                   (\<lambda>ordinal st. map_option (\<lambda>i. consider_entry t needle min_score ctx i st)
                     (candidate_index_at t family ordinal)) [0..<slot_len] ([], []) m)
             else recall_sampled t q needle min_score ctx m)"

section \<open>Selection\<close>

datatype scope_channel = ReachableChannel | ExternalChannel | UnknownChannel | GlobalChannel

fun channel_for_tier :: "scope_tier \<Rightarrow> scope_channel" where
  "channel_for_tier Current = ReachableChannel"
| "channel_for_tier Reachable = ReachableChannel"
| "channel_for_tier External = ExternalChannel"
| "channel_for_tier Unknown = UnknownChannel"
| "channel_for_tier Global = GlobalChannel"

definition retain :: "name_table \<Rightarrow> nat \<Rightarrow> scored_candidate \<Rightarrow> scored_candidate list \<Rightarrow> scored_candidate list" where
  "retain t limit x retained =
     (if length retained < limit then x # retained
      else case retained of
        [] \<Rightarrow> []
      | y # ys \<Rightarrow>
          (let worst = best_by (scored_order t) y ys
           in if scored_order t x worst = Less then x # remove1 worst retained else retained))"

primrec select_rows ::
  "name_table \<Rightarrow> (scored_candidate \<Rightarrow> bool) \<Rightarrow> nat \<Rightarrow> cancellation \<Rightarrow> scored_candidate list
   \<Rightarrow> scored_candidate list \<Rightarrow> nat \<Rightarrow> recall_scan_metrics
   \<Rightarrow> scored_candidate list option \<times> recall_scan_metrics" where
  "select_rows t incl limit cancellation [] retained block_len m =
     (let (stop, m) = (if block_len \<noteq> 0 then check cancellation m else (False, m))
      in (if stop then None else Some (sort_scored t (rev retained)), m))"
| "select_rows t incl limit cancellation (x # xs) retained block_len m =
     (let retained = (if incl x then retain t limit x retained else retained);
          block_len = Suc block_len;
          m = m\<lparr> sc_selection_entries_inspected := Suc (sc_selection_entries_inspected m) \<rparr>
      in if block_len = COMPLETION_CANCELLATION_CHECK_INTERVAL then
           (let (stop, m) = check cancellation m
            in if stop then (None, m) else select_rows t incl limit cancellation xs retained 0 m)
         else select_rows t incl limit cancellation xs retained block_len m)"

definition top_scored_controlled ::
  "name_table \<Rightarrow> scored_candidate list \<Rightarrow> (scored_candidate \<Rightarrow> bool) \<Rightarrow> nat \<Rightarrow> cancellation
   \<Rightarrow> recall_scan_metrics \<Rightarrow> scored_candidate list option \<times> recall_scan_metrics" where
  "top_scored_controlled t scored incl limit cancellation m =
     (if limit = 0 then (Some [], m)
      else let (stop, m) = check cancellation m
           in if stop then (None, m) else select_rows t incl limit cancellation scored [] 0 m)"

text \<open>The loop that \<open>take_channel\<close> and \<open>take_same_project\<close> share, on the list of selected candidates; the set of
  selected indices is the set of their indices.\<close>

primrec take_quota ::
  "(scored_candidate \<Rightarrow> bool) \<Rightarrow> nat \<Rightarrow> scored_candidate list \<Rightarrow> nat \<Rightarrow> scored_candidate list \<Rightarrow> scored_candidate list" where
  "take_quota incl quota [] taken selected = selected"
| "take_quota incl quota (x # xs) taken selected =
     (if taken \<ge> quota then selected
      else if \<not> incl x then take_quota incl quota xs taken selected
      else if sd_index x \<in> sd_index ` set selected then take_quota incl quota xs taken selected
      else take_quota incl quota xs (Suc taken) (selected @ [x]))"

definition in_channel :: "scope_channel \<Rightarrow> scored_candidate \<Rightarrow> bool" where
  "in_channel channel x = (channel_for_tier (sd_tier x) = channel)"

definition take_channel ::
  "scored_candidate list \<Rightarrow> scope_channel \<Rightarrow> nat \<Rightarrow> scored_candidate list \<Rightarrow> scored_candidate list" where
  "take_channel scored channel quota selected =
     (if quota = 0 then selected else take_quota (in_channel channel) quota scored 0 selected)"

definition in_project :: "name_table \<Rightarrow> project_key \<Rightarrow> scored_candidate \<Rightarrow> bool" where
  "in_project t key x = (ne_project_key (table_entry t (sd_index x)) = Some key)"

definition take_same_project ::
  "name_table \<Rightarrow> scored_candidate list \<Rightarrow> project_key option \<Rightarrow> nat \<Rightarrow> scored_candidate list \<Rightarrow> scored_candidate list" where
  "take_same_project t scored active_project quota selected =
     (case active_project of
        None \<Rightarrow> selected
      | Some key \<Rightarrow> if quota = 0 then selected else take_quota (in_project t key) quota scored 0 selected)"

primrec fill_up :: "nat \<Rightarrow> scored_candidate list \<Rightarrow> scored_candidate list \<Rightarrow> scored_candidate list" where
  "fill_up limit [] selected = selected"
| "fill_up limit (x # xs) selected =
     (if length selected \<ge> limit then selected
      else fill_up limit xs (if sd_index x \<in> sd_index ` set selected then selected else selected @ [x]))"

section \<open>Recall\<close>

definition count_hit :: "project_key option \<Rightarrow> ranked_name_hit \<Rightarrow> completion_recall_metrics \<Rightarrow> completion_recall_metrics" where
  "count_hit active_project hit m =
     (let m = (case channel_for_tier (rh_tier hit) of
            ReachableChannel \<Rightarrow> m\<lparr> rm_reachable := Suc (rm_reachable m) \<rparr>
          | ExternalChannel \<Rightarrow> m\<lparr> rm_external := Suc (rm_external m) \<rparr>
          | UnknownChannel \<Rightarrow> m\<lparr> rm_unknown := Suc (rm_unknown m) \<rparr>
          | GlobalChannel \<Rightarrow> m\<lparr> rm_global := Suc (rm_global m) \<rparr>)
      in if active_project \<noteq> None \<and> rh_project_key hit = active_project
         then m\<lparr> rm_same_project := Suc (rm_same_project m) \<rparr> else m)"

definition default_recall_metrics :: completion_recall_metrics where
  "default_recall_metrics =
     \<lparr> rm_reachable = 0, rm_external = 0, rm_unknown = 0, rm_global = 0, rm_same_project = 0, rm_pool_total = 0,
       rm_indexed_returned = 0, rm_scan = default_scan_metrics \<rparr>"

definition recall_metrics ::
  "ranked_name_hit list \<Rightarrow> nat \<Rightarrow> project_key option \<Rightarrow> completion_recall_metrics" where
  "recall_metrics hits pool_total active_project =
     fold (count_hit active_project) hits
       (default_recall_metrics\<lparr> rm_pool_total := pool_total, rm_indexed_returned := length hits \<rparr>)"

type_synonym recall = "ranked_name_hit list \<times> nat list \<times> completion_recall_metrics"

definition cancelled_recall :: "recall_scan_metrics \<Rightarrow> recall" where
  "cancelled_recall m = ([], [], default_recall_metrics\<lparr> rm_scan := m\<lparr> sc_cancelled := True \<rparr> \<rparr>)"

definition selection_passes ::
  "name_table \<Rightarrow> completion_recall_query
   \<Rightarrow> ((scored_candidate \<Rightarrow> bool) \<times> nat \<times> (scored_candidate list \<Rightarrow> scored_candidate list \<Rightarrow> scored_candidate list)) list" where
  "selection_passes t q =
     (let quotas = rq_quotas q;
          channel = (\<lambda>c quota. (in_channel c, quota, (\<lambda>ranked. take_channel ranked c quota)))
      in [channel ReachableChannel (qt_reachable quotas)] @
         (case rq_active_project q of
            None \<Rightarrow> []
          | Some key \<Rightarrow> [(in_project t key, qt_same_project quotas,
              (\<lambda>ranked. take_same_project t ranked (rq_active_project q) (qt_same_project quotas)))]) @
         [channel ExternalChannel (qt_external quotas), channel UnknownChannel (qt_unknown quotas),
          channel GlobalChannel (qt_global quotas)])"

text \<open>Runs the passes in order; \<open>None\<close> when one of them observes the cancellation.\<close>

fun run_passes ::
  "name_table \<Rightarrow> cancellation \<Rightarrow> scored_candidate list
   \<Rightarrow> ((scored_candidate \<Rightarrow> bool) \<times> nat \<times> (scored_candidate list \<Rightarrow> scored_candidate list \<Rightarrow> scored_candidate list)) list
   \<Rightarrow> scored_candidate list \<Rightarrow> recall_scan_metrics \<Rightarrow> scored_candidate list option \<times> recall_scan_metrics" where
  "run_passes t cancellation scored [] selected m = (Some selected, m)"
| "run_passes t cancellation scored ((incl, quota, select) # passes) selected m =
     (case top_scored_controlled t scored incl quota cancellation m of
        (None, m) \<Rightarrow> (None, m)
      | (Some ranked, m) \<Rightarrow> run_passes t cancellation scored passes (select ranked selected) m)"

definition reserved_quota :: "completion_recall_quotas \<Rightarrow> nat" where
  "reserved_quota quotas =
     qt_reachable quotas + qt_external quotas + qt_unknown quotas + qt_global quotas + qt_same_project quotas"

definition keep_family :: "name_table \<Rightarrow> semantic_family option \<Rightarrow> nat \<Rightarrow> bool" where
  "keep_family t family i = (case family of None \<Rightarrow> True | Some f \<Rightarrow> ne_semantic_family (table_entry t i) = f)"

definition select_hits ::
  "name_table \<Rightarrow> completion_recall_query \<Rightarrow> scored_candidate list \<Rightarrow> nat list \<Rightarrow> recall_scan_metrics \<Rightarrow> recall" where
  "select_hits t q scored pool m =
     (let quotas = rq_quotas q; cancellation = rq_cancellation q; total_limit = qt_total_indexed quotas
      in case top_scored_controlled t scored (\<lambda>_. True) (total_limit + reserved_quota quotas) cancellation m of
           (None, m) \<Rightarrow> cancelled_recall m
         | (Some global_top, m) \<Rightarrow>
             (case run_passes t cancellation scored (selection_passes t q) [] m of
                (None, m) \<Rightarrow> cancelled_recall m
              | (Some selected, m) \<Rightarrow>
                  let selected = fill_up total_limit global_top selected;
                      (stop, m) = check cancellation m
                  in if stop then cancelled_recall m
                     else let hits = scored_to_hits t (take total_limit (sort_scored t selected))
                          in (hits, pool, (recall_metrics hits (length pool) (rq_active_project q))
                                \<lparr> rm_scan := m\<lparr> sc_cancelled := False \<rparr> \<rparr>)))"

definition search_completion_recall :: "name_table \<Rightarrow> completion_recall_query \<Rightarrow> recall option" where
  "search_completion_recall t q =
     map_option (\<lambda>(scored, pool, m).
       if sc_cancelled m then cancelled_recall m
       else
         let (stop, m) = check (rq_cancellation q) m
         in if stop then cancelled_recall m
            else
              let scored = filter (\<lambda>c. keep_family t (rq_semantic_family q) (sd_index c)) scored;
                  pool = filter (keep_family t (rq_semantic_family q)) pool;
                  (stop, m) = check (rq_cancellation q) m
              in if stop then cancelled_recall m else select_hits t q scored pool m)
       (scored_pool_for_query t q)"

definition search_completion_recall_pooled_with_project ::
  "name_table \<Rightarrow> string \<Rightarrow> completion_recall_quotas \<Rightarrow> completion_scope option \<Rightarrow> project_key option
   \<Rightarrow> nat list option \<Rightarrow> recall option" where
  "search_completion_recall_pooled_with_project t query quotas scope active_project prior_pool =
     search_completion_recall t
       \<lparr> rq_query = query, rq_quotas = quotas, rq_scope = scope, rq_active_project = active_project,
         rq_prior_pool = prior_pool, rq_semantic_family = None, rq_cancellation = None,
         rq_candidate_budget = 2 ^ 64 - 1 \<rparr>"

definition search_completion_recall_pooled ::
  "name_table \<Rightarrow> string \<Rightarrow> completion_recall_quotas \<Rightarrow> completion_scope option \<Rightarrow> nat list option \<Rightarrow> recall option" where
  "search_completion_recall_pooled t query quotas scope prior_pool =
     search_completion_recall_pooled_with_project t query quotas scope None prior_pool"

end
