(* ===== verification/Recall_Budget.thy ===== *)
theory Recall_Budget
  imports Name_Recall
begin

text \<open>
  Completion recall stays within its budgets: every channel reads at most the rows it was given, so
  one request reads at most its candidate budget, and the metadata probes of the priority channel
  stay below their own limit.
\<close>

section \<open>Counters\<close>

definition probe_counts :: "recall_scan_metrics \<Rightarrow> nat \<times> nat \<times> nat \<times> nat" where
  "probe_counts m = (sc_priority_source_probes m, sc_priority_fuzzy_name_probes m,
     sc_priority_fuzzy_declaration_probes m, sc_candidate_budget m)"

lemma check_counts [simp]:
  "sc_entries_inspected (snd (check c m)) = sc_entries_inspected m"
  "probe_counts (snd (check c m)) = probe_counts m"
  by (simp_all add: check_def probe_counts_def Let_def split: option.split)

lemma should_cancel_counts [simp]:
  "sc_entries_inspected (snd (should_cancel c m)) = sc_entries_inspected m"
  "probe_counts (snd (should_cancel c m)) = probe_counts m"
  by (simp_all add: should_cancel_def)

lemma check_eqD:
  "check c m = (stop, m') \<Longrightarrow> sc_entries_inspected m' = sc_entries_inspected m \<and> probe_counts m' = probe_counts m"
  using check_counts [of c m] by simp

lemma should_cancel_eqD:
  "should_cancel c m = (stop, m') \<Longrightarrow>
     sc_entries_inspected m' = sc_entries_inspected m \<and> probe_counts m' = probe_counts m"
  using should_cancel_counts [of c m] by simp

lemma count_entry_counts [simp]:
  "sc_entries_inspected (count_prefix_entry m) = Suc (sc_entries_inspected m)"
  "sc_entries_inspected (count_sample_entry m) = Suc (sc_entries_inspected m)"
  "sc_entries_inspected (count_posting_entries n m) = sc_entries_inspected m + n"
  "probe_counts (count_prefix_entry m) = probe_counts m"
  "probe_counts (count_sample_entry m) = probe_counts m"
  "probe_counts (count_posting_entries n m) = probe_counts m"
  by (simp_all add: count_prefix_entry_def count_sample_entry_def count_posting_entries_def probe_counts_def)

section \<open>Loops\<close>

lemma for_break_inv:
  assumes "\<And>x s. x \<in> set xs \<Longrightarrow> I s \<Longrightarrow> I (fst (f x s))" "I s"
  shows "I (fst (for_break f xs s))"
  using assms
proof (induction xs arbitrary: s)
  case (Cons x xs)
  show ?case
  proof (cases "f x s")
    case (Pair s' stop)
    with Cons.prems have "I s'" by (metis fst_conv list.set_intros(1))
    with Cons Pair show ?thesis by simp
  qed
qed simp

lemma drain_counts:
  "drain_cursors t c idx adv cancellation n heap out m = (out', heap', left, stop, m') \<Longrightarrow>
     sc_entries_inspected m' + left = sc_entries_inspected m + n \<and> probe_counts m' = probe_counts m"
proof (induction n arbitrary: heap out m)
  case (Suc n)
  obtain halt m1 where m1: "should_cancel cancellation m = (halt, m1)" by fastforce
  note same = should_cancel_eqD [OF m1]
  show ?case
  proof (cases "halt \<or> heap_pop c heap = None")
    case True
    with Suc.prems m1 same show ?thesis by (auto split: if_splits)
  next
    case False
    then obtain e rest where "heap_pop c heap = Some (e, rest)" by auto
    with False Suc.prems m1 have "drain_cursors t c idx adv cancellation n (adv e @ rest)
        (if is_active_index t (idx e) then out @ [idx e] else out) (count_prefix_entry m1) = (out', heap', left, stop, m')"
      by simp
    from Suc.IH [OF this] same show ?thesis by simp
  qed
qed simp

lemma drained_counts:
  assumes "drained_result (drain_cursors t c idx adv cancellation n heap out m) = (r, m')"
  shows "sc_entries_inspected m' \<le> sc_entries_inspected m + n \<and> probe_counts m' = probe_counts m"
proof -
  obtain out' heap' left stop m2 where
    "drain_cursors t c idx adv cancellation n heap out m = (out', heap', left, stop, m2)" by (metis prod_cases5)
  with assms drain_counts [OF this] show ?thesis by (auto simp: drained_result_def)
qed

lemma prefix_channel_counts:
  "prefix_channel t needle budget family cancellation m = (r, m') \<Longrightarrow>
     sc_entries_inspected m' \<le> sc_entries_inspected m + budget \<and> probe_counts m' = probe_counts m"
  unfolding prefix_channel_def bounded_short_prefix_candidates_def bounded_prefix_candidates_def
  by (auto dest: drained_counts split: if_splits)

lemma fuzzy_source_counts:
  "fuzzy_source_loop t cancellation n heap z m = ((heap', left, stop), z', m') \<Longrightarrow>
     left \<le> n \<and> sc_entries_inspected m' + left = sc_entries_inspected m + n \<and> probe_counts m' = probe_counts m"
proof (induction n arbitrary: heap z m rule: less_induct)
  case (less n)
  obtain halt m1 where m1: "should_cancel cancellation m = (halt, m1)" by fastforce
  note same = should_cancel_eqD [OF m1]
  show ?case
  proof (cases "n = 0 \<or> halt \<or> heap_pop (fuzzy_heap_cmp t) heap = None")
    case True
    with less.prems m1 same show ?thesis
      by (subst (asm) fuzzy_source_loop.simps) (auto split: if_splits)
  next
    case False
    then obtain e rest where pop: "heap_pop (fuzzy_heap_cmp t) heap = Some (e, rest)" by auto
    define k where "k = length (take (n - 1) (segment_entries_for_name t (fh_segment_slot e) (fh_family_slot e) (fh_name_id e)))"
    have k: "k \<le> n - 1" by (simp add: k_def)
    from less.prems m1 False pop
    consider z1 where "fuzzy_source_loop t cancellation (n - 1) (advance_fuzzy t e @ rest) z1 (count_posting_entries 1 m1) =
          ((heap', left, stop), z', m')"
      | z1 where "fuzzy_source_loop t cancellation (n - 1 - k) (advance_fuzzy t e @ rest) z1
          (count_posting_entries k (count_posting_entries 1 m1)) = ((heap', left, stop), z', m')"
      by (subst (asm) fuzzy_source_loop.simps) (auto simp: Let_def k_def split: if_splits)
    then show ?thesis
    proof cases
      case 1
      from less.IH [OF _ this] False same show ?thesis by auto
    next
      case 2
      from less.IH [OF _ this] False same k show ?thesis by auto
    qed
  qed
qed

lemma fuzzy_sources_counts:
  "fuzzy_sources t family cancellation tokens remaining z m = (r, m') \<Longrightarrow>
     sc_entries_inspected m' \<le> sc_entries_inspected m + remaining \<and> probe_counts m' = probe_counts m"
proof (induction tokens arbitrary: remaining z m)
  case (Cons token tokens)
  define b where "b = remaining div length (token # tokens)"
  obtain heap' left stop z1 m1 where loop: "fuzzy_source_loop t cancellation b
      (concat (map (\<lambda>(segment_slot, family_slot). push_fuzzy_posting_cursor t segment_slot family_slot token 0)
            (segment_families t family))) z m = ((heap', left, stop), z1, m1)" by (metis prod_cases3)
  have b: "b \<le> remaining" unfolding b_def by (rule div_le_dividend)
  note c = fuzzy_source_counts [OF loop]
  from loop have step: "fuzzy_sources t family cancellation (token # tokens) remaining z m =
      (if stop then (([], fz_truncated z1 \<or> heap' \<noteq> []), m1)
       else fuzzy_sources t family cancellation tokens (remaining - (b - left))
         (z1\<lparr> fz_truncated := fz_truncated z1 \<or> heap' \<noteq> [] \<rparr>) m1)"
    by (simp add: b_def)
  show ?case
  proof (cases stop)
    case True
    with Cons.prems c b show ?thesis unfolding step by auto
  next
    case False
    with Cons.prems have "fuzzy_sources t family cancellation tokens (remaining - (b - left))
        (z1\<lparr> fz_truncated := fz_truncated z1 \<or> heap' \<noteq> [] \<rparr>) m1 = (r, m')" unfolding step by simp
    from Cons.IH [OF this] c b show ?thesis by auto
  qed
qed simp

section \<open>Partition of the capacity\<close>

definition capacity :: "nat by_channel \<Rightarrow> nat" where
  "capacity limits = limits ScopeSource + limits ProjectSource + limits RecoverySource"

lemma assign_round_capacity:
  "assign_round enabled limits remaining = (limits', remaining', assigned) \<Longrightarrow> remaining > 0 \<Longrightarrow>
     capacity limits' + remaining' = capacity limits + remaining"
  by (auto simp: assign_round_def channels_ordered_def assign_unit_def capacity_def Let_def split: if_splits)

lemma partition_loop_capacity: "capacity (partition_loop enabled limits remaining) \<le> capacity limits + remaining"
proof (induction enabled limits remaining rule: partition_loop.induct)
  case (1 enabled limits remaining)
  obtain limits' remaining' assigned where r: "assign_round enabled limits remaining = (limits', remaining', assigned)"
    by (metis prod_cases3)
  show ?case
  proof (cases "remaining = 0")
    case False
    with assign_round_capacity [OF r] 1 [OF False r [symmetric] refl] r show ?thesis
      by (subst partition_loop.simps) (auto simp: Let_def)
  qed (simp add: partition_loop.simps)
qed

lemma partition_capacity: "capacity (partition_priority_capacity n enabled) \<le> n"
  using partition_loop_capacity [of enabled "\<lambda>_. 0" n] by (simp add: partition_priority_capacity_def capacity_def)

section \<open>Setting up the sources\<close>

definition setup_ok :: "recall_scan_metrics \<Rightarrow> priority_source_setup \<Rightarrow> bool" where
  "setup_ok m0 s \<longleftrightarrow>
     sc_entries_inspected (su_metrics s) = sc_entries_inspected m0 \<and>
     probe_counts (su_metrics s) =
       (sc_priority_source_probes m0 + capacity (su_probes_by_channel s), snd (probe_counts m0)) \<and>
     (\<forall>c. su_probes_by_channel s c \<le> su_probe_limits s c) \<and>
     capacity (su_probe_limits s) \<le> COMPLETION_PRIORITY_METADATA_PROBE_LIMIT"

lemma capacity_update: "capacity (f(c := Suc (f c))) = Suc (capacity f)"
  by (cases c) (simp_all add: capacity_def)

lemma capacity_mono: "(\<And>c. f c \<le> g c) \<Longrightarrow> capacity f \<le> capacity g"
  by (simp add: capacity_def add_mono)

lemma setup_new_ok: "setup_ok m (setup_new limit enabled m)"
proof -
  let ?n = "min (limit * PRIORITY_SOURCE_PROBE_MULTIPLIER) COMPLETION_PRIORITY_METADATA_PROBE_LIMIT"
  have "capacity (partition_priority_capacity ?n enabled) \<le> COMPLETION_PRIORITY_METADATA_PROBE_LIMIT"
    using partition_capacity [of ?n enabled] by simp
  then show ?thesis by (simp add: setup_ok_def setup_new_def probe_counts_def capacity_def Let_def)
qed

lemma consume_probe_ok: "setup_ok m0 s \<Longrightarrow> setup_ok m0 (snd (consume_probe cancellation c s))"
proof -
  assume ok: "setup_ok m0 s"
  define r where "r = (if su_probes s mod COMPLETION_CANCELLATION_CHECK_INTERVAL = 0
    then check cancellation (su_metrics s) else (False, su_metrics s))"
  obtain stop m where r: "r = (stop, m)" by fastforce
  have same: "sc_entries_inspected m = sc_entries_inspected (su_metrics s)" "probe_counts m = probe_counts (su_metrics s)"
    using r check_eqD [of cancellation "su_metrics s" stop m] by (auto simp: r_def split: if_splits)
  have room: "su_probes_by_channel s c < su_probe_limits s c" if "\<not> channel_is_full s c"
    using that by (simp add: channel_is_full_def channel_probes_are_full_def)
  show ?thesis
    unfolding consume_probe_def r_def [symmetric] r
    using ok same room by (auto simp: setup_ok_def capacity_update probe_counts_def Suc_le_eq)
qed

lemma register_ok: "setup_ok m0 s \<Longrightarrow> setup_ok m0 (snd (register_source key s))"
  by (simp add: register_source_def setup_ok_def)

lemma push_registered_ok:
  "setup_ok m0 s \<Longrightarrow> setup_ok m0 (snd (push_registered t c slot posting position priority required s))"
  by (simp add: push_registered_def setup_ok_def probe_counts_def Let_def)

text \<open>Steps of the loops that set up sources. A result of a setup operation is followed by others, so
  the facts are kept for the pair of the outcome and the setup.\<close>

lemmas setup_steps = consume_probe_ok register_ok push_registered_ok

lemma setup_step_eqD:
  "consume_probe cancellation c s = (b, s') \<Longrightarrow> setup_ok m0 s \<Longrightarrow> setup_ok m0 s'"
  "register_source key s = (b, s') \<Longrightarrow> setup_ok m0 s \<Longrightarrow> setup_ok m0 s'"
  "push_registered t c slot posting position priority required s = (b, s') \<Longrightarrow> setup_ok m0 s \<Longrightarrow> setup_ok m0 s'"
  using setup_steps by (metis snd_conv)+

lemma try_push_ok: "setup_ok m0 s \<Longrightarrow> setup_ok m0 (snd (try_push t cancellation c key posting position priority required s))"
  by (auto simp: try_push_def Let_def dest: setup_step_eqD split: prod.split intro: push_registered_ok)

lemma open_path_source_ok: "setup_ok m0 s \<Longrightarrow> setup_ok m0 (fst (open_path_source t needle c p slot family_slot path_id s))"
  by (auto simp: open_path_source_def Let_def dest: setup_step_eqD split: prod.split)

lemma scope_path_ok: "setup_ok m0 s \<Longrightarrow> setup_ok m0 (fst (scope_path t needle family cancellation path s))"
proof -
  have inner: "setup_ok m0 (fst (scope_family t needle cancellation slot path_id x s'))" if "setup_ok m0 s'" for slot path_id x s'
    using that by (auto simp: scope_family_def intro!: open_path_source_ok dest: setup_step_eqD split: prod.split)
  assume "setup_ok m0 s"
  then show ?thesis
    by (auto simp: scope_path_def Let_def dest: setup_step_eqD split: prod.split option.split
        intro!: for_break_inv [where I = "setup_ok m0"] inner)
qed

lemma project_sources_ok: "setup_ok m0 s \<Longrightarrow> setup_ok m0 (project_sources t needle project family cancellation s)"
proof -
  have pair: "setup_ok m0 (fst (project_pair t needle cancellation slot x s'))" if "setup_ok m0 s'" for slot x s'
    using that by (auto simp: project_pair_def Let_def intro!: open_path_source_ok dest: setup_step_eqD split: prod.split)
  have paths: "setup_ok m0 (fst (project_paths_segment t needle key family cancellation slot s'))" if "setup_ok m0 s'"
    for key slot s'
    using that by (auto simp: project_paths_segment_def Let_def split: option.split
        intro!: for_break_inv [where I = "setup_ok m0"] pair)
  have fam: "setup_ok m0 (fst (project_family t needle cancellation slot postings x s'))" if "setup_ok m0 s'"
    for slot postings x s'
    using that by (auto simp: project_family_def Let_def split: prod.split dest: try_push_ok)
      (metis snd_conv try_push_ok)
  have segs: "setup_ok m0 (fst (project_postings_segment t needle key family cancellation slot s'))" if "setup_ok m0 s'"
    for key slot s'
    using that by (auto simp: project_postings_segment_def split: option.split
        intro!: for_break_inv [where I = "setup_ok m0"] fam)
  assume "setup_ok m0 s"
  then show ?thesis
    by (auto simp: project_sources_def split: option.split
        intro!: for_break_inv [where I = "setup_ok m0"] paths segs)
qed

lemma recovery_sources_ok: "setup_ok m0 s \<Longrightarrow> setup_ok m0 (recovery_sources t needle project family cancellation s)"
proof -
  let ?I = "\<lambda>st. setup_ok m0 (fst st)"
  have pair: "?I (fst (recovery_pair t needle project cancellation limit slot x st))" if "?I st" for limit slot x st
    using that by (auto simp: recovery_pair_def Let_def dest: setup_step_eqD split: prod.split)
  have seg: "?I (fst (recovery_segment t needle project family cancellation limit slot st))" if "?I st" for limit slot st
    using that by (auto simp: recovery_segment_def intro!: for_break_inv [where I = ?I] pair)
  have pend: "setup_ok m0 (fst (push_pending t needle x s'))" if "setup_ok m0 s'" for x s'
    using that by (auto simp: push_pending_def dest: setup_step_eqD split: prod.split)
  assume s: "setup_ok m0 s"
  let ?r = "fst (for_break (recovery_segment t needle project family cancellation (su_attempt_limits s RecoverySource))
    (segment_slots t) (s, [], []))"
  have "?I ?r" by (rule for_break_inv [where I = ?I]) (use seg s in simp_all)
  then show ?thesis
    by (auto simp: recovery_sources_def split: prod.split intro!: for_break_inv [where I = "setup_ok m0"] pend)
qed

lemma priority_setup_ok: "setup_ok m (priority_setup t needle budget scope project family cancellation m)"
  unfolding priority_setup_def Let_def
  by (intro recovery_sources_ok project_sources_ok for_break_inv [where I = "setup_ok m"] scope_path_ok setup_new_ok)

lemma setup_ok_probes:
  assumes "setup_ok m0 s"
  shows "sc_priority_source_probes (su_metrics s) \<le> sc_priority_source_probes m0 + COMPLETION_PRIORITY_METADATA_PROBE_LIMIT"
    "sc_entries_inspected (su_metrics s) = sc_entries_inspected m0"
    "snd (probe_counts (su_metrics s)) = snd (probe_counts m0)"
proof -
  have "capacity (su_probes_by_channel s) \<le> capacity (su_probe_limits s)"
    using assms by (intro capacity_mono) (simp add: setup_ok_def)
  with assms show "sc_priority_source_probes (su_metrics s) \<le>
      sc_priority_source_probes m0 + COMPLETION_PRIORITY_METADATA_PROBE_LIMIT"
    "sc_entries_inspected (su_metrics s) = sc_entries_inspected m0"
    "snd (probe_counts (su_metrics s)) = snd (probe_counts m0)"
    by (simp_all add: setup_ok_def) (simp add: probe_counts_def)
qed

section \<open>The priority channel\<close>

lemma reserved_counts:
  "reserved_loop t needle cancellation limits tr taken n heap deferred dp out m = (r, m') \<Longrightarrow>
     probe_counts m' = probe_counts m \<and>
     (case r of
        Inl _ \<Rightarrow> sc_entries_inspected m' \<le> sc_entries_inspected m + n
      | Inr (_, _, _, left) \<Rightarrow> sc_entries_inspected m' + left = sc_entries_inspected m + n)"
proof (induction t needle cancellation limits tr taken n heap deferred dp out m rule: reserved_loop.induct)
  case (1 t needle cancellation limits tr taken n heap deferred dp out m)
  show ?case
  proof (cases "n = 0 \<or> heap_pop (priority_heap_cmp t) heap = None")
    case True
    with 1(3) show ?thesis by (subst (asm) reserved_loop.simps) (auto split: if_splits)
  next
    case False
    then obtain e rest where pop: "heap_pop (priority_heap_cmp t) heap = Some (e, rest)" by auto
    let ?c = "rk_channel (pe_source_rank e)"
    show ?thesis
    proof (cases "taken ?c \<ge> limits ?c")
      case True
      define p where "p = (if dp mod COMPLETION_CANCELLATION_CHECK_INTERVAL = 0 then check cancellation m else (False, m))"
      obtain stop m1 where p: "p = (stop, m1)" by fastforce
      have same: "sc_entries_inspected m1 = sc_entries_inspected m" "probe_counts m1 = probe_counts m"
        using p check_eqD [of cancellation m stop m1] by (auto simp: p_def split: if_splits)
      have step: "reserved_loop t needle cancellation limits tr taken n heap deferred dp out m =
          (if stop then (Inl ([], True), m1)
           else reserved_loop t needle cancellation limits tr taken n rest (deferred @ [e]) (Suc dp) out m1)"
        using False pop True p by (subst reserved_loop.simps) (simp add: Let_def p_def)
      show ?thesis
      proof (cases stop)
        case halt: True
        with 1(3) same show ?thesis unfolding step by auto
      next
        case go: False
        with 1(3) have "reserved_loop t needle cancellation limits tr taken n rest (deferred @ [e]) (Suc dp) out m1 = (r, m')"
          unfolding step by simp
        from 1(1) [OF _ pop refl refl True p [symmetric, unfolded p_def] refl go this] False same
        show ?thesis by (auto split: sum.splits)
      qed
    next
      case below: False
      obtain stop m1 where p: "should_cancel cancellation m = (stop, m1)" by fastforce
      note same = should_cancel_eqD [OF p]
      let ?next = "reserved_loop t needle cancellation limits tr (taken(?c := Suc (taken ?c))) (n - 1)
        (advance_priority t needle e @ rest) deferred dp
        (if is_active_index t (pe_index e) then out @ [pe_index e] else out) (count_prefix_entry m1)"
      have step: "reserved_loop t needle cancellation limits tr taken n heap deferred dp out m =
          (if stop then (Inl ([], tr \<or> rest \<noteq> [] \<or> deferred \<noteq> []), m1) else ?next)"
        using False pop below p by (subst reserved_loop.simps) (simp add: Let_def)
      show ?thesis
      proof (cases stop)
        case halt: True
        with 1(3) same show ?thesis unfolding step by auto
      next
        case go: False
        with 1(3) have "?next = (r, m')" unfolding step by simp
        from 1(2) [OF _ pop refl refl below p [symmetric] refl go this] False same
        show ?thesis by (auto split: sum.splits)
      qed
    qed
  qed
qed

definition fuzzy_probe_ok :: "recall_scan_metrics \<Rightarrow> nat \<Rightarrow> nat \<Rightarrow> fuzzy_probe_state \<Rightarrow> bool" where
  "fuzzy_probe_ok m0 limit budget f \<longleftrightarrow>
     fs_probes f \<le> limit \<and> fs_declaration_probes f \<le> limit \<and> fs_inspected f \<le> budget \<and>
     sc_entries_inspected (fs_metrics f) = sc_entries_inspected m0 + fs_inspected f \<and>
     probe_counts (fs_metrics f) = (sc_priority_source_probes m0, sc_priority_fuzzy_name_probes m0 + fs_probes f,
       sc_priority_fuzzy_declaration_probes m0 + fs_declaration_probes f, sc_candidate_budget m0)"

lemma finish_probe_ok [simp]: "fuzzy_probe_ok m0 limit budget (fst (finish_probe r f)) = fuzzy_probe_ok m0 limit budget f"
  by (simp add: finish_probe_def fuzzy_probe_ok_def)

lemma fuzzy_probe_metrics:
  assumes "fuzzy_probe_ok m0 limit budget f" "sc_entries_inspected m = sc_entries_inspected (fs_metrics f)"
    "probe_counts m = probe_counts (fs_metrics f)"
  shows "fuzzy_probe_ok m0 limit budget (f\<lparr> fs_metrics := m \<rparr>)"
  using assms by (simp add: fuzzy_probe_ok_def)

lemma probe_declaration_ok:
  assumes ok: "fuzzy_probe_ok m0 limit budget f"
  shows "fuzzy_probe_ok m0 limit budget (fst (probe_declaration t cancellation limit budget sole_path i f))"
proof -
  define r where "r = (if sole_path = MULTI_PATH_ID \<and> fs_declaration_probes f mod COMPLETION_CANCELLATION_CHECK_INTERVAL = 0
    then check cancellation (fs_metrics f) else (False, fs_metrics f))"
  obtain stop m where r: "r = (stop, m)" by fastforce
  have same: "sc_entries_inspected m = sc_entries_inspected (fs_metrics f)" "probe_counts m = probe_counts (fs_metrics f)"
    using r check_eqD [of cancellation "fs_metrics f" stop m] by (auto simp: r_def split: if_splits)
  show ?thesis
    unfolding probe_declaration_def Let_def r_def [symmetric] r prod.case
    using ok same
    by (auto simp: fuzzy_probe_metrics) (auto simp: fuzzy_probe_ok_def probe_counts_def count_posting_entries_def)
qed

lemma probe_name_ok:
  assumes ok: "fuzzy_probe_ok m0 limit budget f"
  shows "fuzzy_probe_ok m0 limit budget (fst (probe_name t cancellation limit budget key f))"
proof -
  define r where "r = (if fs_probes f mod COMPLETION_CANCELLATION_CHECK_INTERVAL = 0
    then check cancellation (fs_metrics f) else (False, fs_metrics f))"
  obtain stop m where r: "r = (stop, m)" by fastforce
  have same: "sc_entries_inspected m = sc_entries_inspected (fs_metrics f)" "probe_counts m = probe_counts (fs_metrics f)"
    using r check_eqD [of cancellation "fs_metrics f" stop m] by (auto simp: r_def split: if_splits)
  let ?f = "f\<lparr> fs_probes := Suc (fs_probes f),
    fs_metrics := m\<lparr> sc_priority_fuzzy_name_probes := Suc (sc_priority_fuzzy_name_probes m) \<rparr> \<rparr>"
  have nxt: "fuzzy_probe_ok m0 limit budget ?f" "fuzzy_probe_ok m0 limit budget (?f\<lparr> fs_expanded := x \<rparr>)"
    if "\<not> fs_probes f \<ge> limit" for x
    using ok same that by (auto simp: fuzzy_probe_ok_def probe_counts_def)
  show ?thesis
    unfolding probe_name_def Let_def r_def [symmetric] r prod.case
    using ok same nxt
    by (auto simp: fuzzy_probe_metrics split: prod.split
        intro!: for_break_inv [where I = "fuzzy_probe_ok m0 limit budget"] probe_declaration_ok)
qed

lemma priority_fuzzy_counts:
  assumes "bounded_priority_fuzzy_candidates t tokens budget family cancellation m = (r, m')"
  shows "sc_entries_inspected m' \<le> sc_entries_inspected m + budget"
    "sc_priority_source_probes m' = sc_priority_source_probes m"
    "sc_priority_fuzzy_name_probes m' \<le> sc_priority_fuzzy_name_probes m + COMPLETION_PRIORITY_METADATA_PROBE_LIMIT"
    "sc_priority_fuzzy_declaration_probes m' \<le>
       sc_priority_fuzzy_declaration_probes m + COMPLETION_PRIORITY_METADATA_PROBE_LIMIT"
    "sc_candidate_budget m' = sc_candidate_budget m"
proof -
  let ?limit = "min (budget * COMPLETION_CANCELLATION_CHECK_INTERVAL) COMPLETION_PRIORITY_METADATA_PROBE_LIMIT"
  let ?f = "fst (for_break (probe_name t cancellation ?limit budget) (priority_name_keys t tokens family)
    \<lparr> fs_probes = 0, fs_declaration_probes = 0, fs_inspected = 0, fs_output = [], fs_expanded = [],
      fs_metrics = m, fs_result = None \<rparr>)"
  have "fuzzy_probe_ok m ?limit budget ?f"
    by (rule for_break_inv [where I = "fuzzy_probe_ok m ?limit budget"])
      (simp_all add: probe_name_ok, simp add: fuzzy_probe_ok_def probe_counts_def)
  moreover have "m' = m \<or> m' = fs_metrics ?f"
    using assms by (auto simp: bounded_priority_fuzzy_candidates_def Let_def split: if_splits)
  ultimately show "sc_entries_inspected m' \<le> sc_entries_inspected m + budget"
    "sc_priority_source_probes m' = sc_priority_source_probes m"
    "sc_priority_fuzzy_name_probes m' \<le> sc_priority_fuzzy_name_probes m + COMPLETION_PRIORITY_METADATA_PROBE_LIMIT"
    "sc_priority_fuzzy_declaration_probes m' \<le>
       sc_priority_fuzzy_declaration_probes m + COMPLETION_PRIORITY_METADATA_PROBE_LIMIT"
    "sc_candidate_budget m' = sc_candidate_budget m"
    by (auto simp: fuzzy_probe_ok_def probe_counts_def)
qed

text \<open>What a request may cost: rows and the three kinds of metadata probes.\<close>

definition costs :: "nat \<Rightarrow> recall_scan_metrics \<Rightarrow> recall_scan_metrics \<Rightarrow> bool" where
  "costs budget m m' \<longleftrightarrow>
     sc_entries_inspected m' \<le> sc_entries_inspected m + budget \<and>
     sc_priority_source_probes m' \<le> sc_priority_source_probes m + COMPLETION_PRIORITY_METADATA_PROBE_LIMIT \<and>
     sc_priority_fuzzy_name_probes m' \<le> sc_priority_fuzzy_name_probes m + COMPLETION_PRIORITY_METADATA_PROBE_LIMIT \<and>
     sc_priority_fuzzy_declaration_probes m' \<le>
       sc_priority_fuzzy_declaration_probes m + COMPLETION_PRIORITY_METADATA_PROBE_LIMIT \<and>
     sc_candidate_budget m' = sc_candidate_budget m"

lemma costs_rows:
  "sc_entries_inspected m' \<le> sc_entries_inspected m + budget \<Longrightarrow> probe_counts m' = probe_counts m \<Longrightarrow> costs budget m m'"
  by (simp add: costs_def probe_counts_def)

lemma costs_within:
  assumes "costs b m m1" "sc_entries_inspected m = 0"
    "sc_entries_inspected m2 \<le> sc_entries_inspected m1 + k" "k \<le> b - sc_entries_inspected m1"
    "probe_counts m2 = probe_counts m1"
  shows "costs b m m2"
proof -
  have "sc_entries_inspected m2 \<le> sc_entries_inspected m + b" using assms(1-4) by (auto simp: costs_def)
  with assms(1,5) show ?thesis by (simp add: costs_def probe_counts_def)
qed

lemma priority_counts:
  assumes "bounded_priority_prefix_candidates t needle budget scope project family cancellation m = (r, m')"
  shows "costs budget m m'"
proof (cases "needle = [] \<or> budget = 0")
  case True
  with assms show ?thesis by (auto simp: bounded_priority_prefix_candidates_def costs_def)
next
  case False
  define s where "s = priority_setup t needle budget scope project family cancellation m"
  note su = setup_ok_probes [OF priority_setup_ok, of t needle budget scope project family cancellation m, folded s_def]
  obtain rr m1 where loop: "reserved_loop t needle cancellation (su_attempt_limits s) (any_channel_is_full s) (\<lambda>_. 0)
      budget (su_heap s) [] 0 [] (su_metrics s) = (rr, m1)" by fastforce
  note first = reserved_counts [OF loop]
  consider "su_cancelled s" "m' = su_metrics s"
    | "\<exists>x. rr = Inl x" "m' = m1"
    | out heap deferred left where "rr = Inr (out, heap, deferred, left)"
      "finish_priority t needle family cancellation (any_channel_is_full s)
         (drain_cursors t (priority_heap_cmp t) pe_index (advance_priority t needle) cancellation left
           (deferred @ heap) out m1) = (r, m')"
    using assms False loop
    by (auto simp: bounded_priority_prefix_candidates_def Let_def s_def [symmetric] split: if_splits sum.splits)
  then show ?thesis
  proof cases
    case 1
    with su show ?thesis by (simp add: costs_def probe_counts_def)
  next
    case 2
    with su first show ?thesis by (auto simp: costs_def probe_counts_def)
  next
    case 3
    obtain out2 heap2 left2 stop m2 where drain: "drain_cursors t (priority_heap_cmp t) pe_index (advance_priority t needle)
        cancellation left (deferred @ heap) out m1 = (out2, heap2, left2, stop, m2)" by (metis prod_cases5)
    note second = drain_counts [OF drain]
    obtain rf m3 where fuzzy: "bounded_priority_fuzzy_candidates t (priority_tokens t needle family) left2 family
        cancellation m2 = (rf, m3)" by fastforce
    have "m' = m2 \<or> m' = m3"
      using 3(2) drain fuzzy by (auto simp: finish_priority_def split: if_splits prod.splits)
    with su first second priority_fuzzy_counts [OF fuzzy] 3(1) show ?thesis
      by (auto simp: costs_def probe_counts_def)
  qed
qed

section \<open>The request\<close>

lemma scan_rows_counts:
  "scan_rows cancellation f xs st m = Some (r, m') \<Longrightarrow>
     sc_entries_inspected m' \<le> sc_entries_inspected m + length xs \<and> probe_counts m' = probe_counts m"
proof (induction xs arbitrary: st m)
  case (Cons x xs)
  obtain stop m1 where m1: "should_cancel cancellation m = (stop, m1)" by fastforce
  note same = should_cancel_eqD [OF m1]
  show ?case
  proof (cases stop)
    case True
    with Cons.prems m1 same show ?thesis by auto
  next
    case False
    with Cons.prems m1 obtain st1 where "scan_rows cancellation f xs st1 (count_sample_entry m1) = Some (r, m')"
      by (auto split: option.splits)
    from Cons.IH [OF this] same show ?thesis by simp
  qed
qed simp

lemma finish_scan_counts:
  "finish_scan cancellation tr (r, m) = (scored, pool, m') \<Longrightarrow>
     sc_entries_inspected m' = sc_entries_inspected m \<and> probe_counts m' = probe_counts m"
  by (auto simp: finish_scan_def cancel_after_scan_def probe_counts_def split: option.splits if_splits prod.splits
      dest!: check_eqD)

lemma scanned_costs:
  assumes "map_option (finish_scan cancellation tr) (scan_rows cancellation f xs st m) = Some (scored, pool, m')"
  shows "sc_entries_inspected m' \<le> sc_entries_inspected m + length xs \<and> probe_counts m' = probe_counts m"
proof -
  from assms obtain r m1 where "scan_rows cancellation f xs st m = Some (r, m1)"
      "finish_scan cancellation tr (r, m1) = (scored, pool, m')" by auto
  from scan_rows_counts [OF this(1)] finish_scan_counts [OF this(2)] show ?thesis by simp
qed

lemma recall_sampled_costs:
  assumes "recall_sampled t q needle min_score ctx m = Some (scored, pool, m')" "sc_entries_inspected m = 0"
  shows "costs (rq_candidate_budget q) m m'"
proof -
  let ?b = "rq_candidate_budget q" and ?fam = "rq_semantic_family q" and ?c = "rq_cancellation q"
  obtain r1 tr1 m1 where p: "bounded_priority_prefix_candidates t needle (?b div 8) (rq_scope q) (rq_active_project q)
      ?fam ?c m = ((r1, tr1), m1)" by (metis prod_cases3 prod.collapse)
  obtain r2 tr2 m2 where x: "prefix_channel t needle (three_quarters (?b - sc_entries_inspected m1)) ?fam ?c m1 =
      ((r2, tr2), m2)" by (metis prod_cases3 prod.collapse)
  obtain r3 tr3 m3 where y: "bounded_fuzzy_posting_candidates t needle (three_quarters (?b - sc_entries_inspected m2))
      ?fam ?c m2 = ((r3, tr3), m3)" by (metis prod_cases3 prod.collapse)
  have quarters: "three_quarters n \<le> n" for n by (simp add: three_quarters_def)
  note c1 = priority_counts [OF p]
  note c2 = prefix_channel_counts [OF x]
  note c3 = fuzzy_sources_counts [OF y [unfolded bounded_fuzzy_posting_candidates_def]]
  have k1: "costs ?b m m1" using c1 assms(2) div_le_dividend [of ?b 8] unfolding costs_def by linarith
  have k2: "costs ?b m m2"
    using costs_within [OF k1 assms(2) conjunct1 [OF c2] quarters conjunct2 [OF c2]] .
  have k3: "costs ?b m m3"
    using costs_within [OF k2 assms(2) conjunct1 [OF c3] quarters conjunct2 [OF c3]] .
  let ?n = "min (?b - sc_entries_inspected m3) (candidate_slot_len t ?fam)"
  consider "m' = m1" | "m' = m2" | "m' = m3"
    | f st r m4 tr where "scan_rows ?c f [0..<?n] st m3 = Some (r, m4)"
      "finish_scan ?c tr (map_option snd (r :: seen_scan option), m4) = (scored, pool, m')"
    using assms(1) unfolding recall_sampled_def Let_def p x y prod.case
    by (auto simp: map_option_case split: if_splits option.splits prod.splits)
  then show ?thesis
  proof cases
    case 4
    from scan_rows_counts [OF this(1)] finish_scan_counts [OF this(2)]
    have "sc_entries_inspected m' \<le> sc_entries_inspected m3 + ?n" "probe_counts m' = probe_counts m3" by simp_all
    then show ?thesis by (intro costs_within [OF k3 assms(2), of m' ?n]) simp_all
  qed (use k1 k2 k3 in simp_all)
qed

lemma scored_pool_costs:
  assumes "scored_pool_for_query t q = Some (scored, pool, m')"
  shows "costs (rq_candidate_budget q)
    (default_scan_metrics\<lparr> sc_active_entries_total := nt_active_len t, sc_candidate_budget := rq_candidate_budget q \<rparr>) m'"
    (is "costs ?b ?m m'")
proof -
  let ?query = "str_trim (rq_query q)"
  have zero: "sc_entries_inspected ?m = 0" by (simp add: default_scan_metrics_def)
  consider (sampled) "recall_sampled t q (to_ascii_lowercase ?query) (min_score_for (to_ascii_lowercase ?query))
      (map_option completion_resolve_context (rq_scope q)) ?m = Some (scored, pool, m')"
    | (scan) f tr and st :: scan and xs :: "nat list" where
      "map_option (finish_scan (rq_cancellation q) tr) (scan_rows (rq_cancellation q) f xs st ?m) = Some (scored, pool, m')"
      "length xs \<le> ?b"
    using assms unfolding scored_pool_for_query_def recall_without_query_def Let_def
    by (auto split: if_splits option.splits)
  then show ?thesis
  proof cases
    case sampled
    then show ?thesis using zero by (rule recall_sampled_costs)
  next
    case scan
    from scanned_costs [OF this(1)] this(2) show ?thesis by (intro costs_rows) simp_all
  qed
qed

lemma select_rows_counts:
  "select_rows t incl limit cancellation xs retained block m = (r, m') \<Longrightarrow>
     sc_entries_inspected m' = sc_entries_inspected m \<and> probe_counts m' = probe_counts m"
proof (induction xs arbitrary: retained block m)
  case Nil
  then show ?case by (auto split: if_splits prod.splits dest!: check_eqD)
next
  case (Cons x xs)
  let ?m = "m\<lparr> sc_selection_entries_inspected := Suc (sc_selection_entries_inspected m) \<rparr>"
  have same: "sc_entries_inspected ?m = sc_entries_inspected m" "probe_counts ?m = probe_counts m"
    by (simp_all add: probe_counts_def)
  obtain stop m1 where c: "check cancellation ?m = (stop, m1)" by fastforce
  note same1 = check_eqD [OF c]
  from Cons.prems c same same1 show ?case
    by (auto simp: Let_def split: if_splits dest!: Cons.IH)
qed

lemma top_controlled_counts:
  "top_scored_controlled t scored incl limit cancellation m = (r, m') \<Longrightarrow>
     sc_entries_inspected m' = sc_entries_inspected m \<and> probe_counts m' = probe_counts m"
  by (auto simp: top_scored_controlled_def split: if_splits prod.splits dest!: select_rows_counts check_eqD)

lemma run_passes_counts:
  "run_passes t cancellation scored passes selected m = (r, m') \<Longrightarrow>
     sc_entries_inspected m' = sc_entries_inspected m \<and> probe_counts m' = probe_counts m"
proof (induction t cancellation scored passes selected m rule: run_passes.induct)
  case (2 t cancellation scored incl quota select passes selected m)
  obtain r1 m1 where c: "top_scored_controlled t scored incl quota cancellation m = (r1, m1)" by fastforce
  note same = top_controlled_counts [OF c]
  from "2.prems" c same show ?case by (auto split: option.splits dest!: "2.IH" [OF c [symmetric]])
qed simp

lemma cancelled_counts [simp]:
  "sc_entries_inspected (rm_scan (snd (snd (cancelled_recall m)))) = sc_entries_inspected m"
  "probe_counts (rm_scan (snd (snd (cancelled_recall m)))) = probe_counts m"
  by (simp_all add: cancelled_recall_def probe_counts_def)

lemma select_hits_counts:
  "sc_entries_inspected (rm_scan (snd (snd (select_hits t q scored pool m)))) = sc_entries_inspected m \<and>
   probe_counts (rm_scan (snd (snd (select_hits t q scored pool m)))) = probe_counts m"
  by (auto simp: select_hits_def Let_def probe_counts_def [of "_ \<lparr> sc_cancelled := _ \<rparr>"]
      probe_counts_def [symmetric] split: prod.split option.split dest!: top_controlled_counts run_passes_counts check_eqD)

lemma recall_costs:
  assumes "search_completion_recall t q = Some (hits, pool, metrics)"
  shows "costs (rq_candidate_budget q)
    (default_scan_metrics\<lparr> sc_active_entries_total := nt_active_len t, sc_candidate_budget := rq_candidate_budget q \<rparr>)
    (rm_scan metrics)" (is "costs ?b ?m _")
proof -
  let ?stage = "\<lambda>scored pool m.
    if sc_cancelled m then cancelled_recall m
    else let (stop, m) = check (rq_cancellation q) m
      in if stop then cancelled_recall m
         else
           let scored = filter (\<lambda>c. keep_family t (rq_semantic_family q) (sd_index c)) scored;
               pool = filter (keep_family t (rq_semantic_family q)) pool;
               (stop, m) = check (rq_cancellation q) m
           in if stop then cancelled_recall m else select_hits t q scored pool m"
  from assms obtain scored pool1 m1 where p: "scored_pool_for_query t q = Some (scored, pool1, m1)"
      and r: "(hits, pool, metrics) = ?stage scored pool1 m1"
    by (auto simp: search_completion_recall_def)
  have "sc_entries_inspected (rm_scan (snd (snd (?stage scored pool1 m1)))) = sc_entries_inspected m1 \<and>
      probe_counts (rm_scan (snd (snd (?stage scored pool1 m1)))) = probe_counts m1"
    by (auto simp: Let_def select_hits_counts split: prod.split dest!: check_eqD)
  then have "sc_entries_inspected (rm_scan metrics) = sc_entries_inspected m1" "probe_counts (rm_scan metrics) = probe_counts m1"
    unfolding r [symmetric] by simp_all
  with scored_pool_costs [OF p] show ?thesis by (simp add: costs_def probe_counts_def)
qed

end
