(* ===== verification/Recall_Select.thy ===== *)
theory Recall_Select
  imports Name_Recall
begin

text \<open>
  What a recall selects from the scored rows: the bounded heap keeps the first rows of the sorted
  list, every channel gets its quota, and the rest is filled up by rank.
\<close>

section \<open>The bounded heap\<close>

text \<open>Appending an element to a list inserts it behind everything that is not greater.\<close>

definition insert_late :: "('a \<Rightarrow> 'a \<Rightarrow> ordering) \<Rightarrow> 'a \<Rightarrow> 'a list \<Rightarrow> 'a list" where
  "insert_late c x ys = takeWhile (\<lambda>y. c y x \<noteq> Greater) ys @ x # dropWhile (\<lambda>y. c y x \<noteq> Greater) ys"

context lawful_cmp begin

lemma less_trans1: "c x y = Less \<Longrightarrow> c y z \<noteq> Greater \<Longrightarrow> c x z = Less"
  using cmp_flip [of x y] cmp_trans [of x y z] cmp_trans [of y z x] cmp_equal_sym [of x z]
  by (cases "c x z") auto

lemma less_trans2: "c x y \<noteq> Greater \<Longrightarrow> c y z = Less \<Longrightarrow> c x z = Less"
  using cmp_flip [of y z] cmp_trans [of x y z] cmp_trans [of z x y] cmp_equal_sym [of x z]
  by (cases "c x z") auto

lemma best_by_split:
  "\<exists>as bs. x # xs = as @ best_by c x xs # bs \<and> (\<forall>a \<in> set as. c a (best_by c x xs) = Less) \<and>
     (\<forall>y \<in> set (x # xs). c y (best_by c x xs) \<noteq> Greater)"
proof (induction xs arbitrary: x)
  case Nil
  show ?case by (rule exI [of _ "[]"], rule exI [of _ "[]"]) (simp add: cmp_refl)
next
  case (Cons y ys)
  show ?case
  proof (cases "c y x = Greater")
    case True
    define w where "w = best_by c y ys"
    have w: "best_by c x (y # ys) = w" using True by (simp add: w_def)
    obtain as bs where s: "y # ys = as @ w # bs" "\<forall>a \<in> set as. c a w = Less" "\<forall>z \<in> set (y # ys). c z w \<noteq> Greater"
      unfolding w_def using Cons.IH by blast
    have "c x y = Less" using True cmp_flip by blast
    then have x: "c x w = Less" using less_trans1 s(3) by simp
    show ?thesis unfolding w
    proof (intro exI conjI)
      show "x # y # ys = (x # as) @ w # bs" using s(1) by simp
    qed (use s x in simp_all)
  next
    case False
    define w where "w = best_by c x ys"
    have w: "best_by c x (y # ys) = w" using False by (simp add: w_def)
    obtain as bs where s: "x # ys = as @ w # bs" "\<forall>a \<in> set as. c a w = Less" "\<forall>z \<in> set (x # ys). c z w \<noteq> Greater"
      unfolding w_def using Cons.IH by blast
    have y: "c y w \<noteq> Greater" using cmp_trans [OF False] s(3) by simp
    show ?thesis unfolding w
    proof (cases as)
      case Nil
      then have "x # y # ys = [] @ w # y # ys" using s(1) by simp
      with s(3) y show "\<exists>as bs. x # y # ys = as @ w # bs \<and> (\<forall>a\<in>set as. c a w = Less) \<and>
          (\<forall>z\<in>set (x # y # ys). c z w \<noteq> Greater)"
        by (intro exI [of _ "[]"] exI [of _ "y # ys"]) simp
    next
      case (Cons a as')
      then have "x # y # ys = (x # y # as') @ w # bs" "c x w = Less" using s(1,2) by simp_all
      moreover from this(2) have "c y w = Less" using less_trans2 [OF False] by blast
      ultimately show "\<exists>as bs. x # y # ys = as @ w # bs \<and> (\<forall>a\<in>set as. c a w = Less) \<and>
          (\<forall>z\<in>set (x # y # ys). c z w \<noteq> Greater)"
        using s(2,3) y Cons by (intro exI [of _ "x # y # as'"] exI [of _ bs]) simp
    qed
  qed
qed

lemma sort_by_snoc: "sort_by c (xs @ [x]) = insert_late c x (sort_by c xs)"
proof (rule sort_by_unique)
  let ?P = "\<lambda>y. c y x \<noteq> Greater" and ?S = "sort_by c xs"
  define A B where "A = takeWhile ?P ?S" and "B = dropWhile ?P ?S"
  have ins: "insert_late c x ?S = A @ x # B" by (simp add: insert_late_def A_def B_def)
  have cat: "A @ B = ?S" by (simp add: A_def B_def)
  have s: "sorted_cmp c (A @ B)" unfolding cat by (rule sorted_sort_by)
  have early: "\<forall>y \<in> set A. c y x \<noteq> Greater" unfolding A_def by (metis set_takeWhileD)
  have late: "c y x = Greater" if y: "y \<in> set B" for y
  proof (cases B)
    case (Cons z zs)
    then have "c z x = Greater" using hd_dropWhile [of ?P ?S] by (simp add: B_def)
    moreover have "c z y \<noteq> Greater" using y Cons s by (auto simp: sorted_cmp_def sorted_wrt_append cmp_refl)
    ultimately show ?thesis using cmp_trans [of z y x] by blast
  qed (use y in simp)
  have "\<forall>y \<in> set B. c x y \<noteq> Greater" using late total by blast
  with s early show "sorted_cmp c (insert_late c x ?S)"
    by (simp add: ins sorted_cmp_def sorted_wrt_append)
  fix z
  let ?E = "\<lambda>y. c y z = Equal"
  have none: "filter ?E B = []" if "?E x"
  proof -
    have "c y z \<noteq> Equal" if "y \<in> set B" for y
      using late [OF that] \<open>?E x\<close> cmp_trans [of y z x] cmp_equal_sym [of x z] by auto
    then show ?thesis by (simp add: filter_empty_conv)
  qed
  have "filter ?E A @ filter ?E B = filter ?E xs"
    by (simp only: filter_append [symmetric] cat stable_sort_by)
  with none show "filter ?E (insert_late c x ?S) = filter ?E (xs @ [x])"
    by (cases "?E x") (simp_all add: ins)
qed

lemma sort_by_worst:
  assumes "w = best_by c y ys"
  shows "sort_by c (rev (y # ys)) = sort_by c (rev (remove1 w (y # ys))) @ [w]"
proof (rule sort_by_unique)
  obtain as bs where s: "y # ys = as @ w # bs" "\<forall>a \<in> set as. c a w = Less" "\<forall>z \<in> set (y # ys). c z w \<noteq> Greater"
    unfolding assms using best_by_split by blast
  have "w \<notin> set as" using s(2) by (metis cmp_refl ordering.distinct(1))
  then have rem: "remove1 w (y # ys) = as @ bs" unfolding s(1) by (simp add: remove1_append)
  show "sorted_cmp c (sort_by c (rev (remove1 w (y # ys))) @ [w])"
    using sorted_sort_by [of "rev (as @ bs)"] s(3) unfolding rem unfolding s(1)
    by (auto simp: sorted_cmp_def sorted_wrt_append)
  fix z
  let ?E = "\<lambda>x. c x z = Equal"
  have "filter ?E as = []" if "?E w"
  proof -
    have "c a z \<noteq> Equal" if "a \<in> set as" for a
    proof
      assume "c a z = Equal"
      then have "c w a \<noteq> Greater" using cmp_trans [of w z a] \<open>?E w\<close> cmp_equal_sym [of a z] by simp
      moreover have "c w a = Greater" using s(2) that cmp_flip [of a w] by simp
      ultimately show False by blast
    qed
    then show ?thesis by (simp add: filter_empty_conv)
  qed
  then show "filter ?E (sort_by c (rev (remove1 w (y # ys))) @ [w]) = filter ?E (rev (y # ys))"
    unfolding rem filter_append stable_sort_by unfolding s(1) by (cases "?E w") (simp_all add: rev_filter [symmetric])
qed

lemma insert_late_cut:
  assumes "c w x = Greater"
  shows "take (Suc (length B)) (insert_late c x (B @ w # U)) = insert_late c x B"
proof -
  let ?P = "\<lambda>y. c y x \<noteq> Greater"
  have "takeWhile ?P (B @ w # U) = takeWhile ?P B" using assms by (induction B) auto
  moreover have "dropWhile ?P (B @ w # U) = dropWhile ?P B @ w # U" using assms by (induction B) auto
  moreover have "length B = length (takeWhile ?P B) + length (dropWhile ?P B)"
    by (metis length_append takeWhile_dropWhile_id)
  ultimately show ?thesis by (simp add: insert_late_def)
qed

lemma insert_late_beyond:
  assumes "\<forall>y \<in> set T. c y x \<noteq> Greater"
  shows "take (length T) (insert_late c x (T @ U)) = T"
proof -
  have "takeWhile (\<lambda>y. c y x \<noteq> Greater) (T @ U) = T @ takeWhile (\<lambda>y. c y x \<noteq> Greater) U"
    using assms by (simp add: takeWhile_append2)
  then show ?thesis by (simp add: insert_late_def)
qed

end

interpretation scored_sort: lawful_cmp "scored_order t" for t
  unfolding scored_order_def Let_def by (intro lawful_cmp_intros)

definition kept :: "name_table \<Rightarrow> nat \<Rightarrow> scored_candidate list \<Rightarrow> scored_candidate list \<Rightarrow> bool" where
  "kept t limit retained seen \<longleftrightarrow> sort_scored t (rev retained) = take limit (sort_scored t seen)"

lemma retain_kept:
  assumes "kept t limit retained seen" "limit > 0"
  shows "kept t limit (retain t limit x retained) (seen @ [x])"
proof -
  let ?c = "scored_order t"
  have sort: "sort_by ?c (rev retained) = take limit (sort_by ?c seen)" using assms(1) by (simp add: kept_def sort_scored_def)
  then have len: "length retained = min limit (length seen)" by (metis length_rev length_sort_by length_take min.commute)
  show ?thesis
  proof (cases "length retained < limit")
    case True
    then have short: "length seen < limit" using len by (simp add: min_less_iff_disj)
    then have "sort_by ?c (rev retained) = sort_by ?c seen" using sort by simp
    then have "sort_by ?c (rev (x # retained)) = sort_by ?c (seen @ [x])" by (simp add: scored_sort.sort_by_snoc)
    with True short show ?thesis by (simp add: kept_def retain_def sort_scored_def)
  next
    case False
    then have full: "length retained = limit" using len by simp
    with assms(2) obtain y ys where ys: "retained = y # ys" by (cases retained) auto
    define w where "w = best_by ?c y ys"
    define B where "B = sort_by ?c (rev (remove1 w retained))"
    define U where "U = drop limit (sort_by ?c seen)"
    have T: "sort_by ?c (rev retained) = B @ [w]"
      unfolding B_def ys using scored_sort.sort_by_worst [OF w_def] .
    have S: "sort_by ?c seen = B @ w # U" using sort T by (metis U_def append_Cons append_Nil append_assoc append_take_drop_id)
    have lenB: "limit = Suc (length B)" using full T by (metis length_append_singleton length_rev length_sort_by)
    show ?thesis
    proof (cases "?c x w = Less")
      case True
      then have "?c w x = Greater" using scored_sort.cmp_flip by blast
      then have "take limit (sort_by ?c (seen @ [x])) = insert_late ?c x B"
        unfolding lenB scored_sort.sort_by_snoc S by (rule scored_sort.insert_late_cut)
      moreover have "sort_by ?c (rev (remove1 w retained) @ [x]) = insert_late ?c x B"
        unfolding B_def by (rule scored_sort.sort_by_snoc)
      ultimately show ?thesis using True full ys
        by (simp add: kept_def retain_def sort_scored_def w_def [symmetric])
    next
      case below: False
      have "sorted_cmp ?c (B @ [w])" unfolding T [symmetric] by (rule scored_sort.sorted_sort_by)
      then have "\<forall>y \<in> set (B @ [w]). ?c y w \<noteq> Greater"
        by (auto simp: sorted_cmp_def sorted_wrt_append scored_sort.cmp_refl)
      moreover have "?c w x \<noteq> Greater" using below scored_sort.cmp_flip by blast
      ultimately have "\<forall>y \<in> set (B @ [w]). ?c y x \<noteq> Greater" using scored_sort.cmp_trans by blast
      from scored_sort.insert_late_beyond [OF this, of U] have "take limit (sort_by ?c (seen @ [x])) = B @ [w]"
        unfolding scored_sort.sort_by_snoc S lenB by simp
      with below full ys T show ?thesis
        by (simp add: kept_def retain_def sort_scored_def w_def [symmetric])
    qed
  qed
qed

lemma select_rows_exact:
  assumes "select_rows t incl limit cancellation xs retained block m = (Some r, m')" "kept t limit retained seen" "limit > 0"
  shows "r = take limit (sort_scored t (seen @ filter incl xs))"
  using assms
proof (induction xs arbitrary: retained block m seen)
  case Nil
  then show ?case by (auto simp: kept_def split: if_splits prod.splits)
next
  case (Cons x xs)
  let ?retained = "if incl x then retain t limit x retained else retained"
  have "kept t limit ?retained (if incl x then seen @ [x] else seen)"
    using retain_kept [OF Cons.prems(2,3)] Cons.prems(2) by simp
  moreover obtain block' m1 where "select_rows t incl limit cancellation xs ?retained block' m1 = (Some r, m')"
    using Cons.prems(1) by (auto simp: Let_def split: if_splits prod.splits)
  ultimately have "r = take limit (sort_scored t ((if incl x then seen @ [x] else seen) @ filter incl xs))"
    using Cons.IH Cons.prems(3) by blast
  then show ?case by simp
qed

lemma top_controlled_exact:
  "top_scored_controlled t scored incl limit cancellation m = (Some r, m') \<Longrightarrow>
     r = take limit (sort_scored t (filter incl scored))"
proof (cases "limit = 0")
  case False
  assume "top_scored_controlled t scored incl limit cancellation m = (Some r, m')"
  with False obtain m1 where "select_rows t incl limit cancellation scored [] 0 m1 = (Some r, m')"
    by (auto simp: top_scored_controlled_def split: if_splits prod.splits)
  from select_rows_exact [OF this, of "[]"] False show ?thesis by (simp add: kept_def sort_scored_def)
qed (simp add: top_scored_controlled_def)

section \<open>Quotas\<close>

text \<open>What a selection step may do to the selected candidates: keep them, add candidates of a given
  list that are not selected yet, and at most a given number of them.\<close>

definition adds_to ::
  "nat \<Rightarrow> scored_candidate list \<Rightarrow> scored_candidate list \<Rightarrow> scored_candidate list \<Rightarrow> bool" where
  "adds_to n xs sel sel' \<longleftrightarrow>
     set sel \<subseteq> set sel' \<and> set sel' \<subseteq> set sel \<union> set xs \<and> length sel' \<le> length sel + n \<and>
     (distinct (map sd_index sel) \<longrightarrow> distinct (map sd_index sel'))"

lemma adds_to_refl [simp]: "adds_to n xs sel sel"
  by (simp add: adds_to_def)

lemma adds_to_trans: "adds_to n xs sel sel1 \<Longrightarrow> adds_to k xs sel1 sel2 \<Longrightarrow> adds_to (n + k) xs sel sel2"
  by (auto simp: adds_to_def)

lemma adds_to_mono: "adds_to n xs sel sel' \<Longrightarrow> n \<le> k \<Longrightarrow> set xs \<subseteq> set ys \<Longrightarrow> adds_to k ys sel sel'"
  by (auto simp: adds_to_def)

lemma adds_to_push: "sd_index x \<notin> sd_index ` set sel \<Longrightarrow> x \<in> set xs \<Longrightarrow> adds_to 1 xs sel (sel @ [x])"
  by (auto simp: adds_to_def)

lemma take_quota_adds_to: "adds_to (quota - taken) xs sel (take_quota incl quota xs taken sel)"
proof (induction xs arbitrary: taken sel)
  case (Cons x xs)
  have weak: "adds_to (quota - taken) (x # xs) sel (take_quota incl quota xs taken sel)"
    using Cons.IH by (rule adds_to_mono) auto
  have new: "adds_to (quota - taken) (x # xs) sel (take_quota incl quota xs (Suc taken) (sel @ [x]))"
    if "taken < quota" "sd_index x \<notin> sd_index ` set sel"
  proof -
    have "adds_to (quota - Suc taken) (x # xs) (sel @ [x]) (take_quota incl quota xs (Suc taken) (sel @ [x]))"
      using Cons.IH by (rule adds_to_mono) auto
    from adds_to_trans [OF adds_to_push [OF that(2)] this] that(1) show ?thesis by (simp add: Suc_diff_Suc)
  qed
  show ?case using weak new by auto
qed simp

lemma take_quota_all:
  "\<forall>x \<in> set xs. incl x \<Longrightarrow> taken + length xs \<le> quota \<Longrightarrow>
     sd_index ` set xs \<subseteq> sd_index ` set (take_quota incl quota xs taken sel)"
proof (induction xs arbitrary: taken sel)
  case (Cons x xs)
  have "sd_index ` set (sel @ [x]) \<subseteq> sd_index ` set (take_quota incl quota xs (Suc taken) (sel @ [x]))"
    using take_quota_adds_to [of quota "Suc taken" xs "sel @ [x]" incl] unfolding adds_to_def by blast
  moreover have "sd_index ` set sel \<subseteq> sd_index ` set (take_quota incl quota xs taken sel)"
    using take_quota_adds_to [of quota taken xs sel incl] unfolding adds_to_def by blast
  ultimately show ?case using Cons.IH [of taken sel] Cons.IH [of "Suc taken" "sel @ [x]"] Cons.prems by auto
qed simp

lemma fill_up_adds_to: "adds_to (limit - length sel) xs sel (fill_up limit xs sel)"
proof (induction xs arbitrary: sel)
  case (Cons x xs)
  have weak: "adds_to (limit - length sel) (x # xs) sel (fill_up limit xs sel)"
    using Cons.IH by (rule adds_to_mono) auto
  have new: "adds_to (limit - length sel) (x # xs) sel (fill_up limit xs (sel @ [x]))"
    if "length sel < limit" "sd_index x \<notin> sd_index ` set sel"
  proof -
    have "adds_to (limit - length (sel @ [x])) (x # xs) (sel @ [x]) (fill_up limit xs (sel @ [x]))"
      using Cons.IH by (rule adds_to_mono) auto
    from adds_to_trans [OF adds_to_push [OF that(2)] this] that(1) show ?thesis by (simp add: Suc_diff_Suc)
  qed
  show ?case using weak new by auto
qed simp

lemma fill_up_all: "limit \<le> length (fill_up limit xs sel) \<or> sd_index ` set xs \<subseteq> sd_index ` set (fill_up limit xs sel)"
proof (induction xs arbitrary: sel)
  case (Cons x xs)
  have grows: "sd_index ` set sel' \<subseteq> sd_index ` set (fill_up limit xs sel')" for sel'
    using fill_up_adds_to [of limit sel' xs] unfolding adds_to_def by blast
  show ?case using Cons.IH [of sel] Cons.IH [of "sel @ [x]"] grows [of sel] grows [of "sel @ [x]"] by auto
qed simp

section \<open>The passes\<close>

definition uniform :: "(scored_candidate \<Rightarrow> bool) \<times> nat \<times> (scored_candidate list \<Rightarrow> scored_candidate list \<Rightarrow> scored_candidate list) \<Rightarrow> bool" where
  "uniform p \<longleftrightarrow> (\<forall>xs sel. snd (snd p) xs sel = take_quota (fst p) (fst (snd p)) xs 0 sel)"

lemma take_quota_zero [simp]: "take_quota incl 0 xs 0 sel = sel"
  by (cases xs) simp_all

lemma passes_uniform: "p \<in> set (selection_passes t q) \<Longrightarrow> uniform p"
  by (auto simp: selection_passes_def uniform_def Let_def take_channel_def take_same_project_def split: option.splits)

lemma passes_quota: "sum_list (map (\<lambda>p. fst (snd p)) (selection_passes t q)) \<le> reserved_quota (rq_quotas q)"
  by (auto simp: selection_passes_def reserved_quota_def Let_def split: option.split)

lemma run_passes_spec:
  assumes "run_passes t cancellation scored passes sel m = (Some sel', m')" "\<forall>p \<in> set passes. uniform p"
  shows "adds_to (sum_list (map (\<lambda>p. fst (snd p)) passes)) scored sel sel' \<and>
    (\<forall>p \<in> set passes. sd_index ` set (take (fst (snd p)) (sort_scored t (filter (fst p) scored))) \<subseteq> sd_index ` set sel')"
  using assms
proof (induction passes arbitrary: sel m)
  case (Cons p passes)
  obtain incl quota select where p: "p = (incl, quota, select)" by (metis prod_cases3)
  from Cons.prems(1) p obtain ranked m1 where c: "top_scored_controlled t scored incl quota cancellation m = (Some ranked, m1)"
      and r: "run_passes t cancellation scored passes (select ranked sel) m1 = (Some sel', m')"
    by (auto split: prod.splits option.splits)
  have ranked: "ranked = take quota (sort_scored t (filter incl scored))" using top_controlled_exact [OF c] .
  have sel: "select ranked sel = take_quota incl quota ranked 0 sel" using Cons.prems(2) p by (simp add: uniform_def)
  have in_scored: "set ranked \<subseteq> set scored" "\<forall>x \<in> set ranked. incl x"
    unfolding ranked sort_scored_def by (auto dest!: in_set_takeD)
  have first: "adds_to quota scored sel (select ranked sel)"
    unfolding sel using take_quota_adds_to [of quota 0 ranked sel incl] in_scored(1) by (auto intro: adds_to_mono)
  have got: "sd_index ` set ranked \<subseteq> sd_index ` set (select ranked sel)"
    unfolding sel using in_scored(2)
  proof (rule take_quota_all)
    show "0 + length ranked \<le> quota" unfolding ranked by simp
  qed
  have ih: "adds_to (sum_list (map (\<lambda>p. fst (snd p)) passes)) scored (select ranked sel) sel' \<and>
    (\<forall>p \<in> set passes. sd_index ` set (take (fst (snd p)) (sort_scored t (filter (fst p) scored))) \<subseteq> sd_index ` set sel')"
    using Cons.IH [OF r] Cons.prems(2) by simp
  then have "sd_index ` set (select ranked sel) \<subseteq> sd_index ` set sel'" unfolding adds_to_def by blast
  with got have "sd_index ` set (take quota (sort_scored t (filter incl scored))) \<subseteq> sd_index ` set sel'"
    unfolding ranked by blast
  with conjunct2 [OF ih] adds_to_trans [OF first conjunct1 [OF ih]] show ?case
    unfolding p by (simp only: list.map sum_list.Cons list.set ball_simps fst_conv snd_conv simp_thms)
qed simp

lemma select_hits_spec:
  assumes "select_hits t q scored pool m = (hits, pool', metrics)" "\<not> sc_cancelled (rm_scan metrics)"
    "distinct (map sd_index scored)" "reserved_quota (rq_quotas q) \<le> qt_total_indexed (rq_quotas q)"
  obtains sel where "hits = scored_to_hits t (sort_scored t sel)" "pool' = pool" "set sel \<subseteq> set scored"
    "distinct (map sd_index sel)" "length sel = min (qt_total_indexed (rq_quotas q)) (length scored)"
    "\<And>p. p \<in> set (selection_passes t q) \<Longrightarrow> set (take (fst (snd p)) (sort_scored t (filter (fst p) scored))) \<subseteq> set sel"
proof -
  let ?total = "qt_total_indexed (rq_quotas q)" and ?c = "rq_cancellation q"
  let ?n = "?total + reserved_quota (rq_quotas q)"
  have flag: "sc_cancelled (rm_scan (snd (snd (cancelled_recall x))))" for x by (simp add: cancelled_recall_def)
  obtain g m1 where g: "top_scored_controlled t scored (\<lambda>_. True) ?n ?c m = (Some g, m1)"
    using assms(1,2) flag by (cases "top_scored_controlled t scored (\<lambda>_. True) ?n ?c m")
      (auto simp: select_hits_def Let_def split: option.splits, metis snd_conv)
  obtain sel0 m2 where r: "run_passes t ?c scored (selection_passes t q) [] m1 = (Some sel0, m2)"
    using assms(1,2) flag g by (cases "run_passes t ?c scored (selection_passes t q) [] m1")
      (auto simp: select_hits_def Let_def split: option.splits, metis snd_conv)
  define sel where "sel = fill_up ?total g sel0"
  have "hits = scored_to_hits t (take ?total (sort_scored t sel)) \<and> pool' = pool"
    using assms(1,2) flag g r
    by (auto simp: select_hits_def Let_def sel_def split: prod.splits if_splits, (metis snd_conv)+)
  moreover
  have "adds_to (reserved_quota (rq_quotas q)) scored [] sel0"
    using run_passes_spec [OF r] passes_uniform passes_quota by (blast intro: adds_to_mono)
  then have sel0: "set sel0 \<subseteq> set scored" "distinct (map sd_index sel0)" "length sel0 \<le> ?total"
    using assms(4) by (auto simp: adds_to_def)
  have top: "g = take ?n (sort_scored t scored)" using top_controlled_exact [OF g] by simp
  have ext: "adds_to (?total - length sel0) g sel0 sel" unfolding sel_def by (rule fill_up_adds_to)
  have sub: "set sel \<subseteq> set scored" "distinct (map sd_index sel)" "length sel \<le> ?total"
  proof -
    have "set g \<subseteq> set scored" by (auto simp: top sort_scored_def dest: in_set_takeD)
    with ext sel0 show "set sel \<subseteq> set scored" "distinct (map sd_index sel)" "length sel \<le> ?total"
      by (auto simp: adds_to_def)
  qed
  moreover have "take ?total (sort_scored t sel) = sort_scored t sel" using sub(3) by (simp add: sort_scored_def)
  moreover have "length sel = min ?total (length scored)"
  proof (rule antisym)
    have inj: "inj_on sd_index (set scored)" "distinct scored" using assms(3) by (simp_all add: distinct_map)
    have ds: "distinct sel" using sub(2) by (simp add: distinct_map)
    have "length sel \<le> length scored"
      using card_mono [OF _ sub(1)] ds inj(2) by (simp add: distinct_card)
    with sub(3) show "length sel \<le> min ?total (length scored)" by simp
    show "min ?total (length scored) \<le> length sel"
    proof (cases "?total \<le> length sel")
      case False
      then have "sd_index ` set g \<subseteq> sd_index ` set sel" using fill_up_all [of ?total g sel0] by (simp add: sel_def)
      then have "card (sd_index ` set g) \<le> card (sd_index ` set sel)" by (intro card_mono) simp_all
      moreover have "set g \<subseteq> set scored" by (auto simp: top sort_scored_def dest: in_set_takeD)
      then have "card (sd_index ` set g) = card (set g)" using inj(1) by (intro card_image) (auto intro: inj_on_subset)
      moreover have "distinct g" using inj(2) by (simp add: top sort_scored_def)
      moreover have "card (sd_index ` set sel) \<le> length sel" by (meson card_image_le card_length finite_set le_trans)
      ultimately have "length g \<le> length sel" by (simp add: distinct_card)
      then show ?thesis by (auto simp: top sort_scored_def)
    qed simp
  qed
  moreover have "set (take (fst (snd p)) (sort_scored t (filter (fst p) scored))) \<subseteq> set sel"
    if p: "p \<in> set (selection_passes t q)" for p
  proof
    fix x assume x: "x \<in> set (take (fst (snd p)) (sort_scored t (filter (fst p) scored)))"
    then have xs: "x \<in> set scored" by (auto simp: sort_scored_def dest: in_set_takeD)
    have "sd_index x \<in> sd_index ` set sel0" using run_passes_spec [OF r] passes_uniform p x by blast
    then obtain y where y: "y \<in> set sel0" "sd_index y = sd_index x" by auto
    have "inj_on sd_index (set scored)" using assms(3) by (simp add: distinct_map)
    with y sel0(1) xs have "y = x" by (auto dest: inj_onD)
    with y ext show "x \<in> set sel" by (auto simp: adds_to_def)
  qed
  ultimately show ?thesis using that by simp
qed

end
