(* ===== verification/Recall_Pool.thy ===== *)
theory Recall_Pool
  imports Recall_Select
begin

text \<open>
  The rows a recall scores. The pool lists active rows that match, each once, and the scored rows are
  the rows of the pool that pass the short-prefix gate; the positions the scan asks the source for
  are in range, and a scan of the whole source finds every match.
\<close>

section \<open>The source\<close>

definition source_rows :: "name_table \<Rightarrow> nat \<Rightarrow> nat list \<Rightarrow> nat list" where
  "source_rows t family_slot slots =
     concat (map (\<lambda>segment_slot. let (segment, offset) = segment_with_offset t segment_slot
       in map ((+) offset) (at_slot (ns_sorted_by_family segment) family_slot)) slots)"

definition candidate_rows :: "name_table \<Rightarrow> semantic_family option \<Rightarrow> nat list" where
  "candidate_rows t family =
     (case family of None \<Rightarrow> [0..<nt_slot_len t]
      | Some f \<Rightarrow> source_rows t (semantic_family_slot f) (segment_slots t))"

lemma nth_of_segments_rows:
  "nth_of_segments t family_slot slots ordinal =
     (let rows = source_rows t family_slot slots in if ordinal < length rows then Some (rows ! ordinal) else None)"
  by (induction slots arbitrary: ordinal) (auto simp: source_rows_def Let_def nth_append split: prod.split)

lemma length_candidate_rows: "length (candidate_rows t family) = candidate_slot_len t family"
  by (simp add: candidate_rows_def candidate_slot_len_def source_rows_def length_concat comp_def case_prod_beta
      split: option.split)

lemma candidate_index_rows:
  "ordinal < candidate_slot_len t family \<Longrightarrow> candidate_index_at t family ordinal = Some (candidate_rows t family ! ordinal)"
  using length_candidate_rows [of t family]
  by (auto simp: candidate_index_at_def candidate_rows_def nth_of_segments_rows Let_def split: option.splits)

lemma sample_ordinal_less: "ordinal < samples \<Longrightarrow> samples \<le> slot_len \<Longrightarrow> sample_ordinal slot_len samples ordinal < slot_len"
  unfolding sample_ordinal_def by (simp add: less_mult_imp_div_less)

text \<open>The source of a family is its part of the table; of the active rows each is listed once.\<close>

lemma extend_all: "extend_prefix_matches t s offset [] family =
    concat (map (\<lambda>slot. filter (is_active_index t) (map ((+) offset) (at_slot (ns_sorted_by_family s) slot)))
      (semantic_family_slots family))"
proof -
  have tw: "takeWhile (\<lambda>i. True) xs = xs" "takeWhile (\<lambda>i. False) xs = []" for xs :: "nat list"
    by (induction xs) simp_all
  show ?thesis by (simp add: extend_prefix_matches_def partition_point_def starts_with_def Let_def tw)
qed

lemma candidate_rows_perm:
  assumes "table_ok t"
  shows "mset (filter (is_active_index t) (candidate_rows t family)) =
    mset (filter (\<lambda>i. family_ok family (table_entry t i)) (active_indices t))"
proof (cases family)
  case None
  then show ?thesis by (simp add: candidate_rows_def active_indices_def family_ok_def)
next
  case (Some f)
  let ?P = "\<lambda>i. is_active_index t i \<and> family_ok family (table_entry t i)"
  have lay: "layout_ok t" using assms by (simp add: table_ok_def)
  have fam: "prefix_match [] family = family_ok family" by (simp add: fun_eq_iff prefix_match_def)
  have slots: "semantic_family_slots family = [semantic_family_slot f]" using Some by (cases f) simp_all
  have base: "mset (extend_prefix_matches t (nt_base t) 0 [] family) = mset (filter ?P [0..<length (ns_entries (nt_base t))])"
    using extend_prefix_mset [of "nt_base t" t 0 "[]" family] assms
    by (simp add: table_ok_def view_ok_def table_entry_def map_idI fam)
  have delta: "mset (extend_prefix_matches t (nt_deltas t ! d) (nt_delta_offsets t ! d) [] family) =
      mset (filter ?P (map ((+) (nt_delta_offsets t ! d)) [0..<length (ns_entries (nt_deltas t ! d))]))"
    if "d < length (nt_deltas t)" for d
    using extend_prefix_mset [of "nt_deltas t ! d" t "nt_delta_offsets t ! d" "[]" family] delta_entry [OF lay that] assms that
    by (simp add: table_ok_def view_ok_def fam)
  have cat: "mset (concat (map h ds)) = mset (concat (map g ds))" if "\<And>d. d \<in> set ds \<Longrightarrow> mset (h d) = mset (g d)"
    for h g :: "nat \<Rightarrow> nat list" and ds using that by (induction ds) auto
  have "filter (is_active_index t) (candidate_rows t family) =
      extend_prefix_matches t (nt_base t) 0 [] family @
      concat (map (\<lambda>d. extend_prefix_matches t (nt_deltas t ! d) (nt_delta_offsets t ! d) [] family) [0..<length (nt_deltas t)])"
  proof -
    have "segment_slots t = 0 # map Suc [0..<length (nt_deltas t)]"
      unfolding segment_slots_def upt_conv_Cons [OF zero_less_Suc] map_Suc_upt by simp
    then show ?thesis
      by (simp add: candidate_rows_def Some source_rows_def segment_with_offset_def extend_all slots [unfolded Some]
          filter_concat comp_def)
  qed
  then have "mset (filter (is_active_index t) (candidate_rows t family)) = mset (filter ?P [0..<nt_slot_len t])"
    unfolding slots_concat [OF lay] filter_append mset_append filter_concat map_map
    using base cat [OF delta, of "[0..<length (nt_deltas t)]"] by (simp add: comp_def)
  then show ?thesis by (simp add: active_indices_def conj_commute)
qed

section \<open>Scans\<close>

lemma scan_rows_fold:
  assumes "\<And>x st. x \<in> set xs \<Longrightarrow> f x st = Some (g x st)"
  shows "\<exists>r m'. scan_rows cancellation f xs st m = Some (r, m') \<and>
    (r = None \<and> sc_cancelled m' \<or> r = Some (fold g xs st) \<and> (cancellation = None \<longrightarrow> sc_cancelled m' = sc_cancelled m)) \<and>
    (cancellation = None \<longrightarrow> r \<noteq> None)"
  using assms
proof (induction xs arbitrary: st m)
  case (Cons x xs)
  obtain stop m1 where m1: "should_cancel cancellation m = (stop, m1)" by fastforce
  have stop: "sc_cancelled m1" "cancellation \<noteq> None" if stop
    using m1 that by (auto simp: should_cancel_def check_def Let_def split: if_splits option.splits)
  have go: "sc_cancelled (count_sample_entry m1) = sc_cancelled m" if "cancellation = None"
    using m1 that by (auto simp: should_cancel_def check_def count_sample_entry_def split: if_splits)
  show ?case
  proof (cases stop)
    case True
    with m1 stop show ?thesis by simp
  next
    case False
    obtain r m' where ih: "scan_rows cancellation f xs (g x st) (count_sample_entry m1) = Some (r, m')"
        "r = None \<and> sc_cancelled m' \<or> r = Some (fold g xs (g x st)) \<and>
          (cancellation = None \<longrightarrow> sc_cancelled m' = sc_cancelled (count_sample_entry m1))"
        "cancellation = None \<longrightarrow> r \<noteq> None"
      using Cons.IH [of "g x st" "count_sample_entry m1"] Cons.prems by auto
    have "scan_rows cancellation f (x # xs) st m = Some (r, m')" using ih(1) False m1 Cons.prems [of x] by simp
    then show ?thesis using ih(2,3) go by (intro exI [of _ r] exI [of _ m']) auto
  qed
qed simp

text \<open>The invariant of a scan: the pool holds matching active rows and the scored rows are those of
  the pool that pass the gate.\<close>

definition scan_ok :: "name_table \<Rightarrow> string \<Rightarrow> int \<Rightarrow> resolve_context option \<Rightarrow> scan \<Rightarrow> bool" where
  "scan_ok t needle min_score ctx st \<longleftrightarrow>
     fst st = List.map_filter (scored_for t needle min_score ctx) (snd st) \<and>
     (\<forall>i \<in> set (snd st). is_active_index t i \<and> matches t needle i)"

lemma map_filter_append: "List.map_filter f (xs @ ys) = List.map_filter f xs @ List.map_filter f ys"
  by (simp add: List.map_filter_def)

lemma consider_scan_ok:
  "scan_ok t needle min_score ctx st \<Longrightarrow> scan_ok t needle min_score ctx (consider_entry t needle min_score ctx i st)"
  by (cases st) (auto simp: scan_ok_def consider_entry_def Let_def map_filter_append List.map_filter_simps scored_for_def
      match_item_def matches_def split: option.split)

lemma consider_pool: "set (snd (consider_entry t needle min_score ctx i st)) \<subseteq> insert i (set (snd st))"
  by (cases st) (auto simp: consider_entry_def Let_def split: option.split)

definition seen_ok :: "name_table \<Rightarrow> string \<Rightarrow> int \<Rightarrow> resolve_context option \<Rightarrow> seen_scan \<Rightarrow> bool" where
  "seen_ok t needle min_score ctx st \<longleftrightarrow>
     scan_ok t needle min_score ctx (snd st) \<and> set (snd (snd st)) \<subseteq> set (fst st) \<and> distinct (snd (snd st))"

lemma consider_distinct:
  "distinct (snd st) \<Longrightarrow> i \<notin> set (snd st) \<Longrightarrow> distinct (snd (consider_entry t needle min_score ctx i st))"
  by (cases st) (auto simp: consider_entry_def Let_def split: option.split)

lemma consider_new_ok:
  assumes "seen_ok t needle min_score ctx st"
  shows "seen_ok t needle min_score ctx (consider_new t needle min_score ctx i st)"
proof (cases "i \<in> set (fst st)")
  case True
  with assms show ?thesis by (simp add: consider_new_def case_prod_beta)
next
  case False
  with assms consider_pool [of t needle min_score ctx i "snd st"] show ?thesis
    by (auto simp: consider_new_def case_prod_beta seen_ok_def intro!: consider_scan_ok consider_distinct)
qed

lemma fold_new_ok:
  "seen_ok t needle min_score ctx st \<Longrightarrow> seen_ok t needle min_score ctx (fold (consider_new t needle min_score ctx) is st)"
  by (induction "is" arbitrary: st) (auto simp: consider_new_ok)

lemma fold_entry_ok:
  "scan_ok t needle min_score ctx st \<Longrightarrow> scan_ok t needle min_score ctx (fold (consider_entry t needle min_score ctx) is st)"
  by (induction "is" arbitrary: st) (auto simp: consider_scan_ok)

lemma scan_ok_Nil [simp]: "scan_ok t needle min_score ctx ([], [])"
  by (simp add: scan_ok_def List.map_filter_simps)

lemma finish_scan_cases:
  assumes "finish_scan cancellation tr (r, m) = (scored, pool, m')"
  shows "(scored = [] \<and> pool = []) \<or> r = Some (scored, pool)"
  using assms by (auto simp: finish_scan_def split: option.splits if_splits prod.splits)

section \<open>The pool of a request\<close>

definition request_needle :: "completion_recall_query \<Rightarrow> string" where
  "request_needle q = to_ascii_lowercase (str_trim (rq_query q))"

definition request_context :: "completion_recall_query \<Rightarrow> resolve_context option" where
  "request_context q = map_option completion_resolve_context (rq_scope q)"

definition request_ok :: "name_table \<Rightarrow> completion_recall_query \<Rightarrow> scan \<Rightarrow> bool" where
  "request_ok t q = scan_ok t (request_needle q) (min_score_for (request_needle q)) (request_context q)"

lemma map_nth_rows: "map ((!) xs) [0..<length xs] = xs"
  by (rule map_nth)

lemma fold_rows: "fold (\<lambda>ordinal. g (xs ! ordinal)) [0..<length xs] st = fold g xs st"
  by (metis (no_types, lifting) comp_def fold_cong fold_map map_nth)

lemma full_scan_pool:
  assumes "table_ok t"
  shows "mset (snd (fold (consider_entry t needle min_score ctx) (candidate_rows t family) ([], []))) =
    mset (filter (\<lambda>i. matches t needle i \<and> family_ok family (table_entry t i)) (active_indices t))"
proof -
  have "snd (fold (consider_entry t needle min_score ctx) (candidate_rows t family) ([], [])) =
      filter (matches t needle) (filter (is_active_index t) (candidate_rows t family))"
    by (simp add: fold_consider conj_commute)
  also have "mset \<dots> = filter_mset (matches t needle) (mset (filter (\<lambda>i. family_ok family (table_entry t i)) (active_indices t)))"
    by (simp only: mset_filter [of "matches t needle"] candidate_rows_perm [OF assms])
  also have "\<dots> = mset (filter (\<lambda>i. matches t needle i \<and> family_ok family (table_entry t i)) (active_indices t))"
    by (simp only: mset_filter [symmetric] filter_filter conj_commute)
  finally show ?thesis .
qed


lemma recall_without_query_total: "\<exists>scored m'. recall_without_query t family ctx cancellation budget m = Some (scored, [], m')"
proof -
  let ?n = "min (candidate_slot_len t family) budget"
  let ?o = "\<lambda>ordinal. if ?n = candidate_slot_len t family then ordinal else sample_ordinal (candidate_slot_len t family) ?n ordinal"
  let ?g = "\<lambda>ordinal. push_unmatched t ctx (candidate_rows t family ! ?o ordinal)"
  have at: "candidate_index_at t family (?o ordinal) = Some (candidate_rows t family ! ?o ordinal)" if "ordinal \<in> set [0..<?n]" for ordinal
    using that by (intro candidate_index_rows) (auto simp: sample_ordinal_less)
  have pool: "snd (fold ?g xs st) = snd st" for xs st by (induction xs arbitrary: st) (auto simp: push_unmatched_def)
  obtain r m1 where r: "scan_rows cancellation (\<lambda>ordinal st. map_option (\<lambda>i. push_unmatched t ctx i st)
      (candidate_index_at t family (?o ordinal))) [0..<?n] ([], []) m = Some (r, m1)"
      "r = None \<or> r = Some (fold ?g [0..<?n] ([], []))"
    using scan_rows_fold [of "[0..<?n]" "\<lambda>ordinal st. map_option (\<lambda>i. push_unmatched t ctx i st)
      (candidate_index_at t family (?o ordinal))" ?g cancellation "([], [])" m] at by auto
  obtain scored pool m' where f: "finish_scan cancellation (?n < candidate_slot_len t family) (r, m1) = (scored, pool, m')"
    by (metis prod_cases3)
  have "pool = []" using finish_scan_cases [OF f] r(2) pool [of "[0..<?n]" "([], [])"] by (metis option.distinct(1) option.inject snd_conv)
  then show ?thesis using r(1) f by (simp add: recall_without_query_def Let_def)
qed

lemma recall_sampled_total:
  "\<exists>scored pool m'. recall_sampled t q needle min_score ctx m = Some (scored, pool, m') \<and>
     scan_ok t needle min_score ctx (scored, pool) \<and> distinct pool"
proof -
  let ?b = "rq_candidate_budget q" and ?fam = "rq_semantic_family q" and ?c = "rq_cancellation q"
  let ?consider = "consider_new t needle min_score ctx" and ?len = "candidate_slot_len t ?fam"
  obtain r1 tr1 m1 where p: "bounded_priority_prefix_candidates t needle (?b div 8) (rq_scope q) (rq_active_project q)
      ?fam ?c m = ((r1, tr1), m1)" by (metis prod_cases3 prod.collapse)
  obtain r2 tr2 m2 where x: "prefix_channel t needle (three_quarters (?b - sc_entries_inspected m1)) ?fam ?c m1 =
      ((r2, tr2), m2)" by (metis prod_cases3 prod.collapse)
  obtain r3 tr3 m3 where y: "bounded_fuzzy_posting_candidates t needle (three_quarters (?b - sc_entries_inspected m2))
      ?fam ?c m2 = ((r3, tr3), m3)" by (metis prod_cases3 prod.collapse)
  define st where "st = fold ?consider r3 (fold ?consider r2 (fold ?consider r1 ([], [], [])))"
  have "seen_ok t needle min_score ctx ([], [], [])" by (simp add: seen_ok_def)
  then have st: "seen_ok t needle min_score ctx st" unfolding st_def by (intro fold_new_ok)
  define n where "n = min (?b - sc_entries_inspected m3) ?len"
  let ?g = "\<lambda>ordinal. ?consider (candidate_rows t ?fam ! sample_ordinal ?len n ordinal)"
  let ?f = "\<lambda>ordinal st. map_option (\<lambda>i. ?consider i st) (candidate_index_at t ?fam (sample_ordinal ?len n ordinal))"
  have at: "?f ordinal st = Some (?g ordinal st)" if "ordinal \<in> set [0..<n]" for ordinal st
    using that by (simp add: candidate_index_rows sample_ordinal_less n_def)
  obtain r m4 where r: "scan_rows ?c ?f [0..<n] st m3 = Some (r, m4)" "r = None \<or> r = Some (fold ?g [0..<n] st)"
    using scan_rows_fold [of "[0..<n]" ?f ?g ?c st m3] at by auto
  have "fold ?g xs st' = fold ?consider (map (\<lambda>k. candidate_rows t ?fam ! sample_ordinal ?len n k) xs) st'" for xs st'
    by (simp add: fold_map comp_def)
  then have last: "seen_ok t needle min_score ctx (fold ?g [0..<n] st)" using fold_new_ok [OF st] by simp
  then have every: "\<And>x. r = Some x \<Longrightarrow> seen_ok t needle min_score ctx x" using r(2) by auto
  obtain scored pool m' where f: "finish_scan ?c (tr1 \<or> tr2 \<or> tr3 \<or> n < ?len) (map_option snd r, m4) = (scored, pool, m')"
    by (metis prod_cases3)
  have fin: "scan_ok t needle min_score ctx (scored, pool) \<and> distinct pool"
    using finish_scan_cases [OF f] every by (cases r) (auto simp: seen_ok_def)
  have "recall_sampled t q needle min_score ctx m =
      (if sc_cancelled m1 then Some ([], [], m1) else if sc_cancelled m2 then Some ([], [], m2)
       else if sc_cancelled m3 then Some ([], [], m3) else Some (scored, pool, m'))"
    unfolding recall_sampled_def Let_def p x y prod.case
    unfolding st_def [symmetric] n_def [symmetric] r(1) by (simp add: f)
  then show ?thesis using fin by auto
qed

text \<open>Every request is answered. The answer to a request with a query is a pool of matching active
  rows with their scores; it lists no row twice unless the prior pool does.\<close>

lemma scored_pool_total:
  obtains scored pool m' where "scored_pool_for_query t q = Some (scored, pool, m')"
    "str_trim (rq_query q) \<noteq> [] \<Longrightarrow> request_ok t q (scored, pool)"
    "table_ok t \<Longrightarrow> str_trim (rq_query q) \<noteq> [] \<Longrightarrow> rq_prior_pool q = None \<Longrightarrow> distinct pool"
proof (cases "str_trim (rq_query q) = []")
  case True
  then show ?thesis using recall_without_query_total that by (simp add: scored_pool_for_query_def Let_def) blast
next
  case query: False
  let ?c = "rq_cancellation q" and ?needle = "request_needle q" and ?fam = "rq_semantic_family q"
  let ?ctx = "request_context q"
  let ?consider = "consider_entry t ?needle (min_score_for ?needle) ?ctx"
  let ?m = "default_scan_metrics\<lparr> sc_active_entries_total := nt_active_len t, sc_candidate_budget := rq_candidate_budget q \<rparr>"
  note defs = scored_pool_for_query_def Let_def request_needle_def [symmetric] request_context_def [symmetric]
  show ?thesis
  proof (cases "rq_prior_pool q")
    case (Some indices)
    let ?xs = "take (rq_candidate_budget q) indices"
    obtain r m1 where r: "scan_rows ?c (\<lambda>i st. Some (?consider i st)) ?xs ([], []) ?m = Some (r, m1)"
        "r = None \<or> r = Some (fold ?consider ?xs ([], []))"
      using scan_rows_fold [of ?xs "\<lambda>i st. Some (?consider i st)" ?consider ?c "([], [])" ?m] by auto
    obtain scored pool m' where f: "finish_scan ?c (rq_candidate_budget q < length indices) (r, m1) = (scored, pool, m')"
      by (metis prod_cases3)
    have "request_ok t q (scored, pool)"
      using finish_scan_cases [OF f] r(2) fold_entry_ok [OF scan_ok_Nil] by (auto simp: request_ok_def)
    with that r(1) f query Some show ?thesis by (simp add: defs)
  next
    case None
    show ?thesis
    proof (cases "candidate_slot_len t ?fam \<le> rq_candidate_budget q")
      case True
      let ?n = "candidate_slot_len t ?fam"
      let ?f = "\<lambda>ordinal st. map_option (\<lambda>i. ?consider i st) (candidate_index_at t ?fam ordinal)"
      obtain r m1 where r: "scan_rows ?c ?f [0..<?n] ([], []) ?m = Some (r, m1)"
          "r = None \<or> r = Some (fold ?consider (candidate_rows t ?fam) ([], []))"
        using scan_rows_fold [of "[0..<?n]" ?f "\<lambda>ordinal. ?consider (candidate_rows t ?fam ! ordinal)" ?c "([], [])" ?m]
          fold_rows [of ?consider "candidate_rows t ?fam" "([], [])"]
        by (auto simp: candidate_index_rows length_candidate_rows)
      obtain scored pool m' where f: "finish_scan ?c False (r, m1) = (scored, pool, m')" by (metis prod_cases3)
      have ok: "request_ok t q (scored, pool)"
        using finish_scan_cases [OF f] r(2) fold_entry_ok [OF scan_ok_Nil] by (auto simp: request_ok_def)
      have "distinct pool" if "table_ok t"
      proof (cases "pool = []")
        case False
        with finish_scan_cases [OF f] r(2) have "pool = snd (fold ?consider (candidate_rows t ?fam) ([], []))"
          by (metis option.distinct(1) option.inject snd_conv)
        with full_scan_pool [OF that, of ?needle "min_score_for ?needle" ?ctx ?fam] show ?thesis
          by (metis active_indices_def distinct_filter distinct_upt mset_eq_imp_distinct_iff)
      qed simp
      with that r(1) f query None True ok show ?thesis by (simp add: defs)
    next
      case False
      then show ?thesis
        using that query None recall_sampled_total [of t q ?needle "min_score_for ?needle" ?ctx ?m]
        by (auto simp: defs request_ok_def)
    qed
  qed
qed

end
