(* ===== verification/Recall_Results.thy ===== *)
theory Recall_Results
  imports Recall_Budget Recall_Pool
begin

text \<open>
  The properties of completion recall: every request is answered within its budgets, the hits honour
  the quotas of the scope channels, and a recall that can afford it is the ranked search.
\<close>

section \<open>Budget\<close>


section \<open>Quotas\<close>

definition recall_candidates :: "name_table \<Rightarrow> completion_recall_query \<Rightarrow> nat list \<Rightarrow> scored_candidate list" where
  "recall_candidates t q pool =
     List.map_filter (scored_for t (request_needle q) (min_score_for (request_needle q)) (request_context q)) pool"

fun channel_quota :: "completion_recall_quotas \<Rightarrow> scope_channel \<Rightarrow> nat" where
  "channel_quota quotas ReachableChannel = qt_reachable quotas"
| "channel_quota quotas ExternalChannel = qt_external quotas"
| "channel_quota quotas UnknownChannel = qt_unknown quotas"
| "channel_quota quotas GlobalChannel = qt_global quotas"

definition best_of :: "name_table \<Rightarrow> nat \<Rightarrow> (scored_candidate \<Rightarrow> bool) \<Rightarrow> scored_candidate list \<Rightarrow> ranked_name_hit set" where
  "best_of t quota incl cands = set (scored_to_hits t (take quota (sort_scored t (filter incl cands))))"

lemma keep_family_ok: "keep_family t family i = family_ok family (table_entry t i)"
  by (simp add: keep_family_def family_ok_def)

lemma scored_for_index: "scored_for t needle m ctx i = Some x \<Longrightarrow> sd_index x = i"
  by (auto simp: scored_for_def scored_of_def Let_def)

lemma filter_candidates:
  "filter (\<lambda>x. P (sd_index x)) (List.map_filter (scored_for t needle m ctx) is) =
     List.map_filter (scored_for t needle m ctx) (filter P is)"
proof (induction "is")
  case (Cons i "is")
  then show ?case
    by (cases "scored_for t needle m ctx i") (auto simp: List.map_filter_simps dest: scored_for_index)
qed (simp add: List.map_filter_simps)

lemma distinct_candidates: "distinct is \<Longrightarrow> distinct (map sd_index (List.map_filter (scored_for t needle m ctx) is))"
proof (induction "is")
  case (Cons i "is")
  have "sd_index x \<in> set is" if "x \<in> set (List.map_filter (scored_for t needle m ctx) is)" for x
    using that by (auto simp: set_map_filter_eq dest: scored_for_index)
  with Cons show ?case
    by (cases "scored_for t needle m ctx i") (auto simp: List.map_filter_simps dest: scored_for_index)
qed (simp add: List.map_filter_simps)

lemma passes_channels:
  "(\<exists>select. (in_channel channel, channel_quota (rq_quotas q) channel, select) \<in> set (selection_passes t q)) \<and>
   (rq_active_project q = Some key \<longrightarrow>
      (\<exists>select. (in_project t key, qt_same_project (rq_quotas q), select) \<in> set (selection_passes t q)))"
  by (cases channel) (auto simp: selection_passes_def Let_def)

lemma search_eq:
  assumes "scored_pool_for_query t q = Some (scored, pool, m)"
    "check (rq_cancellation q) m = (b1, m1)" "check (rq_cancellation q) m1 = (b2, m2)"
  shows "search_completion_recall t q = Some (
     if sc_cancelled m then cancelled_recall m else if b1 then cancelled_recall m1 else if b2 then cancelled_recall m2
     else select_hits t q (filter (\<lambda>c. keep_family t (rq_semantic_family q) (sd_index c)) scored)
       (filter (keep_family t (rq_semantic_family q)) pool) m2)"
  using assms by (simp add: search_completion_recall_def)

lemma select_hits_pool: "select_hits t q scored pool m = (hits, pool', metrics) \<Longrightarrow> \<not> sc_cancelled (rm_scan metrics) \<Longrightarrow> pool' = pool"
  by (auto simp: select_hits_def Let_def cancelled_recall_def split: prod.splits option.splits if_splits)

lemma check_None [simp]: "check None m = (False, m)"
  by (simp add: check_def)

lemma select_rows_None: "\<exists>r m'. select_rows t incl limit None xs retained block m = (Some r, m')"
  by (induction xs arbitrary: retained block m) (simp_all add: Let_def)

lemma top_controlled_None: "\<exists>r m'. top_scored_controlled t scored incl limit None m = (Some r, m')"
  using select_rows_None by (simp add: top_scored_controlled_def)

lemma run_passes_None: "\<exists>r m'. run_passes t None scored passes sel m = (Some r, m')"
proof (induction passes arbitrary: sel m)
  case (Cons p passes)
  obtain incl quota select where p: "p = (incl, quota, select)" by (metis prod_cases3)
  obtain r m1 where "top_scored_controlled t scored incl quota None m = (Some r, m1)" using top_controlled_None by blast
  with Cons p show ?case by simp
qed simp

lemma select_hits_None:
  assumes "rq_cancellation q = None"
  shows "\<not> sc_cancelled (rm_scan (snd (snd (select_hits t q scored pool m))))"
proof -
  obtain g m1 where g: "top_scored_controlled t scored (\<lambda>_. True) (qt_total_indexed (rq_quotas q) + reserved_quota (rq_quotas q)) None m = (Some g, m1)"
    using top_controlled_None by blast
  obtain s m2 where "run_passes t None scored (selection_passes t q) [] m1 = (Some s, m2)" using run_passes_None by blast
  with g assms show ?thesis by (simp add: select_hits_def Let_def)
qed

lemma recall_selected:
  assumes "search_completion_recall t q = Some (hits, pool, metrics)" "\<not> sc_cancelled (rm_scan metrics)"
    "table_ok t" "str_trim (rq_query q) \<noteq> []" "rq_prior_pool q = None"
  obtains m where "select_hits t q (recall_candidates t q pool) pool m = (hits, pool, metrics)" "distinct pool"
    "\<forall>i \<in> set pool. is_active_index t i \<and> matches t (request_needle q) i \<and>
       family_ok (rq_semantic_family q) (table_entry t i)"
proof -
  let ?keep = "keep_family t (rq_semantic_family q)"
  obtain scored0 pool0 m0 where p: "scored_pool_for_query t q = Some (scored0, pool0, m0)"
      and ok: "request_ok t q (scored0, pool0)" and d: "distinct pool0"
    by (rule scored_pool_total [of t q]) (use assms(3-5) in blast)
  obtain b1 m1 b2 m2 where c: "check (rq_cancellation q) m0 = (b1, m1)" "check (rq_cancellation q) m1 = (b2, m2)" by fastforce
  have cands: "filter (\<lambda>x. ?keep (sd_index x)) scored0 = recall_candidates t q (filter ?keep pool0)"
    using ok by (simp add: request_ok_def scan_ok_def recall_candidates_def filter_candidates)
  have flag: "x = (hits, pool, metrics) \<Longrightarrow> \<not> sc_cancelled (rm_scan (snd (snd x)))" for x using assms(2) by auto
  have "sc_cancelled (rm_scan (snd (snd (cancelled_recall x))))" for x by (simp add: cancelled_recall_def)
  with flag have "cancelled_recall x \<noteq> (hits, pool, metrics)" for x by blast
  then have sel: "select_hits t q (recall_candidates t q (filter ?keep pool0)) (filter ?keep pool0) m2 = (hits, pool, metrics)"
    using assms(1) search_eq [OF p c] unfolding cands by (auto split: if_splits)
  from select_hits_pool [OF sel assms(2)] sel d ok show ?thesis
    by (intro that [of m2]) (auto simp: request_ok_def scan_ok_def keep_family_ok)
qed

text \<open>C12. The hits of a recall honour the quotas. For an answered request whose total covers the
  quotas, the pool lists distinct active rows of the requested family that match the query; there are
  as many hits as the total and the candidates of the pool allow, best first; and the best candidates
  of every scope channel and of the active project, up to their quotas, are among the hits, however
  many better ranked candidates other channels have.\<close>

theorem recall_honours_quotas:
  assumes "search_completion_recall t q = Some (hits, pool, metrics)" "\<not> sc_cancelled (rm_scan metrics)"
    "table_ok t" "str_trim (rq_query q) \<noteq> []" "rq_prior_pool q = None"
    "reserved_quota (rq_quotas q) \<le> qt_total_indexed (rq_quotas q)"
  shows "distinct pool \<and>
    (\<forall>i \<in> set pool. is_active_index t i \<and> matches t (request_needle q) i \<and>
       family_ok (rq_semantic_family q) (table_entry t i)) \<and>
    length hits = min (qt_total_indexed (rq_quotas q)) (length (recall_candidates t q pool)) \<and>
    sorted_wrt (\<lambda>a b. rh_score a \<ge> rh_score b) hits \<and>
    set hits \<subseteq> set (scored_to_hits t (recall_candidates t q pool)) \<and>
    (\<forall>channel. best_of t (channel_quota (rq_quotas q) channel) (in_channel channel) (recall_candidates t q pool) \<subseteq> set hits) \<and>
    (\<forall>key. rq_active_project q = Some key \<longrightarrow>
       best_of t (qt_same_project (rq_quotas q)) (in_project t key) (recall_candidates t q pool) \<subseteq> set hits)"
proof -
  define cands where "cands = recall_candidates t q pool"
  obtain m where sel: "select_hits t q cands pool m = (hits, pool, metrics)" and d: "distinct pool"
      and ok: "\<forall>i \<in> set pool. is_active_index t i \<and> matches t (request_needle q) i \<and>
        family_ok (rq_semantic_family q) (table_entry t i)"
    unfolding cands_def by (rule recall_selected [OF assms(1-5)])
  have "distinct (map sd_index cands)" unfolding cands_def recall_candidates_def by (rule distinct_candidates [OF d])
  then obtain s where s: "hits = scored_to_hits t (sort_scored t s)" "set s \<subseteq> set cands"
      "length s = min (qt_total_indexed (rq_quotas q)) (length cands)"
      "\<And>p. p \<in> set (selection_passes t q) \<Longrightarrow> set (take (fst (snd p)) (sort_scored t (filter (fst p) cands))) \<subseteq> set s"
    using select_hits_spec [OF sel assms(2) _ assms(6)] by metis
  have pass: "best_of t quota incl cands \<subseteq> set hits" if "(incl, quota, select) \<in> set (selection_passes t q)" for incl quota select
    using s(4) [OF that] by (auto simp: best_of_def s(1) scored_to_hits_def sort_scored_def)
  have "sorted_cmp (scored_order t) (sort_scored t s)" unfolding sort_scored_def by (rule scored_sort.sorted_sort_by)
  then have "sorted_wrt (\<lambda>a b. sd_score a \<ge> sd_score b) (sort_scored t s)" unfolding sorted_cmp_def
    by (rule sorted_wrt_mono_rel [rotated]) (auto simp: scored_order_def Let_def not_less [symmetric])
  then have "sorted_wrt (\<lambda>a b. rh_score a \<ge> rh_score b) hits"
    by (simp add: s(1) scored_to_hits_def sorted_wrt_map hit_of_def Let_def)
  moreover have "set hits \<subseteq> set (scored_to_hits t cands)" using s(2) by (auto simp: s(1) scored_to_hits_def sort_scored_def)
  moreover have "length hits = min (qt_total_indexed (rq_quotas q)) (length cands)"
    using s(3) by (simp add: s(1) scored_to_hits_def sort_scored_def)
  ultimately show ?thesis using d ok pass passes_channels unfolding cands_def by blast
qed

section \<open>Recall and search\<close>

lemma full_scan_recall:
  assumes "str_trim (rq_query q) \<noteq> []" "rq_prior_pool q = None" "rq_cancellation q = None"
    "rq_semantic_family q = None" "nt_slot_len t \<le> rq_candidate_budget q"
  shows "\<exists>m. scored_pool_for_query t q = Some
      (recall_candidates t q (filter (matches t (request_needle q)) (active_indices t)),
       filter (matches t (request_needle q)) (active_indices t), m) \<and> \<not> sc_cancelled m \<and> \<not> sc_truncated m"
proof -
  let ?needle = "request_needle q" and ?ctx = "request_context q"
  let ?consider = "consider_entry t ?needle (min_score_for ?needle) ?ctx"
  let ?m = "default_scan_metrics\<lparr> sc_active_entries_total := nt_active_len t, sc_candidate_budget := rq_candidate_budget q \<rparr>"
  let ?f = "\<lambda>ordinal st. map_option (\<lambda>i. ?consider i st) (candidate_index_at t None ordinal)"
  have f: "?f x st = Some (?consider x st)" if "x \<in> set [0..<nt_slot_len t]" for x st
    using that by (simp add: candidate_index_at_def)
  obtain m1 where m1: "scan_rows None ?f [0..<nt_slot_len t] ([], []) ?m = Some (Some (fold ?consider [0..<nt_slot_len t] ([], [])), m1)"
      "sc_cancelled m1 = sc_cancelled ?m"
    using scan_rows_fold [of "[0..<nt_slot_len t]" ?f ?consider None "([], [])" ?m, OF f] by auto
  have pool: "filter (\<lambda>i. is_active_index t i \<and> matches t ?needle i) [0..<nt_slot_len t] = filter (matches t ?needle) (active_indices t)"
    by (simp add: active_indices_def conj_commute)
  have scored: "List.map_filter (scored_for t ?needle (min_score_for ?needle) ?ctx) (filter (is_active_index t) [0..<nt_slot_len t]) =
      recall_candidates t q (filter (matches t ?needle) (active_indices t))"
    unfolding recall_candidates_def active_indices_def [symmetric]
    by (rule map_filter_filter [symmetric]) (rule scored_for_matches)
  show ?thesis
    using assms m1
    by (simp add: scored_pool_for_query_def Let_def request_needle_def [symmetric] request_context_def [symmetric]
        candidate_slot_len_def fold_consider pool scored finish_scan_def cancel_after_scan_def default_scan_metrics_def)
qed

lemma length_map_filter_le: "length (List.map_filter f xs) \<le> length xs"
  by (simp add: List.map_filter_def)

lemma recall_ranked_perm:
  assumes "table_ok t" "unique_ids (active_entries t)" "mset s = mset (recall_candidates t q pool)" "set pool \<subseteq> set (active_indices t)"
  shows "rank_scored t s limit = rank_scored t (recall_candidates t q pool) limit"
proof -
  let ?needle = "request_needle q" and ?ctx = "request_context q" and ?ov = "nt_direct_include_overrides t"
  let ?cands = "recall_candidates t q pool"
  let ?f = "\<lambda>e. the (score_match ?needle (ne_name e) (ne_lower e))"
  have act: "active_entries t = map (table_entry t) (active_indices t)"
    using assms(1) by (intro active_entries_indices) (simp add: table_ok_def)
  have honest: "\<forall>c \<in> set ?cands. honest t ?ctx c" unfolding recall_candidates_def by (rule scored_for_items(1))
  then have honest_s: "\<forall>c \<in> set s. honest t ?ctx c" using mset_eq_setD [OF assms(3)] by simp
  have items: "map (item_of t) ?cands = List.map_filter (match_item ?needle (min_score_for ?needle)) (map (table_entry t) pool)"
    unfolding recall_candidates_def by (rule scored_for_items(2))
  have perm: "mset (map (item_of t) s) = mset (map (item_of t) ?cands)" using assms(3) by simp
  have "rank_items ?ov ?ctx limit (map (item_of t) s) = rank_items ?ov ?ctx limit (map (item_of t) ?cands)"
  proof (rule rank_items_perm [OF assms(2) perm, where f = ?f])
    fix x assume "x \<in> set (map (item_of t) s)"
    then have x: "x \<in> set (List.map_filter (match_item ?needle (min_score_for ?needle)) (map (table_entry t) pool))"
      using mset_eq_setD [OF perm] unfolding items by blast
    from set_match_items [OF x] assms(4) show "fst x \<in> set (active_entries t) \<and> snd x = ?f (fst x)"
      unfolding act by auto
  qed
  then show ?thesis using rank_scored_items [OF honest] rank_scored_items [OF honest_s] by simp
qed

text \<open>C13. A recall that can afford it is the search: without cancellation and family filter, when the
  budget covers the table and the total covers the quotas and the matches, and the declarations have
  distinct ids, completion recall returns the hits of the ranked search of the whole table, in its
  order, and its candidate pool.\<close>

theorem recall_is_search:
  assumes "table_ok t" "unique_ids (active_entries t)" "str_trim (rq_query q) \<noteq> []" "rq_prior_pool q = None"
    "rq_cancellation q = None" "rq_semantic_family q = None" "nt_slot_len t \<le> rq_candidate_budget q"
    "reserved_quota (rq_quotas q) \<le> qt_total_indexed (rq_quotas q)"
    "search_ranked_scoped_pooled t (rq_query q) (qt_total_indexed (rq_quotas q)) (rq_scope q) None = (hits, pool)"
    "length pool \<le> qt_total_indexed (rq_quotas q)"
  shows "\<exists>metrics. search_completion_recall t q = Some (hits, pool, metrics)"
proof -
  let ?needle = "request_needle q" and ?total = "qt_total_indexed (rq_quotas q)"
  define P where "P = filter (matches t ?needle) (active_indices t)"
  define cands where "cands = recall_candidates t q P"
  have P: "set P \<subseteq> set (active_indices t)" "distinct P" by (auto simp: P_def active_indices_def)
  have pool: "pool = P"
    using pool_spec [OF assms(3), of t ?total "rq_scope q"] assms(9) by (simp add: P_def request_needle_def)
  have hits: "hits = rank_scored t cands ?total"
  proof -
    have "fst (fold (consider_entry t ?needle (min_score_for ?needle) (request_context q)) (active_indices t) ([], [])) = cands"
      using map_filter_filter [of "scored_for t ?needle (min_score_for ?needle) (request_context q)" "matches t ?needle" "active_indices t"]
        scored_for_matches [of t ?needle] by (simp add: fold_consider cands_def recall_candidates_def P_def)
    then show ?thesis
      using assms(3,9) by (simp add: search_ranked_scoped_pooled_def Let_def request_needle_def request_context_def case_prod_beta)
  qed
  obtain m where scan: "scored_pool_for_query t q = Some (cands, P, m)" "\<not> sc_cancelled m"
    using full_scan_recall [OF assms(3-7)] by (auto simp: P_def cands_def)
  obtain hits' pool' metrics where sel: "select_hits t q cands P m = (hits', pool', metrics)" by (metis prod_cases3)
  have go: "\<not> sc_cancelled (rm_scan metrics)" using select_hits_None [OF assms(5), of t cands P m] sel by simp
  have "distinct (map sd_index cands)" unfolding cands_def recall_candidates_def by (rule distinct_candidates [OF P(2)])
  then obtain s where s: "hits' = scored_to_hits t (sort_scored t s)" "pool' = P" "set s \<subseteq> set cands"
      "distinct (map sd_index s)" "length s = min ?total (length cands)"
    using select_hits_spec [OF sel go _ assms(8)] by metis
  have len: "length cands \<le> ?total"
    using assms(10) length_map_filter_le [of _ P] unfolding pool cands_def recall_candidates_def by (meson le_trans)
  have "distinct s" "distinct cands" using s(4) \<open>distinct (map sd_index cands)\<close> by (simp_all add: distinct_map)
  then have "set s = set cands" using s(3,5) len by (intro card_subset_eq) (simp_all add: distinct_card)
  then have "mset s = mset cands" using \<open>distinct s\<close> \<open>distinct cands\<close> by (simp add: set_eq_iff_mset_eq_distinct)
  then have "rank_scored t s ?total = rank_scored t cands ?total"
    unfolding cands_def by (rule recall_ranked_perm [OF assms(1,2) _ P(1)])
  moreover have "hits' = rank_scored t s ?total"
    using s(5) by (simp add: s(1) rank_scored_def top_scored_take sort_scored_def)
  ultimately have "hits' = hits" by (simp add: hits)
  with search_eq [OF scan(1), of False m False m] scan(2) sel s(2) pool assms(5,6) show ?thesis
    by (simp add: keep_family_def)
qed

section \<open>Examples\<close>

lemma default_quotas_fit:
  "reserved_quota (default_for_completion_limit n) \<le> qt_total_indexed (default_for_completion_limit n)"
  "reserved_quota (quotas_with_project_context n) \<le> qt_total_indexed (quotas_with_project_context n)"
  by (simp_all add: reserved_quota_def default_for_completion_limit_def quotas_with_project_context_def Let_def)

definition sample_query :: "nat \<Rightarrow> completion_recall_query" where
  "sample_query budget =
     \<lparr> rq_query = ''bar'', rq_quotas = default_for_completion_limit 10, rq_scope = None, rq_active_project = None,
       rq_prior_pool = None, rq_semantic_family = None, rq_cancellation = None, rq_candidate_budget = budget \<rparr>"

lemma sample_query_simps:
  "str_trim (rq_query (sample_query b)) \<noteq> []" "request_needle (sample_query b) = ''bar''"
  by (simp_all add: sample_query_def request_needle_def) code_simp+

lemma sample_request:
  obtains t where "build_from_declaration_rows sample_rows None = Some t" "table_ok t"
    "active_entries t = map (row_view None) sample_rows" "nt_direct_include_overrides t = []" "unique_ids (active_entries t)"
proof -
  obtain t where t: "build_from_declaration_rows sample_rows None = Some t" "table_ok t"
      "table_abs t = (map (row_view None) sample_rows, [])"
    by (rule sample_table [of sample_rows]) (simp add: sample_rows_def)
  then have "active_entries t = map (row_view None) sample_rows" "nt_direct_include_overrides t = []"
    by (simp_all add: table_abs_def)
  moreover from this(1) have "unique_ids (active_entries t)" by (simp add: unique_ids_def sample_defs)
  ultimately show ?thesis using that t(1,2) by blast
qed

lemma sample_pool:
  assumes "table_ok t" "active_entries t = map (row_view None) sample_rows"
  shows "length (recall_candidates t (sample_query b) (filter (matches t ''bar'') (active_indices t))) = 2"
proof -
  have act: "map (table_entry t) (active_indices t) = map (row_view None) sample_rows"
    using assms active_entries_indices [of t] by (simp add: table_ok_def)
  have "map (item_of t) (recall_candidates t (sample_query b) (filter (matches t ''bar'') (active_indices t))) =
      List.map_filter (match_item ''bar'' (min_score_for ''bar'')) (map (table_entry t) (filter (matches t ''bar'') (active_indices t)))"
    unfolding recall_candidates_def sample_query_simps by (rule scored_for_items(2))
  also have "\<dots> = List.map_filter (match_item ''bar'' (min_score_for ''bar'')) (map (row_view None) sample_rows)"
  proof -
    have "match_item ''bar'' (min_score_for ''bar'') (table_entry t i) \<noteq> None \<Longrightarrow> matches t ''bar'' i" for i
      by (auto simp: match_item_def matches_def split: option.splits)
    from map_filter_filter [of "\<lambda>i. match_item ''bar'' (min_score_for ''bar'') (table_entry t i)", OF this] show ?thesis
      unfolding act [symmetric] map_filter_map by (simp add: comp_def)
  qed
  also have "length \<dots> = 2" by code_simp
  finally show ?thesis by (metis length_map)
qed

lemma full_scan_answer:
  assumes "str_trim (rq_query q) \<noteq> []" "rq_prior_pool q = None" "rq_cancellation q = None"
    "rq_semantic_family q = None" "nt_slot_len t \<le> rq_candidate_budget q"
  obtains hits metrics where
    "search_completion_recall t q = Some (hits, filter (matches t (request_needle q)) (active_indices t), metrics)"
    "\<not> sc_cancelled (rm_scan metrics)"
proof -
  define P where "P = filter (matches t (request_needle q)) (active_indices t)"
  obtain m where scan: "scored_pool_for_query t q = Some (recall_candidates t q P, P, m)" "\<not> sc_cancelled m"
    using full_scan_recall [OF assms] by (auto simp: P_def)
  obtain hits pool metrics where sel: "select_hits t q (recall_candidates t q P) P m = (hits, pool, metrics)" by (metis prod_cases3)
  have go: "\<not> sc_cancelled (rm_scan metrics)" using select_hits_None [OF assms(3), of t _ P m] sel by (metis snd_conv)
  with search_eq [OF scan(1), of False m False m] scan(2) sel select_hits_pool [OF sel go] assms(3,4) show ?thesis
    by (intro that [of hits metrics]) (simp_all add: keep_family_def P_def)
qed

theorem recall_honours_quotas_witness:
  "\<exists>t hits pool metrics. build_from_declaration_rows sample_rows None = Some t \<and> table_ok t \<and>
     search_completion_recall t (sample_query (nt_slot_len t)) = Some (hits, pool, metrics) \<and>
     \<not> sc_cancelled (rm_scan metrics) \<and> distinct pool \<and> length hits = 2 \<and>
     best_of t 10 (in_channel GlobalChannel) (recall_candidates t (sample_query (nt_slot_len t)) pool) \<subseteq> set hits"
proof -
  obtain t where t: "build_from_declaration_rows sample_rows None = Some t" "table_ok t"
      "active_entries t = map (row_view None) sample_rows" by (rule sample_request)
  let ?q = "sample_query (nt_slot_len t)" and ?pool = "filter (matches t ''bar'') (active_indices t)"
  have q: "rq_prior_pool ?q = None" "rq_cancellation ?q = None" "rq_semantic_family ?q = None"
      "nt_slot_len t \<le> rq_candidate_budget ?q" "rq_quotas ?q = default_for_completion_limit 10"
    by (simp_all add: sample_query_def)
  obtain hits metrics where r: "search_completion_recall t ?q = Some (hits, ?pool, metrics)" "\<not> sc_cancelled (rm_scan metrics)"
    using full_scan_answer [OF sample_query_simps(1) q(1-4)] unfolding sample_query_simps by blast
  have fits: "reserved_quota (rq_quotas ?q) \<le> qt_total_indexed (rq_quotas ?q)" unfolding q(5) by (rule default_quotas_fit(1))
  note all = recall_honours_quotas [OF r t(2) sample_query_simps(1) q(1) fits]
  have "length hits = 2"
    using all sample_pool [OF t(2,3), of "nt_slot_len t"] by (simp add: q(5) default_for_completion_limit_def)
  moreover have "channel_quota (rq_quotas ?q) GlobalChannel = 10" by (simp add: q(5) default_for_completion_limit_def)
  moreover have "best_of t (channel_quota (rq_quotas ?q) GlobalChannel) (in_channel GlobalChannel)
      (recall_candidates t ?q ?pool) \<subseteq> set hits" "distinct ?pool"
    using all by blast+
  ultimately show ?thesis using r t(1,2)
    by (intro exI [of _ t] exI [of _ hits] exI [of _ ?pool] exI [of _ metrics] conjI) simp_all
qed

theorem recall_is_search_witness:
  "\<exists>t hits pool metrics. build_from_declaration_rows sample_rows None = Some t \<and> table_ok t \<and>
     search_completion_recall t (sample_query (nt_slot_len t)) = Some (hits, pool, metrics) \<and>
     map rh_name hits = [''bar'', ''fooBar'']"
proof -
  obtain t where t: "build_from_declaration_rows sample_rows None = Some t" "table_ok t"
      "active_entries t = map (row_view None) sample_rows" "nt_direct_include_overrides t = []" "unique_ids (active_entries t)"
    by (rule sample_request)
  let ?q = "sample_query (nt_slot_len t)"
  have q: "rq_prior_pool ?q = None" "rq_cancellation ?q = None" "rq_semantic_family ?q = None"
      "nt_slot_len t \<le> rq_candidate_budget ?q" "rq_quotas ?q = default_for_completion_limit 10"
      "rq_scope ?q = None" "rq_query ?q = ''bar''"
    by (simp_all add: sample_query_def)
  have fits: "reserved_quota (rq_quotas ?q) \<le> qt_total_indexed (rq_quotas ?q)" unfolding q(5) by (rule default_quotas_fit(1))
  have total: "qt_total_indexed (rq_quotas ?q) = 30" by (simp add: q(5) default_for_completion_limit_def)
  obtain hits pool where s: "search_ranked_scoped_pooled t (rq_query ?q) (qt_total_indexed (rq_quotas ?q)) (rq_scope ?q) None = (hits, pool)"
    by fastforce
  have "map (table_entry t) (active_indices t) = map (row_view None) sample_rows"
    using t(2,3) active_entries_indices [of t] by (simp add: table_ok_def)
  then have "length (active_indices t) = length sample_rows" by (metis length_map)
  then have "length (active_indices t) = 2" by (simp add: sample_rows_def)
  moreover have "pool = filter (matches t (to_ascii_lowercase (str_trim (rq_query ?q)))) (active_indices t)"
    using pool_spec [OF sample_query_simps(1), of t "nt_slot_len t" "qt_total_indexed (rq_quotas ?q)" "rq_scope ?q"] s by simp
  then have "length pool \<le> length (active_indices t)" by simp
  ultimately have len: "length pool \<le> qt_total_indexed (rq_quotas ?q)" unfolding total by simp
  obtain metrics where m: "search_completion_recall t ?q = Some (hits, pool, metrics)"
    using recall_is_search [OF t(2,5) sample_query_simps(1) q(1-4) fits s len] by blast
  have "hits = search_spec (table_abs t) ''bar'' 30 None"
    using s search_refines [OF t(2), of "''bar''" 30 None] by (simp add: search_ranked_scoped_def q(6,7) total)
  also have "\<dots> = search_spec (map (row_view None) sample_rows, []) ''bar'' 30 None" by (simp add: table_abs_def t(3,4))
  finally have "map rh_name hits = map rh_name (search_spec (map (row_view None) sample_rows, []) ''bar'' 30 None)" by simp
  also have "\<dots> = [''bar'', ''fooBar'']" by code_simp
  finally show ?thesis using t(1,2) m
    by (intro exI [of _ t] exI [of _ hits] exI [of _ pool] exI [of _ metrics] conjI)
qed

end
