(* ===== verification/Recall_Merge.thy ===== *)
theory Recall_Merge
  imports Recall_Select
begin

text \<open>
  The bounded channels as merges of sorted sources. The locale is the contract of a family of
  cursors: a cursor stands for the rows it has still to deliver, the first of them is its row, and
  advancing it leaves the others. Whatever order the heap takes them in, draining such cursors
  delivers active rows of the sources, none twice, and what it did not deliver is still in the heap.
\<close>

lemma heap_pop_mset: "heap_pop c heap = Some (e, rest) \<Longrightarrow> mset heap = add_mset e (mset rest)"
proof (cases heap)
  case (Cons x xs)
  assume "heap_pop c heap = Some (e, rest)"
  with Cons have e: "e = best_by c x xs" and rest: "rest = remove1 e (x # xs)" by (auto simp: Let_def)
  have "e \<in> set (x # xs)" unfolding e using best_by_in [of c x xs] by simp
  then have "mset (x # xs) = add_mset e (mset (x # xs) - {#e#})" by (metis insert_DiffM set_mset_mset)
  with rest Cons show ?thesis by (metis mset_remove1)
qed simp

lemma drain_runs:
  "drain_cursors t c idx adv None n heap out m = (out', heap', left, stop, m') \<Longrightarrow> \<not> stop"
  by (induction n arbitrary: heap out m) (auto simp: should_cancel_def check_def split: option.splits if_splits)

locale cursors =
  fixes idx :: "'e \<Rightarrow> nat" and adv :: "'e \<Rightarrow> 'e list" and rows :: "'e \<Rightarrow> nat list" and good :: "'e \<Rightarrow> bool"
  assumes rows_advance: "good e \<Longrightarrow> rows e = idx e # concat (map rows (adv e))"
    and good_advance: "good e \<Longrightarrow> e' \<in> set (adv e) \<Longrightarrow> good e'"
begin

lemma drain_rows:
  assumes "drain_cursors t c idx adv cancellation n heap out m = (out', heap', left, False, m')" "\<forall>e \<in> set heap. good e"
  shows "mset out' + mset (filter (is_active_index t) (concat (map rows heap'))) =
    mset out + mset (filter (is_active_index t) (concat (map rows heap)))"
  using assms
proof (induction n arbitrary: heap out m)
  case (Suc n)
  obtain halt m1 where m1: "should_cancel cancellation m = (halt, m1)" by fastforce
  show ?case
  proof (cases "heap_pop c heap")
    case None
    with Suc.prems m1 show ?thesis by (auto split: if_splits)
  next
    case (Some p)
    then obtain e rest where pop: "heap_pop c heap = Some (e, rest)" by (cases p) auto
    note ms = heap_pop_mset [OF pop]
    have e: "good e" "\<forall>e \<in> set rest. good e" using Suc.prems(2) ms by (metis set_mset_mset set_mset_add_mset_insert insert_iff)+
    let ?out = "if is_active_index t (idx e) then out @ [idx e] else out"
    have step: "drain_cursors t c idx adv cancellation n (adv e @ rest) ?out (count_prefix_entry m1) = (out', heap', left, False, m')"
      using Suc.prems(1) m1 pop by (auto split: if_splits)
    have "mset (concat (map rows xs)) = sum_mset (image_mset (mset \<circ> rows) (mset xs))" for xs
      by (induction xs) simp_all
    then have "mset (concat (map rows heap)) = mset (concat (map rows (e # rest)))" by (simp add: ms)
    then have "mset (filter (is_active_index t) (concat (map rows heap))) =
        mset (filter (is_active_index t) (rows e @ concat (map rows rest)))" by (simp add: mset_filter)
    moreover have "mset out' + mset (filter (is_active_index t) (concat (map rows heap'))) =
        mset ?out + mset (filter (is_active_index t) (concat (map rows (adv e @ rest))))"
      by (rule Suc.IH [OF step]) (use e good_advance in auto)
    ultimately show ?thesis using rows_advance [OF e(1)] by simp
  qed
qed simp

text \<open>The result of a channel: a part of the rows of its sources, and all of them when the channel does not report truncation.\<close>

lemma drained_rows:
  assumes "drained_result (drain_cursors t c idx adv None n heap [] m) = ((out, truncated), m')" "\<forall>e \<in> set heap. good e"
  shows "mset out \<subseteq># mset (filter (is_active_index t) (concat (map rows heap))) \<and>
    (\<not> truncated \<longrightarrow> mset out = mset (filter (is_active_index t) (concat (map rows heap))))"
proof -
  obtain out' heap' left stop m2 where d: "drain_cursors t c idx adv None n heap [] m = (out', heap', left, stop, m2)"
    by (metis prod_cases5)
  have "\<not> stop" using drain_runs [OF d] .
  then have d': "drain_cursors t c idx adv None n heap [] m = (out', heap', left, False, m2)" using d by simp
  have r: "out = out'" "truncated = (heap' \<noteq> [])" using assms(1) d' by (simp_all add: drained_result_def)
  have "mset out + mset (filter (is_active_index t) (concat (map rows heap'))) =
      mset (filter (is_active_index t) (concat (map rows heap)))"
    using drain_rows [OF d' assms(2)] r(1) by simp
  then show ?thesis using r(2) by (metis (no_types, lifting) concat.simps(1) empty_neutral(2) filter.simps(1) list.map(1)
      mset.simps(1) mset_subset_eq_add_left)
qed

end

section \<open>Prefix cursors\<close>

lemma concat_map_concat: "concat (map f (concat (map g xs))) = concat (map (\<lambda>x. concat (map f (g x))) xs)"
  by (induction xs) simp_all

definition prefix_rows :: "name_table \<Rightarrow> string \<Rightarrow> nat \<Rightarrow> nat \<Rightarrow> nat \<Rightarrow> nat list" where
  "prefix_rows t needle segment_slot family_slot position =
     (let (s, offset) = segment_with_offset t segment_slot
      in map ((+) offset) (takeWhile (\<lambda>i. starts_with (ne_lower (segment_entry s i)) needle)
           (drop position (at_slot (ns_sorted_by_family s) family_slot))))"

definition prefix_cursor_rows :: "name_table \<Rightarrow> string \<Rightarrow> prefix_heap_entry \<Rightarrow> nat list" where
  "prefix_cursor_rows t needle e = prefix_rows t needle (ph_segment_slot e) (ph_family_slot e) (ph_sorted_position e)"

definition prefix_cursor_ok :: "name_table \<Rightarrow> string \<Rightarrow> prefix_heap_entry \<Rightarrow> bool" where
  "prefix_cursor_ok t needle e \<longleftrightarrow>
     push_prefix_cursor t (ph_segment_slot e) (ph_family_slot e) (ph_sorted_position e) needle = [e]"

lemma push_prefix_ok: "e \<in> set (push_prefix_cursor t segment_slot family_slot position needle) \<Longrightarrow> prefix_cursor_ok t needle e"
  by (auto simp: push_prefix_cursor_def prefix_cursor_ok_def Let_def split: prod.splits if_splits)

lemma push_prefix_rows:
  "concat (map (prefix_cursor_rows t needle) (push_prefix_cursor t segment_slot family_slot position needle)) =
     prefix_rows t needle segment_slot family_slot position"
  by (auto simp: push_prefix_cursor_def prefix_cursor_rows_def prefix_rows_def Let_def takeWhile_eq_Nil_iff hd_drop_conv_nth
      split: prod.split)

lemma prefix_rows_step:
  assumes "prefix_cursor_ok t needle e"
  shows "prefix_cursor_rows t needle e =
    ph_index e # prefix_rows t needle (ph_segment_slot e) (ph_family_slot e) (Suc (ph_sorted_position e))"
proof -
  obtain s offset where so: "segment_with_offset t (ph_segment_slot e) = (s, offset)" by fastforce
  let ?order = "at_slot (ns_sorted_by_family s) (ph_family_slot e)"
  have "push_prefix_cursor t (ph_segment_slot e) (ph_family_slot e) (ph_sorted_position e) needle = [e]"
    using assms by (simp add: prefix_cursor_ok_def)
  then have e: "ph_sorted_position e < length ?order" "ph_index e = offset + ?order ! ph_sorted_position e"
      "starts_with (ne_lower (segment_entry s (?order ! ph_sorted_position e))) needle"
    by (auto simp: push_prefix_cursor_def so Let_def split: if_splits) (metis prefix_heap_entry.select_convs(4))
  then show ?thesis
    by (simp add: prefix_cursor_rows_def prefix_rows_def so Cons_nth_drop_Suc [symmetric])
qed

interpretation prefix_source: cursors ph_index "advance_prefix t needle" "prefix_cursor_rows t needle" "prefix_cursor_ok t needle"
  for t needle
proof
  fix e assume "prefix_cursor_ok t needle e"
  then show "prefix_cursor_rows t needle e = ph_index e # concat (map (prefix_cursor_rows t needle) (advance_prefix t needle e))"
    by (simp add: prefix_rows_step advance_prefix_def push_prefix_rows)
next
  fix e e' assume "e' \<in> set (advance_prefix t needle e)"
  then show "prefix_cursor_ok t needle e'" unfolding advance_prefix_def by (rule push_prefix_ok)
qed

lemma prefix_sources_rows:
  assumes "table_ok t" "needle \<noteq> []"
  shows "mset (filter (is_active_index t) (concat (map (prefix_cursor_rows t needle) (prefix_cursors t needle family)))) =
    mset (prefix_candidates_filtered t needle family)"
proof -
  let ?start = "\<lambda>segment_slot family_slot. partition_point (\<lambda>i. ne_lower (segment_entry (fst (segment_with_offset t segment_slot)) i) < needle)
    (at_slot (ns_sorted_by_family (fst (segment_with_offset t segment_slot))) family_slot)"
  have "concat (map (prefix_cursor_rows t needle) (prefix_cursors t needle family)) =
      concat (map (\<lambda>(segment_slot, family_slot). prefix_rows t needle segment_slot family_slot (?start segment_slot family_slot))
        (segment_families t family))"
    by (simp add: prefix_cursors_def concat_map_concat push_prefix_rows case_prod_unfold Let_def)
  also have "\<dots> = concat (map (\<lambda>segment_slot. concat (map (\<lambda>family_slot.
      prefix_rows t needle segment_slot family_slot (?start segment_slot family_slot)) (semantic_family_slots family)))
      [0..<Suc (length (nt_deltas t))])"
    by (simp add: segment_families_def concat_map_concat comp_def del: upt_Suc)
  also have "filter (is_active_index t) \<dots> = concat (map (\<lambda>segment_slot.
      extend_prefix_matches t (fst (segment_with_offset t segment_slot)) (snd (segment_with_offset t segment_slot)) needle family)
      [0..<Suc (length (nt_deltas t))])"
    by (simp add: extend_prefix_matches_def prefix_rows_def filter_concat comp_def Let_def case_prod_beta del: upt_Suc)
  also have "[0..<Suc (length (nt_deltas t))] = 0 # map Suc [0..<length (nt_deltas t)]"
    unfolding upt_conv_Cons [OF zero_less_Suc] map_Suc_upt by simp
  finally show ?thesis
    using assms(2) by (simp add: prefix_candidates_filtered_def segment_with_offset_def comp_def)
qed

text \<open>C14. The bounded prefix channel is honest about truncation. Without cancellation, whatever the budget,
  it delivers rows of the exact prefix range, none more often than the range has them; and when it
  does not report truncation it has delivered the whole range, although it only merges the sorted
  ranges of the segments through a heap.\<close>

theorem prefix_channel_honest:
  assumes "table_ok t" "needle \<noteq> []" "bounded_prefix_candidates t needle budget family None m = ((out, truncated), m')"
  shows "mset out \<subseteq># mset (prefix_candidates_filtered t needle family) \<and>
    (truncated \<or> mset out = mset (prefix_candidates_filtered t needle family))"
proof -
  have ok: "\<forall>e \<in> set (prefix_cursors t needle family). prefix_cursor_ok t needle e"
    by (auto simp: prefix_cursors_def Let_def dest: push_prefix_ok)
  have d: "drained_result (drain_cursors t (prefix_heap_cmp t) ph_index (advance_prefix t needle) None budget
      (prefix_cursors t needle family) [] m) = ((out, truncated), m')"
    using assms(2,3) by (simp add: bounded_prefix_candidates_def)
  from prefix_source.drained_rows [OF d ok] show ?thesis
    unfolding prefix_sources_rows [OF assms(1,2)] by blast
qed

theorem prefix_channel_honest_witness:
  "\<exists>t out truncated m. build_from_declaration_rows sample_rows None = Some t \<and> table_ok t \<and>
     bounded_prefix_candidates t ''ba'' 10 None None default_scan_metrics = ((out, truncated), m) \<and>
     mset out \<subseteq># mset (prefix_candidates_filtered t ''ba'' None)"
proof -
  obtain t where t: "build_from_declaration_rows sample_rows None = Some t" "table_ok t"
      "table_abs t = (map (row_view None) sample_rows, [])"
    by (rule sample_table [of sample_rows]) (simp add: sample_rows_def)
  obtain out truncated m where b: "bounded_prefix_candidates t ''ba'' 10 None None default_scan_metrics = ((out, truncated), m)"
    by (metis prod.collapse)
  have "mset out \<subseteq># mset (prefix_candidates_filtered t ''ba'' None)"
    using prefix_channel_honest [OF t(2) _ b] by simp
  with t(1,2) b show ?thesis by blast
qed

end
