(* ===== verification/Spec2Isabelle.thy ===== *)
theory Spec2Isabelle
  imports Include_Edges Reach_Packages Candidate_Ranking Build_Policy
    Call_Relations Name_Results Recall_Results Recall_Merge
begin

text \<open>
  Verification of FossilSense, a language server that answers navigation, completion and call
  hierarchy requests on C, C++ and Go workspaces from a persistent index and without a compiler.
  The implementation is the Rust crate \<open>src/crates/fossilsense\<close>; all file names below are relative
  to its \<open>src\<close> directory.

  \<^bold>\<open>The program.\<close> The indexer parses files and stores facts; one pass over the stored include
  directives resolves them to files and writes the edges of the include graph. Requests read one
  published generation of the store. They build the include graph from its rows, compute the files a
  source can reach, recall candidates by name, rank them by how far they are from the request's
  file, and answer. Names are recalled from a resident index of declarations: an immutable base
  segment, delta segments that publications append, and a map that says which segment holds a changed
  file. Completion reads that index under a row budget and fills quotas per kind of evidence. Call
  hierarchy requests additionally group declarations with their definitions and resolve every stored
  call site to the functions it may call. Index builds, refreshes and
  compactions of all workspaces share one coordinator that admits one build at a time and
  keeps memory reservations within a budget.

  \<^bold>\<open>The theories.\<close>

  \<^item> \<open>Prelude\<close>: the parts of Rust's standard library the code uses. Strings are the UTF-8 bytes of
    the Rust string; hash maps are association lists, with \<open>entry\<close> and \<open>get\<close> as in Rust; a
    \<open>HashSet\<close> that drives a loop is a distinct list, one that is only queried is a set;
    \<open>sort_by\<close> is a stable sort by a three-way comparison. The locale \<open>lawful_cmp\<close> is the contract of
    such a comparison; every comparator of the code is an interpretation of it.
  \<^item> \<open>Includes\<close>, \<open>Include_Edges\<close>: \<open>includes.rs\<close> and \<open>indexer/include_edges.rs\<close>. A directive's
    target is parsed and searched in exact tiers (next to the source, in the workspace, in the
    configured roots) and then by path suffix. The locale \<open>path_index\<close> is what the search relies on
    of the basename index; the pass interprets it on the index it builds.
  \<^item> \<open>Reach_Graph\<close>, \<open>Reach_Scope\<close>, \<open>Reach_Update\<close>, \<open>Reach_Packages\<close>: \<open>reachability.rs\<close>. The graph
    as the code keeps it (edge lists, open reasons, external include counts, an optional request
    overlay, a memo table); the bounded breadth-first searches over files and Go packages; the
    source-scoped refresh and the overlay.
  \<^item> \<open>Semantic_Model\<close>, \<open>Entity_Relation\<close>: \<open>semantic_model.rs\<close>, \<open>semantic_model/coverage.rs\<close>,
    \<open>semantic_model/entity.rs\<close>. Declaration facts, coverage masks, the identity of an entity, the
    analysis of preprocessor guards, and the evidence that relates two declarations.
  \<^item> \<open>Resolver\<close>, \<open>Candidate_Ranking\<close>: \<open>model.rs\<close> and \<open>resolver.rs\<close>. Scope tiers, packed scores, the
    canonical sort, deduplication and the disposition of a candidate set.
  \<^item> \<open>Callables\<close>, \<open>Callable_Pairing\<close>: \<open>query/callables/mod.rs\<close>, \<open>arity.rs\<close>, \<open>counterpart.rs\<close>. Filters
    on recalled callables, the arity policy, and the pairing of definitions with declarations.
  \<^item> \<open>Call_Model\<close>, \<open>Call_Compact\<close>, \<open>Call_Grouping\<close>, \<open>Call_Groups\<close>, \<open>Call_Catalog\<close>,
    \<open>Call_Relations\<close>: \<open>call_model.rs\<close>, \<open>call_catalog.rs\<close> and its submodules \<open>compact\<close>, \<open>grouping\<close>,
    \<open>rows\<close>, with the row types of \<open>store/views/call_facts.rs\<close>. From rows to the request's index of
    call relations and its queries.
  \<^item> \<open>Build_Coordinator\<close>, \<open>Build_Machine\<close>, \<open>Build_Policy\<close>: \<open>build_coordinator.rs\<close>. Every operation as a
    function on the state behind the mutex; the asynchronous \<open>acquire\<close> is cut into its critical
    sections, and \<open>mstep\<close> interleaves them with all other operations. The locale
    \<open>step_invariant\<close> is the contract of an invariant of that machine.
  \<^item> \<open>Project_Context\<close>: \<open>project_context.rs\<close>, the sorted index of build markers and the nearest project of a
    file.
  \<^item> \<open>Bucket_Layout\<close>, \<open>Name_Match\<close>, \<open>Name_Segment\<close>, \<open>Name_Build\<close>: \<open>query/name_index_builder.rs\<close> and the segment part
    of \<open>query.rs\<close>. \<open>Bucket_Layout\<close> is the counting layout (tally, prefix sums, scatter) that the postings
    share; \<open>Name_Match\<close> the match grades; \<open>Name_Segment\<close> the definitions of a segment and its postings;
    \<open>Name_Build\<close> shows what each posting holds.
  \<^item> \<open>Name_Table\<close>, \<open>Name_Updates\<close>, \<open>Name_History\<close>, \<open>Name_Context\<close>, \<open>Name_Total\<close>, \<open>Name_Replay\<close>: the segmented table
    with \<open>query/name_updates.rs\<close>. The abstract state is a plain list of declarations with the include
    evidence; the locale \<open>option_simulation\<close> is the contract of operations that may panic and simulate
    such a state, interpreted as \<open>name_tables\<close> on the operations of the table.
  \<^item> \<open>Name_Search\<close>, \<open>Name_Prefix\<close>, \<open>Name_Ranking\<close>, \<open>Name_Shortcuts\<close>, \<open>Name_Results\<close>: \<open>query/name_search.rs\<close>, the
    ranked, pooled, prefix, exact and coloring queries and their specification.
  \<^item> \<open>Recall_Cursors\<close>, \<open>Recall_Priority\<close>, \<open>Name_Recall\<close>: the completion recall of the same file. Bounded
    prefix, one-letter, fuzzy and priority channels over heaps of cursors, the scan, the selection by
    quotas and the metrics. \<open>Recall_Budget\<close>, \<open>Recall_Select\<close>, \<open>Recall_Pool\<close>, \<open>Recall_Results\<close> and \<open>Recall_Merge\<close>
    hold the proofs; the locale \<open>cursors\<close> is the contract of a family of cursors, interpreted on the
    prefix cursors.

  \<^bold>\<open>What is shown.\<close>

  \<^item> Include edges: the pass emits one edge per pair of files with the strongest evidence, reports
    exactly the open sources, and the search returns only indexed files.
  \<^item> Scopes: a scope is sound and within 4096 files, and a scope that is not marked open is exactly
    the closure under exact edges and under all edges; the same for packages. A refreshed graph
    equals a rebuilt one, an overlay answers as a refreshed copy, the memo table is transparent.
  \<^item> Ranking: a tier is backed by include evidence; scores order by tier without overflow;
    deduplication and sorting meet their specifications.
  \<^item> Callables and calls: two anchors are joined only as mutually unique proven counterparts; the
    relations of the index are exactly the resolved call edges grouped by key; pages tile; ids are
    in range; construction panics only at 32-bit limits; stored calls round-trip.
  \<^item> Builds: mutual exclusion and the memory budget hold in every interleaving; grants are fair;
    shutdown is final; reservations are restored, bounded and answered.
  \<^item> Names: after any history of builds, updates, compactions, context rebuilds and evidence changes
    the table holds exactly the replayed declarations with exact counters and without a panic, and a
    search is the ranking of that list. The prefix range, the exact-name range and the coloring
    counts are exact; narrowing an earlier pool and the unscoped fast path return what a full scan
    returns, the latter only among workspace declarations.
  \<^item> Completion recall: every request is answered within its row and probe budgets under any
    behaviour of the cancellation handle; the hits contain the best of every scope channel up to its
    quota; a recall that can afford it is the ranked search; the prefix channel is honest about
    truncation.

  \<^bold>\<open>Bounds and loops.\<close> No definition has fuel. Worklists of the searches terminate by a measure on
  unvisited nodes below the code's own limits (4096 files, depth 64 and the package limits), the
  negotiation of a reservation by the shrinking request, and the loops of recall by the budget that is
  left (and the heap, where a cursor is only set aside). A name gives at most 120 fuzzy tokens, so the
  32-bit posting offsets suffice for about 35 million declarations; the history theorem has this
  bound as the hypothesis \<open>entries_fit\<close>. Byte offsets, sizes and counters of the
  coordinator are 64-bit words with saturating addition where the code saturates, lines and columns
  32-bit words; compact ids are naturals with the conversion to \<open>u32\<close> as an option whose
  \<open>None\<close> is the panic; \<open>i32\<close> scores are integers with the wrap written out.

  \<^bold>\<open>Parameters.\<close> The content hash (\<open>blake3\<close>) and the JSON encoder are arguments of the definitions
  that call them. Rows read from the store, the clock, memory samples and fresh cancellation
  tokens are arguments. Whether a compaction observes its cancellation is an argument; the handle of
  a recall is a function that answers its n-th check.

  \<^bold>\<open>Choices.\<close> Unstable sorts, \<open>select_nth_unstable_by\<close> and binary heaps are modelled with a fixed order among
  elements that compare equal, where the code leaves the order open. Counts of the name index and of
  recall are naturals, so that saturating operations on their limits are the plain ones. Paths are
  compared as on systems with case-sensitive file names.

  \<^bold>\<open>Not modelled.\<close> The SQLite store and its SQL views (the language of the queries is not Rust), the
  tree-sitter based parsers (their input is a foreign syntax tree), the LSP transport and server state
  (I/O and task plumbing), the completion, candidate and call services that drive the modelled
  queries from it, configuration, project and path discovery on the file system, the cancellable
  copies of the name index constructors (the same code with early returns), memory reports and
  estimates, the TypeScript extension and the benchmark scripts.
\<close>

end
